(* ===== verification/Prelude.thy ===== *)
theory Prelude
  imports Main "HOL-Library.Word" "HOL-Library.Finite_Map"
begin

text \<open>
  Shared vocabulary of the development.  It fixes how the Rust types of the services are read:
  fixed-width integers are words, Ethereum addresses and 32-byte values are 160- and 256-bit
  words (their unsigned order is the big-endian byte order that Rust compares with), a
  \<open>BTreeMap\<close> is a finite map, a \<open>BTreeSet\<close> is a finite set, and iteration over either is in
  ascending key order.  Boxes and reference counts (\<open>Box\<close>, \<open>Arc\<close>) hold a value and are left out.
  The generic lemmas on saturating arithmetic, finite maps and ordered iteration are collected
  here so that the component theories can rely on them.
\<close>

section \<open>Machine types\<close>

type_synonym u8 = "8 word"
type_synonym u16 = "16 word"
type_synonym u64 = "64 word"
type_synonym u128 = "128 word"
type_synonym u256 = "256 word"
type_synonym address = "160 word"
type_synonym b256 = "256 word"
type_synonym bytes = "8 word list"

named_theorems fin_simps
  \<open>evaluation of finite sets and maps: cardinalities, ordered keys, lookups\<close>

named_theorems groups_wf
  \<open>which groups a handler can put into a state\<close>

named_theorems frames
  \<open>fields of a state that a handler leaves alone\<close>

section \<open>Saturating and checked arithmetic\<close>

definition sat_add :: "'a::len word \<Rightarrow> 'a word \<Rightarrow> 'a word" where
  "sat_add a b = (if unat a + unat b < 2 ^ LENGTH('a) then a + b else - 1)"

definition sat_sub :: "'a::len word \<Rightarrow> 'a word \<Rightarrow> 'a word" where
  "sat_sub a b = (if b \<le> a then a - b else 0)"

definition sat_mul :: "'a::len word \<Rightarrow> 'a word \<Rightarrow> 'a word" where
  "sat_mul a b = (if unat a * unat b < 2 ^ LENGTH('a) then a * b else - 1)"

definition checked_add :: "'a::len word \<Rightarrow> 'a word \<Rightarrow> 'a word option" where
  "checked_add a b = (if unat a + unat b < 2 ^ LENGTH('a) then Some (a + b) else None)"

definition checked_sub :: "'a::len word \<Rightarrow> 'a word \<Rightarrow> 'a word option" where
  "checked_sub a b = (if b \<le> a then Some (a - b) else None)"

lemma unat_minus_one_word: "unat (- 1 :: 'a::len word) = 2 ^ LENGTH('a) - 1"
  by (simp add: unsigned_minus_1_eq_mask mask_eq_exp_minus_1)

lemma unat_less_exp: "unat w < 2 ^ LENGTH('a)" for w :: "'a::len word"
  by (rule unsigned_less)

lemma unat_sat_add: "unat (sat_add a b) = min (unat a + unat b) (2 ^ LENGTH('a) - 1)"
  for a b :: "'a::len word"
  by (auto simp: sat_add_def unat_word_ariths unat_minus_one_word)

lemma unat_sat_mul: "unat (sat_mul a b) = min (unat a * unat b) (2 ^ LENGTH('a) - 1)"
  for a b :: "'a::len word"
  by (auto simp: sat_mul_def unat_word_ariths unat_minus_one_word)

lemma sat_add_ge [simp]: "a \<le> sat_add a b" for a b :: "'a::len word"
proof -
  have "unat a \<le> 2 ^ LENGTH('a) - 1" using unat_less_exp [of a] by linarith
  then show ?thesis by (simp add: word_le_nat_alt unat_sat_add)
qed

lemma unat_less_max: "a \<noteq> - 1 \<Longrightarrow> unat a < 2 ^ LENGTH('a) - 1" for a :: "'a::len word"
proof -
  assume "a \<noteq> - 1"
  then have "unat a \<noteq> unat (- 1 :: 'a word)" by (metis unsigned_word_eqI)
  then show ?thesis
    using unat_less_exp [of a] unat_minus_one_word [where ?'a = 'a] by linarith
qed

lemma sat_add_gt: "b \<noteq> 0 \<Longrightarrow> a \<noteq> - 1 \<Longrightarrow> a < sat_add a b" for a b :: "'a::len word"
proof -
  assume b: "b \<noteq> 0" and a: "a \<noteq> - 1"
  have "0 < unat b" using b by (simp add: unat_gt_0)
  with unat_less_max [OF a] show ?thesis by (simp add: word_less_nat_alt unat_sat_add)
qed

lemma sat_add_mono: "a \<le> a' \<Longrightarrow> b \<le> b' \<Longrightarrow> sat_add a b \<le> sat_add a' b'"
  by (auto simp: word_le_nat_alt unat_sat_add)

lemma sat_mul_mono: "a \<le> a' \<Longrightarrow> b \<le> b' \<Longrightarrow> sat_mul a b \<le> sat_mul a' b'"
  by (auto simp: word_le_nat_alt unat_sat_mul min_le_iff_disj intro: mult_le_mono)

lemma checked_add_eq_Some:
  "checked_add a b = Some c \<longleftrightarrow> unat a + unat b < 2 ^ LENGTH('a) \<and> c = a + b"
  for a b c :: "'a::len word"
  by (auto simp: checked_add_def)

lemma checked_sub_eq_Some: "checked_sub a b = Some c \<longleftrightarrow> b \<le> a \<and> c = a - b"
  by (auto simp: checked_sub_def)

text \<open>\<open>len() as u16\<close>: a length cast to sixteen bits, keeping the low bits.\<close>

definition as_u16 :: "nat \<Rightarrow> u16" where
  "as_u16 n = of_nat n"

lemma unat_as_u16: "n < 2 ^ 16 \<Longrightarrow> unat (as_u16 n) = n"
  by (simp add: as_u16_def unat_of_nat)

lemma as_u16_eq_iff: "n < 2 ^ 16 \<Longrightarrow> m < 2 ^ 16 \<Longrightarrow> as_u16 n = as_u16 m \<longleftrightarrow> n = m"
  by (metis unat_as_u16)

section \<open>Non-zero integers\<close>

typedef nonzero_u64 = "{w :: u64. w \<noteq> 0}"
  morphisms nz_get Abs_nonzero_u64
  by (rule exI [of _ 1]) simp

lemma nz_abstype [code abstype]: "Abs_nonzero_u64 (nz_get n) = n"
  by (rule nz_get_inverse)

text \<open>\<open>NonZeroU64::new\<close>; \<open>nz_of\<close> is its value on an argument that is not zero.\<close>

definition nz_of :: "u64 \<Rightarrow> nonzero_u64" where
  "nz_of w = Abs_nonzero_u64 (if w = 0 then 1 else w)"

definition nz_new :: "u64 \<Rightarrow> nonzero_u64 option" where
  "nz_new w = (if w = 0 then None else Some (nz_of w))"

lemma nz_get_nonzero [simp]: "nz_get n \<noteq> 0"
  using nz_get [of n] by simp

lemma nz_get_nz_of [simp, code abstract]: "nz_get (nz_of w) = (if w = 0 then 1 else w)"
  by (simp add: nz_of_def Abs_nonzero_u64_inverse)

lemma nz_of_nz_get [simp]: "nz_of (nz_get n) = n"
  by (simp add: nz_of_def nz_get_inverse)

lemma nz_get_eq_iff [simp]: "nz_get m = nz_get n \<longleftrightarrow> m = n"
  by (rule nz_get_inject)

lemma nz_of_inject: "v \<noteq> 0 \<Longrightarrow> w \<noteq> 0 \<Longrightarrow> nz_of v = nz_of w \<longleftrightarrow> v = w"
  by (metis nz_get_nz_of)

lemma nz_new_eq_Some: "nz_new w = Some n \<longleftrightarrow> w = nz_get n"
  by (auto simp: nz_new_def)

lemma unat_nz_get_pos [simp]: "0 < unat (nz_get n)"
  by (simp add: unat_gt_0)

instantiation nonzero_u64 :: equal
begin

definition equal_nonzero_u64 :: "nonzero_u64 \<Rightarrow> nonzero_u64 \<Rightarrow> bool" where
  "equal_nonzero_u64 m n \<longleftrightarrow> nz_get m = nz_get n"

instance
  by standard (simp add: equal_nonzero_u64_def)

end

instantiation nonzero_u64 :: linorder
begin

definition less_eq_nonzero_u64 :: "nonzero_u64 \<Rightarrow> nonzero_u64 \<Rightarrow> bool" where
  "less_eq_nonzero_u64 m n \<longleftrightarrow> nz_get m \<le> nz_get n"

definition less_nonzero_u64 :: "nonzero_u64 \<Rightarrow> nonzero_u64 \<Rightarrow> bool" where
  "less_nonzero_u64 m n \<longleftrightarrow> nz_get m < nz_get n"

instance
  by standard (auto simp: less_eq_nonzero_u64_def less_nonzero_u64_def less_le_not_le)

end

section \<open>Finite maps and sets\<close>

text \<open>\<open>BTreeMap::len\<close>, \<open>keys()\<close> and \<open>values()\<close>; the last two iterate in ascending key order.\<close>

definition fm_len :: "('k, 'v) fmap \<Rightarrow> nat" where
  "fm_len m = fcard (fmdom m)"

definition fm_keys :: "('k::linorder, 'v) fmap \<Rightarrow> 'k list" where
  "fm_keys m = sorted_list_of_fset (fmdom m)"

definition fm_values :: "('k::linorder, 'v) fmap \<Rightarrow> 'v list" where
  "fm_values m = map (\<lambda>k. the (fmlookup m k)) (fm_keys m)"

definition fm_has :: "('k, 'v) fmap \<Rightarrow> 'k \<Rightarrow> bool" where
  "fm_has m k \<longleftrightarrow> fmlookup m k \<noteq> None"

declare fcard_fempty [simp]

lemma fm_has_iff: "fm_has m k \<longleftrightarrow> k |\<in>| fmdom m"
  by (auto simp: fm_has_def fmlookup_dom_iff)

lemma fm_len_empty [simp]: "fm_len fmempty = 0"
  by (simp add: fm_len_def)

lemma fmupd_twice: "fmupd k v (fmupd k w m) = fmupd k v m"
  by (rule fmap_ext) simp

lemma fmupd_drop: "fmupd k v (fmdrop k m) = fmupd k v m"
  by (rule fmap_ext) simp

lemma fm_len_upd [fin_simps]:
  "fm_len (fmupd k v m) = (if fmlookup m k = None then Suc (fm_len m) else fm_len m)"
  by (auto simp: fm_len_def fcard_finsert_if fmlookup_dom_iff)

lemma set_fm_keys [simp]: "set (fm_keys m) = fset (fmdom m)"
  by (simp add: fm_keys_def)

lemma distinct_sorted_list_of_fset [simp]: "distinct (sorted_list_of_fset A)"
  by (simp add: sorted_list_of_fset.rep_eq)

lemma sorted_sorted_list_of_fset [simp]: "sorted (sorted_list_of_fset A)"
  by (simp add: sorted_list_of_fset.rep_eq)

lemma length_sorted_list_of_fset [simp]: "length (sorted_list_of_fset A) = fcard A"
  by (simp add: sorted_list_of_fset.rep_eq fcard.rep_eq)

lemma distinct_fm_keys [simp]: "distinct (fm_keys m)"
  by (simp add: fm_keys_def)

lemma length_fm_keys [simp]: "length (fm_keys m) = fm_len m"
  by (simp add: fm_keys_def fm_len_def)

lemma set_fm_values: "set (fm_values m) = {v. \<exists>k. fmlookup m k = Some v}"
proof -
  have "v \<in> set (fm_values m) \<longleftrightarrow> (\<exists>k. fmlookup m k = Some v)" for v
    by (force simp: fm_values_def fmlookup_dom_iff)
  then show ?thesis by auto
qed

lemma in_fm_keys_iff: "k \<in> set (fm_keys m) \<longleftrightarrow> fmlookup m k \<noteq> None"
  by (auto simp: fmlookup_dom_iff)

lemma sorted_list_of_fset_empty [simp]: "sorted_list_of_fset {||} = []"
  by (simp add: sorted_list_of_fset.rep_eq)

lemma sorted_list_of_fset_finsert [fin_simps]:
  "sorted_list_of_fset (finsert x A) = insort x (sorted_list_of_fset (A |-| {|x|}))"
  by (simp add: sorted_list_of_fset.rep_eq sorted_list_of_set_insert_remove)

lemma sorted_list_of_fset_minus [fin_simps]:
  "sorted_list_of_fset (A |-| {|x|}) = remove1 x (sorted_list_of_fset A)"
  by (simp add: sorted_list_of_fset.rep_eq sorted_list_of_set_remove)

lemmas [fin_simps] = fcard_finsert_if fm_keys_def fm_values_def fm_len_def

text \<open>
  Two finite sets of one size, one inside the other, are equal; this is how a collection round
  learns that it heard from everybody.
\<close>

lemma fsubset_fcard_eq: "A |\<subseteq>| B \<Longrightarrow> fcard A = fcard B \<Longrightarrow> A = B"
  by (simp add: fcard_seteq)

lemma fsubset_fcard_le_eq: "A |\<subseteq>| B \<Longrightarrow> fcard B \<le> fcard A \<Longrightarrow> A = B"
  by (simp add: fcard_seteq)

section \<open>Byte encodings\<close>

text \<open>\<open>to_be_bytes\<close>: the \<open>n\<close> big-endian bytes of a word.\<close>

definition be_bytes :: "nat \<Rightarrow> 'a::len word \<Rightarrow> bytes" where
  "be_bytes n w = map (\<lambda>i. ucast (drop_bit (8 * (n - 1 - i)) w)) [0..<n]"

lemma length_be_bytes [simp]: "length (be_bytes n w) = n"
  by (simp add: be_bytes_def)

lemma be_bytes_eq_bit:
  assumes eq: "be_bytes n v = be_bytes n w" and i: "i < 8 * n"
  shows "bit v i = bit w i"
proof -
  let ?k = "n - 1 - i div 8"
  have k: "?k < n" and idx: "n - 1 - ?k = i div 8" using i by auto
  have "be_bytes n v ! ?k = be_bytes n w ! ?k" using eq by simp
  then have "bit (ucast (drop_bit (8 * (i div 8)) v) :: u8) (i mod 8) =
      bit (ucast (drop_bit (8 * (i div 8)) w) :: u8) (i mod 8)"
    using k idx by (simp add: be_bytes_def)
  then show ?thesis by (simp add: bit_unsigned_iff bit_drop_bit_eq)
qed

lemma be_bytes_inject:
  fixes v w :: "'a::len word"
  assumes "LENGTH('a) \<le> 8 * n"
  shows "be_bytes n v = be_bytes n w \<longleftrightarrow> v = w"
proof
  assume eq: "be_bytes n v = be_bytes n w"
  show "v = w"
  proof (rule bit_word_eqI)
    fix i assume "i < LENGTH('a)"
    with assms show "bit v i = bit w i" by (intro be_bytes_eq_bit [OF eq]) simp
  qed
qed simp

text \<open>\<open>from_be_slice\<close>, the inverse.\<close>

definition from_be :: "bytes \<Rightarrow> 'a::len word" where
  "from_be bs = foldl (\<lambda>acc b. acc * 256 + ucast b) 0 bs"

lemma from_be_snoc: "from_be (bs @ [b]) = from_be bs * 256 + ucast b"
  by (simp add: from_be_def)

lemma be_bytes_Suc: "be_bytes (Suc n) w = be_bytes n (drop_bit 8 w) @ [ucast w]"
  by (auto simp: be_bytes_def algebra_simps intro!: map_cong)

lemma ucast_low_byte: "ucast (ucast w :: u8) = take_bit 8 w" for w :: "'a::len word"
  by (rule bit_word_eqI) (auto simp: bit_unsigned_iff bit_take_bit_iff)

lemma split_low_byte: "w = drop_bit 8 w * 256 + ucast (ucast w :: u8)" for w :: "'a::len word"
  using bits_ident [of 8 w] by (simp add: ucast_low_byte push_bit_eq_mult)

lemma from_be_bytes_drop: "LENGTH('a) \<le> 8 * (n + k) \<Longrightarrow> from_be (be_bytes n (drop_bit (8 * k) w)) = drop_bit (8 * k) w"
  for w :: "'a::len word"
proof (induction n arbitrary: k)
  case 0
  then have "drop_bit (8 * k) w = 0" by (intro bit_word_eqI) (simp add: bit_drop_bit_eq bit_imp_le_length)
  then show ?case by (simp add: be_bytes_def from_be_def)
next
  case (Suc n)
  have "from_be (be_bytes n (drop_bit (8 * Suc k) w)) = drop_bit (8 * Suc k) w" using Suc.prems by (intro Suc.IH) simp
  then have "from_be (be_bytes n (drop_bit 8 (drop_bit (8 * k) w))) = drop_bit 8 (drop_bit (8 * k) w)"
    by (simp add: add.commute)
  then show ?case using split_low_byte [of "drop_bit (8 * k) w"] by (simp add: be_bytes_Suc from_be_snoc)
qed

lemma from_be_bytes: "LENGTH('a) \<le> 8 * n \<Longrightarrow> from_be (be_bytes n w) = w" for w :: "'a::len word"
  using from_be_bytes_drop [of n 0 w] by simp

lemma bit_from_be_snoc: "bit (from_be (bs @ [b]) :: 'a::len word) n \<longleftrightarrow>
    n < LENGTH('a) \<and> (if n < 8 then bit b n else bit (from_be bs :: 'a word) (n - 8))"
proof -
  have "push_bit 8 (from_be bs) + ucast b = or (push_bit 8 (from_be bs)) (ucast b :: 'a word)"
    by (rule disjunctive_add) (auto simp: bit_push_bit_iff bit_unsigned_iff dest: bit_imp_le_length)
  then have "from_be (bs @ [b]) = or (push_bit 8 (from_be bs)) (ucast b :: 'a word)"
    by (simp add: from_be_snoc push_bit_eq_mult)
  then show ?thesis by (auto simp: bit_or_iff bit_push_bit_iff bit_unsigned_iff dest: bit_imp_le_length)
qed

lemma bit_from_be: "bit (from_be bs :: 'a::len word) n \<Longrightarrow> n < 8 * length bs"
proof (induction bs arbitrary: n rule: rev_induct)
  case (snoc b bs)
  show ?case
  proof (cases "n < 8")
    case False
    then have "n - 8 < 8 * length bs" using snoc by (simp add: bit_from_be_snoc)
    then show ?thesis by simp
  qed simp
qed (simp add: from_be_def)

lemma be_bytes_from_be: "8 * length bs \<le> LENGTH('a) \<Longrightarrow> be_bytes (length bs) (from_be bs :: 'a::len word) = bs"
proof (induction bs rule: rev_induct)
  case (snoc b bs)
  have "ucast (from_be (bs @ [b]) :: 'a word) = b"
    using snoc.prems by (intro bit_word_eqI) (simp add: bit_unsigned_iff bit_from_be_snoc)
  moreover have "drop_bit 8 (from_be (bs @ [b])) = (from_be bs :: 'a word)"
    using snoc.prems by (intro bit_word_eqI) (auto simp: bit_drop_bit_eq bit_from_be_snoc dest: bit_from_be)
  ultimately show ?case using snoc by (simp add: be_bytes_Suc)
qed (simp add: be_bytes_def)

end
