(* ===== verification/Epoch.thy ===== *)
theory Epoch
  imports Prelude
begin

text \<open>
  Epoch numbers (\<^verbatim>\<open>crates/validator/src/consensus/epoch.rs\<close>).  An epoch is the genesis epoch or a
  non-zero number; the block clock says which epoch is due next.  The order on epochs is the
  order on raw values, as in the \<open>Ord\<close> implementation, and the two serde conversions are
  inverse to each other.
\<close>

section \<open>Epoch identifiers\<close>

datatype epoch_id = Genesis | Number nonzero_u64

definition next_number :: "u64 \<Rightarrow> nonzero_u64 \<Rightarrow> nonzero_u64" where
  "next_number block blocks_per_epoch =
     (let number = block div nz_get blocks_per_epoch
      in nz_of (sat_add 1 number))"

definition from_raw :: "u64 \<Rightarrow> epoch_id" where
  "from_raw value =
     (case nz_new value of
        Some number \<Rightarrow> Number number
      | None \<Rightarrow> Genesis)"

fun raw_value :: "epoch_id \<Rightarrow> u64" where
  "raw_value Genesis = 0"
| "raw_value (Number number) = nz_get number"

fun epoch_number :: "epoch_id \<Rightarrow> nonzero_u64 option" where
  "epoch_number Genesis = None"
| "epoch_number (Number number) = Some number"

text \<open>The serde implementations: an epoch is written as its raw value and read back with \<open>from_raw\<close>.\<close>

definition serialize_epoch :: "epoch_id \<Rightarrow> u64" where
  "serialize_epoch e = raw_value e"

definition deserialize_epoch :: "u64 \<Rightarrow> epoch_id" where
  "deserialize_epoch w = from_raw w"

lemma raw_value_inject [simp]: "raw_value d = raw_value e \<longleftrightarrow> d = e"
  by (cases d; cases e) (auto simp: nz_get_nonzero [symmetric] simp del: nz_get_nonzero
      dest: sym)

lemma raw_value_from_raw [simp]: "raw_value (from_raw w) = w"
  by (simp add: from_raw_def nz_new_def)

lemma from_raw_raw_value [simp]: "from_raw (raw_value e) = e"
  by (cases e) (simp_all add: from_raw_def nz_new_def)

lemma epoch_number_eq_Some [simp]: "epoch_number e = Some n \<longleftrightarrow> e = Number n"
  by (cases e) auto

text \<open>Epochs are compared by their raw values.\<close>

definition epoch_le :: "epoch_id \<Rightarrow> epoch_id \<Rightarrow> bool" where
  "epoch_le d e \<longleftrightarrow> raw_value d \<le> raw_value e"

instantiation epoch_id :: linorder
begin

definition less_eq_epoch_id :: "epoch_id \<Rightarrow> epoch_id \<Rightarrow> bool" where
  "less_eq_epoch_id d e \<longleftrightarrow> epoch_le d e"

definition less_epoch_id :: "epoch_id \<Rightarrow> epoch_id \<Rightarrow> bool" where
  "less_epoch_id d e \<longleftrightarrow> raw_value d < raw_value e"

instance
proof
  fix c d e :: epoch_id
  show "c < d \<longleftrightarrow> c \<le> d \<and> \<not> d \<le> c"
    by (simp add: less_eq_epoch_id_def epoch_le_def less_epoch_id_def less_le_not_le)
  show "c \<le> c" by (simp add: less_eq_epoch_id_def epoch_le_def)
  show "c \<le> d \<Longrightarrow> d \<le> e \<Longrightarrow> c \<le> e" by (simp add: less_eq_epoch_id_def epoch_le_def)
  show "c \<le> d \<Longrightarrow> d \<le> c \<Longrightarrow> c = d"
    by (simp add: less_eq_epoch_id_def epoch_le_def flip: raw_value_inject)
  show "c \<le> d \<or> d \<le> c" by (auto simp: less_eq_epoch_id_def epoch_le_def)
qed

end

lemma genesis_least [simp]: "Genesis \<le> e"
  by (simp add: less_eq_epoch_id_def epoch_le_def)

lemma genesis_less_number [simp]: "Genesis < Number n"
  by (simp add: less_epoch_id_def word_gt_0)

lemma number_less_iff [simp]: "Number m < Number n \<longleftrightarrow> m < n"
  by (simp add: less_epoch_id_def less_nonzero_u64_def)

lemma number_le_iff [simp]: "Number m \<le> Number n \<longleftrightarrow> m \<le> n"
  by (simp add: less_eq_epoch_id_def epoch_le_def less_eq_nonzero_u64_def)

lemma not_less_genesis [simp]: "\<not> e < Genesis"
  by (simp add: less_epoch_id_def)

section \<open>The block clock\<close>

lemma sat_add_one_nonzero: "sat_add 1 (x :: u64) \<noteq> 0"
proof -
  have "1 \<le> sat_add 1 x" by simp
  then show ?thesis by (metis word_le_0_iff zero_neq_one)
qed

lemma nz_get_next_number: "nz_get (next_number b n) = sat_add 1 (b div nz_get n)"
  by (simp add: next_number_def sat_add_one_nonzero)

lemma unat_next_number:
  "unat (nz_get (next_number b n)) = min (1 + unat b div unat (nz_get n)) (2 ^ 64 - 1)"
  by (simp add: nz_get_next_number unat_sat_add unat_div)

lemma next_number_mono: "b \<le> b' \<Longrightarrow> next_number b n \<le> next_number b' n"
proof -
  assume "b \<le> b'"
  then have "unat b div unat (nz_get n) \<le> unat b' div unat (nz_get n)"
    by (simp add: word_le_nat_alt div_le_mono)
  then show ?thesis
    by (simp add: less_eq_nonzero_u64_def word_le_nat_alt unat_next_number min_le_iff_disj)
qed

text \<open>
  The next epoch of a block is the one whose first block is the first multiple of the epoch
  length above the block: the block lies strictly below it and at or above the epoch before.
  The one block number that saturates (the last one, with one-block epochs) is excluded.
\<close>

lemma next_number_brackets_block:
  assumes "b \<noteq> - 1"
  shows "(unat (nz_get (next_number b n)) - 1) * unat (nz_get n) \<le> unat b \<and>
    unat b < unat (nz_get (next_number b n)) * unat (nz_get n)"
proof -
  let ?n = "unat (nz_get n)" and ?q = "unat b div unat (nz_get n)"
  have pos: "0 < ?n" by simp
  have "unat b < 2 ^ 64 - 1" using unat_less_max [OF assms] by simp
  moreover have "?q \<le> unat b" by simp
  ultimately have "1 + ?q \<le> 2 ^ 64 - 1" by linarith
  then have q: "unat (nz_get (next_number b n)) = 1 + ?q"
    unfolding unat_next_number by (rule min_absorb1)
  have "?q * ?n \<le> unat b" by simp
  moreover have "unat b < (1 + ?q) * ?n"
    using pos by (metis add.commute dividend_less_div_times plus_1_eq_Suc mult_Suc)
  ultimately show ?thesis using q by simp
qed

text \<open>
  Reading back a serialized epoch gives the epoch, every raw value is read as some epoch that
  is written back unchanged, and the order on epochs is the order of what is written.
\<close>

lemma epoch_serde_roundtrip:
  "deserialize_epoch (serialize_epoch e) = e \<and> serialize_epoch (deserialize_epoch w) = w \<and>
   (d \<le> e \<longleftrightarrow> serialize_epoch d \<le> serialize_epoch e)"
  by (simp add: serialize_epoch_def deserialize_epoch_def less_eq_epoch_id_def epoch_le_def)

end
