(* ===== verification/Merkle.thy ===== *)
theory Merkle
  imports Prelude
begin

text \<open>
  Sorted-pair Merkle trees (\<^verbatim>\<open>crates/validator/src/merkle.rs\<close>).  The hash function is the library's
  Keccak-256 and is a parameter of every definition.  The tree is its list of levels, leaves
  first.  The main result is that the proof produced for any leaf of any tree verifies against
  the root, for every hash function: the pair hash is symmetric, which is what makes the
  proof independent of the side a node is on.
\<close>

unbundle bit_operations_syntax

section \<open>Trees\<close>

type_synonym keccak = "bytes \<Rightarrow> b256"

datatype merkle_tree = MerkleTree (levels: "b256 list list")

type_synonym merkle_root = b256

text \<open>\<open>level.get(i).copied().unwrap_or(B256::ZERO)\<close>\<close>

definition get_or_zero :: "b256 list \<Rightarrow> nat \<Rightarrow> b256" where
  "get_or_zero level i = (if i < length level then level ! i else 0)"

definition hash_pair :: "keccak \<Rightarrow> b256 \<Rightarrow> b256 \<Rightarrow> b256" where
  "hash_pair keccak256 a b =
     (let (left, right) = (if a \<le> b then (a, b) else (b, a))
      in keccak256 (be_bytes 32 left @ be_bytes 32 right))"

definition next_level :: "keccak \<Rightarrow> b256 list \<Rightarrow> b256 list" where
  "next_level keccak256 level =
     (let pairs = (length level + 1) div 2
      in map (\<lambda>i. hash_pair keccak256 (get_or_zero level (i * 2)) (get_or_zero level (i * 2 + 1)))
           [0..<pairs])"

text \<open>The loop of \<open>MerkleTree::build\<close>: levels are added while the last one has more than one node.\<close>

function build_levels :: "keccak \<Rightarrow> b256 list \<Rightarrow> b256 list list" where
  "build_levels keccak256 level =
     (if 1 < length level then level # build_levels keccak256 (next_level keccak256 level)
      else [level])"
  by pat_completeness auto
termination
  by (relation "measure (\<lambda>(k, level). length level)") (auto simp: next_level_def)

declare build_levels.simps [simp del]

definition build :: "keccak \<Rightarrow> b256 list \<Rightarrow> merkle_tree" where
  "build keccak256 leaves = MerkleTree (build_levels keccak256 leaves)"

definition height :: "merkle_tree \<Rightarrow> nat" where
  "height tree = length (levels tree)"

definition root :: "merkle_tree \<Rightarrow> merkle_root" where
  "root tree =
     (case rev (levels tree) of
        (digest # _) # _ \<Rightarrow> digest
      | _ \<Rightarrow> 0)"

fun proof_loop :: "b256 list list \<Rightarrow> nat \<Rightarrow> b256 list" where
  "proof_loop [] current = []"
| "proof_loop (level # rest) current =
     get_or_zero level (current XOR 1) # proof_loop rest (drop_bit 1 current)"

definition inclusion_proof :: "merkle_tree \<Rightarrow> nat \<Rightarrow> b256 list" where
  "inclusion_proof tree index = proof_loop (take (height tree - 1) (levels tree)) index"

definition verify :: "keccak \<Rightarrow> merkle_root \<Rightarrow> b256 \<Rightarrow> b256 list \<Rightarrow> bool" where
  "verify keccak256 r leaf proof \<longleftrightarrow> r = foldl (hash_pair keccak256) leaf proof"

section \<open>Proofs verify\<close>

lemma hash_pair_commute: "hash_pair k a b = hash_pair k b a"
  by (auto simp: hash_pair_def)

lemma length_next_level [simp]: "length (next_level k level) = (length level + 1) div 2"
  by (simp add: next_level_def)

lemma nth_next_level:
  assumes "i < length level"
  shows "next_level k level ! (i div 2) =
    hash_pair k (level ! i) (get_or_zero level (i XOR 1))"
proof -
  have len: "i div 2 < (length level + 1) div 2" using assms by linarith
  have nth: "next_level k level ! (i div 2) =
      hash_pair k (get_or_zero level (i div 2 * 2)) (get_or_zero level (i div 2 * 2 + 1))"
    using len by (simp add: next_level_def)
  show ?thesis
  proof (cases "even i")
    case True
    then have "i div 2 * 2 = i" "i XOR 1 = i + 1" by (simp_all add: xor_Suc_0_eq)
    with nth assms show ?thesis by (simp add: get_or_zero_def)
  next
    case False
    then have i: "i div 2 * 2 + 1 = i" by presburger
    then have "i XOR 1 = i div 2 * 2" using False by (simp add: xor_Suc_0_eq)
    with i nth assms show ?thesis by (simp add: get_or_zero_def hash_pair_commute)
  qed
qed

lemma build_levels_nonempty [simp]: "build_levels k level \<noteq> []"
  by (subst build_levels.simps) simp

lemma build_levels_unfold:
  "build_levels k level =
     (if 1 < length level then level # build_levels k (next_level k level) else [level])"
  by (rule build_levels.simps)

lemma root_build_Cons:
  "1 < length level \<Longrightarrow>
     root (MerkleTree (build_levels k level)) = root (MerkleTree (build_levels k (next_level k level)))"
  by (subst build_levels.simps)
    (auto simp: root_def split: list.splits)

lemma root_build_single: "root (MerkleTree (build_levels k [x])) = x"
  by (subst build_levels.simps) (simp add: root_def)

lemma build_levels_verifies:
  "i < length level \<Longrightarrow>
   foldl (hash_pair k) (level ! i)
     (proof_loop (butlast (build_levels k level)) i) = root (MerkleTree (build_levels k level))"
proof (induction k level arbitrary: i rule: build_levels.induct)
  case (1 k level)
  show ?case
  proof (cases "1 < length level")
    case True
    let ?next = "next_level k level"
    have half: "i div 2 < length ?next" using "1.prems" unfolding length_next_level by linarith
    have "foldl (hash_pair k) (level ! i) (proof_loop (butlast (build_levels k level)) i) =
        foldl (hash_pair k) (hash_pair k (level ! i) (get_or_zero level (i XOR 1)))
          (proof_loop (butlast (build_levels k ?next)) (i div 2))"
      using True by (subst build_levels.simps) (simp add: drop_bit_Suc drop_bit_eq_div)
    also have "\<dots> = foldl (hash_pair k) (?next ! (i div 2))
          (proof_loop (butlast (build_levels k ?next)) (i div 2))"
      using nth_next_level [OF "1.prems", of k] by simp
    also have "\<dots> = root (MerkleTree (build_levels k ?next))"
      by (rule "1.IH" [OF True half])
    also have "\<dots> = root (MerkleTree (build_levels k level))"
      using root_build_Cons [OF True] by simp
    finally show ?thesis .
  next
    case False
    with "1.prems" obtain x where "level = [x]"
      by (cases level) auto
    with "1.prems" show ?thesis
      by (simp add: root_build_single) (subst build_levels.simps, simp)
  qed
qed

lemma proof_length: "length (inclusion_proof tree i) = height tree - 1"
proof -
  have "length (proof_loop ls i) = length ls" for ls
    by (induction ls arbitrary: i) auto
  then show ?thesis by (simp add: inclusion_proof_def height_def)
qed

lemma verify_build:
  assumes "i < length leaves"
  shows "verify k (root (build k leaves)) (leaves ! i) (inclusion_proof (build k leaves) i)"
  using build_levels_verifies [OF assms, of k]
  by (simp add: verify_def build_def inclusion_proof_def height_def butlast_conv_take)

text \<open>
  C39: for every hash function, every list of leaves and every index into it, the inclusion proof
  generated for the leaf at that index verifies against the tree's root.
\<close>

theorem inclusion_proof_verifies:
  assumes "i < length leaves"
  shows "verify keccak256 (root (build keccak256 leaves)) (leaves ! i)
    (inclusion_proof (build keccak256 leaves) i)"
  using assms by (rule verify_build)

theorem inclusion_proof_verifies_witness:
  "verify (\<lambda>bs. of_nat (length bs)) (root (build (\<lambda>bs. of_nat (length bs)) [5, 6, 7])) ([5, 6, 7] ! 2)
     (inclusion_proof (build (\<lambda>bs. of_nat (length bs)) [5, 6, 7]) 2) \<and>
   height (build (\<lambda>bs. of_nat (length bs)) [5, 6, 7]) = 3"
  using inclusion_proof_verifies [of 2 "[5, 6, 7]" "\<lambda>bs. of_nat (length bs)"]
  by (simp add: build_def height_def build_levels_unfold next_level_def)

section \<open>The interface to the clients of trees\<close>

text \<open>
  Key generation (proofs of participation) and signing (proofs of selection) only rely on the
  following contract of a tree, which the implementation above provides.
\<close>

locale inclusion_tree =
  fixes mk :: "b256 list \<Rightarrow> 't"
    and digest :: "'t \<Rightarrow> b256"
    and prove :: "'t \<Rightarrow> nat \<Rightarrow> b256 list"
    and accepts :: "b256 \<Rightarrow> b256 \<Rightarrow> b256 list \<Rightarrow> bool"
  assumes complete: "i < length leaves \<Longrightarrow> accepts (digest (mk leaves)) (leaves ! i) (prove (mk leaves) i)"
begin

text \<open>The position of an element in a sorted list of distinct leaves is the number of smaller ones.\<close>

lemma rank_nth:
  assumes "sorted xs" "distinct xs" "(x :: 'k::linorder) \<in> set xs"
  shows "length (filter (\<lambda>y. y < x) xs) < length xs \<and> xs ! length (filter (\<lambda>y. y < x) xs) = x"
  using assms
proof (induction xs)
  case (Cons y ys)
  show ?case
  proof (cases "x = y")
    case True
    then have "filter (\<lambda>z. z < x) ys = []" using Cons.prems by (auto simp: filter_empty_conv)
    with True show ?thesis by simp
  next
    case False
    with Cons.prems have "x \<in> set ys" "y < x" by auto
    with Cons show ?thesis by auto
  qed
qed simp

text \<open>A member proves its own leaf at its rank in a keyed set of leaves.\<close>

lemma member_proof:
  assumes "x |\<in>| A"
  shows "accepts (digest (mk (map leaf (sorted_list_of_fset A)))) (leaf x)
    (prove (mk (map leaf (sorted_list_of_fset A)))
      (length (filter (\<lambda>y. y < x) (sorted_list_of_fset A))))"
proof -
  let ?xs = "sorted_list_of_fset A" and ?i = "length (filter (\<lambda>y. y < x) (sorted_list_of_fset A))"
  have "?i < length ?xs \<and> ?xs ! ?i = x" by (rule rank_nth) (use assms in simp_all)
  then show ?thesis using complete [of ?i "map leaf ?xs"] by simp
qed

end

interpretation keccak_tree: inclusion_tree "build keccak256" root inclusion_proof "verify keccak256"
  for keccak256
  by unfold_locales (rule verify_build)

end
