(* ===== verification/Key_Group.thy ===== *)
theory Key_Group
  imports Epoch Merkle
begin

text \<open>
  Key-generation groups (\<^verbatim>\<open>crates/validator/src/consensus/group.rs\<close> and the participant
  configuration of \<^verbatim>\<open>config.rs\<close>).  A group is derived from the configured participants, the epoch and
  the participants excluded so far.  The well-formedness predicate \<open>group_wf\<close> collects what every
  derived group satisfies; the quorum locale derives from it the facts the protocol's safety
  argument in the header comment of \<^verbatim>\<open>group.rs\<close> is about.
\<close>

section \<open>Configuration and groups\<close>

record participant =
  p_address :: address
  active_from :: u64
  active_before :: "nonzero_u64 option"

record group =
  grp_id :: b256
  grp_root :: merkle_root
  grp_participants :: "address fset"
  grp_excluded :: "address fset"
  grp_count :: u16
  grp_threshold :: u16
  grp_context :: b256

definition group_parameters :: "group \<Rightarrow> merkle_root \<times> u16 \<times> u16 \<times> b256" where
  "group_parameters g = (grp_root g, grp_count g, grp_threshold g, grp_context g)"

definition group_size :: "group \<Rightarrow> u16 \<times> u16" where
  "group_size g = (grp_count g, grp_threshold g)"

definition also_exclude :: "group \<Rightarrow> address fset \<Rightarrow> address fset" where
  "also_exclude g also_excluded = grp_excluded g |\<union>| also_excluded"

definition exclude_all_others :: "group \<Rightarrow> address fset \<Rightarrow> address fset" where
  "exclude_all_others g include_only =
     (let to_exclude = grp_participants g |-| include_only
      in also_exclude g to_exclude)"

record participant_set =
  ps_addresses :: "address fset"
  ps_excluded :: "address fset"
  ps_context :: b256

datatype group_epoch =
    GenesisGroup b256
  | NumberGroup address nonzero_u64 "address fset"

section \<open>Derivation\<close>

definition group_threshold :: "u16 \<Rightarrow> u16" where
  "group_threshold count = count div 2 + 1"

text \<open>The minimum is computed in 32 bits and cast back to 16.\<close>

definition min_participants :: "u16 \<Rightarrow> u16" where
  "min_participants count =
     (let count = (ucast count :: 32 word);
          m = count * 2 div 3 + 1
      in max 2 (ucast m))"

text \<open>The leaf of a participant is its address, left-padded to 32 bytes.\<close>

definition participants_tree :: "keccak \<Rightarrow> address fset \<Rightarrow> merkle_tree" where
  "participants_tree keccak256 participants =
     build keccak256 (map ucast (sorted_list_of_fset participants))"

definition group_id :: "keccak \<Rightarrow> merkle_root \<Rightarrow> u16 \<Rightarrow> u16 \<Rightarrow> b256 \<Rightarrow> b256" where
  "group_id keccak256 participants count threshold context =
     (let buffer = be_bytes 32 participants @ replicate 30 0 @ be_bytes 2 count
            @ replicate 30 0 @ be_bytes 2 threshold @ be_bytes 32 context;
          id = keccak256 buffer
      in push_bit 64 (drop_bit 64 id))"

text \<open>
  The packed context: a four-byte version (zero), the twenty-byte contract address and the
  eight-byte epoch, read as one big-endian 32-byte value.
\<close>

definition group_context :: "address \<Rightarrow> u64 \<Rightarrow> b256" where
  "group_context consensus epoch =
     push_bit 224 (ucast (0 :: 32 word)) OR push_bit 64 (ucast consensus) OR ucast epoch"

definition genesis_context :: "keccak \<Rightarrow> b256 \<Rightarrow> b256" where
  "genesis_context keccak256 salt =
     (if salt = 0 then 0
      else keccak256 ([0x67, 0x65, 0x6e, 0x65, 0x73, 0x69, 0x73] @ be_bytes 32 salt))"

definition group_and_participants_tree :: "keccak \<Rightarrow> participant_set \<Rightarrow> group \<times> merkle_tree" where
  "group_and_participants_tree keccak256 ps =
     (let tree = participants_tree keccak256 (ps_addresses ps);
          count = as_u16 (fcard (ps_addresses ps));
          threshold = group_threshold count;
          context = ps_context ps
      in (\<lparr>grp_id = group_id keccak256 (root tree) count threshold context,
           grp_root = root tree,
           grp_participants = ps_addresses ps,
           grp_excluded = ps_excluded ps,
           grp_count = count,
           grp_threshold = threshold,
           grp_context = context\<rparr>, tree))"

definition group_of :: "keccak \<Rightarrow> participant_set \<Rightarrow> group" where
  "group_of keccak256 ps = (let (g, _) = group_and_participants_tree keccak256 ps in g)"

definition participate_as :: "keccak \<Rightarrow> participant_set \<Rightarrow> address \<Rightarrow> (group \<times> b256 list) option" where
  "participate_as keccak256 ps address =
     (if address |\<notin>| ps_addresses ps then None
      else
        let index = length (filter (\<lambda>a. a < address) (sorted_list_of_fset (ps_addresses ps)));
            (g, participants) = group_and_participants_tree keccak256 ps;
            poap = inclusion_proof participants index
        in Some (g, poap))"

text \<open>The addresses, the exclusions and the context of an epoch before exclusion.\<close>

fun epoch_addresses :: "keccak \<Rightarrow> participant list \<Rightarrow> group_epoch \<Rightarrow> address fset \<times> address fset \<times> b256" where
  "epoch_addresses keccak256 participants (GenesisGroup salt) =
     (fset_of_list (map p_address (filter (\<lambda>p. active_from p = 0) participants)),
      {||}, genesis_context keccak256 salt)"
| "epoch_addresses keccak256 participants (NumberGroup consensus number excluded) =
     (fset_of_list (map p_address
        (filter (\<lambda>p. active_from p \<le> nz_get number \<and>
                    (case active_before p of None \<Rightarrow> True | Some before \<Rightarrow> number < before))
          participants)),
      excluded, group_context consensus (nz_get number))"

definition participants_set :: "keccak \<Rightarrow> participant list \<Rightarrow> group_epoch \<Rightarrow> participant_set option" where
  "participants_set keccak256 participants epoch =
     (let (addresses, excluded, context) = epoch_addresses keccak256 participants epoch
      in if 2 ^ 16 \<le> fcard addresses then None
         else
           let total = as_u16 (fcard addresses);
               remaining = addresses |-| excluded
           in if 2 ^ 16 \<le> fcard remaining then None
              else
                let count = as_u16 (fcard remaining)
                in if min_participants total \<le> count
                   then Some \<lparr>ps_addresses = remaining, ps_excluded = excluded, ps_context = context\<rparr>
                   else None)"

section \<open>Well-formed groups\<close>

definition ps_wf :: "participant_set \<Rightarrow> bool" where
  "ps_wf ps \<longleftrightarrow> 2 \<le> fcard (ps_addresses ps) \<and> fcard (ps_addresses ps) < 2 ^ 16 \<and>
     ps_addresses ps |\<inter>| ps_excluded ps = {||}"

definition group_wf :: "group \<Rightarrow> bool" where
  "group_wf g \<longleftrightarrow>
     2 \<le> fcard (grp_participants g) \<and> fcard (grp_participants g) < 2 ^ 16 \<and>
     grp_count g = as_u16 (fcard (grp_participants g)) \<and>
     grp_threshold g = group_threshold (grp_count g) \<and>
     grp_participants g |\<inter>| grp_excluded g = {||}"

lemma unat_group_threshold: "unat (group_threshold c) = unat c div 2 + 1"
proof -
  have "unat c < 2 ^ 16" using unat_less_exp [of c] by simp
  then have "unat c div 2 + 1 < 2 ^ 16" by simp
  then show ?thesis by (simp add: group_threshold_def unat_word_ariths unat_div)
qed

lemma unat_min_participants: "unat (min_participants c) = max 2 (unat c * 2 div 3 + 1)"
proof -
  have c: "unat c < 2 ^ 16" using unat_less_exp [of c] by simp
  let ?c = "ucast c :: 32 word"
  have "unat c < 2 ^ 32" using c by simp
  then have uc: "unat ?c = unat c" by (simp add: unsigned_ucast_eq take_bit_nat_eq_self)
  have "unat (?c * 2 div 3 + 1) = unat c * 2 div 3 + 1"
    using c by (simp add: unat_word_ariths unat_div uc)
  then have "unat (ucast (?c * 2 div 3 + 1) :: u16) = unat c * 2 div 3 + 1"
    using c by (simp add: unsigned_ucast_eq take_bit_nat_eq_self)
  then show ?thesis by (simp add: min_participants_def Let_def max_def word_le_nat_alt)
qed

lemma group_and_tree_fst [simp]: "fst (group_and_participants_tree k ps) = group_of k ps"
  by (simp add: group_of_def split: prod.split)

lemma group_of_simps [simp]:
  "grp_participants (group_of k ps) = ps_addresses ps"
  "grp_excluded (group_of k ps) = ps_excluded ps"
  "grp_count (group_of k ps) = as_u16 (fcard (ps_addresses ps))"
  "grp_threshold (group_of k ps) = group_threshold (as_u16 (fcard (ps_addresses ps)))"
  "grp_root (group_of k ps) = root (participants_tree k (ps_addresses ps))"
  by (simp_all add: group_of_def group_and_participants_tree_def Let_def)

lemma group_of_wf [groups_wf]: "ps_wf ps \<Longrightarrow> group_wf (group_of k ps)"
  by (simp add: ps_wf_def group_wf_def)

lemma participate_as_eq_Some:
  "participate_as k ps a = Some (g, poap) \<longleftrightarrow>
     a |\<in>| ps_addresses ps \<and> g = group_of k ps \<and>
     poap = inclusion_proof (participants_tree k (ps_addresses ps))
       (length (filter (\<lambda>x. x < a) (sorted_list_of_fset (ps_addresses ps))))"
  by (auto simp: participate_as_def group_of_def group_and_participants_tree_def Let_def)

lemma participants_set_SomeD:
  assumes "participants_set k parts e = Some ps"
    and "epoch_addresses k parts e = (addresses, excluded, context)"
  shows "ps_addresses ps = addresses |-| excluded" "ps_excluded ps = excluded"
    "ps_context ps = context" "ps_wf ps"
    "max 2 (fcard addresses * 2 div 3 + 1) \<le> fcard (addresses |-| excluded)"
proof -
  from assms have small: "fcard addresses < 2 ^ 16" "fcard (addresses |-| excluded) < 2 ^ 16"
    and enough: "min_participants (as_u16 (fcard addresses)) \<le> as_u16 (fcard (addresses |-| excluded))"
    and ps: "ps = \<lparr>ps_addresses = addresses |-| excluded, ps_excluded = excluded, ps_context = context\<rparr>"
    by (auto simp: participants_set_def Let_def split: if_splits)
  show "ps_addresses ps = addresses |-| excluded" "ps_excluded ps = excluded" "ps_context ps = context"
    by (simp_all add: ps)
  show min: "max 2 (fcard addresses * 2 div 3 + 1) \<le> fcard (addresses |-| excluded)"
    using enough unfolding word_le_nat_alt unat_min_participants
    by (simp only: unat_as_u16 [OF small(1)] unat_as_u16 [OF small(2)])
  have "(addresses |-| excluded) |\<inter>| excluded = {||}" by auto
  then show "ps_wf ps" using min small by (simp add: ps_wf_def ps)
qed

lemma participants_set_wf: "participants_set k parts e = Some ps \<Longrightarrow> ps_wf ps"
  by (cases "epoch_addresses k parts e") (auto intro: participants_set_SomeD(4))

lemma group_wf_sizes:
  assumes "group_wf g"
  shows "unat (grp_count g) = fcard (grp_participants g)"
    "unat (grp_threshold g) = fcard (grp_participants g) div 2 + 1"
    "unat (grp_threshold g) \<le> unat (grp_count g)" "0 < unat (grp_threshold g)"
    "unat (grp_threshold g) < 2 ^ 16"
proof -
  from assms have small: "fcard (grp_participants g) < 2 ^ 16" "2 \<le> fcard (grp_participants g)"
    and c: "grp_count g = as_u16 (fcard (grp_participants g))"
    and t: "grp_threshold g = group_threshold (grp_count g)"
    by (auto simp: group_wf_def)
  show count: "unat (grp_count g) = fcard (grp_participants g)"
    unfolding c by (rule unat_as_u16 [OF small(1)])
  show thr: "unat (grp_threshold g) = fcard (grp_participants g) div 2 + 1"
    by (simp add: t unat_group_threshold count)
  show "unat (grp_threshold g) \<le> unat (grp_count g)" "0 < unat (grp_threshold g)"
    "unat (grp_threshold g) < 2 ^ 16"
    using small by (auto simp: thr count)
qed

section \<open>Quorums\<close>

text \<open>
  What the signing protocol needs of a group: a threshold that is a strict majority of the
  members.  Any two sets that reach the threshold then share a member, and no set can reach it
  beside another.
\<close>

locale majority_quorum =
  fixes members :: "'g \<Rightarrow> 'm fset" and threshold :: "'g \<Rightarrow> nat" and valid :: "'g \<Rightarrow> bool"
  assumes majority: "valid g \<Longrightarrow> fcard (members g) < 2 * threshold g"
    and reachable_threshold: "valid g \<Longrightarrow> threshold g \<le> fcard (members g)"
begin

lemma quorums_intersect:
  assumes "valid g" "A |\<subseteq>| members g" "B |\<subseteq>| members g"
    and "threshold g \<le> fcard A" "threshold g \<le> fcard B"
  shows "A |\<inter>| B \<noteq> {||}"
proof
  assume "A |\<inter>| B = {||}"
  then have "fcard (A |\<union>| B) = fcard A + fcard B" by (rule fcard_funion_disjoint)
  moreover have "fcard (A |\<union>| B) \<le> fcard (members g)" using assms(2,3) by (intro fcard_mono) auto
  ultimately show False using majority [OF assms(1)] assms(4,5) by linarith
qed

lemma everyone_is_a_quorum: "valid g \<Longrightarrow> threshold g \<le> fcard (members g)"
  by (rule reachable_threshold)

end

interpretation group_quorum: majority_quorum grp_participants "\<lambda>g. unat (grp_threshold g)" group_wf
proof
  fix g assume wf: "group_wf g"
  show "fcard (grp_participants g) < 2 * unat (grp_threshold g)"
    by (simp add: group_wf_sizes(2) [OF wf])
  show "unat (grp_threshold g) \<le> fcard (grp_participants g)"
    using group_wf_sizes(1,3) [OF wf] by simp
qed

section \<open>Properties of derived groups\<close>

text \<open>A concrete configuration, used by the witnesses.\<close>

definition demo_hash :: keccak where
  "demo_hash bs = of_nat (length bs)"

definition demo_participants :: "participant list" where
  "demo_participants = map (\<lambda>a. \<lparr>p_address = a, active_from = 0, active_before = None\<rparr>) [1, 2, 3, 4]"

definition demo_set :: participant_set where
  "demo_set = \<lparr>ps_addresses = {|1, 2, 3|}, ps_excluded = {|4|}, ps_context = group_context 9 2\<rparr>"

lemma demo_addresses:
  "epoch_addresses demo_hash demo_participants (NumberGroup 9 (nz_of 2) {|4|}) =
     ({|1, 2, 3, 4|}, {|4|}, group_context 9 2)"
  by (simp add: demo_participants_def)

lemma demo_participants_set:
  "participants_set demo_hash demo_participants (NumberGroup 9 (nz_of 2) {|4|}) = Some demo_set"
proof -
  have "{|1, 2, 3, 4|} |-| {|4 :: address|} = {|1, 2, 3|}" by auto
  then show ?thesis
    unfolding participants_set_def demo_addresses
    by (simp add: demo_set_def fcard_finsert_if as_u16_def
        min_participants_def)
qed

text \<open>
  Every group that can be derived has a threshold that no third of the epoch's default
  participants can reach: if at most a third of the participants active in the epoch is
  malicious, then the malicious ones are fewer than the group's signing threshold, and every
  set of members that reaches the threshold contains an honest one.
\<close>

lemma malicious_third_below_threshold:
  assumes "participants_set k parts e = Some ps"
    and "epoch_addresses k parts e = (addresses, excluded, context)"
    and "3 * fcard M \<le> fcard addresses"
  shows "fcard M < unat (grp_threshold (group_of k ps)) \<and>
    (\<forall>Q. Q |\<subseteq>| grp_participants (group_of k ps) \<and>
         unat (grp_threshold (group_of k ps)) \<le> fcard Q \<longrightarrow> \<not> Q |\<subseteq>| M)"
proof -
  note D = participants_set_SomeD [OF assms(1,2)]
  have wf: "group_wf (group_of k ps)" by (rule group_of_wf [OF D(4)])
  have "fcard M < unat (grp_threshold (group_of k ps))"
    using D(5) assms(3) unfolding group_wf_sizes(2) [OF wf] group_of_simps(1) D(1) by linarith
  then show ?thesis by (metis fcard_mono leD le_trans)
qed

text \<open>
  Any two sets of members of a derived group that both reach the signing threshold have a
  member in common, so two different signer selections cannot both be complete without one
  validator having taken part in both.
\<close>

lemma signing_quorums_intersect:
  assumes "participants_set k parts e = Some ps"
    and "A |\<subseteq>| grp_participants (group_of k ps)" "B |\<subseteq>| grp_participants (group_of k ps)"
    and "unat (grp_threshold (group_of k ps)) \<le> fcard A"
    and "unat (grp_threshold (group_of k ps)) \<le> fcard B"
  shows "A |\<inter>| B \<noteq> {||}"
  using group_quorum.quorums_intersect [OF group_of_wf [OF participants_set_wf [OF assms(1)]]]
    assms(2-5) by blast

text \<open>
  A validator that takes part in a group holds a proof of participation that the coordinator
  contract accepts: the Merkle proof of its padded address verifies against the group's root,
  and the group is the one every other validator derives from the same participant set.
\<close>

lemma participation_proof_verifies:
  assumes "participate_as k ps a = Some (g, poap)"
  shows "verify k (grp_root g) (ucast a) poap \<and> a |\<in>| grp_participants g \<and> g = group_of k ps"
proof -
  from assms have "a |\<in>| ps_addresses ps" "g = group_of k ps"
    and poap: "poap = inclusion_proof (participants_tree k (ps_addresses ps))
       (length (filter (\<lambda>x. x < a) (sorted_list_of_fset (ps_addresses ps))))"
    by (simp_all add: participate_as_eq_Some)
  then show ?thesis
    using keccak_tree.member_proof [of a "ps_addresses ps" k ucast]
    by (simp add: participants_tree_def)
qed

text \<open>
  The key-generation context separates domains: groups of different consensus contracts or of
  different epochs have different contexts.
\<close>

lemma group_context_injective:
  "group_context c e = group_context c' e' \<longleftrightarrow> c = c' \<and> e = e'"
proof
  assume eq: "group_context c e = group_context c' e'"
  have bits: "bit (group_context c e) i \<longleftrightarrow>
      (if i < 64 then bit e i else i < 224 \<and> bit c (i - 64))" for c e i
    by (auto simp: group_context_def bit_or_iff bit_push_bit_iff bit_unsigned_iff
        dest: bit_imp_le_length)
  have "bit e i = bit e' i" if "i < 64" for i using eq bits [of c e i] bits [of c' e' i] that by simp
  then have "e = e'" by (intro bit_word_eqI) simp
  moreover have "bit c i = bit c' i" if "i < 160" for i
    using eq bits [of c e "i + 64"] bits [of c' e' "i + 64"] that by simp
  then have "c = c'" by (intro bit_word_eqI) simp
  ultimately show "c = c' \<and> e = e'" by simp
qed simp

section \<open>Exclusion\<close>

lemma also_exclude_members:
  "x |\<in>| also_exclude g A \<longleftrightarrow> x |\<in>| grp_excluded g \<or> x |\<in>| A"
  by (simp add: also_exclude_def)

lemma exclude_all_others_members:
  "x |\<in>| exclude_all_others g A \<longleftrightarrow>
     x |\<in>| grp_excluded g \<or> (x |\<in>| grp_participants g \<and> x |\<notin>| A)"
  by (auto simp: exclude_all_others_def also_exclude_def Let_def)

end
