(* ===== verification/Bindings.thy ===== *)
theory Bindings
  imports Epoch Merkle
begin

text \<open>
  The onchain data the validator reads and writes
  (\<^verbatim>\<open>crates/validator/src/bindings.rs\<close>): the ABI structs, the Safe transaction and the contract events.
  The event type lists every event of the three contracts the validator watches.
\<close>

section \<open>ABI structs\<close>

record point =
  pt_x :: u256
  pt_y :: u256

record abi_signature =
  sig_r :: point
  sig_z :: u256

record kg_commitment =
  kgc_q :: point
  kgc_pop :: abi_signature
  kgc_c :: "point list"
  kgc_pok :: abi_signature

record kg_secret_share =
  kgs_y :: point
  kgs_f :: "u256 list"

record sign_nonces =
  sn_d :: point
  sn_e :: point

record sign_selection =
  sel_r :: point
  sel_root :: b256

record abi_signature_share =
  shr_r :: point
  shr_z :: u256
  shr_l :: u256

record callback =
  cb_target :: address
  cb_context :: bytes

section \<open>Safe transactions\<close>

datatype operation = CALL | DELEGATECALL

record safe_transaction =
  tx_chain_id :: u256
  tx_safe :: address
  tx_to :: address
  tx_value :: u256
  tx_data :: bytes
  tx_operation :: operation
  tx_safe_tx_gas :: u256
  tx_base_gas :: u256
  tx_gas_price :: u256
  tx_gas_token :: address
  tx_refund_receiver :: address
  tx_nonce :: u256

section \<open>Contract events\<close>

text \<open>Arguments in the order of the Solidity declarations.\<close>

datatype coordinator_event =
    KeyGen b256 b256 u16 u16 b256
      \<comment> \<open>gid, participants, count, threshold, context\<close>
  | KeyGenCommitted b256 address kg_commitment bool
      \<comment> \<open>gid, participant, commitment, committed\<close>
  | KeyGenSecretShared b256 address kg_secret_share bool
      \<comment> \<open>gid, participant, share, shared\<close>
  | KeyGenConfirmed b256 address bool
      \<comment> \<open>gid, participant, confirmed\<close>
  | KeyGenComplained b256 address address bool
      \<comment> \<open>gid, plaintiff, accused, compromised\<close>
  | KeyGenComplaintResponded b256 address address u256
      \<comment> \<open>gid, plaintiff, accused, secretShare\<close>
  | Sign address b256 b256 b256 u64
      \<comment> \<open>initiator, gid, message, sid, sequence\<close>
  | SignCommittedNonces b256 address sign_nonces
      \<comment> \<open>sid, participant, nonces\<close>
  | SignShared b256 b256 address u256
      \<comment> \<open>sid, selectionRoot, participant, z\<close>
  | SignCompleted b256 b256 abi_signature
      \<comment> \<open>sid, selectionRoot, signature\<close>

datatype consensus_event =
    EpochProposed u64 u64 u64 b256 point
      \<comment> \<open>activeEpoch, proposedEpoch, rolloverBlock, groupId, groupKey\<close>
  | EpochStagedEvent u64 u64 u64 b256 point b256 abi_signature
      \<comment> \<open>activeEpoch, proposedEpoch, rolloverBlock, groupId, groupKey, signatureId, attestation\<close>
  | TransactionProposed b256 b256 address u64 bytes safe_transaction
      \<comment> \<open>safeTxHash, safeId, oracle, epoch, oracleData, transaction\<close>
  | TransactionAttested b256 b256 address u64 b256 b256 abi_signature
      \<comment> \<open>safeTxHash, safeId, oracle, epoch, oracleDataHash, signatureId, attestation\<close>
  | ValidatorStakerSet address address
      \<comment> \<open>validator, staker\<close>

datatype oracle_event =
    OracleResult b256 address bytes bool
      \<comment> \<open>requestId, proposer, result, approved\<close>

datatype event =
    ConsensusEvent consensus_event
  | CoordinatorEvent coordinator_event
  | OracleEvent oracle_event

end
