(* ===== verification/Frost.thy ===== *)
theory Frost
  imports Bindings
begin

text \<open>
  The FROST layer of the validator (\<^verbatim>\<open>crates/validator/src/frost/\<close>: \<^verbatim>\<open>keygen.rs\<close>, \<^verbatim>\<open>sign.rs\<close>,
  \<^verbatim>\<open>marshal.rs\<close>, \<^verbatim>\<open>ecdh.rs\<close>, \<^verbatim>\<open>error.rs\<close>).  The curve and the FROST rounds themselves come from the crates
  \<open>k256\<close> and \<open>frost_secp256k1\<close>; they are the functions of the parameter record \<open>frost_lib\<close>, about
  which nothing is assumed unless a lemma says so.  What is modelled is everything the
  repository adds: marshalling to and from the ABI types, the encryption of shares, which
  packages are handed to which round, which checks are made and which error each of them
  raises.  Library values are modelled by what their public accessors return: a curve point is
  the identity or a pair of affine coordinates, a scalar is its canonical integer, a secret
  sharing commitment is its list of coefficients.
\<close>

unbundle bit_operations_syntax

section \<open>Library values and functions\<close>

type_synonym scalar = u256
type_synonym frost_id = u256

datatype element = Identity | Affine u256 u256

type_synonym vss_commitment = "element list"

record signature =
  schnorr_r :: element
  schnorr_z :: scalar

record round1_package =
  r1_commitment :: vss_commitment
  r1_proof_of_knowledge :: signature

record round1_secret_package =
  r1s_identifier :: frost_id
  r1s_coefficients :: "scalar list"
  r1s_commitment :: vss_commitment

record round2_secret_package =
  r2s_identifier :: frost_id
  r2s_commitment :: vss_commitment
  r2s_secret_share :: scalar

record round2_package =
  r2_signing_share :: scalar

record key_package =
  kp_identifier :: frost_id
  kp_signing_share :: scalar
  kp_verifying_share :: element
  kp_verifying_key :: element
  kp_min_signers :: u16

record signing_commitments =
  sc_hiding :: element
  sc_binding :: element

record round1_nonces =
  nonce_hiding :: scalar
  nonce_binding :: scalar
  nonce_commitments :: signing_commitments

datatype frost_error =
    UnknownIdentifier
  | IncorrectCommitment
  | MalformedVerifyingKey
  | IncorrectNumberOfShares
  | IncorrectPackage
  | MalformedScalar
  | MalformedElement
  | InvalidIdentityElement
  | LibraryError nat

text \<open>\<open>error.rs\<close>: an error is unexpected or the fault of one participant.\<close>

datatype error =
    Unexpected frost_error
  | Participant frost_error address

definition err_unexpected :: "frost_error + 'a \<Rightarrow> error + 'a" where
  "err_unexpected r = (case r of Inl cause \<Rightarrow> Inl (Unexpected cause) | Inr x \<Rightarrow> Inr x)"

definition err_with_culprit :: "address \<Rightarrow> frost_error + 'a \<Rightarrow> error + 'a" where
  "err_with_culprit culprit r =
     (case r of Inl cause \<Rightarrow> Inl (Participant cause culprit) | Inr x \<Rightarrow> Inr x)"

text \<open>The functions of the libraries.  Randomness is an explicit entropy argument.\<close>

record frost_lib =
  derive :: "address \<Rightarrow> frost_id"
  on_curve :: "u256 \<Rightarrow> u256 \<Rightarrow> bool"
  canonical :: "u256 \<Rightarrow> bool"
  mul_generator :: "scalar \<Rightarrow> element"
  mul_x :: "element \<Rightarrow> scalar \<Rightarrow> u256"
  hash_to_scalar :: "bytes \<Rightarrow> bytes \<Rightarrow> scalar"
  compute_proof_of_knowledge :: "frost_id \<Rightarrow> scalar \<Rightarrow> vss_commitment \<Rightarrow> bytes \<Rightarrow> frost_error + signature"
  verify_proof_of_knowledge :: "frost_id \<Rightarrow> vss_commitment \<Rightarrow> signature \<Rightarrow> frost_error + unit"
  dkg_part1 :: "frost_id \<Rightarrow> u16 \<Rightarrow> u16 \<Rightarrow> bytes \<Rightarrow> frost_error + (round1_secret_package \<times> round1_package)"
  dkg_part2 :: "round1_secret_package \<Rightarrow> (frost_id, round1_package) fmap \<Rightarrow>
     frost_error + (round2_secret_package \<times> (frost_id, round2_package) fmap)"
  dkg_part3 :: "round2_secret_package \<Rightarrow> (frost_id, round1_package) fmap \<Rightarrow>
     (frost_id, round2_package) fmap \<Rightarrow> frost_error + key_package"
  sum_commitments :: "vss_commitment list \<Rightarrow> frost_error + vss_commitment"
  key_from_commitment :: "vss_commitment \<Rightarrow> frost_error + element"
  share_from_commitment :: "frost_id \<Rightarrow> vss_commitment \<Rightarrow> element"
  verify_signing_share :: "frost_id \<Rightarrow> scalar \<Rightarrow> vss_commitment \<Rightarrow> frost_error + unit"
  nonces_new :: "scalar \<Rightarrow> bytes \<Rightarrow> round1_nonces"
  round2_sign :: "(frost_id, signing_commitments) fmap \<Rightarrow> b256 \<Rightarrow> round1_nonces \<Rightarrow> key_package \<Rightarrow>
     frost_error + scalar"
  binding_factors :: "(frost_id, signing_commitments) fmap \<Rightarrow> b256 \<Rightarrow> element \<Rightarrow>
     frost_error + (frost_id, scalar) fmap"
  interpolating_value :: "frost_id \<Rightarrow> (frost_id, signing_commitments) fmap \<Rightarrow> frost_error + scalar"
  commitment_share :: "signing_commitments \<Rightarrow> scalar \<Rightarrow> element"
  compute_group_commitment :: "(frost_id, signing_commitments) fmap \<Rightarrow> (frost_id, scalar) fmap \<Rightarrow>
     frost_error + element"

section \<open>Marshalling\<close>

fun solidity_point :: "element \<Rightarrow> point" where
  "solidity_point Identity = \<lparr>pt_x = 0, pt_y = 0\<rparr>"
| "solidity_point (Affine x y) = \<lparr>pt_x = x, pt_y = y\<rparr>"

definition solidity_signature :: "signature \<Rightarrow> abi_signature" where
  "solidity_signature s = \<lparr>sig_r = solidity_point (schnorr_r s), sig_z = schnorr_z s\<rparr>"

definition frost_scalar :: "frost_lib \<Rightarrow> u256 \<Rightarrow> frost_error + scalar" where
  "frost_scalar F w = (if canonical F w then Inr w else Inl MalformedScalar)"

definition frost_point :: "frost_lib \<Rightarrow> point \<Rightarrow> frost_error + element" where
  "frost_point F p =
     (if pt_x p = 0 \<and> pt_y p = 0 then Inr Identity
      else if on_curve F (pt_x p) (pt_y p) then Inr (Affine (pt_x p) (pt_y p))
      else Inl MalformedElement)"

definition frost_signature :: "frost_lib \<Rightarrow> point \<Rightarrow> u256 \<Rightarrow> frost_error + signature" where
  "frost_signature F r z =
     (case frost_point F r of Inl e \<Rightarrow> Inl e | Inr r' \<Rightarrow>
      case frost_scalar F z of Inl e \<Rightarrow> Inl e | Inr z' \<Rightarrow>
      Inr \<lparr>schnorr_r = r', schnorr_z = z'\<rparr>)"

text \<open>Collecting a sequence of results stops at the first error.\<close>

fun collect :: "('e + 'a) list \<Rightarrow> 'e + 'a list" where
  "collect [] = Inr []"
| "collect (Inl e # rs) = Inl e"
| "collect (Inr x # rs) = (case collect rs of Inl e \<Rightarrow> Inl e | Inr xs \<Rightarrow> Inr (x # xs))"

record ecdh_package =
  public_key_point :: element
  proof_of_possession :: signature

definition solidity_commitment :: "ecdh_package \<Rightarrow> round1_package \<Rightarrow> kg_commitment" where
  "solidity_commitment ep p =
     \<lparr>kgc_q = solidity_point (public_key_point ep),
      kgc_pop = solidity_signature (proof_of_possession ep),
      kgc_c = map solidity_point (r1_commitment p),
      kgc_pok = solidity_signature (r1_proof_of_knowledge p)\<rparr>"

definition solidity_secret_share :: "element \<Rightarrow> u256 list \<Rightarrow> kg_secret_share" where
  "solidity_secret_share verifying_share encrypted =
     \<lparr>kgs_y = solidity_point verifying_share, kgs_f = encrypted\<rparr>"

definition solidity_sign_nonces :: "signing_commitments \<Rightarrow> sign_nonces" where
  "solidity_sign_nonces c =
     \<lparr>sn_d = solidity_point (sc_hiding c), sn_e = solidity_point (sc_binding c)\<rparr>"

definition frost_commitment :: "frost_lib \<Rightarrow> kg_commitment \<Rightarrow> frost_error + (ecdh_package \<times> round1_package)" where
  "frost_commitment F c =
     (case frost_point F (kgc_q c) of Inl e \<Rightarrow> Inl e | Inr q \<Rightarrow>
      case frost_signature F (sig_r (kgc_pop c)) (sig_z (kgc_pop c)) of Inl e \<Rightarrow> Inl e | Inr pop \<Rightarrow>
      case collect (map (frost_point F) (kgc_c c)) of Inl e \<Rightarrow> Inl e | Inr coefficients \<Rightarrow>
      case frost_signature F (sig_r (kgc_pok c)) (sig_z (kgc_pok c)) of Inl e \<Rightarrow> Inl e | Inr pok \<Rightarrow>
      Inr (\<lparr>public_key_point = q, proof_of_possession = pop\<rparr>,
           \<lparr>r1_commitment = coefficients, r1_proof_of_knowledge = pok\<rparr>))"

definition frost_signing_commitments :: "frost_lib \<Rightarrow> sign_nonces \<Rightarrow> frost_error + signing_commitments" where
  "frost_signing_commitments F n =
     (case frost_point F (sn_d n) of Inl e \<Rightarrow> Inl e | Inr hiding \<Rightarrow>
      case frost_point F (sn_e n) of Inl e \<Rightarrow> Inl e | Inr binding \<Rightarrow>
      if hiding = Identity \<or> binding = Identity then Inl MalformedElement
      else Inr \<lparr>sc_hiding = hiding, sc_binding = binding\<rparr>)"

section \<open>Encryption of shares\<close>

text \<open>\<open>ecdh.rs\<close>: the secret share is XORed with the x-coordinate of the shared point.\<close>

definition ecdh :: "frost_lib \<Rightarrow> scalar \<Rightarrow> element \<Rightarrow> u256 \<Rightarrow> u256" where
  "ecdh F sender_privkey receiver_pubkey msg = msg XOR mul_x F receiver_pubkey sender_privkey"

definition encryption_public_key :: "element \<Rightarrow> frost_error + element" where
  "encryption_public_key p = (if p = Identity then Inl InvalidIdentityElement else Inr p)"

definition verified_public_key :: "frost_lib \<Rightarrow> ecdh_package \<Rightarrow> frost_id \<Rightarrow> frost_error + element" where
  "verified_public_key F ep ident =
     (case encryption_public_key (public_key_point ep) of Inl e \<Rightarrow> Inl e | Inr pk \<Rightarrow>
      case verify_proof_of_knowledge F ident [pk] (proof_of_possession ep) of Inl e \<Rightarrow> Inl e | Inr _ \<Rightarrow>
      Inr pk)"

section \<open>Key generation\<close>

record secrets =
  encryption_key :: scalar
  encryption_package :: ecdh_package
  secret_package :: round1_secret_package
  proof_of_knowledge :: signature

definition secrets_commitment :: "secrets \<Rightarrow> kg_commitment" where
  "secrets_commitment s =
     solidity_commitment (encryption_package s)
       \<lparr>r1_commitment = r1s_commitment (secret_package s),
        r1_proof_of_knowledge = proof_of_knowledge s\<rparr>"

text \<open>
  \<open>setup\<close>: the three samplings draw from one generator; their entropies are the three components
  of the argument.  The encryption key is hashed from its entropy under the discriminant "enc".
\<close>

definition keygen_setup :: "frost_lib \<Rightarrow> bytes \<times> bytes \<times> bytes \<Rightarrow> address \<Rightarrow> u16 \<Rightarrow> u16 \<Rightarrow> error + secrets" where
  "keygen_setup F entropy me count threshold =
     (let (e1, e2, e3) = entropy;
          ident = derive F me;
          key = hash_to_scalar F [0x65, 0x6e, 0x63] e1;
          public_key = mul_generator F key
      in case err_unexpected (compute_proof_of_knowledge F ident key [public_key] e2) of
           Inl e \<Rightarrow> Inl e
         | Inr pop \<Rightarrow>
             (case err_unexpected (dkg_part1 F ident count threshold e3) of
                Inl e \<Rightarrow> Inl e
              | Inr (secret, package) \<Rightarrow>
                  Inr \<lparr>encryption_key = key,
                       encryption_package = \<lparr>public_key_point = public_key, proof_of_possession = pop\<rparr>,
                       secret_package = secret,
                       proof_of_knowledge = r1_proof_of_knowledge package\<rparr>))"

record verified_commitment =
  vc_encryption_public_key :: element
  vc_package :: round1_package

definition verify_commitment :: "frost_lib \<Rightarrow> address \<Rightarrow> kg_commitment \<Rightarrow> error + verified_commitment" where
  "verify_commitment F participant commitment =
     (let ident = derive F participant
      in err_with_culprit participant
           (case frost_commitment F commitment of Inl e \<Rightarrow> Inl e | Inr (ep, package) \<Rightarrow>
            case verified_public_key F ep ident of Inl e \<Rightarrow> Inl e | Inr pk \<Rightarrow>
            case verify_proof_of_knowledge F ident (r1_commitment package) (r1_proof_of_knowledge package) of
              Inl e \<Rightarrow> Inl e | Inr _ \<Rightarrow>
            Inr \<lparr>vc_encryption_public_key = pk, vc_package = package\<rparr>))"

record group_commitments =
  gc_commitments :: "(address, verified_commitment) fmap"
  gc_group_commitment :: vss_commitment
  gc_verifying_key :: element

definition group_key :: "group_commitments \<Rightarrow> point" where
  "group_key gc = solidity_point (gc_verifying_key gc)"

definition group_commitment :: "frost_lib \<Rightarrow> (address, verified_commitment) fmap \<Rightarrow> frost_error + vss_commitment" where
  "group_commitment F commitments =
     sum_commitments F (map (\<lambda>v. r1_commitment (vc_package v)) (fm_values commitments))"

definition group_commitments_of :: "frost_lib \<Rightarrow> (address, verified_commitment) fmap \<Rightarrow> error + group_commitments" where
  "group_commitments_of F commitments =
     (case err_unexpected (group_commitment F commitments) of Inl e \<Rightarrow> Inl e | Inr gc \<Rightarrow>
      case err_unexpected (key_from_commitment F gc) of Inl e \<Rightarrow> Inl e | Inr key \<Rightarrow>
      Inr \<lparr>gc_commitments = commitments, gc_group_commitment = gc, gc_verifying_key = key\<rparr>)"

record sharing_state =
  ss_encryption_key :: scalar
  ss_secret_package :: round2_secret_package
  ss_peer_packages :: "(frost_id, round2_package) fmap"
  ss_group_commitments :: group_commitments

text \<open>
  \<open>peer_packages\<close>: re-key a map by participant identifier, in ascending address order, and split
  off our own entry.
\<close>

definition rekey :: "frost_lib \<Rightarrow> (address, 'a) fmap \<Rightarrow> ('a \<Rightarrow> 'p) \<Rightarrow> (frost_id, 'p) fmap" where
  "rekey F items select =
     fold (\<lambda>a m. fmupd (derive F a) (select (the (fmlookup items a))) m) (fm_keys items) fmempty"

definition peer_packages :: "frost_lib \<Rightarrow> frost_id \<Rightarrow> (address, 'a) fmap \<Rightarrow> ('a \<Rightarrow> 'p) \<Rightarrow>
    error + ((frost_id, 'p) fmap \<times> 'p)" where
  "peer_packages F me items select =
     (let peers = rekey F items select
      in case fmlookup peers me of
           None \<Rightarrow> Inl (Unexpected UnknownIdentifier)
         | Some mine \<Rightarrow> Inr (fmdrop me peers, mine))"

text \<open>The encrypted shares for the peers, in ascending peer address.\<close>

definition encrypt_shares :: "frost_lib \<Rightarrow> scalar \<Rightarrow> frost_id \<Rightarrow> (address, verified_commitment) fmap \<Rightarrow>
    (frost_id, round2_package) fmap \<Rightarrow> frost_error + u256 list" where
  "encrypt_shares F key me commitments round2_packages =
     collect (map (\<lambda>(peer, pk).
         case fmlookup round2_packages peer of
           None \<Rightarrow> Inl UnknownIdentifier
         | Some package \<Rightarrow> Inr (ecdh F key pk (r2_signing_share package)))
       (filter (\<lambda>(peer, _). peer \<noteq> me)
         (map (\<lambda>a. (derive F a, vc_encryption_public_key (the (fmlookup commitments a))))
           (fm_keys commitments))))"

definition generate_secret_shares :: "frost_lib \<Rightarrow> secrets \<Rightarrow> (address, verified_commitment) fmap \<Rightarrow>
    error + (sharing_state \<times> kg_secret_share)" where
  "generate_secret_shares F s commitments =
     (case peer_packages F (r1s_identifier (secret_package s)) commitments vc_package of
        Inl e \<Rightarrow> Inl e
      | Inr (round1_peers, round1_me) \<Rightarrow>
          err_unexpected
            (case dkg_part2 F (secret_package s) round1_peers of Inl e \<Rightarrow> Inl e
             | Inr (secret, round2_packages) \<Rightarrow>
                 if r1_commitment round1_me \<noteq> r2s_commitment secret then Inl IncorrectCommitment
                 else
                   case group_commitment F commitments of Inl e \<Rightarrow> Inl e | Inr gc \<Rightarrow>
                   let verifying_share = share_from_commitment F (r1s_identifier (secret_package s)) gc
                   in case key_from_commitment F gc of Inl e \<Rightarrow> Inl e | Inr key \<Rightarrow>
                      case encrypt_shares F (encryption_key s) (r2s_identifier secret) commitments
                        round2_packages of Inl e \<Rightarrow> Inl e | Inr encrypted \<Rightarrow>
                      Inr (\<lparr>ss_encryption_key = encryption_key s,
                            ss_secret_package = secret,
                            ss_peer_packages = round2_packages,
                            ss_group_commitments =
                              \<lparr>gc_commitments = commitments, gc_group_commitment = gc,
                               gc_verifying_key = key\<rparr>\<rparr>,
                           solidity_secret_share verifying_share encrypted)))"

type_synonym encrypted_secret_shares = "u256 list"

definition verify_secret_share :: "frost_lib \<Rightarrow> group_commitments \<Rightarrow> address \<Rightarrow> kg_secret_share \<Rightarrow>
    error + encrypted_secret_shares" where
  "verify_secret_share F gc participant share =
     (if \<not> fm_has (gc_commitments gc) participant then Inl (Unexpected UnknownIdentifier)
      else
        let ident = derive F participant
        in case err_with_culprit participant
                  (case frost_point F (kgs_y share) of Inl e \<Rightarrow> Inl e | Inr y \<Rightarrow>
                   if y \<noteq> share_from_commitment F ident (gc_group_commitment gc)
                   then Inl MalformedVerifyingKey else Inr ()) of
             Inl e \<Rightarrow> Inl e
           | Inr _ \<Rightarrow> Inr (kgs_f share))"

record verified_share =
  vs_package :: round2_package

definition verified_share_new :: "frost_lib \<Rightarrow> frost_id \<Rightarrow> address \<Rightarrow> vss_commitment \<Rightarrow> u256 \<Rightarrow>
    error + verified_share" where
  "verified_share_new F me peer commitment secret_share =
     (case err_with_culprit peer
             (case frost_scalar F secret_share of Inl e \<Rightarrow> Inl e | Inr sh \<Rightarrow>
              case verify_signing_share F me sh commitment of Inl e \<Rightarrow> Inl e | Inr _ \<Rightarrow>
              Inr \<lparr>r2_signing_share = sh\<rparr>) of
        Inl e \<Rightarrow> Inl e
      | Inr package \<Rightarrow> Inr \<lparr>vs_package = package\<rparr>)"

text \<open>The position of the first element that satisfies a predicate (\<open>Iterator::position\<close>).\<close>

fun position :: "('a \<Rightarrow> bool) \<Rightarrow> 'a list \<Rightarrow> nat option" where
  "position P [] = None"
| "position P (x # xs) = (if P x then Some 0 else map_option Suc (position P xs))"

definition verify_encrypted_secret_share :: "frost_lib \<Rightarrow> sharing_state \<Rightarrow> address \<Rightarrow>
    encrypted_secret_shares \<Rightarrow> error + verified_share" where
  "verify_encrypted_secret_share F ss participant encrypted =
     (let me = r2s_identifier (ss_secret_package ss);
          commitments = gc_commitments (ss_group_commitments ss);
          picked =
            (if derive F participant = me
             then Inr (r2s_commitment (ss_secret_package ss), r2s_secret_share (ss_secret_package ss))
             else err_unexpected
               (case fmlookup commitments participant of None \<Rightarrow> Inl UnknownIdentifier
                | Some round1 \<Rightarrow>
                    case position (\<lambda>a. derive F a = me)
                           (filter (\<lambda>a. a \<noteq> participant) (fm_keys commitments)) of
                      None \<Rightarrow> Inl UnknownIdentifier
                    | Some index \<Rightarrow>
                        if index < length encrypted
                        then Inr (r1_commitment (vc_package round1),
                               ecdh F (ss_encryption_key ss) (vc_encryption_public_key round1)
                                 (encrypted ! index))
                        else Inl IncorrectNumberOfShares))
      in case picked of
           Inl e \<Rightarrow> Inl e
         | Inr (commitment, secret_share) \<Rightarrow>
             verified_share_new F me participant commitment secret_share)"

definition verify_revealed_secret_share :: "frost_lib \<Rightarrow> group_commitments \<Rightarrow> address \<Rightarrow> address \<Rightarrow>
    u256 \<Rightarrow> error + verified_share" where
  "verify_revealed_secret_share F gc plaintiff accused secret_share =
     (case fmlookup (gc_commitments gc) accused of
        None \<Rightarrow> Inl (Unexpected UnknownIdentifier)
      | Some v \<Rightarrow>
          verified_share_new F (derive F plaintiff) accused (r1_commitment (vc_package v)) secret_share)"

definition reveal_secret_share :: "frost_lib \<Rightarrow> sharing_state \<Rightarrow> address \<Rightarrow> error + u256" where
  "reveal_secret_share F ss peer =
     (case fmlookup (ss_peer_packages ss) (derive F peer) of
        None \<Rightarrow> Inl (Unexpected UnknownIdentifier)
      | Some package \<Rightarrow> Inr (r2_signing_share package))"

type_synonym key_share = key_package

definition ks_threshold :: "key_share \<Rightarrow> u16" where
  "ks_threshold ks = kp_min_signers ks"

definition finalize :: "frost_lib \<Rightarrow> sharing_state \<Rightarrow> (address, verified_share) fmap \<Rightarrow> error + key_share" where
  "finalize F ss shares =
     (let me = r2s_identifier (ss_secret_package ss)
      in case peer_packages F me (gc_commitments (ss_group_commitments ss)) vc_package of
           Inl e \<Rightarrow> Inl e
         | Inr (round1_peers, _) \<Rightarrow>
             (case peer_packages F me shares vs_package of
                Inl e \<Rightarrow> Inl e
              | Inr (round2_peers, round2_me) \<Rightarrow>
                  if r2_signing_share round2_me \<noteq> r2s_secret_share (ss_secret_package ss)
                  then Inl (Unexpected IncorrectPackage)
                  else err_unexpected (dkg_part3 F (ss_secret_package ss) round1_peers round2_peers)))"

section \<open>Signing\<close>

type_synonym signing_nonces = round1_nonces

definition nonces_generate :: "frost_lib \<Rightarrow> bytes \<Rightarrow> key_share \<Rightarrow> signing_nonces" where
  "nonces_generate F entropy ks = nonces_new F (kp_signing_share ks) entropy"

definition nonces_commitments :: "signing_nonces \<Rightarrow> sign_nonces" where
  "nonces_commitments n = solidity_sign_nonces (nonce_commitments n)"

record committed_nonces =
  cn_commitments :: signing_commitments

definition verify_committed_nonces :: "frost_lib \<Rightarrow> address \<Rightarrow> sign_nonces \<Rightarrow> error + committed_nonces" where
  "verify_committed_nonces F participant nonces =
     (case err_with_culprit participant (frost_signing_commitments F nonces) of
        Inl e \<Rightarrow> Inl e
      | Inr c \<Rightarrow> Inr \<lparr>cn_commitments = c\<rparr>)"

record signature_share =
  ssh_selection :: sign_selection
  ssh_share :: abi_signature_share
  ssh_proof :: "b256 list"

definition signer_leaf :: "keccak \<Rightarrow> address \<Rightarrow> point \<Rightarrow> u256 \<Rightarrow> point \<Rightarrow> b256" where
  "signer_leaf keccak256 participant r l group_r =
     keccak256 (replicate 12 0 @ be_bytes 20 participant @ be_bytes 32 (pt_x r) @ be_bytes 32 (pt_y r)
       @ be_bytes 32 l @ be_bytes 32 (pt_x group_r) @ be_bytes 32 (pt_y group_r))"

text \<open>The signers keyed by identifier: collected in address order, the first error stops.\<close>

fun collect_signers :: "frost_lib \<Rightarrow> (frost_id, signing_commitments) fmap \<Rightarrow> (frost_id, scalar) fmap \<Rightarrow>
    (address, committed_nonces) fmap \<Rightarrow> address list \<Rightarrow> (frost_id, address \<times> point \<times> u256) fmap \<Rightarrow>
    frost_error + (frost_id, address \<times> point \<times> u256) fmap" where
  "collect_signers F commitments factors committed [] acc = Inr acc"
| "collect_signers F commitments factors committed (a # as) acc =
     (let ident = derive F a; c = cn_commitments (the (fmlookup committed a))
      in case fmlookup factors ident of None \<Rightarrow> Inl UnknownIdentifier | Some factor \<Rightarrow>
         case interpolating_value F ident commitments of Inl e \<Rightarrow> Inl e | Inr l \<Rightarrow>
         let r = solidity_point (commitment_share F c factor)
         in collect_signers F commitments factors committed as (fmupd ident (a, r, l) acc))"

definition signature_share_of :: "keccak \<Rightarrow> frost_lib \<Rightarrow> key_share \<Rightarrow> signing_nonces \<Rightarrow>
    (address, committed_nonces) fmap \<Rightarrow> b256 \<Rightarrow> error + signature_share" where
  "signature_share_of keccak256 F ks nonces committed message =
     (let commitments = rekey F committed cn_commitments;
          me = kp_identifier ks
      in err_unexpected
        (case round2_sign F commitments message nonces ks of Inl e \<Rightarrow> Inl e | Inr z \<Rightarrow>
         case binding_factors F commitments message (kp_verifying_key ks) of Inl e \<Rightarrow> Inl e | Inr factors \<Rightarrow>
         case collect_signers F commitments factors committed (fm_keys committed) fmempty of
           Inl e \<Rightarrow> Inl e | Inr signers \<Rightarrow>
         case compute_group_commitment F commitments factors of Inl e \<Rightarrow> Inl e | Inr gc \<Rightarrow>
         let group_r = solidity_point gc;
             tree = build keccak256 (map (\<lambda>(a, r, l). signer_leaf keccak256 a r l group_r) (fm_values signers))
         in case fmlookup signers me of None \<Rightarrow> Inl UnknownIdentifier | Some (_, r, l) \<Rightarrow>
            let index = length (filter (\<lambda>i. i < me) (fm_keys signers))
            in Inr \<lparr>ssh_selection = \<lparr>sel_r = group_r, sel_root = root tree\<rparr>,
                    ssh_share = \<lparr>shr_r = r, shr_z = z, shr_l = l\<rparr>,
                    ssh_proof = inclusion_proof tree index\<rparr>))"

end
