(* ===== verification/Hashing.thy ===== *)
theory Hashing
  imports Frost
begin

text \<open>
  The packet hashes that validator groups sign
  (\<^verbatim>\<open>crates/validator/src/consensus/hashing.rs\<close>), and the record \<open>lib\<close> of all library functions the validator's
  state transition calls: Keccak-256, the FROST library, and the ABI and EIP-712 encoders that
  alloy generates from the Solidity declarations.  The transaction proposal hash is encoded by
  hand in the source and is modelled byte by byte.
\<close>

record eip712_domain =
  dom_chain_id :: u256
  dom_contract :: address

datatype safe_tx = SafeTx address u256 bytes u8 u256 u256 u256 address address u256
  \<comment> \<open>to, value, data, operation, safeTxGas, baseGas, gasPrice, gasToken, refundReceiver, nonce\<close>

datatype epoch_rollover = EpochRolloverStruct u64 u64 u64 u256 u256
  \<comment> \<open>activeEpoch, proposedEpoch, rolloverBlock, groupKeyX, groupKeyY\<close>

datatype stage_epoch_call = StageEpochCall u64 u64 b256 b256
  \<comment> \<open>proposedEpoch, rolloverBlock, groupId, signatureId\<close>

datatype attest_transaction_call = AttestTransactionCall u64 address b256 u256 address b256 b256
  \<comment> \<open>epoch, oracle, oracleDataHash, chainId, safe, safeTxStructHash, signatureId\<close>

record lib =
  keccak256 :: keccak
  frost :: frost_lib
  domain_separator :: "eip712_domain \<Rightarrow> b256"
  safe_tx_hash_struct :: "safe_tx \<Rightarrow> b256"
  safe_tx_signing_hash :: "eip712_domain \<Rightarrow> safe_tx \<Rightarrow> b256"
  rollover_signing_hash :: "eip712_domain \<Rightarrow> epoch_rollover \<Rightarrow> b256"
  proposal_encode_type :: bytes
  abi_encode_epoch :: "u64 \<Rightarrow> u64 \<Rightarrow> bytes"
  abi_encode_stage_epoch :: "stage_epoch_call \<Rightarrow> bytes"
  abi_encode_attest_transaction :: "attest_transaction_call \<Rightarrow> bytes"

fun operation_code :: "operation \<Rightarrow> u8" where
  "operation_code CALL = 0"
| "operation_code DELEGATECALL = 1"

definition safe_tx_of :: "safe_transaction \<Rightarrow> safe_tx" where
  "safe_tx_of tx =
     SafeTx (tx_to tx) (tx_value tx) (tx_data tx) (operation_code (tx_operation tx))
       (tx_safe_tx_gas tx) (tx_base_gas tx) (tx_gas_price tx) (tx_gas_token tx)
       (tx_refund_receiver tx) (tx_nonce tx)"

definition safe_tx_struct_hash :: "lib \<Rightarrow> safe_transaction \<Rightarrow> b256" where
  "safe_tx_struct_hash L tx = safe_tx_hash_struct L (safe_tx_of tx)"

definition safe_tx_hash :: "lib \<Rightarrow> safe_transaction \<Rightarrow> b256" where
  "safe_tx_hash L tx =
     safe_tx_signing_hash L \<lparr>dom_chain_id = tx_chain_id tx, dom_contract = tx_safe tx\<rparr> (safe_tx_of tx)"

definition consensus_domain :: "u64 \<Rightarrow> address \<Rightarrow> eip712_domain" where
  "consensus_domain chain consensus = \<lparr>dom_chain_id = ucast chain, dom_contract = consensus\<rparr>"

text \<open>The 160-byte struct encoding and the 66-byte signing message of \<open>transaction_proposal_hash\<close>.\<close>

definition proposal_struct_data :: "lib \<Rightarrow> epoch_id \<Rightarrow> address \<Rightarrow> b256 \<Rightarrow> b256 \<Rightarrow> bytes" where
  "proposal_struct_data L epoch oracle oracle_data_hash tx_hash =
     (let type_hash = keccak256 L (proposal_encode_type L)
      in be_bytes 32 type_hash @ be_bytes 32 (ucast (raw_value epoch) :: u256)
           @ be_bytes 32 (ucast oracle :: b256) @ be_bytes 32 oracle_data_hash @ be_bytes 32 tx_hash)"

definition signing_message :: "lib \<Rightarrow> eip712_domain \<Rightarrow> b256 \<Rightarrow> bytes" where
  "signing_message L domain struct_hash =
     [0x19, 0x01] @ be_bytes 32 (domain_separator L domain) @ be_bytes 32 struct_hash"

definition transaction_proposal_hash :: "lib \<Rightarrow> eip712_domain \<Rightarrow> epoch_id \<Rightarrow> address \<Rightarrow> b256 \<Rightarrow> b256 \<Rightarrow> b256" where
  "transaction_proposal_hash L domain epoch oracle oracle_data_hash tx_hash =
     (let data = proposal_struct_data L epoch oracle oracle_data_hash tx_hash;
          struct_hash = keccak256 L data
      in keccak256 L (signing_message L domain struct_hash))"

definition transaction_packet_hash :: "lib \<Rightarrow> eip712_domain \<Rightarrow> epoch_id \<Rightarrow> address \<Rightarrow> bytes \<Rightarrow>
    safe_transaction \<Rightarrow> b256" where
  "transaction_packet_hash L domain epoch oracle oracle_data tx =
     transaction_proposal_hash L domain epoch oracle (keccak256 L oracle_data) (safe_tx_hash L tx)"

definition epoch_rollover_hash :: "lib \<Rightarrow> eip712_domain \<Rightarrow> epoch_id \<Rightarrow> nonzero_u64 \<Rightarrow> u64 \<Rightarrow> point \<Rightarrow> b256" where
  "epoch_rollover_hash L domain active_epoch proposed_epoch rollover_block gkey =
     rollover_signing_hash L domain
       (EpochRolloverStruct (raw_value active_epoch) (nz_get proposed_epoch) rollover_block
          (pt_x gkey) (pt_y gkey))"

lemma ucast_inject_up:
  assumes "LENGTH('a::len) \<le> LENGTH('b::len)"
  shows "(ucast (v :: 'a word) :: 'b word) = ucast w \<longleftrightarrow> v = w"
proof
  assume eq: "(ucast v :: 'b word) = ucast w"
  show "v = w"
  proof (rule bit_word_eqI)
    fix n assume "n < LENGTH('a)"
    moreover have "bit (ucast v :: 'b word) n = bit (ucast w :: 'b word) n" using eq by simp
    ultimately show "bit v n = bit w n" using assms by (simp add: bit_unsigned_iff)
  qed
qed simp

lemma proposal_struct_data_inject:
  "proposal_struct_data L e oracle dh th = proposal_struct_data L e' oracle' dh' th' \<longleftrightarrow>
     e = e' \<and> oracle = oracle' \<and> dh = dh' \<and> th = th'"
  by (auto simp: proposal_struct_data_def Let_def be_bytes_inject ucast_inject_up)

lemma signing_message_inject: "signing_message L D h = signing_message L D h' \<longleftrightarrow> h = h'"
  by (simp add: signing_message_def be_bytes_inject)

text \<open>
  C40: the message a group signs for a proposal identifies what is proposed: two proposals that
  differ in epoch, oracle, oracle data hash or Safe transaction hash and still have the same message
  exhibit a collision of the hash function, either between their two struct encodings or
  between the two final messages.
\<close>

theorem equal_proposal_hashes_collide:
  assumes "transaction_proposal_hash L D e oracle dh th = transaction_proposal_hash L D e' oracle' dh' th'"
    and "(e, oracle, dh, th) \<noteq> (e', oracle', dh', th')"
  shows "(let data = proposal_struct_data L e oracle dh th;
             data' = proposal_struct_data L e' oracle' dh' th';
             m = signing_message L D (keccak256 L data);
             m' = signing_message L D (keccak256 L data')
         in (data \<noteq> data' \<and> keccak256 L data = keccak256 L data') \<or> (m \<noteq> m' \<and> keccak256 L m = keccak256 L m'))"
  using assms
  by (auto simp: transaction_proposal_hash_def Let_def proposal_struct_data_inject signing_message_inject)

definition demo_lib :: "frost_lib \<Rightarrow> lib" where
  "demo_lib F =
     \<lparr>keccak256 = (\<lambda>bs. of_nat (length bs)), frost = F, domain_separator = (\<lambda>d. dom_chain_id d),
      safe_tx_hash_struct = (\<lambda>_. 1), safe_tx_signing_hash = (\<lambda>_ _. 2),
      rollover_signing_hash = (\<lambda>_ _. 3), proposal_encode_type = [], abi_encode_epoch = (\<lambda>_ _. []),
      abi_encode_stage_epoch = (\<lambda>_. []), abi_encode_attest_transaction = (\<lambda>_. [])\<rparr>"

lemma demo_lib_simps [simp]:
  "keccak256 (demo_lib F) = (\<lambda>bs. of_nat (length bs))" "frost (demo_lib F) = F"
  "rollover_signing_hash (demo_lib F) = (\<lambda>_ _. 3)"
  by (simp_all add: demo_lib_def)

theorem equal_proposal_hashes_collide_witness:
  "\<exists>L D. transaction_proposal_hash L D Genesis 1 2 3 = transaction_proposal_hash L D (Number (nz_of 1)) 1 2 3 \<and>
     keccak256 L (proposal_struct_data L Genesis 1 2 3) =
     keccak256 L (proposal_struct_data L (Number (nz_of 1)) 1 2 3)"
proof -
  fix F :: frost_lib
  let ?L = "demo_lib F" and ?D = "consensus_domain 1 1"
  have eq: "transaction_proposal_hash ?L ?D Genesis 1 2 3 =
      transaction_proposal_hash ?L ?D (Number (nz_of 1)) 1 2 3"
    by (simp add: transaction_proposal_hash_def signing_message_def Let_def)
  have "(Genesis, 1 :: address, 2 :: b256, 3 :: b256) \<noteq> (Number (nz_of 1), 1, 2, 3)" by simp
  from equal_proposal_hashes_collide [OF eq this] eq show ?thesis
    by (auto simp: Let_def signing_message_inject proposal_struct_data_def)
qed

end
