(* ===== verification/Messages.thy ===== *)
theory Messages
  imports Prelude
begin

text \<open>
  The vocabulary shared by the indexer, the state machine and the services
  (\<^verbatim>\<open>crates/core/src/index/\<close> and \<^verbatim>\<open>crates/core/src/state/mod.rs\<close>): block and event updates, the
  messages that drive a state transition and the commands it returns.
\<close>

record block_status =
  bs_latest :: u64
  bs_safe :: u64

text \<open>A new block carries its number, its hash, its timestamp and the bloom filter of its logs.\<close>

type_synonym bloom = "2048 word"

datatype block_update =
    Warp u64 u64
  | Uncle u64
  | New u64 b256 u64 bloom

record 'e event_log =
  log_block :: u64
  log_timestamp :: u64
  log_index :: u64
  log_address :: address
  log_data :: 'e

record 'e event_update =
  eu_first :: u64
  eu_last :: u64
  eu_logs :: "'e event_log list"

datatype 'e update =
    BlockUpdate block_update
  | Logs "'e event_update"

datatype ('e, 'r) message =
    NewBlock u64
  | Event "'e event_log"
  | Resume 'r

datatype ('a, 'f) command =
    Action 'a
  | Effect 'f

end
