(* ===== verification/Validator_State.thy ===== *)
theory Validator_State
  imports Key_Group Hashing Messages
begin

text \<open>
  The snapshotted state of the validator and the commands its transition emits
  (\<^verbatim>\<open>crates/validator/src/state/mod.rs\<close>, \<^verbatim>\<open>service/action.rs\<close>, \<^verbatim>\<open>service/effect.rs\<close>,
  \<^verbatim>\<open>secrets/store.rs\<close> for the retention kinds, and \<^verbatim>\<open>config.rs\<close>).  Every enum keeps the variants and
  the field order of the source.
\<close>

section \<open>Configuration\<close>

record validator_config =
  cfg_consensus :: address
  cfg_staker :: "address option"
  cfg_participants :: "participant list"
  cfg_oracles :: "address fset"
  cfg_genesis_salt :: b256
  cfg_blocks_per_epoch :: nonzero_u64
  cfg_key_gen_timeout :: nonzero_u64
  cfg_signing_timeout :: nonzero_u64
  cfg_oracle_timeout :: nonzero_u64

record transition =
  tr_account :: address
  tr_genesis :: participant_set
  tr_consensus :: eip712_domain
  tr_config :: validator_config

abbreviation key_gen_timeout :: "transition \<Rightarrow> u64" where
  "key_gen_timeout T \<equiv> nz_get (cfg_key_gen_timeout (tr_config T))"

abbreviation signing_timeout :: "transition \<Rightarrow> u64" where
  "signing_timeout T \<equiv> nz_get (cfg_signing_timeout (tr_config T))"

abbreviation oracle_timeout :: "transition \<Rightarrow> u64" where
  "oracle_timeout T \<equiv> nz_get (cfg_oracle_timeout (tr_config T))"

section \<open>Key generation state\<close>

record complaint =
  total :: u16
  unresponded :: "address fset"

definition complaint_default :: complaint where
  "complaint_default = \<lparr>total = 0, unresponded = {||}\<rparr>"

record confirmation_deadlines =
  dl_complain :: u64
  dl_response :: u64
  dl_confirm :: u64

datatype keygen_commitment =
    CommitParticipating "b256 list" "secrets option"
      \<comment> \<open>poap, secrets (None while the setup effect is outstanding)\<close>
  | CommitObserving

datatype keygen_participation =
    Participating sharing_state
  | Observing group_commitments

datatype keygen_confirmation =
    ConfirmObserving
  | Collecting "(address, verified_share) fmap"
  | Confirmed key_share

datatype rollover_state =
    WaitingForGenesis
  | Halted
  | EpochStaged nonzero_u64
  | EpochSkipped nonzero_u64
  | CollectingCommitments epoch_id group keygen_commitment "(address, verified_commitment) fmap" "u64 option"
      \<comment> \<open>next epoch, group, secrets, commitments, deadline\<close>
  | CollectingShares epoch_id group keygen_participation "address fset" "(address, verified_share) fmap"
      "(address, complaint) fmap" "u64 option"
      \<comment> \<open>next epoch, group, participation, shared, shares, complaints, deadline\<close>
  | CollectingConfirmations epoch_id group keygen_participation keygen_confirmation "address fset"
      "(address, complaint) fmap" "confirmation_deadlines option"
      \<comment> \<open>next epoch, group, participation, status, confirmations, complaints, deadlines\<close>
  | SigningRollover nonzero_u64 group "key_share option" b256
      \<comment> \<open>next epoch, group, key share, message\<close>

section \<open>Signing state\<close>

datatype packet =
    EpochRollover epoch_id nonzero_u64 u64 b256 point
      \<comment> \<open>active epoch, proposed epoch, rollover block, group id, group key\<close>
  | Transaction epoch_id address bytes safe_transaction
      \<comment> \<open>epoch, oracle, oracle data, transaction\<close>

record signing_selection =
  shares_from :: "address fset"
  last_signer :: "address option"

definition selection_default :: signing_selection where
  "selection_default = \<lparr>shares_from = {||}, last_signer = None\<rparr>"

datatype signing_state =
    WaitingForRequest key_share b256 "address option" packet bool "address fset" u64
      \<comment> \<open>key share, group id, responsible, packet, oracle approved, signers, deadline\<close>
  | WaitingForOracle key_share address b256 b256 packet "address fset" u64
      \<comment> \<open>key share, oracle, group id, signature id, packet, signers, deadline\<close>
  | CollectNonceCommitments key_share b256 b256 "(address, committed_nonces) fmap" packet "address fset" u64
      \<comment> \<open>key share, group id, signature id, committed, packet, signers, deadline\<close>
  | CollectSigningShares key_share b256 b256 "(address, committed_nonces) fmap"
      "(merkle_root, signing_selection) fmap" packet "address fset" u64
      \<comment> \<open>key share, group id, signature id, committed, selections, packet, signers, deadline\<close>
  | WaitingForAttestation b256 packet u64
      \<comment> \<open>signature id, packet, deadline\<close>

section \<open>The state\<close>

record epoch =
  ep_group :: group
  ep_key_share :: key_share

record state =
  rollover :: rollover_state
  active_epoch :: epoch_id
  epochs :: "(epoch_id, epoch) fmap"
  signing :: "(b256, signing_state) fmap"
  sid_to_message :: "(b256, b256) fmap"

definition initial_state :: state where
  "initial_state =
     \<lparr>rollover = WaitingForGenesis, active_epoch = Genesis, epochs = fmempty, signing = fmempty,
      sid_to_message = fmempty\<rparr>"

section \<open>Actions, effects and resumes\<close>

datatype action =
    KeyGenAndCommit merkle_root u16 u16 b256 "b256 list" kg_commitment "u64 option"
      \<comment> \<open>participants, count, threshold, context, poap, commitment, expires at\<close>
  | KeyGenSecretShare b256 kg_secret_share "u64 option"
      \<comment> \<open>group id, share, expires at\<close>
  | KeyGenComplain b256 address "u64 option"
      \<comment> \<open>group id, accused, expires at\<close>
  | KeyGenConfirm b256 "callback option" "u64 option"
      \<comment> \<open>group id, callback, expires at\<close>
  | KeyGenComplaintResponse b256 address u256 "u64 option"
      \<comment> \<open>group id, plaintiff, secret share, expires at\<close>
  | CommitNonces b256 sign_nonces u64
      \<comment> \<open>signature id, nonces, expires at\<close>
  | SignShare b256 sign_selection abi_signature_share "b256 list" callback u64
      \<comment> \<open>signature id, selection, share, proof, callback, expires at\<close>
  | SignRequest b256 b256 u64
      \<comment> \<open>group id, message, expires at\<close>
  | AttestTransaction epoch_id address b256 u256 address b256 b256 u64
      \<comment> \<open>epoch, oracle, oracle data hash, chain id, safe, struct hash, signature id, expires at\<close>
  | StageEpoch nonzero_u64 u64 b256 b256 u64
      \<comment> \<open>proposed epoch, rollover block, group id, signature id, expires at\<close>
  | SetValidatorStaker address
      \<comment> \<open>staker\<close>

datatype retained_secrets = RetainNonces | RetainAll

datatype effect =
    KeyGenSetup b256 u16 u16
      \<comment> \<open>group id, count, threshold\<close>
  | GenerateNonces b256 b256 key_share
      \<comment> \<open>group id, signature id, key share\<close>
  | UseNonces b256 b256
      \<comment> \<open>message, signature id\<close>
  | ReconcileGroupSecrets u64 "(b256, retained_secrets) fmap"
      \<comment> \<open>block, groups\<close>

datatype resume =
    Noop
  | Setup b256 secrets
      \<comment> \<open>group id, secrets\<close>
  | NonceCommitments b256 sign_nonces
      \<comment> \<open>signature id, nonces\<close>
  | Nonces b256 signing_nonces
      \<comment> \<open>message, nonces\<close>

type_synonym cmd = "(action, effect) command"
type_synonym msg = "(event, resume) message"

section \<open>Accessors\<close>

fun sgn_deadline :: "signing_state \<Rightarrow> u64" where
  "sgn_deadline (WaitingForRequest ks gid r p oa sg d) = d"
| "sgn_deadline (WaitingForOracle ks oc gid sid p sg d) = d"
| "sgn_deadline (CollectNonceCommitments ks gid sid c p sg d) = d"
| "sgn_deadline (CollectSigningShares ks gid sid c sel p sg d) = d"
| "sgn_deadline (WaitingForAttestation sid p d) = d"

fun sgn_signature_id :: "signing_state \<Rightarrow> b256 option" where
  "sgn_signature_id (WaitingForAttestation sid p d) = Some sid"
| "sgn_signature_id (WaitingForOracle ks oc gid sid p sg d) = Some sid"
| "sgn_signature_id (CollectNonceCommitments ks gid sid c p sg d) = Some sid"
| "sgn_signature_id (CollectSigningShares ks gid sid c sel p sg d) = Some sid"
| "sgn_signature_id (WaitingForRequest ks gid r p oa sg d) = None"

fun sgn_packet :: "signing_state \<Rightarrow> packet" where
  "sgn_packet (WaitingForRequest ks gid r p oa sg d) = p"
| "sgn_packet (WaitingForOracle ks oc gid sid p sg d) = p"
| "sgn_packet (CollectNonceCommitments ks gid sid c p sg d) = p"
| "sgn_packet (CollectSigningShares ks gid sid c sel p sg d) = p"
| "sgn_packet (WaitingForAttestation sid p d) = p"

fun packet_epoch :: "packet \<Rightarrow> epoch_id" where
  "packet_epoch (EpochRollover ae proposed rb gid gk) = ae"
| "packet_epoch (Transaction e oracle od tx) = e"

text \<open>\<open>RolloverState::next_epoch\<close>: the epoch a rollover works toward, none once halted.\<close>

fun next_epoch :: "rollover_state \<Rightarrow> epoch_id option" where
  "next_epoch WaitingForGenesis = Some Genesis"
| "next_epoch (EpochSkipped n) = Some (Number n)"
| "next_epoch (SigningRollover n g ks m) = Some (Number n)"
| "next_epoch (EpochStaged n) = Some (Number n)"
| "next_epoch (CollectingCommitments e g s c d) = Some e"
| "next_epoch (CollectingShares e g p sd ss cs d) = Some e"
| "next_epoch (CollectingConfirmations e g p st cf cs d) = Some e"
| "next_epoch Halted = None"

fun participation_commitments :: "keygen_participation \<Rightarrow> group_commitments" where
  "participation_commitments (Participating ss) = ss_group_commitments ss"
| "participation_commitments (Observing gc) = gc"

fun confirmed_key_share :: "keygen_confirmation \<Rightarrow> key_share option" where
  "confirmed_key_share (Confirmed ks) = Some ks"
| "confirmed_key_share _ = None"

end
