(* ===== verification/Signing.thy ===== *)
theory Signing
  imports Validator_State
begin

text \<open>
  Signing ceremonies (\<^verbatim>\<open>crates/validator/src/state/sign.rs\<close> and \<^verbatim>\<open>state/transactions.rs\<close>).  Every handler
  takes the library functions \<open>L\<close>, the transition's configuration \<open>T\<close> and the state, and returns the
  new state with the commands in the order the code pushes them.  The second half describes what
  any of them can do to one session (\<open>session_step\<close>) and shows that each handler moves every
  session along that relation.
\<close>

section \<open>Packets\<close>

fun attestation_callback :: "lib \<Rightarrow> packet \<Rightarrow> address \<Rightarrow> callback" where
  "attestation_callback L (EpochRollover ae proposed rb gid gk) consensus =
     \<lparr>cb_target = consensus,
      cb_context = abi_encode_stage_epoch L (StageEpochCall (nz_get proposed) rb gid 0)\<rparr>"
| "attestation_callback L (Transaction e oracle oracle_data tx) consensus =
     \<lparr>cb_target = consensus,
      cb_context = abi_encode_attest_transaction L
        (AttestTransactionCall (raw_value e) oracle (keccak256 L oracle_data) (tx_chain_id tx) (tx_safe tx)
           (safe_tx_struct_hash L tx) 0)\<rparr>"

fun attestation_action :: "lib \<Rightarrow> packet \<Rightarrow> b256 \<Rightarrow> u64 \<Rightarrow> action" where
  "attestation_action L (EpochRollover ae proposed rb gid gk) sid expires_at =
     StageEpoch proposed rb gid sid expires_at"
| "attestation_action L (Transaction e oracle oracle_data tx) sid expires_at =
     AttestTransaction e oracle (keccak256 L oracle_data) (tx_chain_id tx) (tx_safe tx)
       (safe_tx_struct_hash L tx) sid expires_at"

section \<open>Handlers\<close>

definition handle_sign :: "transition \<Rightarrow> state \<Rightarrow> u64 \<Rightarrow> b256 \<Rightarrow> b256 \<Rightarrow> b256 \<Rightarrow> state \<times> cmd list" where
  "handle_sign T s block gid message sid =
     (case fmlookup (signing s) message of
        Some (WaitingForRequest ks own_gid _ packet oracle_approved signers _) \<Rightarrow>
          if own_gid = gid then
            let await_oracle = (\<lambda>oracle.
                  (s\<lparr>signing := fmupd message
                       (WaitingForOracle ks oracle own_gid sid packet signers
                          (sat_add block (oracle_timeout T))) (signing s),
                     sid_to_message := fmupd sid message (sid_to_message s)\<rparr>, []));
                commit_nonces =
                  (s\<lparr>signing := fmupd message
                       (CollectNonceCommitments ks gid sid fmempty packet signers
                          (sat_add block (signing_timeout T))) (signing s),
                     sid_to_message := fmupd sid message (sid_to_message s)\<rparr>,
                   [Effect (GenerateNonces gid sid ks)])
            in (case packet of
                  Transaction _ oracle _ _ \<Rightarrow> if \<not> oracle_approved then await_oracle oracle else commit_nonces
                | EpochRollover _ _ _ _ _ \<Rightarrow> commit_nonces)
          else (s, [])
      | Some _ \<Rightarrow> (s, [])
      | None \<Rightarrow> (s, []))"

text \<open>The session a signature id refers to: \<open>signature_id_to_message.get(..).and_then(..)\<close>.\<close>

definition session_of :: "state \<Rightarrow> b256 \<Rightarrow> signing_state option" where
  "session_of s sid = Option.bind (fmlookup (sid_to_message s) sid) (fmlookup (signing s))"

definition handle_nonce_commitments :: "state \<Rightarrow> b256 \<Rightarrow> sign_nonces \<Rightarrow> state \<times> cmd list" where
  "handle_nonce_commitments s sid nonces =
     (case session_of s sid of
        Some (CollectNonceCommitments _ _ sid' _ _ _ deadline) \<Rightarrow>
          if sid' = sid then (s, [Action (CommitNonces sid nonces deadline)]) else (s, [])
      | _ \<Rightarrow> (s, []))"

definition handle_oracle_result :: "transition \<Rightarrow> state \<Rightarrow> u64 \<Rightarrow> address \<Rightarrow> b256 \<Rightarrow> bool \<Rightarrow> state \<times> cmd list" where
  "handle_oracle_result T s block oracle request_id approved =
     (case fmlookup (signing s) request_id of
        Some (WaitingForOracle ks expected own_gid sid packet signers _) \<Rightarrow>
          if expected = oracle \<and> approved then
            (s\<lparr>signing := fmupd request_id
                 (CollectNonceCommitments ks own_gid sid fmempty packet signers
                    (sat_add block (signing_timeout T))) (signing s)\<rparr>,
             [Effect (GenerateNonces own_gid sid ks)])
          else if expected = oracle \<and> \<not> approved then
            (s\<lparr>signing := fmdrop request_id (signing s),
               sid_to_message := fmdrop sid (sid_to_message s)\<rparr>, [])
          else (s, [])
      | Some _ \<Rightarrow> (s, [])
      | None \<Rightarrow> (s, []))"

text \<open>What a nonce commitment does to the commitments collected so far.\<close>

definition register_commitment :: "lib \<Rightarrow> address fset \<Rightarrow> address \<Rightarrow> sign_nonces \<Rightarrow>
    (address, committed_nonces) fmap \<Rightarrow> (address, committed_nonces) fmap" where
  "register_commitment L signers participant nonces committed =
     (if participant |\<notin>| signers then committed
      else case fmlookup committed participant of
        Some _ \<Rightarrow> committed
      | None \<Rightarrow>
          (case verify_committed_nonces (frost L) participant nonces of
             Inr verified \<Rightarrow> fmupd participant verified committed
           | Inl _ \<Rightarrow> committed))"

definition handle_sign_committed_nonces :: "lib \<Rightarrow> transition \<Rightarrow> state \<Rightarrow> u64 \<Rightarrow> b256 \<Rightarrow> address \<Rightarrow> sign_nonces \<Rightarrow>
    state \<times> cmd list" where
  "handle_sign_committed_nonces L T s block sid participant nonces =
     (case fmlookup (sid_to_message s) sid of
        None \<Rightarrow> (s, [])
      | Some message \<Rightarrow>
          (case fmlookup (signing s) message of
             Some (CollectNonceCommitments ks own_gid signature_id committed packet signers deadline) \<Rightarrow>
               let committed = register_commitment L signers participant nonces committed
               in if fm_len committed < fcard signers then
                    (s\<lparr>signing := fmupd message
                         (CollectNonceCommitments ks own_gid signature_id committed packet signers deadline)
                         (signing s)\<rparr>, [])
                  else
                    (s\<lparr>signing := fmupd message
                         (CollectSigningShares ks own_gid signature_id committed fmempty packet signers
                            (sat_add block (signing_timeout T))) (signing s)\<rparr>,
                     [Effect (UseNonces message signature_id)])
           | Some _ \<Rightarrow> (s, [])
           | None \<Rightarrow> (s, [])))"

definition handle_nonces :: "lib \<Rightarrow> transition \<Rightarrow> state \<Rightarrow> b256 \<Rightarrow> signing_nonces \<Rightarrow> state \<times> cmd list" where
  "handle_nonces L T s message nonces =
     (case fmlookup (signing s) message of
        Some (CollectSigningShares ks _ sid committed _ packet _ deadline) \<Rightarrow>
          (case signature_share_of (keccak256 L) (frost L) ks nonces committed message of
             Inl _ \<Rightarrow> (s, [])
           | Inr result \<Rightarrow>
               (s, [Action (SignShare sid (ssh_selection result) (ssh_share result) (ssh_proof result)
                      (attestation_callback L packet (cfg_consensus (tr_config T))) deadline)]))
      | _ \<Rightarrow> (s, []))"

definition record_share :: "merkle_root \<Rightarrow> address \<Rightarrow> (merkle_root, signing_selection) fmap \<Rightarrow>
    (merkle_root, signing_selection) fmap" where
  "record_share selection_root participant selections =
     (let selection = (case fmlookup selections selection_root of
                         Some sel \<Rightarrow> sel | None \<Rightarrow> selection_default)
      in fmupd selection_root
           (selection\<lparr>shares_from := finsert participant (shares_from selection),
                      last_signer := Some participant\<rparr>) selections)"

definition handle_sign_shared :: "state \<Rightarrow> b256 \<Rightarrow> merkle_root \<Rightarrow> address \<Rightarrow> state \<times> cmd list" where
  "handle_sign_shared s sid selection_root participant =
     (case fmlookup (sid_to_message s) sid of
        None \<Rightarrow> (s, [])
      | Some message \<Rightarrow>
          (case fmlookup (signing s) message of
             Some (CollectSigningShares ks own_gid signature_id committed selections packet signers deadline) \<Rightarrow>
               (s\<lparr>signing := fmupd message
                    (CollectSigningShares ks own_gid signature_id committed
                       (record_share selection_root participant selections) packet signers deadline)
                    (signing s)\<rparr>, [])
           | _ \<Rightarrow> (s, [])))"

definition handle_sign_completed :: "transition \<Rightarrow> state \<Rightarrow> u64 \<Rightarrow> b256 \<Rightarrow> state \<times> cmd list" where
  "handle_sign_completed T s block sid =
     (case fmlookup (sid_to_message s) sid of
        None \<Rightarrow> (s, [])
      | Some message \<Rightarrow>
          (case fmlookup (signing s) message of
             Some (CollectSigningShares _ _ signature_id _ _ packet _ _) \<Rightarrow>
               (s\<lparr>signing := fmupd message
                    (WaitingForAttestation signature_id packet (sat_add block (signing_timeout T)))
                    (signing s)\<rparr>, [])
           | Some _ \<Rightarrow> (s, [])
           | None \<Rightarrow> (s, [])))"

definition handle_sign_attested :: "state \<Rightarrow> b256 \<Rightarrow> state \<times> cmd list" where
  "handle_sign_attested s message =
     (let sids = (case Option.bind (fmlookup (signing s) message) sgn_signature_id of
                    Some sid \<Rightarrow> fmdrop sid (sid_to_message s)
                  | None \<Rightarrow> sid_to_message s)
      in (s\<lparr>signing := fmdrop message (signing s), sid_to_message := sids\<rparr>, []))"

section \<open>Proposed and attested transactions\<close>

definition handle_transaction_proposed :: "lib \<Rightarrow> transition \<Rightarrow> state \<Rightarrow> u64 \<Rightarrow> address \<Rightarrow> u64 \<Rightarrow> bytes \<Rightarrow>
    safe_transaction \<Rightarrow> state \<times> cmd list" where
  "handle_transaction_proposed L T s block oracle raw_epoch oracle_data tx =
     (let e = from_raw raw_epoch
      in case fmlookup (epochs s) e of
           None \<Rightarrow> (s, [])
         | Some participating \<Rightarrow>
             if oracle |\<notin>| cfg_oracles (tr_config T) then (s, [])
             else
               let message = transaction_packet_hash L (tr_consensus T) e oracle oracle_data tx
               in case fmlookup (signing s) message of
                    None \<Rightarrow>
                      (s\<lparr>signing := fmupd message
                           (WaitingForRequest (ep_key_share participating) (grp_id (ep_group participating)) None
                              (Transaction e oracle oracle_data tx) False
                              (grp_participants (ep_group participating))
                              (sat_add block (signing_timeout T))) (signing s)\<rparr>, [])
                  | Some _ \<Rightarrow> (s, []))"

definition handle_transaction_attested :: "lib \<Rightarrow> transition \<Rightarrow> state \<Rightarrow> b256 \<Rightarrow> address \<Rightarrow> u64 \<Rightarrow> b256 \<Rightarrow>
    state \<times> cmd list" where
  "handle_transaction_attested L T s tx_hash oracle raw_epoch oracle_data_hash =
     (let message = transaction_proposal_hash L (tr_consensus T) (from_raw raw_epoch) oracle oracle_data_hash
            tx_hash
      in handle_sign_attested s message)"

section \<open>Timeouts\<close>

text \<open>
  \<open>Iterator::max_by_key\<close> returns the last of the maximal elements.
\<close>

fun max_by_key :: "('a \<Rightarrow> nat) \<Rightarrow> 'a list \<Rightarrow> 'a option" where
  "max_by_key key [] = None"
| "max_by_key key (x # xs) =
     Some (fold (\<lambda>y best. if key best \<le> key y then y else best) xs x)"

definition canonical_selection :: "u16 \<Rightarrow> (merkle_root, signing_selection) fmap \<Rightarrow> signing_selection" where
  "canonical_selection threshold selections =
     (case max_by_key (\<lambda>sel. fcard (shares_from sel))
             (filter (\<lambda>sel. unat threshold \<le> fcard (shares_from sel)) (fm_values selections)) of
        Some sel \<Rightarrow> sel
      | None \<Rightarrow> selection_default)"

text \<open>
  What \<open>retain\<close> does with one session: the session it keeps (if any), the commands it pushes and the
  signature id it unlinks.
\<close>

definition timeout_session :: "lib \<Rightarrow> transition \<Rightarrow> u64 \<Rightarrow> b256 \<Rightarrow> signing_state \<Rightarrow>
    signing_state option \<times> cmd list \<times> b256 option" where
  "timeout_session L T block message session =
     (let next_deadline = sat_add block (signing_timeout T);
          me = tr_account T
      in if block < sgn_deadline session then (Some session, [], None)
         else case session of
           WaitingForRequest ks own_gid responsible packet oracle_approved signers _ \<Rightarrow>
             (case responsible of
                None \<Rightarrow> (None, [], None)
              | Some previously_responsible \<Rightarrow>
                  let signers = signers |-| {|previously_responsible|}
                  in if fcard signers < unat (ks_threshold ks) \<or> me |\<notin>| signers then (None, [], None)
                     else (Some (WaitingForRequest ks own_gid None packet oracle_approved signers next_deadline),
                           [Action (SignRequest own_gid message next_deadline)], None))
         | WaitingForOracle _ _ _ sid _ _ _ \<Rightarrow> (None, [], Some sid)
         | CollectNonceCommitments ks own_gid sid committed packet signers _ \<Rightarrow>
             if fm_len committed < unat (ks_threshold ks) \<or> \<not> fm_has committed me then (None, [], Some sid)
             else (Some (CollectSigningShares ks own_gid sid committed fmempty packet (fmdom committed) next_deadline),
                   [Effect (UseNonces message sid)], None)
         | CollectSigningShares ks own_gid sid committed selections packet _ _ \<Rightarrow>
             let canonical = canonical_selection (ks_threshold ks) selections;
                 signers = shares_from canonical;
                 last = last_signer canonical
             in if fcard signers < unat (ks_threshold ks) \<or> me |\<notin>| signers then (None, [], Some sid)
                else (Some (WaitingForRequest ks own_gid last packet True signers next_deadline),
                      (if last = Some me then [Action (SignRequest own_gid message next_deadline)] else []),
                      Some sid)
         | WaitingForAttestation sid packet _ \<Rightarrow>
             (None, [Action (attestation_action L packet sid next_deadline)], Some sid))"

text \<open>\<open>retain\<close> visits the sessions in ascending message order.\<close>

definition retain_session :: "lib \<Rightarrow> transition \<Rightarrow> u64 \<Rightarrow> b256 \<Rightarrow> state \<times> cmd list \<Rightarrow> state \<times> cmd list" where
  "retain_session L T block message acc =
     (let (s, commands) = acc
      in case fmlookup (signing s) message of
           None \<Rightarrow> acc
         | Some session \<Rightarrow>
             let (kept, pushed, unlinked) = timeout_session L T block message session
             in (s\<lparr>signing := (case kept of Some session' \<Rightarrow> fmupd message session' (signing s)
                                          | None \<Rightarrow> fmdrop message (signing s)),
                   sid_to_message := (case unlinked of Some sid \<Rightarrow> fmdrop sid (sid_to_message s)
                                                      | None \<Rightarrow> sid_to_message s)\<rparr>,
                 commands @ pushed))"

definition handle_signing_timeouts :: "lib \<Rightarrow> transition \<Rightarrow> state \<Rightarrow> u64 \<Rightarrow> state \<times> cmd list" where
  "handle_signing_timeouts L T s block =
     fold (retain_session L T block) (fm_keys (signing s)) (s, [])"

section \<open>What a handler can do to one session\<close>

text \<open>
  The life of the session of one message.  \<open>E\<close> is the table of participating epochs a session can be
  opened from and \<open>A\<close> is the oracle that approves the message in this step, if one does.
\<close>

fun cleared :: "packet \<Rightarrow> bool \<Rightarrow> bool" where
  "cleared (Transaction e oracle od tx) oracle_approved = oracle_approved"
| "cleared (EpochRollover e n rb gid gk) oracle_approved = True"

inductive session_step :: "lib \<Rightarrow> transition \<Rightarrow> (epoch_id, epoch) fmap \<Rightarrow> address option \<Rightarrow> b256 \<Rightarrow>
    signing_state option \<Rightarrow> signing_state option \<Rightarrow> bool"
  for L T E A m where
  stay: "session_step L T E A m x x"
| drop: "session_step L T E A m (Some x) None"
| open_transaction:
    "fmlookup E e = Some ep \<Longrightarrow> oracle |\<in>| cfg_oracles (tr_config T) \<Longrightarrow>
     m = transaction_packet_hash L (tr_consensus T) e oracle od tx \<Longrightarrow>
     session_step L T E A m None
       (Some (WaitingForRequest (ep_key_share ep) (grp_id (ep_group ep)) None (Transaction e oracle od tx) False
          (grp_participants (ep_group ep)) d))"
| open_rollover:
    "fmlookup E e = Some ep \<Longrightarrow> m = epoch_rollover_hash L (tr_consensus T) e n rb gk \<Longrightarrow>
     session_step L T E A m x
       (Some (WaitingForRequest (ep_key_share ep) (grp_id (ep_group ep)) r (EpochRollover e n rb gid gk) False
          (grp_participants (ep_group ep)) d))"
| await_oracle:
    "session_step L T E A m (Some (WaitingForRequest ks gid r (Transaction e oracle od tx) False sg d))
       (Some (WaitingForOracle ks oracle gid sid (Transaction e oracle od tx) sg d'))"
| begin_nonces:
    "cleared p oa \<Longrightarrow>
     session_step L T E A m (Some (WaitingForRequest ks gid r p oa sg d))
       (Some (CollectNonceCommitments ks gid sid fmempty p sg d'))"
| approve:
    "A = Some oracle \<Longrightarrow>
     session_step L T E A m (Some (WaitingForOracle ks oracle gid sid p sg d))
       (Some (CollectNonceCommitments ks gid sid fmempty p sg d'))"
| commit:
    "c' = register_commitment L sg a n c \<Longrightarrow>
     session_step L T E A m (Some (CollectNonceCommitments ks gid sid c p sg d))
       (Some (CollectNonceCommitments ks gid sid c' p sg d))"
| close:
    "c' = register_commitment L sg a n c \<Longrightarrow> fcard sg \<le> fm_len c' \<Longrightarrow>
     session_step L T E A m (Some (CollectNonceCommitments ks gid sid c p sg d))
       (Some (CollectSigningShares ks gid sid c' fmempty p sg d'))"
| continue_without:
    "unat (ks_threshold ks) \<le> fm_len c \<Longrightarrow> fm_has c (tr_account T) \<Longrightarrow>
     session_step L T E A m (Some (CollectNonceCommitments ks gid sid c p sg d))
       (Some (CollectSigningShares ks gid sid c fmempty p (fmdom c) d'))"
| share:
    "session_step L T E A m (Some (CollectSigningShares ks gid sid c sel p sg d))
       (Some (CollectSigningShares ks gid sid c (record_share rt a sel) p sg d))"
| complete:
    "session_step L T E A m (Some (CollectSigningShares ks gid sid c sel p sg d))
       (Some (WaitingForAttestation sid p d'))"
| retry:
    "unat (ks_threshold ks) \<le> fcard (sg |-| {|r|}) \<Longrightarrow> tr_account T |\<in>| sg |-| {|r|} \<Longrightarrow>
     session_step L T E A m (Some (WaitingForRequest ks gid (Some r) p oa sg d))
       (Some (WaitingForRequest ks gid None p oa (sg |-| {|r|}) d'))"
| restart:
    "can = canonical_selection (ks_threshold ks) sel \<Longrightarrow> unat (ks_threshold ks) \<le> fcard (shares_from can) \<Longrightarrow>
     tr_account T |\<in>| shares_from can \<Longrightarrow> r = last_signer can \<Longrightarrow> sg' = shares_from can \<Longrightarrow>
     session_step L T E A m (Some (CollectSigningShares ks gid sid c sel p sg d))
       (Some (WaitingForRequest ks gid r p True sg' d'))"

abbreviation sessions_step :: "lib \<Rightarrow> transition \<Rightarrow> (b256 \<Rightarrow> address option) \<Rightarrow> state \<Rightarrow> state \<Rightarrow> bool" where
  "sessions_step L T A s s' \<equiv>
     \<forall>m. session_step L T (epochs s) (A m) m (fmlookup (signing s) m) (fmlookup (signing s') m)"

lemma handle_sign_steps: "sessions_step L T A s (fst (handle_sign T s block gid m sid))"
  by (auto simp: handle_sign_def Let_def intro!: begin_nonces intro: session_step.intros
      split: option.split signing_state.split packet.split)

lemma handle_oracle_result_steps:
  "A m = (if approved then Some oracle else None) \<Longrightarrow>
   sessions_step L T A s (fst (handle_oracle_result T s block oracle m approved))"
  by (auto simp: handle_oracle_result_def intro: session_step.intros
      split: option.split signing_state.split)

lemma handle_sign_committed_nonces_steps:
  "sessions_step L T A s (fst (handle_sign_committed_nonces L T s block sid a n))"
  by (auto simp: handle_sign_committed_nonces_def Let_def not_less intro: session_step.intros
      split: option.split signing_state.split)

lemma handle_sign_shared_steps: "sessions_step L T A s (fst (handle_sign_shared s sid rt a))"
  by (auto simp: handle_sign_shared_def intro: session_step.intros split: option.split signing_state.split)

lemma handle_sign_completed_steps: "sessions_step L T A s (fst (handle_sign_completed T s block sid))"
  by (auto simp: handle_sign_completed_def intro: session_step.intros split: option.split signing_state.split)

lemma dropped_step: "session_step L T E A m x None"
  by (cases x) (auto intro: session_step.intros)

lemma handle_sign_attested_steps: "sessions_step L T A s (fst (handle_sign_attested s m))"
  by (auto simp: handle_sign_attested_def Let_def intro: dropped_step stay)

lemma handle_transaction_proposed_steps:
  "sessions_step L T A s (fst (handle_transaction_proposed L T s block oracle re od tx))"
  by (auto simp: handle_transaction_proposed_def Let_def intro: session_step.intros split: option.split)

lemma handle_transaction_attested_steps:
  "sessions_step L T A s (fst (handle_transaction_attested L T s th oracle re dh))"
  unfolding handle_transaction_attested_def Let_def by (rule handle_sign_attested_steps)

lemma timeout_session_step:
  "session_step L T E A m (Some x) (fst (timeout_session L T block m x))"
  by (auto simp: timeout_session_def Let_def not_less intro: session_step.intros
      split: signing_state.split option.split)

section \<open>The timeout sweep\<close>

text \<open>
  The sweep acts on each session as \<open>timeout_session\<close> says and unlinks exactly the signature ids it
  returns.
\<close>

definition swept :: "lib \<Rightarrow> transition \<Rightarrow> u64 \<Rightarrow> b256 \<Rightarrow> signing_state option \<Rightarrow> signing_state option" where
  "swept L T block m x = Option.bind x (\<lambda>x. fst (timeout_session L T block m x))"

definition unlinked :: "lib \<Rightarrow> transition \<Rightarrow> u64 \<Rightarrow> (b256, signing_state) fmap \<Rightarrow> b256 \<Rightarrow> b256 \<Rightarrow> bool" where
  "unlinked L T block sg m sid \<longleftrightarrow>
     (\<exists>x. fmlookup sg m = Some x \<and> snd (snd (timeout_session L T block m x)) = Some sid)"

lemma retain_session_signing:
  "fmlookup (signing (fst (retain_session L T block k acc))) m =
     (if m = k then swept L T block k (fmlookup (signing (fst acc)) k) else fmlookup (signing (fst acc)) m)"
  by (auto simp: retain_session_def swept_def Let_def split: prod.split option.split)

lemma retain_session_sids:
  "fmlookup (sid_to_message (fst (retain_session L T block k acc))) sid =
     (if unlinked L T block (signing (fst acc)) k sid then None else fmlookup (sid_to_message (fst acc)) sid)"
  by (auto simp: retain_session_def unlinked_def Let_def split: prod.split option.split)

lemma retain_session_frame:
  "rollover (fst (retain_session L T block k acc)) = rollover (fst acc)"
  "active_epoch (fst (retain_session L T block k acc)) = active_epoch (fst acc)"
  "epochs (fst (retain_session L T block k acc)) = epochs (fst acc)"
  by (auto simp: retain_session_def Let_def split: prod.split option.split)

lemma retain_sessions_frame:
  "rollover (fst (fold (retain_session L T block) ks acc)) = rollover (fst acc)"
  "active_epoch (fst (fold (retain_session L T block) ks acc)) = active_epoch (fst acc)"
  "epochs (fst (fold (retain_session L T block) ks acc)) = epochs (fst acc)"
  by (induction ks arbitrary: acc) (simp_all add: retain_session_frame)

lemma retain_sessions_signing:
  "distinct ks \<Longrightarrow>
   fmlookup (signing (fst (fold (retain_session L T block) ks acc))) m =
     (if m \<in> set ks then swept L T block m (fmlookup (signing (fst acc)) m) else fmlookup (signing (fst acc)) m)"
  by (induction ks arbitrary: acc) (auto simp: retain_session_signing)

lemma unlinked_cong:
  "fmlookup sg m = fmlookup sg' m \<Longrightarrow> unlinked L T block sg m sid = unlinked L T block sg' m sid"
  by (simp add: unlinked_def)

lemma retain_sessions_sids:
  "distinct ks \<Longrightarrow>
   fmlookup (sid_to_message (fst (fold (retain_session L T block) ks acc))) sid =
     (if \<exists>m\<in>set ks. unlinked L T block (signing (fst acc)) m sid then None
      else fmlookup (sid_to_message (fst acc)) sid)"
proof (induction ks arbitrary: acc)
  case (Cons k ks)
  have "unlinked L T block (signing (fst (retain_session L T block k acc))) m sid =
      unlinked L T block (signing (fst acc)) m sid" if "m \<in> set ks" for m
    using that Cons.prems by (intro unlinked_cong) (auto simp: retain_session_signing)
  then show ?case using Cons by (auto simp: retain_session_sids)
qed simp

lemma signing_timeouts_signing:
  "fmlookup (signing (fst (handle_signing_timeouts L T s block))) m = swept L T block m (fmlookup (signing s) m)"
  by (auto simp: handle_signing_timeouts_def retain_sessions_signing swept_def fmlookup_dom_iff
      split: Option.bind_split)

lemma signing_timeouts_sids:
  "fmlookup (sid_to_message (fst (handle_signing_timeouts L T s block))) sid =
     (if \<exists>m. unlinked L T block (signing s) m sid then None else fmlookup (sid_to_message s) sid)"
proof -
  have "(\<exists>m\<in>set (fm_keys (signing s)). unlinked L T block (signing s) m sid) \<longleftrightarrow>
      (\<exists>m. unlinked L T block (signing s) m sid)"
    by (auto simp: unlinked_def fmlookup_dom_iff)
  then show ?thesis by (simp add: handle_signing_timeouts_def retain_sessions_sids)
qed

lemma handle_signing_timeouts_steps: "sessions_step L T A s (fst (handle_signing_timeouts L T s block))"
proof
  fix m show "session_step L T (epochs s) (A m) m (fmlookup (signing s) m)
      (fmlookup (signing (fst (handle_signing_timeouts L T s block))) m)"
    unfolding signing_timeouts_signing swept_def
    by (cases "fmlookup (signing s) m") (auto intro: stay timeout_session_step)
qed

text \<open>The commands of the sweep are those of the single sessions, in ascending message order.\<close>

definition pushed :: "lib \<Rightarrow> transition \<Rightarrow> u64 \<Rightarrow> (b256, signing_state) fmap \<Rightarrow> b256 \<Rightarrow> cmd list" where
  "pushed L T block sg m =
     (case fmlookup sg m of None \<Rightarrow> [] | Some x \<Rightarrow> fst (snd (timeout_session L T block m x)))"

lemma retain_session_commands:
  "snd (retain_session L T block k acc) = snd acc @ pushed L T block (signing (fst acc)) k"
  by (auto simp: retain_session_def pushed_def Let_def split: prod.split option.split)

lemma retain_sessions_commands:
  "distinct ks \<Longrightarrow>
   snd (fold (retain_session L T block) ks acc) =
     snd acc @ concat (map (pushed L T block (signing (fst acc))) ks)"
proof (induction ks arbitrary: acc)
  case (Cons k ks)
  have "map (pushed L T block (signing (fst (retain_session L T block k acc)))) ks =
      map (pushed L T block (signing (fst acc))) ks"
    using Cons.prems by (intro map_cong) (auto simp: pushed_def retain_session_signing)
  then have eq: "concat (map (pushed L T block (signing (fst (retain_session L T block k acc)))) ks) =
      concat (map (pushed L T block (signing (fst acc))) ks)"
    by (rule arg_cong)
  show ?case using Cons.prems by (simp only: fold_simps comp_apply Cons.IH distinct.simps eq
        retain_session_commands append_assoc list.map concat.simps)
qed simp

lemma signing_timeouts_commands:
  "snd (handle_signing_timeouts L T s block) = concat (map (pushed L T block (signing s)) (fm_keys (signing s)))"
  by (simp add: handle_signing_timeouts_def retain_sessions_commands)

lemmas signing_timeouts_frame [simp] =
  retain_sessions_frame [of L T block "fm_keys (signing s)" "(s, [])", folded handle_signing_timeouts_def, simplified]
  for L T block s

lemma swept_deadline:
  assumes "block \<noteq> - 1" "swept L T block m x = Some y"
  shows "block < sgn_deadline y"
proof -
  have "block < sat_add block (signing_timeout T)" using assms(1) by (simp add: sat_add_gt)
  then show ?thesis using assms(2)
    by (auto simp: swept_def timeout_session_def Let_def split: Option.bind_splits signing_state.splits
        option.splits if_splits)
qed

section \<open>The canonical selection\<close>

lemma fold_max_props:
  "fold (\<lambda>y best. if key best \<le> key y then y else best) xs x \<in> insert x (set xs) \<and>
   (\<forall>z\<in>insert x (set xs). (key z :: nat) \<le> key (fold (\<lambda>y best. if key best \<le> key y then y else best) xs x))"
proof (induction xs arbitrary: x)
  case (Cons y ys)
  let ?b = "if key x \<le> key y then y else x"
  have "key x \<le> key ?b" "key y \<le> key ?b" by auto
  with Cons [of ?b] show ?case by (auto intro: order_trans split: if_splits)
qed simp

lemma max_by_key_Some:
  assumes "max_by_key key xs = Some z"
  shows "z \<in> set xs" "y \<in> set xs \<Longrightarrow> key y \<le> key z"
  using assms fold_max_props [of key "tl xs" "hd xs"] by (cases xs; auto)+

lemma max_by_key_None [simp]: "max_by_key key xs = None \<longleftrightarrow> xs = []"
  by (cases xs) auto

lemma canonical_selection_cases:
  obtains rt where "fmlookup selections rt = Some (canonical_selection t selections)"
    "unat t \<le> fcard (shares_from (canonical_selection t selections))"
    "\<forall>rt' sel. fmlookup selections rt' = Some sel \<longrightarrow>
       fcard (shares_from sel) \<le> fcard (shares_from (canonical_selection t selections))"
  | "canonical_selection t selections = selection_default"
    "\<forall>rt sel. fmlookup selections rt = Some sel \<longrightarrow> fcard (shares_from sel) < unat t"
proof (cases "max_by_key (\<lambda>sel. fcard (shares_from sel))
      (filter (\<lambda>sel. unat t \<le> fcard (shares_from sel)) (fm_values selections))")
  case None
  then have "\<forall>sel\<in>set (fm_values selections). fcard (shares_from sel) < unat t"
    by (auto simp: filter_empty_conv not_le)
  then show ?thesis using that(2) None by (auto simp: set_fm_values canonical_selection_def)
next
  case (Some sel)
  note can = max_by_key_Some [OF Some]
  have eq: "canonical_selection t selections = sel" by (simp add: canonical_selection_def Some)
  from can(1) obtain rt where rt: "fmlookup selections rt = Some sel" and t: "unat t \<le> fcard (shares_from sel)"
    by (auto simp: set_fm_values)
  moreover have "fcard (shares_from sel') \<le> fcard (shares_from sel)" if "fmlookup selections rt' = Some sel'" for rt' sel'
    using can(2) [of sel'] that t by (cases "unat t \<le> fcard (shares_from sel')") (auto simp: set_fm_values)
  ultimately show ?thesis using that(1) eq by auto
qed

section \<open>Signature ids\<close>

text \<open>
  The index from signature ids to messages holds exactly the signature ids of the open sessions.
\<close>

definition sid_index :: "(b256, signing_state) fmap \<Rightarrow> (b256, b256) fmap \<Rightarrow> bool" where
  "sid_index sg sids \<longleftrightarrow>
     (\<forall>sid m. fmlookup sids sid = Some m \<longleftrightarrow>
        (\<exists>x. fmlookup sg m = Some x \<and> sgn_signature_id x = Some sid))"

lemma sid_indexD:
  assumes "sid_index sg sids"
  shows "fmlookup sids sid = Some m \<Longrightarrow> \<exists>x. fmlookup sg m = Some x \<and> sgn_signature_id x = Some sid"
    "fmlookup sg m = Some x \<Longrightarrow> sgn_signature_id x = Some sid \<Longrightarrow> fmlookup sids sid = Some m"
  using assms by (auto simp: sid_index_def)

lemma sid_index_replace:
  assumes "sid_index sg sids" "fmlookup sg m = Some x" "sgn_signature_id y = sgn_signature_id x"
  shows "sid_index (fmupd m y sg) sids"
  unfolding sid_index_def
proof (intro allI)
  fix sid m' show "fmlookup sids sid = Some m' \<longleftrightarrow>
      (\<exists>z. fmlookup (fmupd m y sg) m' = Some z \<and> sgn_signature_id z = Some sid)"
    using assms by (cases "m' = m") (auto simp: sid_index_def)
qed

lemma sid_index_assign:
  assumes "sid_index sg sids" "fmlookup sg m = Some x" "sgn_signature_id x = None"
    and "sgn_signature_id y = Some sid" "fmlookup sids sid = None"
  shows "sid_index (fmupd m y sg) (fmupd sid m sids)"
  unfolding sid_index_def
proof (intro allI)
  fix sid' m'
  have "fmlookup sids sid' = Some m' \<longleftrightarrow>
      (\<exists>z. fmlookup sg m' = Some z \<and> sgn_signature_id z = Some sid')" for sid' m'
    using assms(1) by (simp add: sid_index_def)
  then show "fmlookup (fmupd sid m sids) sid' = Some m' \<longleftrightarrow>
      (\<exists>z. fmlookup (fmupd m y sg) m' = Some z \<and> sgn_signature_id z = Some sid')"
    using assms(2-) by (cases "m' = m"; cases "sid' = sid") force+
qed

lemma sid_index_open:
  assumes "sid_index sg sids" "fmlookup sg m = None" "sgn_signature_id y = None"
  shows "sid_index (fmupd m y sg) sids"
  unfolding sid_index_def
proof (intro allI)
  fix sid' m'
  have "fmlookup sids sid' = Some m' \<longleftrightarrow>
      (\<exists>z. fmlookup sg m' = Some z \<and> sgn_signature_id z = Some sid')" for sid' m'
    using assms(1) by (simp add: sid_index_def)
  then show "fmlookup sids sid' = Some m' \<longleftrightarrow>
      (\<exists>z. fmlookup (fmupd m y sg) m' = Some z \<and> sgn_signature_id z = Some sid')"
    using assms(2-) by (cases "m' = m") auto
qed

lemma sid_index_drop:
  assumes "sid_index sg sids"
  shows "sid_index (fmdrop m sg)
    (case Option.bind (fmlookup sg m) sgn_signature_id of Some sid \<Rightarrow> fmdrop sid sids | None \<Rightarrow> sids)"
  unfolding sid_index_def
proof (intro allI)
  fix sid' m'
  have ix: "fmlookup sids sid' = Some m' \<longleftrightarrow>
      (\<exists>z. fmlookup sg m' = Some z \<and> sgn_signature_id z = Some sid')" for sid' m'
    using assms by (simp add: sid_index_def)
  then have inj: "fmlookup sg m = Some x \<Longrightarrow> sgn_signature_id x = Some sid' \<Longrightarrow>
      fmlookup sg m' = Some z \<Longrightarrow> sgn_signature_id z = Some sid' \<Longrightarrow> m' = m" for x z
    by (metis option.inject)
  show "fmlookup (case Option.bind (fmlookup sg m) sgn_signature_id of
        Some sid \<Rightarrow> fmdrop sid sids | None \<Rightarrow> sids) sid' = Some m' \<longleftrightarrow>
      (\<exists>z. fmlookup (fmdrop m sg) m' = Some z \<and> sgn_signature_id z = Some sid')"
    using inj by (cases "m' = m") (auto simp: ix split: option.split Option.bind_split)
qed

lemma handle_sign_sids:
  assumes "sid_index (signing s) (sid_to_message s)" "fmlookup (sid_to_message s) sid = None"
    and "s' = fst (handle_sign T s block gid m sid)"
  shows "sid_index (signing s') (sid_to_message s')"
  using assms
  by (auto simp: handle_sign_def Let_def intro: sid_index_assign
      split: option.splits signing_state.splits packet.splits if_splits)

lemma handle_sign_attested_sids:
  "sid_index (signing s) (sid_to_message s) \<Longrightarrow> s' = fst (handle_sign_attested s m) \<Longrightarrow>
   sid_index (signing s') (sid_to_message s')"
  by (simp add: handle_sign_attested_def Let_def sid_index_drop)

lemma handle_oracle_result_sids:
  assumes "sid_index (signing s) (sid_to_message s)"
    and "s' = fst (handle_oracle_result T s block oracle m approved)"
  shows "sid_index (signing s') (sid_to_message s')"
  using assms sid_index_drop [OF assms(1), of m]
  by (auto simp: handle_oracle_result_def intro: sid_index_replace
      split: option.splits signing_state.splits if_splits)

lemma handle_sign_committed_nonces_sids:
  "sid_index (signing s) (sid_to_message s) \<Longrightarrow>
   s' = fst (handle_sign_committed_nonces L T s block sid a n) \<Longrightarrow> sid_index (signing s') (sid_to_message s')"
  by (auto simp: handle_sign_committed_nonces_def Let_def intro: sid_index_replace
      split: option.splits signing_state.splits if_splits)

lemma handle_sign_shared_sids:
  "sid_index (signing s) (sid_to_message s) \<Longrightarrow> s' = fst (handle_sign_shared s sid rt a) \<Longrightarrow>
   sid_index (signing s') (sid_to_message s')"
  by (auto simp: handle_sign_shared_def intro: sid_index_replace split: option.splits signing_state.splits)

lemma handle_sign_completed_sids:
  "sid_index (signing s) (sid_to_message s) \<Longrightarrow> s' = fst (handle_sign_completed T s block sid) \<Longrightarrow>
   sid_index (signing s') (sid_to_message s')"
  by (auto simp: handle_sign_completed_def intro: sid_index_replace split: option.splits signing_state.splits)

lemma handle_transaction_proposed_sids:
  "sid_index (signing s) (sid_to_message s) \<Longrightarrow>
   s' = fst (handle_transaction_proposed L T s block oracle re od tx) \<Longrightarrow>
   sid_index (signing s') (sid_to_message s')"
  by (auto simp: handle_transaction_proposed_def Let_def intro: sid_index_open split: option.splits if_splits)

text \<open>A session that the sweep keeps and does not unlink keeps its signature id.\<close>

lemma timeout_session_sids:
  assumes "timeout_session L T block m x = (kept, cmds, u)"
  shows "u = Some sid \<Longrightarrow> sgn_signature_id x = Some sid"
    "u = Some sid \<Longrightarrow> kept = Some y \<Longrightarrow> sgn_signature_id y = None"
    "u = None \<Longrightarrow> kept = Some y \<Longrightarrow> sgn_signature_id y = sgn_signature_id x"
    "u = None \<Longrightarrow> kept = None \<Longrightarrow> sgn_signature_id x = None"
  using assms
  by (auto simp: timeout_session_def Let_def split: signing_state.splits option.splits if_splits)

lemma handle_signing_timeouts_sids:
  assumes ix: "sid_index (signing s) (sid_to_message s)"
    and s': "s' = fst (handle_signing_timeouts L T s block)"
  shows "sid_index (signing s') (sid_to_message s')"
  unfolding sid_index_def
proof (intro allI iffI)
  fix sid m
  {
    assume "fmlookup (sid_to_message s') sid = Some m"
    then have "fmlookup (sid_to_message s) sid = Some m" and kept: "\<not> unlinked L T block (signing s) m sid"
      by (auto simp: s' signing_timeouts_sids split: if_splits)
    then obtain x where x: "fmlookup (signing s) m = Some x" "sgn_signature_id x = Some sid"
      using sid_indexD(1) [OF ix] by blast
    obtain k c u where t: "timeout_session L T block m x = (k, c, u)" by (cases rule: prod_cases3)
    have "u = None" using kept x timeout_session_sids(1) [OF t] t by (cases u) (auto simp: unlinked_def)
    moreover from this obtain y where "k = Some y" using timeout_session_sids(4) [OF t] x by (cases k) auto
    ultimately show "\<exists>y. fmlookup (signing s') m = Some y \<and> sgn_signature_id y = Some sid"
      using timeout_session_sids(3) [OF t] x t by (simp add: s' signing_timeouts_signing swept_def)
  }
  {
    assume "\<exists>y. fmlookup (signing s') m = Some y \<and> sgn_signature_id y = Some sid"
    then obtain x y where x: "fmlookup (signing s) m = Some x"
      and y: "fst (timeout_session L T block m x) = Some y" "sgn_signature_id y = Some sid"
      by (auto simp: s' signing_timeouts_signing swept_def split: Option.bind_splits)
    obtain c u where t: "timeout_session L T block m x = (Some y, c, u)"
      using y by (metis prod.collapse)
    have u: "u = None" using timeout_session_sids(2) [OF t] y by (cases u) auto
    then have xs: "sgn_signature_id x = Some sid" using timeout_session_sids(3) [OF t] y by simp
    have "\<not> unlinked L T block (signing s) m' sid" for m'
    proof
      assume "unlinked L T block (signing s) m' sid"
      then obtain x' where x': "fmlookup (signing s) m' = Some x'"
        and u': "snd (snd (timeout_session L T block m' x')) = Some sid" by (auto simp: unlinked_def)
      obtain k' c' where t': "timeout_session L T block m' x' = (k', c', Some sid)"
        using u' by (metis prod.collapse)
      have "sgn_signature_id x' = Some sid" using timeout_session_sids(1) [OF t'] by simp
      then have "m' = m" using sid_indexD(2) [OF ix] x x' xs by (metis option.inject)
      then show False using x x' t t' u by simp
    qed
    then show "fmlookup (sid_to_message s') sid = Some m"
      using sid_indexD(2) [OF ix x xs] by (simp add: s' signing_timeouts_sids)
  }
qed

section \<open>Sound sessions\<close>

text \<open>
  What holds of every session: its message is the hash of its packet, a transaction names an allowed
  oracle, an oracle wait is for the packet's own oracle, nonces are only collected from the signers,
  and in the share round the nonce commitments are exactly those of the signers.
\<close>

fun packet_hash :: "lib \<Rightarrow> transition \<Rightarrow> packet \<Rightarrow> b256" where
  "packet_hash L T (EpochRollover e n rb gid gk) = epoch_rollover_hash L (tr_consensus T) e n rb gk"
| "packet_hash L T (Transaction e oracle od tx) = transaction_packet_hash L (tr_consensus T) e oracle od tx"

fun packet_oracle :: "packet \<Rightarrow> address option" where
  "packet_oracle (EpochRollover e n rb gid gk) = None"
| "packet_oracle (Transaction e oracle od tx) = Some oracle"

fun round_sound :: "signing_state \<Rightarrow> bool" where
  "round_sound (WaitingForRequest ks gid r p oa sg d) = True"
| "round_sound (WaitingForOracle ks oracle gid sid p sg d) = (packet_oracle p = Some oracle)"
| "round_sound (CollectNonceCommitments ks gid sid c p sg d) = (fmdom c |\<subseteq>| sg)"
| "round_sound (CollectSigningShares ks gid sid c sel p sg d) = (fmdom c = sg)"
| "round_sound (WaitingForAttestation sid p d) = True"

definition session_sound :: "lib \<Rightarrow> transition \<Rightarrow> b256 \<Rightarrow> signing_state \<Rightarrow> bool" where
  "session_sound L T m x \<longleftrightarrow>
     m = packet_hash L T (sgn_packet x) \<and>
     pred_option (\<lambda>oracle. oracle |\<in>| cfg_oracles (tr_config T)) (packet_oracle (sgn_packet x)) \<and>
     round_sound x"

lemma register_commitment_dom: "fmdom c |\<subseteq>| sg \<Longrightarrow> fmdom (register_commitment L sg a n c) |\<subseteq>| sg"
  by (auto simp: register_commitment_def split: option.split sum.split)

lemma register_commitment_full:
  "fmdom c |\<subseteq>| sg \<Longrightarrow> fcard sg \<le> fm_len (register_commitment L sg a n c) \<Longrightarrow>
   fmdom (register_commitment L sg a n c) = sg"
  by (rule fsubset_fcard_le_eq [OF register_commitment_dom]) (simp_all add: fm_len_def)

lemma session_step_sound:
  "session_step L T E A m x y \<Longrightarrow> pred_option (session_sound L T m) x \<Longrightarrow> pred_option (session_sound L T m) y"
  by (induction rule: session_step.induct)
    (auto simp: session_sound_def register_commitment_dom register_commitment_full)

text \<open>
  A session belongs to an epoch in which this validator takes part, uses its key share and group and
  counts this validator among the signers.
\<close>

fun session_keyed :: "transition \<Rightarrow> (epoch_id, epoch) fmap \<Rightarrow> signing_state \<Rightarrow> bool" where
  "session_keyed T E (WaitingForRequest ks gid r p oa sg d) =
     (tr_account T |\<in>| sg \<and>
      (case fmlookup E (packet_epoch p) of Some ep \<Rightarrow> ks = ep_key_share ep \<and> gid = grp_id (ep_group ep) | None \<Rightarrow> False))"
| "session_keyed T E (WaitingForOracle ks oracle gid sid p sg d) =
     (tr_account T |\<in>| sg \<and>
      (case fmlookup E (packet_epoch p) of Some ep \<Rightarrow> ks = ep_key_share ep \<and> gid = grp_id (ep_group ep) | None \<Rightarrow> False))"
| "session_keyed T E (CollectNonceCommitments ks gid sid c p sg d) =
     (tr_account T |\<in>| sg \<and>
      (case fmlookup E (packet_epoch p) of Some ep \<Rightarrow> ks = ep_key_share ep \<and> gid = grp_id (ep_group ep) | None \<Rightarrow> False))"
| "session_keyed T E (CollectSigningShares ks gid sid c sel p sg d) =
     (tr_account T |\<in>| sg \<and>
      (case fmlookup E (packet_epoch p) of Some ep \<Rightarrow> ks = ep_key_share ep \<and> gid = grp_id (ep_group ep) | None \<Rightarrow> False))"
| "session_keyed T E (WaitingForAttestation sid p d) = fm_has E (packet_epoch p)"

definition epochs_joined :: "transition \<Rightarrow> (epoch_id, epoch) fmap \<Rightarrow> bool" where
  "epochs_joined T E \<longleftrightarrow> (\<forall>e ep. fmlookup E e = Some ep \<longrightarrow> tr_account T |\<in>| grp_participants (ep_group ep))"

lemma session_step_keyed:
  "session_step L T E A m x y \<Longrightarrow> epochs_joined T E \<Longrightarrow> pred_option (session_keyed T E) x \<Longrightarrow>
   pred_option (session_keyed T E) y"
  by (induction rule: session_step.induct)
    (auto simp: epochs_joined_def fm_has_iff fmlookup_dom_iff split: option.splits)

lemma session_keyed_epoch: "session_keyed T E x \<Longrightarrow> fm_has E (packet_epoch (sgn_packet x))"
  by (cases x) (auto simp: fm_has_def split: option.splits)

text \<open>The session only looks at its own epoch.\<close>

lemma session_keyed_cong:
  "session_keyed T E x \<Longrightarrow>
   fmlookup E' (packet_epoch (sgn_packet x)) = fmlookup E (packet_epoch (sgn_packet x)) \<Longrightarrow> session_keyed T E' x"
  by (cases x) (auto simp: fm_has_def)

text \<open>
  The ghost record of approvals: \<open>H\<close> holds the pairs of a message and an oracle that approved it.
\<close>

fun gated :: "(b256 \<times> address) set \<Rightarrow> b256 \<Rightarrow> signing_state \<Rightarrow> bool" where
  "gated H m (WaitingForRequest ks gid r p oa sg d) =
     (oa \<longrightarrow> pred_option (\<lambda>oracle. (m, oracle) \<in> H) (packet_oracle p))"
| "gated H m (WaitingForOracle ks oracle gid sid p sg d) = (packet_oracle p = Some oracle)"
| "gated H m (CollectNonceCommitments ks gid sid c p sg d) = pred_option (\<lambda>oracle. (m, oracle) \<in> H) (packet_oracle p)"
| "gated H m (CollectSigningShares ks gid sid c sel p sg d) = pred_option (\<lambda>oracle. (m, oracle) \<in> H) (packet_oracle p)"
| "gated H m (WaitingForAttestation sid p d) = pred_option (\<lambda>oracle. (m, oracle) \<in> H) (packet_oracle p)"

lemma cleared_gated: "cleared p oa \<Longrightarrow> (oa \<longrightarrow> pred_option P (packet_oracle p)) \<Longrightarrow> pred_option P (packet_oracle p)"
  by (cases p) auto

lemma session_step_gated:
  "session_step L T E A m x y \<Longrightarrow> (\<And>oracle. A = Some oracle \<Longrightarrow> (m, oracle) \<in> H) \<Longrightarrow>
   pred_option (gated H m) x \<Longrightarrow> pred_option (gated H m) y"
  by (induction rule: session_step.induct) (auto dest: cleared_gated)

lemma gated_mono: "gated H m x \<Longrightarrow> H \<subseteq> H' \<Longrightarrow> gated H' m x"
  by (cases x; cases "packet_oracle (sgn_packet x)") auto

section \<open>Commands are backed by sessions\<close>

text \<open>
  Every signing command that a handler emits is about a session of the resulting state, in the round
  that the command belongs to and with that session's data.
\<close>

fun signing_cmd :: "cmd \<Rightarrow> bool" where
  "signing_cmd (Effect (GenerateNonces gid sid ks)) = True"
| "signing_cmd (Effect (UseNonces m sid)) = True"
| "signing_cmd (Action (CommitNonces sid n d)) = True"
| "signing_cmd (Action (SignShare sid sel shr prf cb d)) = True"
| "signing_cmd (Action (SignRequest gid m d)) = True"
| "signing_cmd _ = False"

fun opens_nonces :: "signing_state \<Rightarrow> b256 \<Rightarrow> b256 \<Rightarrow> key_share \<Rightarrow> bool" where
  "opens_nonces (CollectNonceCommitments ks gid sid c p sg d) gid' sid' ks' =
     (gid' = gid \<and> sid' = sid \<and> ks' = ks \<and> c = fmempty)"
| "opens_nonces _ _ _ _ = False"

fun in_nonce_round :: "signing_state \<Rightarrow> b256 \<Rightarrow> u64 \<Rightarrow> bool" where
  "in_nonce_round (CollectNonceCommitments ks gid sid c p sg d) sid' d' = (sid' = sid \<and> d' = d)"
| "in_nonce_round _ _ _ = False"

fun opens_shares :: "signing_state \<Rightarrow> b256 \<Rightarrow> bool" where
  "opens_shares (CollectSigningShares ks gid sid c sel p sg d) sid' = (sid' = sid \<and> sel = fmempty)"
| "opens_shares _ _ = False"

fun in_share_round :: "signing_state \<Rightarrow> b256 \<Rightarrow> u64 \<Rightarrow> bool" where
  "in_share_round (CollectSigningShares ks gid sid c sel p sg d) sid' d' = (sid' = sid \<and> d' = d)"
| "in_share_round _ _ _ = False"

fun awaits_request :: "signing_state \<Rightarrow> b256 \<Rightarrow> u64 \<Rightarrow> bool" where
  "awaits_request (WaitingForRequest ks gid r p oa sg d) gid' d' = (gid' = gid \<and> d' = d)"
| "awaits_request _ _ _ = False"

fun backs :: "b256 \<Rightarrow> signing_state \<Rightarrow> cmd \<Rightarrow> bool" where
  "backs m x (Effect (GenerateNonces gid sid ks)) = opens_nonces x gid sid ks"
| "backs m x (Effect (UseNonces m' sid)) = (m' = m \<and> opens_shares x sid)"
| "backs m x (Action (CommitNonces sid n d)) = in_nonce_round x sid d"
| "backs m x (Action (SignShare sid s shr prf cb d)) = in_share_round x sid d"
| "backs m x (Action (SignRequest gid m' d)) = (m' = m \<and> awaits_request x gid d)"
| "backs m x c = False"

definition cmd_backed :: "(b256, signing_state) fmap \<Rightarrow> cmd \<Rightarrow> bool" where
  "cmd_backed sg c \<longleftrightarrow> (signing_cmd c \<longrightarrow> (\<exists>m x. fmlookup sg m = Some x \<and> backs m x c))"

lemma cmd_backedI: "fmlookup sg m = Some x \<Longrightarrow> backs m x c \<Longrightarrow> cmd_backed sg c"
  by (auto simp: cmd_backed_def)

lemma cmd_backed_upd [simp]: "backs m x c \<Longrightarrow> cmd_backed (fmupd m x sg) c"
  by (rule cmd_backedI [of _ m]) simp_all

lemma handle_sign_backed:
  "handle_sign T s block gid m sid = (s', cs) \<Longrightarrow> c \<in> set cs \<Longrightarrow> cmd_backed (signing s') c"
  by (auto simp: handle_sign_def Let_def split: option.splits signing_state.splits packet.splits if_splits)

lemma handle_oracle_result_backed:
  "handle_oracle_result T s block oracle m approved = (s', cs) \<Longrightarrow> c \<in> set cs \<Longrightarrow> cmd_backed (signing s') c"
  by (auto simp: handle_oracle_result_def split: option.splits signing_state.splits if_splits)

lemma handle_sign_committed_nonces_backed:
  "handle_sign_committed_nonces L T s block sid a n = (s', cs) \<Longrightarrow> c \<in> set cs \<Longrightarrow> cmd_backed (signing s') c"
  by (auto simp: handle_sign_committed_nonces_def Let_def split: option.splits signing_state.splits if_splits)

lemma handle_nonces_backed:
  "handle_nonces L T s m n = (s', cs) \<Longrightarrow> c \<in> set cs \<Longrightarrow> s' = s \<and> cmd_backed (signing s') c"
  by (auto simp: handle_nonces_def split: option.splits signing_state.splits sum.splits)
    (rule cmd_backedI, assumption, simp)

lemma handle_nonce_commitments_backed:
  "handle_nonce_commitments s sid n = (s', cs) \<Longrightarrow> c \<in> set cs \<Longrightarrow> s' = s \<and> cmd_backed (signing s') c"
  by (auto simp: handle_nonce_commitments_def session_of_def
      split: option.splits signing_state.splits if_splits Option.bind_splits)
    (rule cmd_backedI, assumption, simp)

lemma attestation_not_signing [simp]: "\<not> signing_cmd (Action (attestation_action L p sid d))"
  by (cases p) simp_all

lemma timeout_session_backed:
  "c \<in> set (fst (snd (timeout_session L T block m x))) \<Longrightarrow> signing_cmd c \<Longrightarrow>
   \<exists>y. fst (timeout_session L T block m x) = Some y \<and> backs m y c"
  by (cases x) (auto simp: timeout_session_def Let_def split: option.split_asm if_split_asm)

lemma handle_signing_timeouts_backed:
  assumes "handle_signing_timeouts L T s block = (s', cs)" "c \<in> set cs"
  shows "cmd_backed (signing s') c"
proof -
  have s': "s' = fst (handle_signing_timeouts L T s block)" by (simp add: assms(1))
  have "cs = concat (map (pushed L T block (signing s)) (fm_keys (signing s)))"
    using signing_timeouts_commands [of L T s block] by (simp add: assms(1))
  with assms(2) obtain m x where "fmlookup (signing s) m = Some x"
    and "c \<in> set (fst (snd (timeout_session L T block m x)))"
    by (auto simp: pushed_def fmlookup_dom_iff)
  moreover from this have "fmlookup (signing s') m = fst (timeout_session L T block m x)"
    by (simp add: s' signing_timeouts_signing swept_def)
  ultimately show ?thesis
    using timeout_session_backed [of c L T block m x] unfolding cmd_backed_def by metis
qed

end
