(* ===== verification/Keygen.thy ===== *)
theory Keygen
  imports Signing
begin

text \<open>
  Distributed key generation and epoch rollover (\<^verbatim>\<open>crates/validator/src/state/keygen.rs\<close>).  The handlers
  drive one rollover state through commitments, shares and confirmations, restart it without
  participants that stall or misbehave, and follow the block clock from one epoch to the next.
\<close>

section \<open>Starting, restarting and failing a key generation\<close>

fun rollover_failure :: "epoch_id \<Rightarrow> rollover_state" where
  "rollover_failure (Number number) = EpochSkipped number"
| "rollover_failure Genesis = Halted"

definition start_key_gen :: "lib \<Rightarrow> transition \<Rightarrow> state \<Rightarrow> epoch_id \<Rightarrow> participant_set \<Rightarrow> u64 option \<Rightarrow>
    state \<times> cmd list" where
  "start_key_gen L T s e participants deadline =
     (case participate_as (keccak256 L) participants (tr_account T) of
        Some (g, poap) \<Rightarrow>
          (s\<lparr>rollover := CollectingCommitments e g (CommitParticipating poap None) fmempty deadline\<rparr>,
           [Effect (KeyGenSetup (grp_id g) (fst (group_size g)) (snd (group_size g)))])
      | None \<Rightarrow>
          (s\<lparr>rollover := CollectingCommitments e (group_of (keccak256 L) participants) CommitObserving fmempty
               deadline\<rparr>, []))"

definition restart_key_gen_excluding :: "lib \<Rightarrow> transition \<Rightarrow> state \<Rightarrow> epoch_id \<Rightarrow> address fset \<Rightarrow> u64 option \<Rightarrow>
    state \<times> cmd list" where
  "restart_key_gen_excluding L T s e excluded deadline =
     (let participants =
            (case e of
               Number number \<Rightarrow>
                 participants_set (keccak256 L) (cfg_participants (tr_config T))
                   (NumberGroup (cfg_consensus (tr_config T)) number excluded)
             | Genesis \<Rightarrow> None)
      in case participants of
           Some participants \<Rightarrow> start_key_gen L T s e participants deadline
         | None \<Rightarrow> (s\<lparr>rollover := rollover_failure e\<rparr>, []))"

definition finalize_key_gen_commitments :: "lib \<Rightarrow> epoch_id \<Rightarrow> group \<Rightarrow> secrets option \<Rightarrow>
    (address, verified_commitment) fmap \<Rightarrow> u64 option \<Rightarrow> rollover_state \<times> cmd list" where
  "finalize_key_gen_commitments L e g secrets commitments deadline =
     (let result =
            (case secrets of
               Some secrets \<Rightarrow>
                 (case generate_secret_shares (frost L) secrets commitments of
                    Inl err \<Rightarrow> Inl err
                  | Inr (sharing_state, share) \<Rightarrow>
                      Inr (Participating sharing_state, [Action (KeyGenSecretShare (grp_id g) share deadline)]))
             | None \<Rightarrow>
                 (case group_commitments_of (frost L) commitments of
                    Inl err \<Rightarrow> Inl err
                  | Inr gc \<Rightarrow> Inr (Observing gc, [])))
      in case result of
           Inl err \<Rightarrow> (rollover_failure e, [])
         | Inr (participation, commands) \<Rightarrow>
             (CollectingShares e g participation {||} fmempty fmempty deadline, commands))"

definition finalize_key_gen :: "state \<Rightarrow> epoch_id \<Rightarrow> group \<Rightarrow> key_share option \<Rightarrow> state" where
  "finalize_key_gen s e g ks =
     (case ks of
        Some ks \<Rightarrow> s\<lparr>epochs := fmupd e \<lparr>ep_group = g, ep_key_share = ks\<rparr> (epochs s)\<rparr>
      | None \<Rightarrow> s)"

fun key_gen_confirmation_callback :: "lib \<Rightarrow> transition \<Rightarrow> epoch_id \<Rightarrow> callback option" where
  "key_gen_confirmation_callback L T Genesis = None"
| "key_gen_confirmation_callback L T (Number number) =
     Some \<lparr>cb_target = cfg_consensus (tr_config T),
           cb_context = abi_encode_epoch L (nz_get number)
             (sat_mul (nz_get number) (nz_get (cfg_blocks_per_epoch (tr_config T))))\<rparr>"

definition confirm_key_gen :: "lib \<Rightarrow> transition \<Rightarrow> epoch_id \<Rightarrow> group \<Rightarrow> sharing_state \<Rightarrow>
    (address, verified_share) fmap \<Rightarrow> confirmation_deadlines option \<Rightarrow>
    error + (keygen_confirmation \<times> cmd list)" where
  "confirm_key_gen L T e g sharing_state shares deadlines =
     (case finalize (frost L) sharing_state shares of
        Inl err \<Rightarrow> Inl err
      | Inr ks \<Rightarrow>
          Inr (Confirmed ks,
            [Action (KeyGenConfirm (grp_id g) (key_gen_confirmation_callback L T e)
               (map_option dl_confirm deadlines))]))"

section \<open>Setup and commitments\<close>

definition handle_genesis_key_gen :: "lib \<Rightarrow> transition \<Rightarrow> state \<Rightarrow> b256 \<Rightarrow> state \<times> cmd list" where
  "handle_genesis_key_gen L T s gid =
     (let genesis = group_of (keccak256 L) (tr_genesis T)
      in if rollover s \<noteq> WaitingForGenesis \<or> gid \<noteq> grp_id genesis then (s, [])
         else start_key_gen L T s Genesis (tr_genesis T) None)"

definition handle_key_gen_setup :: "lib \<Rightarrow> transition \<Rightarrow> state \<Rightarrow> b256 \<Rightarrow> secrets \<Rightarrow> state \<times> cmd list" where
  "handle_key_gen_setup L T s gid secrets =
     (case rollover s of
        CollectingCommitments e g (CommitParticipating poap None) commitments deadline \<Rightarrow>
          if gid = grp_id g then
            let (count, _) = group_size g;
                commands =
                  (if fm_has commitments (tr_account T) then []
                   else let (participants, count, threshold, context) = group_parameters g
                        in [Action (KeyGenAndCommit participants count threshold context poap
                              (secrets_commitment secrets) deadline)])
            in if as_u16 (fm_len commitments) \<noteq> count then
                 (s\<lparr>rollover := CollectingCommitments e g (CommitParticipating poap (Some secrets)) commitments
                      deadline\<rparr>, commands)
               else
                 let deadline = map_option (\<lambda>d. sat_add d (key_gen_timeout T)) deadline;
                     (r, finalize_commands) =
                       finalize_key_gen_commitments L e g (Some secrets) commitments deadline
                 in (s\<lparr>rollover := r\<rparr>, commands @ finalize_commands)
          else (s, [])
      | _ \<Rightarrow> (s, []))"

definition handle_key_gen_committed :: "lib \<Rightarrow> transition \<Rightarrow> state \<Rightarrow> u64 \<Rightarrow> b256 \<Rightarrow> address \<Rightarrow> kg_commitment \<Rightarrow>
    state \<times> cmd list" where
  "handle_key_gen_committed L T s block gid participant commitment =
     (case rollover s of
        CollectingCommitments e g secrets commitments deadline \<Rightarrow>
          if grp_id g = gid then
            let (count, _) = group_size g;
                commitments =
                  (case verify_commitment (frost L) participant commitment of
                     Inr verified \<Rightarrow> fmupd participant verified commitments
                   | Inl _ \<Rightarrow> commitments);
                keep = (s\<lparr>rollover := CollectingCommitments e g secrets commitments deadline\<rparr>, []);
                close = (\<lambda>secrets.
                  let deadline = map_option (\<lambda>_. sat_add block (key_gen_timeout T)) deadline;
                      (r, commands) = finalize_key_gen_commitments L e g secrets commitments deadline
                  in (s\<lparr>rollover := r\<rparr>, commands))
            in if as_u16 (fm_len commitments) \<noteq> count then keep
               else (case secrets of
                       CommitObserving \<Rightarrow> close None
                     | CommitParticipating _ (Some secrets) \<Rightarrow> close (Some secrets)
                     | CommitParticipating _ None \<Rightarrow> keep)
          else (s, [])
      | _ \<Rightarrow> (s, []))"

section \<open>Secret shares\<close>

definition confirmation_deadlines_from :: "transition \<Rightarrow> u64 \<Rightarrow> confirmation_deadlines" where
  "confirmation_deadlines_from T block =
     \<lparr>dl_complain = sat_add block (key_gen_timeout T),
      dl_response = sat_add block (sat_mul (key_gen_timeout T) 2),
      dl_confirm = sat_add block (sat_mul (key_gen_timeout T) 3)\<rparr>"

text \<open>
  The two checks on a published share: the public one fills \<open>shared\<close>, the private one (for
  participants) fills \<open>shares\<close> or raises a complaint.
\<close>

definition register_share :: "lib \<Rightarrow> transition \<Rightarrow> u64 \<Rightarrow> group \<Rightarrow> keygen_participation \<Rightarrow> u64 option \<Rightarrow>
    address \<Rightarrow> kg_secret_share \<Rightarrow> address fset \<times> (address, verified_share) fmap \<Rightarrow>
    address fset \<times> (address, verified_share) fmap \<times> cmd list" where
  "register_share L T block g participation deadline participant share acc =
     (let (shared, shares) = acc
      in case verify_secret_share (frost L) (participation_commitments participation) participant share of
           Inl _ \<Rightarrow> (shared, shares, [])
         | Inr encrypted \<Rightarrow>
             let shared = finsert participant shared
             in case participation of
                  Observing _ \<Rightarrow> (shared, shares, [])
                | Participating sharing_state \<Rightarrow>
                    (case verify_encrypted_secret_share (frost L) sharing_state participant encrypted of
                       Inr verified \<Rightarrow> (shared, fmupd participant verified shares, [])
                     | Inl _ \<Rightarrow>
                         let expires_at = map_option (\<lambda>_. sat_add block (key_gen_timeout T)) deadline
                         in (shared, shares, [Action (KeyGenComplain (grp_id g) participant expires_at)])))"

definition handle_key_gen_secret_shared :: "lib \<Rightarrow> transition \<Rightarrow> state \<Rightarrow> u64 \<Rightarrow> b256 \<Rightarrow> address \<Rightarrow>
    kg_secret_share \<Rightarrow> state \<times> cmd list" where
  "handle_key_gen_secret_shared L T s block gid participant share =
     (case rollover s of
        CollectingShares e g participation shared shares complaints deadline \<Rightarrow>
          if grp_id g = gid then
            let (count, _) = group_size g;
                (shared, shares, commands) =
                  register_share L T block g participation deadline participant share (shared, shares)
            in if as_u16 (fcard shared) \<noteq> count then
                 (s\<lparr>rollover := CollectingShares e g participation shared shares complaints deadline\<rparr>, commands)
               else
                 let deadlines = map_option (\<lambda>_. confirmation_deadlines_from T block) deadline;
                     confirming = (\<lambda>status commands.
                       (s\<lparr>rollover := CollectingConfirmations e g participation status {||} complaints deadlines\<rparr>,
                        commands))
                 in (case participation of
                       Participating sharing_state \<Rightarrow>
                         if as_u16 (fm_len shares) = count then
                           (case confirm_key_gen L T e g sharing_state shares deadlines of
                              Inr (status, confirm_commands) \<Rightarrow> confirming status (commands @ confirm_commands)
                            | Inl _ \<Rightarrow> (s\<lparr>rollover := rollover_failure e\<rparr>, []))
                         else confirming (Collecting shares) commands
                     | Observing _ \<Rightarrow> confirming ConfirmObserving commands)
          else (s, [])
      | _ \<Rightarrow> (s, []))"

section \<open>Confirmations and staging\<close>

definition rollover_block_of :: "transition \<Rightarrow> nonzero_u64 \<Rightarrow> u64" where
  "rollover_block_of T proposed = sat_mul (nz_get proposed) (nz_get (cfg_blocks_per_epoch (tr_config T)))"

text \<open>The message that a finished key generation for a numbered epoch asks the active group to sign.\<close>

definition rollover_message :: "lib \<Rightarrow> transition \<Rightarrow> state \<Rightarrow> nonzero_u64 \<Rightarrow> keygen_participation \<Rightarrow> b256" where
  "rollover_message L T s proposed participation =
     epoch_rollover_hash L (tr_consensus T) (active_epoch s) proposed (rollover_block_of T proposed)
       (group_key (participation_commitments participation))"

definition fresh_participants :: "lib \<Rightarrow> transition \<Rightarrow> nonzero_u64 \<Rightarrow> participant_set option" where
  "fresh_participants L T number =
     participants_set (keccak256 L) (cfg_participants (tr_config T))
       (NumberGroup (cfg_consensus (tr_config T)) number {||})"

definition handle_key_gen_confirmed :: "lib \<Rightarrow> transition \<Rightarrow> state \<Rightarrow> u64 \<Rightarrow> b256 \<Rightarrow> address \<Rightarrow> state \<times> cmd list" where
  "handle_key_gen_confirmed L T s block gid participant =
     (case rollover s of
        CollectingConfirmations e g participation status confirmations complaints deadlines \<Rightarrow>
          if grp_id g = gid then
            let (count, _) = group_size g;
                confirmations = finsert participant confirmations
            in if as_u16 (fcard confirmations) \<noteq> count then
                 (s\<lparr>rollover := CollectingConfirmations e g participation status confirmations complaints
                      deadlines\<rparr>, [])
               else (case e of
                 Genesis \<Rightarrow>
                   let next = next_number block (cfg_blocks_per_epoch (tr_config T));
                       s = finalize_key_gen (s\<lparr>rollover := EpochSkipped next\<rparr>) Genesis g
                             (confirmed_key_share status)
                   in (case fresh_participants L T next of
                         None \<Rightarrow> (s, [])
                       | Some participants \<Rightarrow>
                           start_key_gen L T s (Number next) participants
                             (Some (sat_add block (key_gen_timeout T))))
               | Number proposed \<Rightarrow>
                   let ks = confirmed_key_share status;
                       gkey = group_key (participation_commitments participation);
                       rollover_block = rollover_block_of T proposed;
                       message = rollover_message L T s proposed participation;
                       sessions =
                         (case fmlookup (epochs s) (active_epoch s) of
                            Some participating \<Rightarrow>
                              fmupd message
                                (WaitingForRequest (ep_key_share participating) (grp_id (ep_group participating))
                                   (Some participant)
                                   (EpochRollover (active_epoch s) proposed rollover_block (grp_id g) gkey) False
                                   (grp_participants (ep_group participating))
                                   (sat_add block (signing_timeout T))) (signing s)
                          | None \<Rightarrow> signing s)
                   in (s\<lparr>signing := sessions, rollover := SigningRollover proposed g ks message\<rparr>, []))
          else (s, [])
      | _ \<Rightarrow> (s, []))"

definition handle_epoch_staged :: "state \<Rightarrow> u64 \<Rightarrow> b256 \<Rightarrow> state \<times> cmd list" where
  "handle_epoch_staged s raw_proposed gid =
     (let ignore = (s, [])
      in case rollover s of
           SigningRollover next g ks message \<Rightarrow>
             if grp_id g = gid then
               handle_sign_attested
                 (finalize_key_gen (s\<lparr>rollover := EpochStaged next\<rparr>) (Number next) g ks) message
             else ignore
         | WaitingForGenesis \<Rightarrow>
             (s\<lparr>rollover := (case nz_new raw_proposed of Some next \<Rightarrow> EpochSkipped next | None \<Rightarrow> Halted)\<rparr>, [])
         | _ \<Rightarrow> ignore)"

section \<open>Complaints\<close>

text \<open>
  What the complaint handler reads from a round of the right group: epoch, group, participation,
  complaints, restart deadline, response deadline and whether a response is required.
\<close>

fun complaint_round :: "transition \<Rightarrow> u64 \<Rightarrow> b256 \<Rightarrow> rollover_state \<Rightarrow>
    (epoch_id \<times> group \<times> keygen_participation \<times> (address, complaint) fmap \<times> u64 option \<times> u64 option \<times> bool) option" where
  "complaint_round T block gid (CollectingShares e g participation shared shares complaints deadline) =
     (if grp_id g = gid then
        let restart_deadline = map_option (\<lambda>_. sat_add block (key_gen_timeout T)) deadline
        in Some (e, g, participation, complaints, restart_deadline, restart_deadline, True)
      else None)"
| "complaint_round T block gid (CollectingConfirmations e g participation status confirmations complaints deadlines) =
     (if grp_id g = gid then
        Some (e, g, participation, complaints, map_option (\<lambda>_. sat_add block (key_gen_timeout T)) deadlines,
              map_option dl_response deadlines,
              (case deadlines of None \<Rightarrow> True | Some dl \<Rightarrow> block \<le> dl_complain dl))
      else None)"
| "complaint_round T block gid _ = None"

fun with_complaints :: "rollover_state \<Rightarrow> (address, complaint) fmap \<Rightarrow> rollover_state" where
  "with_complaints (CollectingShares e g p shared shares complaints deadline) complaints' =
     CollectingShares e g p shared shares complaints' deadline"
| "with_complaints (CollectingConfirmations e g p status confirmations complaints deadlines) complaints' =
     CollectingConfirmations e g p status confirmations complaints' deadlines"
| "with_complaints r _ = r"

definition count_complaint :: "bool \<Rightarrow> address \<Rightarrow> complaint option \<Rightarrow> complaint" where
  "count_complaint requires_response plaintiff old =
     (let c = (case old of Some c \<Rightarrow> c | None \<Rightarrow> complaint_default);
          c = c\<lparr>total := total c + 1\<rparr>
      in if requires_response then c\<lparr>unresponded := finsert plaintiff (unresponded c)\<rparr> else c)"

definition handle_key_gen_complained :: "lib \<Rightarrow> transition \<Rightarrow> state \<Rightarrow> u64 \<Rightarrow> b256 \<Rightarrow> address \<Rightarrow> address \<Rightarrow>
    state \<times> cmd list" where
  "handle_key_gen_complained L T s block gid plaintiff accused =
     (case complaint_round T block gid (rollover s) of
        None \<Rightarrow> (s, [])
      | Some (e, g, participation, complaints, restart_deadline, response_expires_at, requires_response) \<Rightarrow>
          let c = count_complaint requires_response plaintiff (fmlookup complaints accused);
              s = s\<lparr>rollover := with_complaints (rollover s) (fmupd accused c complaints)\<rparr>;
              (_, threshold) = group_size g
          in if threshold \<le> total c then
               restart_key_gen_excluding L T s e (also_exclude g {|accused|}) restart_deadline
             else
               (s, case participation of
                     Participating sharing_state \<Rightarrow>
                       if accused = tr_account T \<and> requires_response then
                         (case reveal_secret_share (frost L) sharing_state plaintiff of
                            Inr secret_share \<Rightarrow>
                              [Action (KeyGenComplaintResponse (grp_id g) plaintiff secret_share response_expires_at)]
                          | Inl _ \<Rightarrow> [])
                       else []
                   | Observing _ \<Rightarrow> []))"

text \<open>
  What the response handler reads from a round of the right group that still takes responses: epoch,
  group, participation, complaints and deadline.
\<close>

fun response_round :: "u64 \<Rightarrow> b256 \<Rightarrow> rollover_state \<Rightarrow>
    (epoch_id \<times> group \<times> keygen_participation \<times> (address, complaint) fmap \<times> u64 option) option" where
  "response_round block gid (CollectingShares e g participation shared shares complaints deadline) =
     (if grp_id g = gid then Some (e, g, participation, complaints, deadline) else None)"
| "response_round block gid (CollectingConfirmations e g participation status confirmations complaints deadlines) =
     (if grp_id g = gid \<and> (case deadlines of None \<Rightarrow> True | Some dl \<Rightarrow> block \<le> dl_response dl)
      then Some (e, g, participation, complaints, map_option dl_response deadlines)
      else None)"
| "response_round block gid _ = None"

text \<open>Registering a revealed share: only a round that still collects shares has a place for it.\<close>

fun with_revealed_share :: "rollover_state \<Rightarrow> address \<Rightarrow> verified_share \<Rightarrow> rollover_state" where
  "with_revealed_share (CollectingShares e g p shared shares complaints deadline) accused share =
     CollectingShares e g p shared (fmupd accused share shares) complaints deadline"
| "with_revealed_share (CollectingConfirmations e g p (Collecting shares) confirmations complaints deadlines)
     accused share =
     CollectingConfirmations e g p (Collecting (fmupd accused share shares)) confirmations complaints deadlines"
| "with_revealed_share r accused share = r"

definition confirm_when_complete :: "lib \<Rightarrow> transition \<Rightarrow> epoch_id \<Rightarrow> state \<Rightarrow> state \<times> cmd list" where
  "confirm_when_complete L T e s =
     (case rollover s of
        CollectingConfirmations e' g (Participating sharing_state) (Collecting shares) confirmations complaints
          deadlines \<Rightarrow>
          if as_u16 (fm_len shares) = fst (group_size g) then
            (case confirm_key_gen L T e g sharing_state shares deadlines of
               Inr (status, commands) \<Rightarrow>
                 (s\<lparr>rollover := CollectingConfirmations e' g (Participating sharing_state) status confirmations
                      complaints deadlines\<rparr>, commands)
             | Inl _ \<Rightarrow> (s\<lparr>rollover := rollover_failure e\<rparr>, []))
          else (s, [])
      | _ \<Rightarrow> (s, []))"

definition handle_key_gen_complaint_responded :: "lib \<Rightarrow> transition \<Rightarrow> state \<Rightarrow> u64 \<Rightarrow> b256 \<Rightarrow> address \<Rightarrow>
    address \<Rightarrow> u256 \<Rightarrow> state \<times> cmd list" where
  "handle_key_gen_complaint_responded L T s block gid plaintiff accused secret_share =
     (case response_round block gid (rollover s) of
        None \<Rightarrow> (s, [])
      | Some (e, g, participation, complaints, deadline) \<Rightarrow>
          (case fmlookup complaints accused of
             None \<Rightarrow> (s, [])
           | Some c \<Rightarrow>
               if plaintiff |\<notin>| unresponded c then (s, [])
               else
                 let c = c\<lparr>unresponded := unresponded c |-| {|plaintiff|}\<rparr>;
                     s = s\<lparr>rollover := with_complaints (rollover s) (fmupd accused c complaints)\<rparr>
                 in (case verify_revealed_secret_share (frost L) (participation_commitments participation)
                            plaintiff accused secret_share of
                       Inr share \<Rightarrow>
                         confirm_when_complete L T e
                           (if plaintiff = tr_account T
                            then s\<lparr>rollover := with_revealed_share (rollover s) accused share\<rparr> else s)
                     | Inl _ \<Rightarrow>
                         restart_key_gen_excluding L T s e (also_exclude g {|accused|})
                           (map_option (\<lambda>_. sat_add block (key_gen_timeout T)) deadline))))"

section \<open>The block clock\<close>

definition handle_rollover_new_block :: "lib \<Rightarrow> transition \<Rightarrow> state \<Rightarrow> u64 \<Rightarrow> state \<times> cmd list" where
  "handle_rollover_new_block L T s block =
     (case Option.bind (next_epoch (rollover s)) epoch_number of
        None \<Rightarrow> (s, [])
      | Some target \<Rightarrow>
          let next = next_number block (cfg_blocks_per_epoch (tr_config T))
          in if next \<le> target then (s, [])
             else
               let s = (case rollover s of
                          EpochStaged _ \<Rightarrow> s\<lparr>active_epoch := Number target\<rparr>
                        | _ \<Rightarrow> s);
                   deadline = Some (sat_add block (key_gen_timeout T))
               in (case fresh_participants L T next of
                     Some participants \<Rightarrow> start_key_gen L T s (Number next) participants deadline
                   | None \<Rightarrow> (s\<lparr>rollover := EpochSkipped next\<rparr>, [])))"

definition unresponded_complaints :: "(address, complaint) fmap \<Rightarrow> address fset" where
  "unresponded_complaints complaints =
     fset_of_list (filter (\<lambda>a. unresponded (the (fmlookup complaints a)) \<noteq> {||}) (fm_keys complaints))"

text \<open>The round that cannot be restarted: everybody committed, but our own setup never came back.\<close>

fun stuck_setup :: "u64 \<Rightarrow> rollover_state \<Rightarrow> epoch_id option" where
  "stuck_setup block (CollectingCommitments e g (CommitParticipating poap None) commitments (Some deadline)) =
     (if deadline \<le> block \<and> as_u16 (fm_len commitments) = fst (group_size g) then Some e else None)"
| "stuck_setup block _ = None"

text \<open>The epoch to restart and the participants to leave out, if a round is past its deadline.\<close>

fun timed_out :: "u64 \<Rightarrow> rollover_state \<Rightarrow> (epoch_id \<times> address fset) option" where
  "timed_out block (CollectingCommitments e g secrets commitments (Some deadline)) =
     (if deadline \<le> block then Some (e, exclude_all_others g (fmdom commitments)) else None)"
| "timed_out block (CollectingShares e g participation shared shares complaints (Some deadline)) =
     (if deadline \<le> block then Some (e, exclude_all_others g shared) else None)"
| "timed_out block (CollectingConfirmations e g participation status confirmations complaints (Some deadlines)) =
     (let late = unresponded_complaints complaints
      in if dl_response deadlines \<le> block \<and> late \<noteq> {||} then Some (e, also_exclude g late)
         else if dl_confirm deadlines \<le> block then Some (e, exclude_all_others g confirmations)
         else None)"
| "timed_out block _ = None"

definition handle_key_gen_timeouts :: "lib \<Rightarrow> transition \<Rightarrow> state \<Rightarrow> u64 \<Rightarrow> state \<times> cmd list" where
  "handle_key_gen_timeouts L T s block =
     (case stuck_setup block (rollover s) of
        Some e \<Rightarrow> (s\<lparr>rollover := rollover_failure e\<rparr>, [])
      | None \<Rightarrow>
          (case timed_out block (rollover s) of
             None \<Rightarrow> (s, [])
           | Some (e, excluded) \<Rightarrow>
               restart_key_gen_excluding L T s e excluded (Some (sat_add block (key_gen_timeout T)))))"

section \<open>What a handler can do to a round\<close>

fun participates :: "keygen_participation \<Rightarrow> bool" where
  "participates (Participating ss) = True"
| "participates (Observing gc) = False"

fun commits :: "keygen_commitment \<Rightarrow> bool" where
  "commits (CommitParticipating poap secrets) = True"
| "commits CommitObserving = False"

text \<open>
  The epoch and the group of a round in progress, and whether the round runs without a deadline.
\<close>

fun round_of :: "rollover_state \<Rightarrow> (epoch_id \<times> group \<times> bool) option" where
  "round_of (CollectingCommitments e g s c d) = Some (e, g, d = None)"
| "round_of (CollectingShares e g p sd ss cs d) = Some (e, g, d = None)"
| "round_of (CollectingConfirmations e g p st cf cs dl) = Some (e, g, dl = None)"
| "round_of _ = None"

definition numbered_set :: "lib \<Rightarrow> transition \<Rightarrow> nonzero_u64 \<Rightarrow> address fset \<Rightarrow> participant_set option" where
  "numbered_set L T n excluded =
     participants_set (keccak256 L) (cfg_participants (tr_config T))
       (NumberGroup (cfg_consensus (tr_config T)) n excluded)"

text \<open>A round that is freshly started with a participant set.\<close>

definition started :: "lib \<Rightarrow> transition \<Rightarrow> epoch_id \<Rightarrow> participant_set \<Rightarrow> u64 option \<Rightarrow> rollover_state \<Rightarrow> bool" where
  "started L T e ps d r \<longleftrightarrow>
     (\<exists>sec. r = CollectingCommitments e (group_of (keccak256 L) ps) sec fmempty d \<and>
       (commits sec \<longleftrightarrow> tr_account T |\<in>| ps_addresses ps))"

definition grown :: "('k \<Rightarrow> bool) \<Rightarrow> 'k \<Rightarrow> ('k, 'v) fmap \<Rightarrow> ('k, 'v) fmap \<Rightarrow> bool" where
  "grown M a c c' \<longleftrightarrow> c' = c \<or> (M a \<and> (\<exists>v. c' = fmupd a v c))"

lemma grownI [intro!, simp]: "grown M a c c" "M a \<Longrightarrow> grown M a c (fmupd a v c)"
  by (auto simp: grown_def)

fun awaiting_setup :: "keygen_commitment \<Rightarrow> bool" where
  "awaiting_setup (CommitParticipating poap secrets) = (secrets = None)"
| "awaiting_setup CommitObserving = False"

text \<open>
  One step inside a key generation round; \<open>M\<close> restricts the participants that the contract reports.
\<close>

inductive round_step :: "lib \<Rightarrow> transition \<Rightarrow> (address \<Rightarrow> bool) \<Rightarrow> rollover_state \<Rightarrow> rollover_state \<Rightarrow> bool"
  for L T M where
  unchanged: "round_step L T M r r"
| set_up: "as_u16 (fm_len c) \<noteq> grp_count g \<Longrightarrow>
    round_step L T M (CollectingCommitments e g (CommitParticipating poap None) c d)
    (CollectingCommitments e g (CommitParticipating poap (Some secrets)) c d)"
| committed: "grown M a c c' \<Longrightarrow>
    as_u16 (fm_len c') \<noteq> grp_count g \<or> awaiting_setup sec \<Longrightarrow>
    round_step L T M (CollectingCommitments e g sec c d) (CollectingCommitments e g sec c' d)"
| all_committed: "grown M a c c' \<Longrightarrow> as_u16 (fm_len c') = grp_count g \<Longrightarrow>
    participates p = commits sec \<Longrightarrow> gc_commitments (participation_commitments p) = c' \<Longrightarrow>
    d' = None \<longleftrightarrow> d = None \<Longrightarrow>
    round_step L T M (CollectingCommitments e g sec c d) (CollectingShares e g p {||} fmempty fmempty d')"
| shared: "shd' = shd \<or> (shd' = finsert a shd \<and> fm_has (gc_commitments (participation_commitments p)) a) \<Longrightarrow>
    as_u16 (fcard shd') \<noteq> grp_count g \<Longrightarrow>
    round_step L T M (CollectingShares e g p shd shs cs d) (CollectingShares e g p shd' shs' cs d)"
| all_shared: "shd' = shd \<or> (shd' = finsert a shd \<and> fm_has (gc_commitments (participation_commitments p)) a) \<Longrightarrow>
    as_u16 (fcard shd') = grp_count g \<Longrightarrow> st \<noteq> ConfirmObserving \<longleftrightarrow> participates p \<Longrightarrow>
    dl = None \<longleftrightarrow> d = None \<Longrightarrow>
    round_step L T M (CollectingShares e g p shd shs cs d) (CollectingConfirmations e g p st {||} cs dl)"
| confirmed: "M a \<Longrightarrow> as_u16 (fcard (finsert a cf)) \<noteq> grp_count g \<Longrightarrow>
    round_step L T M (CollectingConfirmations e g p st cf cs dl) (CollectingConfirmations e g p st (finsert a cf) cs dl)"
| complained: "round_of r = Some (e, g, nd) \<Longrightarrow> complaint_round T block gid r = Some (e, g, p, cs, rd, xd, rr) \<Longrightarrow>
    M a \<Longrightarrow> c = count_complaint rr plaintiff (fmlookup cs a) \<Longrightarrow> total c < grp_threshold g \<Longrightarrow>
    round_step L T M r (with_complaints r (fmupd a c cs))"
| responded_shares: "fmlookup cs a = Some c \<Longrightarrow> plaintiff |\<in>| unresponded c \<Longrightarrow>
    cs' = fmupd a (c\<lparr>unresponded := unresponded c |-| {|plaintiff|}\<rparr>) cs \<Longrightarrow>
    round_step L T M (CollectingShares e g p shd shs cs d) (CollectingShares e g p shd shs' cs' d)"
| responded_confirmations: "fmlookup cs a = Some c \<Longrightarrow> plaintiff |\<in>| unresponded c \<Longrightarrow>
    cs' = fmupd a (c\<lparr>unresponded := unresponded c |-| {|plaintiff|}\<rparr>) cs \<Longrightarrow>
    st' = ConfirmObserving \<longleftrightarrow> st = ConfirmObserving \<Longrightarrow>
    round_step L T M (CollectingConfirmations e g p st cf cs dl) (CollectingConfirmations e g p st' cf cs' dl)"
| restarted: "round_of r = Some (Number n, g, nd) \<Longrightarrow> numbered_set L T n (grp_excluded g |\<union>| X) = Some ps \<Longrightarrow>
    started L T (Number n) ps d r' \<Longrightarrow> nd \<Longrightarrow> d = None \<Longrightarrow> round_step L T M r r'"
| restarted_timed: "round_of r = Some (Number n, g, nd) \<Longrightarrow> numbered_set L T n (grp_excluded g |\<union>| X) = Some ps \<Longrightarrow>
    started L T (Number n) ps (Some d) r' \<Longrightarrow> round_step L T M r r'"
| failed: "round_of r = Some (e, g, nd) \<Longrightarrow> round_step L T M r (rollover_failure e)"

lemma finalize_commitments_step:
  assumes "finalize_key_gen_commitments L e g secrets c' d' = (r', cs)"
    and "grown M a c c'" "as_u16 (fm_len c') = grp_count g"
    and "d' = None \<longleftrightarrow> d = None" "secrets \<noteq> None \<longleftrightarrow> commits sec"
  shows "round_step L T M (CollectingCommitments e g sec c d) r'"
proof -
  have gen: "gc_commitments (ss_group_commitments ss) = c'"
    if "generate_secret_shares (frost L) sc c' = Inr (ss, sh)" for sc ss sh
    using that by (auto simp: generate_secret_shares_def err_unexpected_def Let_def
        split: sum.splits prod.splits if_splits)
  have obs: "gc_commitments gc = c'" if "group_commitments_of (frost L) c' = Inr gc" for gc
    using that by (auto simp: group_commitments_of_def split: sum.splits)
  have "r' = rollover_failure e \<or>
      (\<exists>p. r' = CollectingShares e g p {||} fmempty fmempty d' \<and>
        participates p = commits sec \<and> gc_commitments (participation_commitments p) = c')"
    using assms(1,5) gen obs
    by (auto simp: finalize_key_gen_commitments_def Let_def split: option.splits sum.splits prod.splits)
  then show ?thesis
    using assms(2-4) by (auto intro: all_committed failed)
qed

lemma setup_step:
  "handle_key_gen_setup L T s gid secrets = (s', cs) \<Longrightarrow>
   s' = s\<lparr>rollover := rollover s'\<rparr> \<and> round_step L T M (rollover s) (rollover s')"
  by (auto simp: handle_key_gen_setup_def group_size_def Let_def
      intro: round_step.intros finalize_commitments_step
      split: rollover_state.splits keygen_commitment.splits option.splits if_splits prod.splits)

lemma committed_more:
  "M a \<Longrightarrow> as_u16 (fm_len (fmupd a v c)) \<noteq> grp_count g \<Longrightarrow>
   round_step L T M (CollectingCommitments e g sec c d) (CollectingCommitments e g sec (fmupd a v c) d)"
  by (rule committed [where a = a]) simp_all

lemma committed_wait:
  "M a \<Longrightarrow> round_step L T M (CollectingCommitments e g (CommitParticipating poap None) c d)
     (CollectingCommitments e g (CommitParticipating poap None) (fmupd a v c) d)"
  by (rule committed [where a = a]) simp_all

lemma committed_step:
  "handle_key_gen_committed L T s block gid a kc = (s', cs) \<Longrightarrow> M a \<Longrightarrow>
   s' = s\<lparr>rollover := rollover s'\<rparr> \<and> round_step L T M (rollover s) (rollover s')"
  by (auto simp: handle_key_gen_committed_def group_size_def Let_def
      intro: unchanged committed_more committed_wait finalize_commitments_step
      split: rollover_state.splits keygen_commitment.splits option.splits if_splits prod.splits sum.splits)

lemma start_key_gen_started:
  "start_key_gen L T s e ps d = (s', cs) \<Longrightarrow> s' = s\<lparr>rollover := rollover s'\<rparr> \<and> started L T e ps d (rollover s')"
  by (auto simp: start_key_gen_def started_def participate_as_eq_Some split: option.splits prod.splits)
    (auto simp: participate_as_def split: if_splits prod.splits)

lemma restart_step:
  assumes "restart_key_gen_excluding L T s1 e (grp_excluded g |\<union>| X) d = (s', cs)"
    and "round_of r = Some (e, g, nd)" "d = None \<Longrightarrow> nd"
  shows "s' = s1\<lparr>rollover := rollover s'\<rparr> \<and> round_step L T M r (rollover s')"
proof (cases "\<exists>n ps. e = Number n \<and> numbered_set L T n (grp_excluded g |\<union>| X) = Some ps")
  case True
  then obtain n ps where e: "e = Number n" and ps: "numbered_set L T n (grp_excluded g |\<union>| X) = Some ps" by auto
  then have "start_key_gen L T s1 e ps d = (s', cs)"
    using assms(1) by (simp add: restart_key_gen_excluding_def numbered_set_def)
  note st = start_key_gen_started [OF this]
  show ?thesis
  proof (cases d)
    case None
    then show ?thesis using st assms(2-) e ps by (auto intro: restarted)
  next
    case (Some x)
    then show ?thesis using st assms(2) e ps by (auto intro: restarted_timed)
  qed
next
  case False
  then have "s' = s1\<lparr>rollover := rollover_failure e\<rparr>"
    using assms(1) by (auto simp: restart_key_gen_excluding_def numbered_set_def Let_def
        split: epoch_id.splits option.splits)
  then show ?thesis using assms(2) by (auto intro: failed)
qed

lemma secret_shared_step:
  "handle_key_gen_secret_shared L T s block gid a sh = (s', cs) \<Longrightarrow>
   s' = s\<lparr>rollover := rollover s'\<rparr> \<and> round_step L T M (rollover s) (rollover s')"
proof (cases "rollover s")
  case (CollectingShares e g p shd shs cmp d)
  assume h: "handle_key_gen_secret_shared L T s block gid a sh = (s', cs)"
  obtain shd' shs' rc where rs: "register_share L T block g p d a sh (shd, shs) = (shd', shs', rc)"
    by (cases rule: prod_cases3)
  have shd': "shd' = shd \<or> (shd' = finsert a shd \<and> fm_has (gc_commitments (participation_commitments p)) a)"
    using rs by (auto simp: register_share_def verify_secret_share_def Let_def
        split: sum.splits keygen_participation.splits if_splits)
  show ?thesis
  proof (cases "grp_id g = gid")
    case True
    show ?thesis
    proof (cases "as_u16 (fcard shd') = grp_count g")
      case False
      then show ?thesis using h True CollectingShares rs shd'
        by (auto simp: handle_key_gen_secret_shared_def group_size_def intro: shared)
    next
      case full: True
      have "rollover s' = rollover_failure e \<or>
          (\<exists>st dl. rollover s' = CollectingConfirmations e g p st {||} cmp dl \<and>
             (st \<noteq> ConfirmObserving \<longleftrightarrow> participates p) \<and> (dl = None \<longleftrightarrow> d = None))"
        and "s' = s\<lparr>rollover := rollover s'\<rparr>"
        using h True CollectingShares rs full
        by (auto simp: handle_key_gen_secret_shared_def group_size_def Let_def confirm_key_gen_def
            split: keygen_participation.splits sum.splits if_splits)
      then show ?thesis using all_shared [OF shd' full] failed [of "rollover s" e g "d = None" L T M] CollectingShares
        by auto
    qed
  next
    case False
    then show ?thesis using h CollectingShares by (auto simp: handle_key_gen_secret_shared_def intro: unchanged)
  qed
qed (auto simp: handle_key_gen_secret_shared_def intro: unchanged)

lemma complaint_round_of:
  "complaint_round T block gid r = Some (e, g, p, cs, rd, xd, rr) \<Longrightarrow> round_of r = Some (e, g, rd = None)"
  by (cases r) (auto simp: Let_def split: if_splits)

lemma complained_step:
  assumes h: "handle_key_gen_complained L T s block gid plaintiff a = (s', cmds)" and M: "M a"
  shows "s' = s\<lparr>rollover := rollover s'\<rparr> \<and> round_step L T M (rollover s) (rollover s')"
proof (cases "complaint_round T block gid (rollover s)")
  case None
  then show ?thesis using h by (auto simp: handle_key_gen_complained_def intro: unchanged)
next
  case (Some x)
  obtain e g p cs rd xd rr where x: "x = (e, g, p, cs, rd, xd, rr)" by (cases x) auto
  note rnd = complaint_round_of [OF Some [unfolded x]]
  let ?c = "count_complaint rr plaintiff (fmlookup cs a)"
  show ?thesis
  proof (cases "grp_threshold g \<le> total ?c")
    case True
    then have "restart_key_gen_excluding L T (s\<lparr>rollover := with_complaints (rollover s) (fmupd a ?c cs)\<rparr>) e
        (grp_excluded g |\<union>| {|a|}) rd = (s', cmds)"
      using h Some x by (simp add: handle_key_gen_complained_def group_size_def also_exclude_def Let_def)
    from restart_step [OF this rnd] show ?thesis by auto
  next
    case False
    then have "s' = s\<lparr>rollover := with_complaints (rollover s) (fmupd a ?c cs)\<rparr>"
      using h Some x by (auto simp: handle_key_gen_complained_def group_size_def Let_def)
    with False show ?thesis using complained [where M = M, OF rnd Some [unfolded x] M, of ?c plaintiff] by simp
  qed
qed

lemma response_round_of:
  "response_round block gid r = Some (e, g, p, cs, d) \<Longrightarrow> round_of r = Some (e, g, d = None)"
  by (cases r) (auto split: if_splits)

lemma confirm_when_complete_cases:
  "confirm_when_complete L T e s = (s', cs) \<Longrightarrow>
   s' = s\<lparr>rollover := rollover s'\<rparr> \<and>
   (rollover s' = rollover s \<or> rollover s' = rollover_failure e \<or>
    (\<exists>e' g p shs cf cmp dl ks. rollover s = CollectingConfirmations e' g p (Collecting shs) cf cmp dl \<and>
       rollover s' = CollectingConfirmations e' g p (Confirmed ks) cf cmp dl))"
  by (auto simp: confirm_when_complete_def confirm_key_gen_def
      split: rollover_state.splits keygen_participation.splits keygen_confirmation.splits if_splits sum.splits)

lemma revealed_confirmations [simp]:
  "with_revealed_share (CollectingConfirmations e g p st cf cs dl) a sh =
     CollectingConfirmations e g p (case st of Collecting shs \<Rightarrow> Collecting (fmupd a sh shs) | _ \<Rightarrow> st) cf cs dl"
  by (cases st) auto

lemma responded_step:
  assumes h: "handle_key_gen_complaint_responded L T s block gid plaintiff a sh = (s', cmds)"
  shows "s' = s\<lparr>rollover := rollover s'\<rparr> \<and> round_step L T M (rollover s) (rollover s')"
proof (cases "response_round block gid (rollover s)")
  case None
  then show ?thesis using h by (auto simp: handle_key_gen_complaint_responded_def intro: unchanged)
next
  case (Some x)
  obtain e g p cs d where x: "x = (e, g, p, cs, d)" by (cases x) auto
  note rnd = response_round_of [OF Some [unfolded x]]
  show ?thesis
  proof (cases "\<exists>c. fmlookup cs a = Some c \<and> plaintiff |\<in>| unresponded c")
    case False
    then show ?thesis using h Some x
      by (auto simp: handle_key_gen_complaint_responded_def intro: unchanged split: option.splits if_splits)
  next
    case True
    then obtain c where c: "fmlookup cs a = Some c" "plaintiff |\<in>| unresponded c" by auto
    let ?cs = "fmupd a (c\<lparr>unresponded := unresponded c |-| {|plaintiff|}\<rparr>) cs"
    let ?s = "s\<lparr>rollover := with_complaints (rollover s) ?cs\<rparr>"
    show ?thesis
    proof (cases "verify_revealed_secret_share (frost L) (participation_commitments p) plaintiff a sh")
      case (Inl err)
      then have "restart_key_gen_excluding L T ?s e (grp_excluded g |\<union>| {|a|})
          (map_option (\<lambda>_. sat_add block (key_gen_timeout T)) d) = (s', cmds)"
        using h Some x c by (simp add: handle_key_gen_complaint_responded_def also_exclude_def)
      from restart_step [OF this rnd] show ?thesis by auto
    next
      case (Inr share)
      let ?s' = "if plaintiff = tr_account T then ?s\<lparr>rollover := with_revealed_share (rollover ?s) a share\<rparr> else ?s"
      have "confirm_when_complete L T e ?s' = (s', cmds)"
        using h Some x c Inr by (auto simp: handle_key_gen_complaint_responded_def Let_def)
      note conf = confirm_when_complete_cases [OF this]
      have mid: "?s' = s\<lparr>rollover := rollover ?s'\<rparr>" by simp
      show ?thesis
      proof (cases "rollover s' = rollover_failure e")
        case True
        then show ?thesis using conf mid rnd by (auto intro: failed)
      next
        case False
        with conf c Some x show ?thesis
          by (cases "rollover s"; cases "tr_account T = plaintiff")
            (auto split: if_splits keygen_confirmation.splits intro: responded_shares responded_confirmations)
      qed
    qed
  qed
qed

lemma timed_out_round:
  "timed_out block r = Some (e, ex) \<Longrightarrow> \<exists>g X. round_of r = Some (e, g, False) \<and> ex = grp_excluded g |\<union>| X"
  by (cases "(block, r)" rule: timed_out.cases)
    (auto simp: exclude_all_others_def also_exclude_def Let_def split: if_splits)

lemma stuck_setup_round: "stuck_setup block r = Some e \<Longrightarrow> \<exists>g. round_of r = Some (e, g, False)"
  by (cases "(block, r)" rule: stuck_setup.cases) (auto split: if_splits)

lemma timeouts_step:
  assumes h: "handle_key_gen_timeouts L T s block = (s', cs)"
  shows "s' = s\<lparr>rollover := rollover s'\<rparr> \<and> round_step L T M (rollover s) (rollover s')"
proof (cases "stuck_setup block (rollover s)")
  case (Some e)
  then show ?thesis using h stuck_setup_round [OF Some] by (auto simp: handle_key_gen_timeouts_def intro: failed)
next
  case None
  show ?thesis
  proof (cases "timed_out block (rollover s)")
    case None': None
    then show ?thesis using h None by (auto simp: handle_key_gen_timeouts_def intro: unchanged)
  next
    case (Some x)
    obtain e ex where x: "x = (e, ex)" by (cases x)
    obtain g X where r: "round_of (rollover s) = Some (e, g, False)" and ex: "ex = grp_excluded g |\<union>| X"
      using timed_out_round [OF Some [unfolded x]] by auto
    have "restart_key_gen_excluding L T s e (grp_excluded g |\<union>| X) (Some (sat_add block (key_gen_timeout T))) = (s', cs)"
      using h None Some x ex by (simp add: handle_key_gen_timeouts_def)
    from restart_step [OF this r] show ?thesis by simp
  qed
qed

lemma genesis_key_gen_cases:
  assumes "handle_genesis_key_gen L T s gid = (s', cs)"
  shows "s' = s \<or> (rollover s = WaitingForGenesis \<and> s' = s\<lparr>rollover := rollover s'\<rparr> \<and>
    started L T Genesis (tr_genesis T) None (rollover s'))"
  using assms start_key_gen_started by (auto simp: handle_genesis_key_gen_def Let_def split: if_splits)

text \<open>The three outcomes of a confirmation: one more, genesis done, or a rollover to be signed.\<close>

lemma key_gen_confirmed_cases:
  assumes h: "handle_key_gen_confirmed L T s block gid a = (s', cs)" and M: "M a"
  obtains (round) "s' = s\<lparr>rollover := rollover s'\<rparr>" "round_step L T M (rollover s) (rollover s')"
  | (genesis) g p st cf cmp dl n where "rollover s = CollectingConfirmations Genesis g p st cf cmp dl"
      "n = next_number block (cfg_blocks_per_epoch (tr_config T))"
      "s' = (finalize_key_gen s Genesis g (confirmed_key_share st))\<lparr>rollover := rollover s'\<rparr>"
      "rollover s' = EpochSkipped n \<or>
       (\<exists>ps d. numbered_set L T n {||} = Some ps \<and> started L T (Number n) ps (Some d) (rollover s'))"
  | (proposed) n g p st cf cmp dl sessions where "rollover s = CollectingConfirmations (Number n) g p st cf cmp dl"
      "s' = s\<lparr>signing := sessions, rollover := SigningRollover n g (confirmed_key_share st) (rollover_message L T s n p)\<rparr>"
      "sessions = (case fmlookup (epochs s) (active_epoch s) of
         Some ep \<Rightarrow> fmupd (rollover_message L T s n p)
           (WaitingForRequest (ep_key_share ep) (grp_id (ep_group ep)) (Some a)
              (EpochRollover (active_epoch s) n (rollover_block_of T n) (grp_id g)
                 (group_key (participation_commitments p))) False
              (grp_participants (ep_group ep)) (sat_add block (signing_timeout T))) (signing s)
       | None \<Rightarrow> signing s)" "as_u16 (fcard (finsert a cf)) = grp_count g"
proof (cases "\<exists>e g p st cf cmp dl. rollover s = CollectingConfirmations e g p st cf cmp dl \<and> grp_id g = gid")
  case False
  then have "s' = s" using h by (auto simp: handle_key_gen_confirmed_def split: rollover_state.splits if_splits)
  then show ?thesis using that(1) by (simp add: unchanged)
next
  case True
  then obtain e g p st cf cmp dl where r: "rollover s = CollectingConfirmations e g p st cf cmp dl" "grp_id g = gid"
    by auto
  show ?thesis
  proof (cases "as_u16 (fcard (finsert a cf)) = grp_count g")
    case False
    then have "s' = s\<lparr>rollover := CollectingConfirmations e g p st (finsert a cf) cmp dl\<rparr>"
      using h r by (simp add: handle_key_gen_confirmed_def group_size_def Let_def)
    then show ?thesis using that(1) r False confirmed [where M = M, OF M] by simp
  next
    case full: True
    show ?thesis
    proof (cases e)
      case Genesis
      let ?n = "next_number block (cfg_blocks_per_epoch (tr_config T))"
      let ?s = "finalize_key_gen (s\<lparr>rollover := EpochSkipped ?n\<rparr>) Genesis g (confirmed_key_share st)"
      have fs: "?s = (finalize_key_gen s Genesis g (confirmed_key_share st))\<lparr>rollover := EpochSkipped ?n\<rparr>"
        by (simp add: finalize_key_gen_def split: option.split)
      show ?thesis
      proof (cases "fresh_participants L T ?n")
        case None
        then have "s' = ?s" using h r Genesis full by (simp add: handle_key_gen_confirmed_def group_size_def Let_def)
        then show ?thesis using that(2) [OF r(1) [unfolded Genesis] refl] fs by simp
      next
        case (Some ps)
        then have "start_key_gen L T ?s (Number ?n) ps (Some (sat_add block (key_gen_timeout T))) = (s', cs)"
          using h r Genesis full by (simp add: handle_key_gen_confirmed_def group_size_def Let_def)
        note st = start_key_gen_started [OF this]
        have "s' = (finalize_key_gen s Genesis g (confirmed_key_share st))\<lparr>rollover := rollover s'\<rparr>"
          using st unfolding fs by simp
        then show ?thesis using that(2) [OF r(1) [unfolded Genesis] refl] st Some
          by (auto simp: fresh_participants_def numbered_set_def)
      qed
    next
      case (Number n)
      then show ?thesis using that(3) [OF r(1) [unfolded Number] _ refl full] h r full
        by (auto simp: handle_key_gen_confirmed_def group_size_def Let_def)
    qed
  qed
qed

lemma epoch_staged_cases:
  assumes "handle_epoch_staged s raw gid = (s', cs)"
  obtains (ignored) "s' = s"
  | (recover) "rollover s = WaitingForGenesis" "s' = s\<lparr>rollover := rollover s'\<rparr>"
      "rollover s' = (case nz_new raw of Some n \<Rightarrow> EpochSkipped n | None \<Rightarrow> Halted)"
  | (staged) n g ks m where "rollover s = SigningRollover n g ks m"
      "s' = fst (handle_sign_attested (finalize_key_gen (s\<lparr>rollover := EpochStaged n\<rparr>) (Number n) g ks) m)"
proof (cases "rollover s")
  case WaitingForGenesis
  then show ?thesis using assms that(2) by (auto simp: handle_epoch_staged_def)
next
  case (SigningRollover n g ks m)
  show ?thesis
  proof (cases "grp_id g = gid")
    case True
    then show ?thesis using that(3) [OF SigningRollover] assms SigningRollover
      by (simp add: handle_epoch_staged_def)
  next
    case False
    then show ?thesis using that(1) assms SigningRollover by (simp add: handle_epoch_staged_def)
  qed
qed (use assms that(1) in \<open>auto simp: handle_epoch_staged_def\<close>)

text \<open>The block clock either leaves the state alone or moves on to a strictly later epoch.\<close>

lemma rollover_new_block_cases:
  assumes h: "handle_rollover_new_block L T s block = (s', cs)"
  obtains (not_due) "s' = s"
    "\<And>n. next_epoch (rollover s) = Some (Number n) \<Longrightarrow>
       next_number block (cfg_blocks_per_epoch (tr_config T)) \<le> n"
  | (due) target n where "next_epoch (rollover s) = Some (Number target)"
      "n = next_number block (cfg_blocks_per_epoch (tr_config T))" "target < n"
      "s' = s\<lparr>active_epoch := (if rollover s = EpochStaged target then Number target else active_epoch s),
              rollover := rollover s'\<rparr>"
      "rollover s' = EpochSkipped n \<or>
       (\<exists>ps. numbered_set L T n {||} = Some ps \<and>
         started L T (Number n) ps (Some (sat_add block (key_gen_timeout T))) (rollover s'))"
proof (cases "Option.bind (next_epoch (rollover s)) epoch_number")
  case None
  then have "s' = s" using h by (simp add: handle_rollover_new_block_def)
  moreover have "next_epoch (rollover s) \<noteq> Some (Number n)" for n using None by auto
  ultimately show ?thesis using that(1) by simp
next
  case (Some target)
  then have t: "next_epoch (rollover s) = Some (Number target)" by (auto simp: bind_eq_Some_conv)
  let ?n = "next_number block (cfg_blocks_per_epoch (tr_config T))"
  let ?a = "if rollover s = EpochStaged target then Number target else active_epoch s"
  have act: "(case rollover s of EpochStaged _ \<Rightarrow> s\<lparr>active_epoch := Number target\<rparr> | _ \<Rightarrow> s) =
      s\<lparr>active_epoch := ?a\<rparr>"
    using t by (auto split: rollover_state.split)
  show ?thesis
  proof (cases "?n \<le> target")
    case True
    then have "s' = s" using h Some by (simp add: handle_rollover_new_block_def Let_def)
    then show ?thesis using that(1) True t by simp
  next
    case False
    show ?thesis
    proof (cases "fresh_participants L T ?n")
      case None
      then have "s' = s\<lparr>active_epoch := ?a, rollover := EpochSkipped ?n\<rparr>"
        using h Some False by (simp add: handle_rollover_new_block_def Let_def act del: if_split)
      then show ?thesis using that(2) [OF t refl] False by simp
    next
      case ps: (Some ps)
      then have "start_key_gen L T (s\<lparr>active_epoch := ?a\<rparr>) (Number ?n) ps
          (Some (sat_add block (key_gen_timeout T))) = (s', cs)"
        using h Some False by (simp add: handle_rollover_new_block_def Let_def act del: if_split)
      from start_key_gen_started [OF this] show ?thesis using that(2) [OF t refl] False ps
        by (auto simp: fresh_participants_def numbered_set_def)
    qed
  qed
qed

section \<open>Sound rollover states\<close>

text \<open>
  Every group is derived from the configuration for its epoch and its own exclusions, our account is a
  member of every group we hold secrets for, every complaint count is below the signing threshold, and
  exactly the genesis rounds run without a deadline.
\<close>

fun group_derived :: "lib \<Rightarrow> transition \<Rightarrow> epoch_id \<Rightarrow> group \<Rightarrow> bool" where
  "group_derived L T Genesis g = (g = group_of (keccak256 L) (tr_genesis T))"
| "group_derived L T (Number n) g =
     (case numbered_set L T n (grp_excluded g) of None \<Rightarrow> False | Some ps \<Rightarrow> g = group_of (keccak256 L) ps)"

definition complaints_ok :: "group \<Rightarrow> (address, complaint) fmap \<Rightarrow> bool" where
  "complaints_ok g cs \<longleftrightarrow> (\<forall>a c. fmlookup cs a = Some c \<longrightarrow> total c < grp_threshold g)"

abbreviation member :: "transition \<Rightarrow> group \<Rightarrow> bool" where
  "member T g \<equiv> tr_account T |\<in>| grp_participants g"

fun rollover_ok :: "lib \<Rightarrow> transition \<Rightarrow> rollover_state \<Rightarrow> bool" where
  "rollover_ok L T (CollectingCommitments e g sec c d) =
     (group_derived L T e g \<and> (commits sec \<longrightarrow> member T g) \<and> (d = None \<longleftrightarrow> e = Genesis))"
| "rollover_ok L T (CollectingShares e g p shd shs cs d) =
     (group_derived L T e g \<and> (participates p \<longrightarrow> member T g) \<and> (d = None \<longleftrightarrow> e = Genesis) \<and> complaints_ok g cs \<and>
      shd |\<subseteq>| fmdom (gc_commitments (participation_commitments p)))"
| "rollover_ok L T (CollectingConfirmations e g p st cf cs dl) =
     (group_derived L T e g \<and> (participates p \<longrightarrow> member T g) \<and> (dl = None \<longleftrightarrow> e = Genesis) \<and> complaints_ok g cs \<and>
      (st \<noteq> ConfirmObserving \<longleftrightarrow> participates p))"
| "rollover_ok L T (SigningRollover n g ks m) = (group_derived L T (Number n) g \<and> (ks \<noteq> None \<longrightarrow> member T g))"
| "rollover_ok L T _ = True"

lemma numbered_set_Some:
  assumes "numbered_set L T n X = Some ps"
  shows "ps_excluded ps = X" "ps_wf ps"
  using assms participants_set_SomeD(2) participants_set_wf unfolding numbered_set_def by fastforce+

lemma derived_numbered: "numbered_set L T n X = Some ps \<Longrightarrow> group_derived L T (Number n) (group_of (keccak256 L) ps)"
  using numbered_set_Some(1) by force

lemma group_derived_wf: "ps_wf (tr_genesis T) \<Longrightarrow> group_derived L T e g \<Longrightarrow> group_wf g"
  by (cases e) (auto intro: group_of_wf numbered_set_Some(2) split: option.splits)

lemma started_ok:
  "started L T (Number n) ps (Some d) r \<Longrightarrow> numbered_set L T n X = Some ps \<Longrightarrow> rollover_ok L T r"
  "started L T Genesis (tr_genesis T) None r \<Longrightarrow> rollover_ok L T r"
  using derived_numbered by (auto simp: started_def simp del: group_derived.simps(2))

lemma complaints_ok_empty [simp]: "complaints_ok g fmempty"
  by (simp add: complaints_ok_def)

lemma complaints_ok_upd: "complaints_ok g cs \<Longrightarrow> total c < grp_threshold g \<Longrightarrow> complaints_ok g (fmupd a c cs)"
  by (auto simp: complaints_ok_def)

lemma rollover_failure_ok [simp]: "rollover_ok L T (rollover_failure e)"
  by (cases e) simp_all

lemma round_epoch_deadline: "rollover_ok L T r \<Longrightarrow> round_of r = Some (e, g, nd) \<Longrightarrow> nd \<longleftrightarrow> e = Genesis"
  by (cases r) auto

lemma round_step_ok:
  assumes "round_step L T M r r'" "rollover_ok L T r"
  shows "rollover_ok L T r'"
  using assms
proof (induction rule: round_step.induct)
  case (complained r e g nd block gid p cs rd xd rr c plaintiff a)
  then show ?case
    by (cases r) (auto simp: Let_def intro: complaints_ok_upd split: if_splits)
next
  case (restarted r n g nd X ps d r')
  then show ?case using round_epoch_deadline by blast
next
  case (restarted_timed r n g nd X ps d r')
  then show ?case using started_ok(1) by blast
next
  case (responded_shares cs a c plaintiff cs' e g p shd shs d shs')
  then show ?case by (auto simp: complaints_ok_def)
next
  case (responded_confirmations cs a c plaintiff cs' st' st e g p cf dl)
  then show ?case by (auto simp: complaints_ok_def)
qed (auto simp: fm_has_iff)

text \<open>A step inside a round keeps the epoch, or halts a genesis that cannot go on.\<close>

lemma round_of_next: "round_of r = Some (e, g, nd) \<Longrightarrow> next_epoch r = Some e"
  by (cases r) auto

lemma with_complaints_next [simp]: "next_epoch (with_complaints r cs) = next_epoch r"
  by (cases r) auto

lemma round_step_next:
  "round_step L T M r r' \<Longrightarrow>
   next_epoch r' = next_epoch r \<or> (r' = Halted \<and> next_epoch r = Some Genesis)"
proof (induction rule: round_step.induct)
  case (failed r e g nd)
  then show ?case using round_of_next [OF failed] by (cases e) auto
qed (auto simp: started_def dest: round_of_next)

lemma round_step_not_staged: "round_step L T M r r' \<Longrightarrow> r' = EpochStaged n \<Longrightarrow> r = EpochStaged n"
proof (induction rule: round_step.induct)
  case (complained r e g nd block gid p cs rd xd rr c plaintiff a)
  then show ?case by (cases r) auto
next
  case (failed r e g nd)
  then show ?case by (cases e) auto
qed (auto simp: started_def)

section \<open>Rounds of members\<close>

text \<open>
  When the contract only reports members of the group, a round in progress has heard from members
  only and still misses one of them (or our own setup).
\<close>

fun rollover_members :: "rollover_state \<Rightarrow> bool" where
  "rollover_members (CollectingCommitments e g sec c d) =
     (fmdom c |\<subseteq>| grp_participants g \<and> (as_u16 (fm_len c) \<noteq> grp_count g \<or> awaiting_setup sec))"
| "rollover_members (CollectingShares e g p shd shs cs d) =
     (fmdom (gc_commitments (participation_commitments p)) |\<subseteq>| grp_participants g \<and> shd |\<subseteq>| grp_participants g \<and>
      fmdom cs |\<subseteq>| grp_participants g \<and> as_u16 (fcard shd) \<noteq> grp_count g)"
| "rollover_members (CollectingConfirmations e g p st cf cs dl) =
     (cf |\<subseteq>| grp_participants g \<and> fmdom cs |\<subseteq>| grp_participants g \<and> as_u16 (fcard cf) \<noteq> grp_count g)"
| "rollover_members _ = True"

lemma group_wf_count: "group_wf g \<Longrightarrow> as_u16 0 \<noteq> grp_count g"
  using group_wf_sizes(1,3,4) [of g] by (auto simp: as_u16_def)

lemma group_wf_full:
  assumes "group_wf g" "A |\<subseteq>| grp_participants g"
  shows "as_u16 (fcard A) = grp_count g \<longleftrightarrow> A = grp_participants g"
proof -
  have small: "fcard (grp_participants g) < 2 ^ 16" "grp_count g = as_u16 (fcard (grp_participants g))"
    using assms(1) by (auto simp: group_wf_def)
  moreover have le: "fcard A \<le> fcard (grp_participants g)" using assms(2) by (rule fcard_mono)
  ultimately have "as_u16 (fcard A) = grp_count g \<longleftrightarrow> fcard A = fcard (grp_participants g)"
    by (simp add: as_u16_eq_iff)
  then show ?thesis using fsubset_fcard_eq [OF assms(2)] by auto
qed

lemma started_members: "started L T e ps d r \<Longrightarrow> ps_wf ps \<Longrightarrow> rollover_members r"
  using group_wf_count [OF group_of_wf] by (fastforce simp: started_def)

lemma round_step_members:
  assumes "round_step L T M r r'" "rollover_members r" "rollover_ok L T r" "ps_wf (tr_genesis T)"
    and "\<And>a e g nd. M a \<Longrightarrow> round_of r = Some (e, g, nd) \<Longrightarrow> a |\<in>| grp_participants g"
  shows "rollover_members r'"
  using assms
proof (induction rule: round_step.induct)
  case (all_committed a c c' g p sec d' d e)
  then have "group_wf g" by (auto intro: group_derived_wf)
  with all_committed show ?case by (auto simp: grown_def group_wf_count)
next
  case (all_shared shd' shd a p g st dl d e shs cs)
  then have "group_wf g" by (auto intro: group_derived_wf)
  with all_shared show ?case by (auto simp: group_wf_count)
next
  case (complained r e g nd block gid p cs rd xd rr c plaintiff a)
  then show ?case by (cases r) (auto simp: Let_def split: if_splits)
next
  case (responded_shares cs a c plaintiff cs' e g p shd shs d shs')
  then show ?case by (auto simp: fmlookup_dom_iff dest: fmdomI)
next
  case (responded_confirmations cs a c plaintiff cs' st' st e g p cf dl)
  then show ?case by (auto simp: fmlookup_dom_iff dest: fmdomI)
next
  case (restarted r n g nd X ps d r')
  then show ?case by (auto intro: started_members numbered_set_Some(2))
next
  case (restarted_timed r n g nd X ps d r')
  then show ?case by (auto intro: started_members numbered_set_Some(2))
next
  case (failed r e g nd)
  then show ?case by (cases e) auto
qed (auto simp: grown_def fm_has_iff)

text \<open>A timed out round excludes at least one of its members.\<close>

lemma unresponded_complaints_dom: "unresponded_complaints cs |\<subseteq>| fmdom cs"
  by (auto simp: unresponded_complaints_def fset_of_list_elem)

lemma timed_out_excludes_member:
  assumes "timed_out block r = Some (e, ex)" "stuck_setup block r = None" "rollover_members r"
    and "round_of r = Some (e, g, nd)" "group_wf g"
  shows "grp_participants g |\<inter>| ex \<noteq> {||}"
proof -
  have missing: "grp_participants g |\<inter>| (E |\<union>| (grp_participants g |-| A)) \<noteq> {||}"
    if "A |\<subseteq>| grp_participants g" "as_u16 (fcard A) \<noteq> grp_count g" for A E
    using group_wf_full [OF assms(5) that(1)] that by blast
  have late: "grp_participants g |\<inter>| (E |\<union>| unresponded_complaints cs) \<noteq> {||}"
    if "fmdom cs |\<subseteq>| grp_participants g" "x |\<in>| unresponded_complaints cs" for cs E x
    using unresponded_complaints_dom [of cs] that by blast
  from assms(1-4) show ?thesis
  proof (cases "(block, r)" rule: timed_out.cases)
    case (1 b e' g' sec c d)
    then have "as_u16 (fcard (fmdom c)) \<noteq> grp_count g"
      using assms(1-4) by (cases sec) (auto simp: group_size_def fm_len_def split: if_splits)
    then show ?thesis using 1 assms(1,3,4) missing
      by (auto simp: exclude_all_others_def also_exclude_def split: if_splits)
  next
    case (2 b e' g' p shd shs cs d)
    then show ?thesis using assms(1,3,4) missing
      by (auto simp: exclude_all_others_def also_exclude_def split: if_splits)
  next
    case (3 b e' g' p st cf cs dl)
    then show ?thesis using assms(1,3,4) missing late
      by (auto simp: exclude_all_others_def also_exclude_def Let_def split: if_splits)
  qed auto
qed

lemma numbered_restart:
  assumes "group_derived L T (Number n) g" "numbered_set L T n (grp_excluded g |\<union>| X) = Some ps"
  shows "ps_addresses ps = grp_participants g |-| X"
proof -
  obtain A C where A: "\<And>Y. epoch_addresses (keccak256 L) (cfg_participants (tr_config T))
      (NumberGroup (cfg_consensus (tr_config T)) n Y) = (A, Y, C)" by simp
  obtain ps0 where ps0: "numbered_set L T n (grp_excluded g) = Some ps0" "g = group_of (keccak256 L) ps0"
    using assms(1) by (auto split: option.splits)
  have "ps_addresses ps0 = A |-| grp_excluded g"
    using participants_set_SomeD(1) [OF ps0(1) [unfolded numbered_set_def] A] .
  moreover have "ps_addresses ps = A |-| (grp_excluded g |\<union>| X)"
    using participants_set_SomeD(1) [OF assms(2) [unfolded numbered_set_def] A] .
  ultimately show ?thesis using ps0(2) by auto
qed

section \<open>Live rounds\<close>

text \<open>
  Nothing of the round is left for the block to end: the deadline of a commitment or share round has not passed, and in
  a confirmation round neither that for confirmations nor, while a complaint is unanswered, that for responses.  The
  deadline for complaints ends nothing, it only bounds when a new complaint is accepted.
\<close>

fun round_live :: "u64 \<Rightarrow> rollover_state \<Rightarrow> bool" where
  "round_live block (CollectingCommitments e g sec c d) = (case d of None \<Rightarrow> True | Some d \<Rightarrow> block < d)"
| "round_live block (CollectingShares e g p shd shs cs d) = (case d of None \<Rightarrow> True | Some d \<Rightarrow> block < d)"
| "round_live block (CollectingConfirmations e g p st cf cs dl) =
     (case dl of None \<Rightarrow> True
      | Some dl \<Rightarrow> block < dl_confirm dl \<and> (block < dl_response dl \<or> unresponded_complaints cs = {||}))"
| "round_live block _ = True"

lemma not_timed_out_live:
  "timed_out block r = None \<Longrightarrow> round_live block r"
  by (cases "(block, r)" rule: timed_out.cases)
    (auto simp: Let_def not_le split: if_splits option.splits)

lemma rollover_failure_live [simp]: "round_live block (rollover_failure e)"
  by (cases e) simp_all

lemma key_gen_timeouts_live:
  assumes "handle_key_gen_timeouts L T s block = (s', cs)" "block \<noteq> - 1"
  shows "round_live block (rollover s')"
proof -
  have later: "block < sat_add block (key_gen_timeout T)" using assms(2) by (simp add: sat_add_gt)
  have restart: "round_live block (rollover s')"
    if "restart_key_gen_excluding L T s e ex (Some (sat_add block (key_gen_timeout T))) = (s', cs)" for e ex
    using that later start_key_gen_started
    by (fastforce simp: restart_key_gen_excluding_def started_def Let_def split: option.splits)
  show ?thesis
    using assms(1) restart not_timed_out_live
    by (auto simp: handle_key_gen_timeouts_def split: option.splits)
qed

end
