(* ===== verification/Validator.thy ===== *)
theory Validator
  imports Keygen
begin

text \<open>
  The validator's state transition (\<^verbatim>\<open>crates/validator/src/state/mod.rs\<close>, \<^verbatim>\<open>state/secrets.rs\<close>): every message is
  dispatched to its handlers, and a new block runs the rollover clock, the key generation timeouts, the
  signing timeouts and the reconciliation of group secrets in this order.  The second half proves the
  invariants of all runs from the initial state.
\<close>

section \<open>Reconciliation of group secrets\<close>

fun dkg_retention :: "rollover_state \<Rightarrow> (b256 \<times> retained_secrets) option" where
  "dkg_retention (CollectingConfirmations e g p (Confirmed ks) cf cs dl) = Some (grp_id g, RetainNonces)"
| "dkg_retention (SigningRollover n g (Some ks) m) = Some (grp_id g, RetainNonces)"
| "dkg_retention (CollectingCommitments e g (CommitParticipating poap secrets) c d) = Some (grp_id g, RetainAll)"
| "dkg_retention (CollectingShares e g (Participating ss) shd shs cs d) = Some (grp_id g, RetainAll)"
| "dkg_retention (CollectingConfirmations e g (Participating ss) st cf cs dl) = Some (grp_id g, RetainAll)"
| "dkg_retention _ = None"

definition oldest_epoch :: "state \<Rightarrow> epoch_id" where
  "oldest_epoch s = fold min (map (\<lambda>x. packet_epoch (sgn_packet x)) (fm_values (signing s))) (active_epoch s)"

definition retained_groups :: "(epoch_id, epoch) fmap \<Rightarrow> rollover_state \<Rightarrow> (b256, retained_secrets) fmap" where
  "retained_groups E r =
     (let groups = fold (\<lambda>ep m. fmupd (grp_id (ep_group ep)) RetainNonces m) (fm_values E) fmempty
      in case dkg_retention r of Some (gid, kind) \<Rightarrow> fmupd gid kind groups | None \<Rightarrow> groups)"

definition handle_group_reconciliation :: "state \<Rightarrow> u64 \<Rightarrow> state \<times> cmd list" where
  "handle_group_reconciliation s block =
     (let s = s\<lparr>epochs := fmfilter (\<lambda>e. oldest_epoch s \<le> e) (epochs s)\<rparr>
      in (s, [Effect (ReconcileGroupSecrets block (retained_groups (epochs s) (rollover s)))]))"

section \<open>The transition\<close>

fun apply_coordinator :: "lib \<Rightarrow> transition \<Rightarrow> state \<Rightarrow> u64 \<Rightarrow> coordinator_event \<Rightarrow> state \<times> cmd list" where
  "apply_coordinator L T s block (KeyGen gid participants count threshold context) =
     handle_genesis_key_gen L T s gid"
| "apply_coordinator L T s block (KeyGenCommitted gid participant commitment committed) =
     handle_key_gen_committed L T s block gid participant commitment"
| "apply_coordinator L T s block (KeyGenSecretShared gid participant share shared) =
     handle_key_gen_secret_shared L T s block gid participant share"
| "apply_coordinator L T s block (KeyGenConfirmed gid participant confirmed) =
     handle_key_gen_confirmed L T s block gid participant"
| "apply_coordinator L T s block (KeyGenComplained gid plaintiff accused compromised) =
     handle_key_gen_complained L T s block gid plaintiff accused"
| "apply_coordinator L T s block (KeyGenComplaintResponded gid plaintiff accused secret_share) =
     handle_key_gen_complaint_responded L T s block gid plaintiff accused secret_share"
| "apply_coordinator L T s block (Sign initiator gid message sid sequence) = handle_sign T s block gid message sid"
| "apply_coordinator L T s block (SignCommittedNonces sid participant nonces) =
     handle_sign_committed_nonces L T s block sid participant nonces"
| "apply_coordinator L T s block (SignShared sid selection_root participant z) =
     handle_sign_shared s sid selection_root participant"
| "apply_coordinator L T s block (SignCompleted sid selection_root sig) = handle_sign_completed T s block sid"

fun apply_consensus :: "lib \<Rightarrow> transition \<Rightarrow> state \<Rightarrow> u64 \<Rightarrow> consensus_event \<Rightarrow> state \<times> cmd list" where
  "apply_consensus L T s block (EpochStagedEvent active proposed rollover_block gid gkey sid attestation) =
     handle_epoch_staged s proposed gid"
| "apply_consensus L T s block (TransactionProposed tx_hash safe oracle epoch oracle_data tx) =
     handle_transaction_proposed L T s block oracle epoch oracle_data tx"
| "apply_consensus L T s block (TransactionAttested tx_hash safe oracle epoch oracle_data_hash sid attestation) =
     handle_transaction_attested L T s tx_hash oracle epoch oracle_data_hash"
| "apply_consensus L T s block (EpochProposed active proposed rollover_block gid gkey) = (s, [])"
| "apply_consensus L T s block (ValidatorStakerSet validator staker) = (s, [])"

fun apply_event :: "lib \<Rightarrow> transition \<Rightarrow> state \<Rightarrow> u64 \<Rightarrow> address \<Rightarrow> event \<Rightarrow> state \<times> cmd list" where
  "apply_event L T s block emitter (CoordinatorEvent ev) = apply_coordinator L T s block ev"
| "apply_event L T s block emitter (ConsensusEvent ev) = apply_consensus L T s block ev"
| "apply_event L T s block emitter (OracleEvent (OracleResult request_id proposer result approved)) =
     handle_oracle_result T s block emitter request_id approved"

definition apply_new_block :: "lib \<Rightarrow> transition \<Rightarrow> state \<Rightarrow> u64 \<Rightarrow> state \<times> cmd list" where
  "apply_new_block L T s block =
     (let (s, rollover_commands) = handle_rollover_new_block L T s block;
          (s, keygen_timeout_commands) = handle_key_gen_timeouts L T s block;
          (s, signing_timeout_commands) = handle_signing_timeouts L T s block;
          (s, reconciliation_commands) = handle_group_reconciliation s block
      in (s, rollover_commands @ keygen_timeout_commands @ signing_timeout_commands @ reconciliation_commands))"

fun apply_resume :: "lib \<Rightarrow> transition \<Rightarrow> state \<Rightarrow> resume \<Rightarrow> state \<times> cmd list" where
  "apply_resume L T s Noop = (s, [])"
| "apply_resume L T s (Setup gid secrets) = handle_key_gen_setup L T s gid secrets"
| "apply_resume L T s (NonceCommitments sid nonces) = handle_nonce_commitments s sid nonces"
| "apply_resume L T s (Nonces message nonces) = handle_nonces L T s message nonces"

fun apply_transition :: "lib \<Rightarrow> transition \<Rightarrow> state \<Rightarrow> msg \<Rightarrow> state \<times> cmd list" where
  "apply_transition L T s (Event log) = apply_event L T s (log_block log) (log_address log) (log_data log)"
| "apply_transition L T s (NewBlock block) = apply_new_block L T s block"
| "apply_transition L T s (Resume r) = apply_resume L T s r"

section \<open>The effect of a transition on sessions\<close>

fun approval_of :: "msg \<Rightarrow> b256 \<Rightarrow> address option" where
  "approval_of (Event log) m =
     (case log_data log of
        OracleEvent (OracleResult request_id proposer result approved) \<Rightarrow>
          if approved \<and> request_id = m then Some (log_address log) else None
      | _ \<Rightarrow> None)"
| "approval_of _ m = None"

lemma same_signing_steps: "signing s' = signing s \<Longrightarrow> sessions_step L T A s s'"
  by (simp add: stay)

lemma only_rollover_signing: "s' = s\<lparr>rollover := r\<rparr> \<Longrightarrow> signing s' = signing s"
  by simp

lemma finalize_frame [simp]:
  "rollover (finalize_key_gen s e g ks) = rollover s" "signing (finalize_key_gen s e g ks) = signing s"
  "active_epoch (finalize_key_gen s e g ks) = active_epoch s"
  "sid_to_message (finalize_key_gen s e g ks) = sid_to_message s"
  by (simp_all add: finalize_key_gen_def split: option.split)

lemma key_gen_confirmed_steps: "sessions_step L T A s (fst (handle_key_gen_confirmed L T s block gid a))"
proof -
  obtain s' cs where h: "handle_key_gen_confirmed L T s block gid a = (s', cs)" by (cases rule: prod.exhaust)
  have "sessions_step L T A s s'"
  proof (cases rule: key_gen_confirmed_cases [where M = "\<lambda>_. True", OF h TrueI])
    case 1
    then show ?thesis by (metis only_rollover_signing stay)
  next
    case (2 g p st cf cmp dl n)
    then have "signing s' = signing s" by (metis finalize_frame(2) only_rollover_signing)
    then show ?thesis by (simp add: stay)
  next
    case (3 n g p st cf cmp dl sessions)
    then show ?thesis
      by (auto simp: rollover_message_def intro: stay open_rollover split: option.split)
  qed
  then show ?thesis by (simp add: h)
qed

lemma sessions_step_epochs:
  "sessions_step L T A s0 s' \<Longrightarrow> signing s0 = signing s \<Longrightarrow> epochs s0 = epochs s \<Longrightarrow> sessions_step L T A s s'"
  by simp

lemma epoch_staged_steps: "sessions_step L T A s (fst (handle_epoch_staged s raw gid))"
proof -
  obtain s' cs where h: "handle_epoch_staged s raw gid = (s', cs)" by (cases rule: prod.exhaust)
  have "sessions_step L T A s s'"
  proof (cases rule: epoch_staged_cases [OF h])
    case 2
    then show ?thesis by (metis only_rollover_signing stay)
  next
    case (3 n g ks m)
    then show ?thesis by (auto simp: handle_sign_attested_def Let_def intro: dropped_step stay)
  qed (simp add: stay)
  then show ?thesis by (simp add: h)
qed

lemma rollover_only_steps:
  assumes "\<And>s' cs. h = (s', cs) \<Longrightarrow> s' = s\<lparr>rollover := rollover s'\<rparr> \<and> round_step L T M (rollover s) (rollover s')"
  shows "sessions_step L T A s (fst h)"
proof -
  have "fst h = s\<lparr>rollover := rollover (fst h)\<rparr>" using assms [of "fst h" "snd h"] by simp
  then have "signing (fst h) = signing s" by (rule only_rollover_signing)
  then show ?thesis by (simp add: stay)
qed

lemma apply_coordinator_steps: "sessions_step L T A s (fst (apply_coordinator L T s block ev))"
proof (cases ev)
  case (KeyGen gid ps count threshold ctx)
  have "signing (fst (handle_genesis_key_gen L T s gid)) = signing s"
    using genesis_key_gen_cases [of L T s gid] by (metis only_rollover_signing prod.collapse)
  then show ?thesis unfolding KeyGen apply_coordinator.simps by (simp add: stay)
next
  case (KeyGenCommitted gid a kc b)
  show ?thesis unfolding KeyGenCommitted apply_coordinator.simps
    by (rule rollover_only_steps [where M = "\<lambda>_. True"]) (rule committed_step, assumption, simp)
next
  case (KeyGenSecretShared gid a sh b)
  show ?thesis unfolding KeyGenSecretShared apply_coordinator.simps
    by (rule rollover_only_steps) (rule secret_shared_step)
next
  case (KeyGenConfirmed gid a b)
  show ?thesis unfolding KeyGenConfirmed apply_coordinator.simps by (rule key_gen_confirmed_steps)
next
  case (KeyGenComplained gid plaintiff a b)
  show ?thesis unfolding KeyGenComplained apply_coordinator.simps
    by (rule rollover_only_steps [where M = "\<lambda>_. True"]) (rule complained_step, assumption, simp)
next
  case (KeyGenComplaintResponded gid plaintiff a sh)
  show ?thesis unfolding KeyGenComplaintResponded apply_coordinator.simps
    by (rule rollover_only_steps) (rule responded_step)
qed (simp_all only: apply_coordinator.simps handle_sign_steps handle_sign_committed_nonces_steps
    handle_sign_shared_steps handle_sign_completed_steps simp_thms)

lemma apply_consensus_steps: "sessions_step L T A s (fst (apply_consensus L T s block ev))"
  by (cases ev) (simp_all only: apply_consensus.simps epoch_staged_steps handle_transaction_proposed_steps
      handle_transaction_attested_steps simp_thms fst_conv stay)

text \<open>The four phases of a new block, named.\<close>

lemma new_block_phases:
  obtains s1 c1 s2 c2 s3 c3 s4 c4 where "handle_rollover_new_block L T s block = (s1, c1)"
    "handle_key_gen_timeouts L T s1 block = (s2, c2)" "handle_signing_timeouts L T s2 block = (s3, c3)"
    "handle_group_reconciliation s3 block = (s4, c4)" "apply_new_block L T s block = (s4, c1 @ c2 @ c3 @ c4)"
proof -
  obtain s1 c1 where 1: "handle_rollover_new_block L T s block = (s1, c1)" by (cases rule: prod.exhaust)
  obtain s2 c2 where 2: "handle_key_gen_timeouts L T s1 block = (s2, c2)" by (cases rule: prod.exhaust)
  obtain s3 c3 where 3: "handle_signing_timeouts L T s2 block = (s3, c3)" by (cases rule: prod.exhaust)
  obtain s4 c4 where 4: "handle_group_reconciliation s3 block = (s4, c4)" by (cases rule: prod.exhaust)
  show ?thesis by (rule that [OF 1 2 3 4]) (simp add: apply_new_block_def 1 2 3 4)
qed

lemma only_clock_frame:
  assumes "s' = s\<lparr>active_epoch := a, rollover := r\<rparr>"
  shows "signing s' = signing s" "epochs s' = epochs s" "sid_to_message s' = sid_to_message s" "active_epoch s' = a"
  using assms by simp_all

lemma only_rollover_frame:
  assumes "s' = s\<lparr>rollover := r\<rparr>"
  shows "signing s' = signing s" "epochs s' = epochs s" "sid_to_message s' = sid_to_message s"
    "active_epoch s' = active_epoch s"
  using assms by simp_all

lemma rollover_new_block_frame:
  assumes "handle_rollover_new_block L T s block = (s', cs)"
  shows "signing s' = signing s" "epochs s' = epochs s" "sid_to_message s' = sid_to_message s"
  by (cases rule: rollover_new_block_cases [OF assms]; (blast dest: only_clock_frame)?; simp)+

lemma key_gen_timeouts_frame:
  assumes "handle_key_gen_timeouts L T s block = (s', cs)"
  shows "signing s' = signing s" "epochs s' = epochs s" "sid_to_message s' = sid_to_message s"
    "active_epoch s' = active_epoch s"
  using only_rollover_frame [OF conjunct1 [OF timeouts_step [OF assms]]] by simp_all

lemma reconciliation_frame:
  assumes "handle_group_reconciliation s block = (s', cs)"
  shows "signing s' = signing s" "sid_to_message s' = sid_to_message s" "rollover s' = rollover s"
    "active_epoch s' = active_epoch s" "epochs s' = fmfilter (\<lambda>e. oldest_epoch s \<le> e) (epochs s)"
    "cs = [Effect (ReconcileGroupSecrets block (retained_groups (epochs s') (rollover s')))]"
  using assms by (auto simp: handle_group_reconciliation_def Let_def)

lemma apply_new_block_steps: "sessions_step L T A s (fst (apply_new_block L T s block))"
proof -
  obtain s1 c1 s2 c2 s3 c3 s4 c4 where ph: "handle_rollover_new_block L T s block = (s1, c1)"
    "handle_key_gen_timeouts L T s1 block = (s2, c2)" "handle_signing_timeouts L T s2 block = (s3, c3)"
    "handle_group_reconciliation s3 block = (s4, c4)" "apply_new_block L T s block = (s4, c1 @ c2 @ c3 @ c4)"
    by (rule new_block_phases)
  have "sessions_step L T A s2 s3" using handle_signing_timeouts_steps [where A = A and L = L and T = T and s = s2] ph(3) by (metis fst_conv)
  then show ?thesis
    using rollover_new_block_frame [OF ph(1)] key_gen_timeouts_frame [OF ph(2)] reconciliation_frame(1) [OF ph(4)] ph(5)
    by simp
qed

lemma resume_signing: "signing (fst (apply_resume L T s r)) = signing s"
proof (cases r)
  case (Setup gid secrets)
  then show ?thesis using setup_step [of L T s gid secrets]
    by (metis apply_resume.simps(2) only_rollover_signing prod.collapse)
qed (auto simp: handle_nonce_commitments_def handle_nonces_def
    split: option.splits signing_state.splits sum.splits)

text \<open>Every message moves every session along \<open>session_step\<close>.\<close>

lemma apply_transition_steps: "sessions_step L T (approval_of msg) s (fst (apply_transition L T s msg))"
proof (cases msg)
  case (NewBlock b)
  then show ?thesis using apply_new_block_steps by simp
next
  case (Event log)
  show ?thesis
  proof (cases "log_data log")
    case (ConsensusEvent ev)
    then show ?thesis using apply_consensus_steps Event by simp
  next
    case (CoordinatorEvent ev)
    then show ?thesis using apply_coordinator_steps Event by simp
  next
    case (OracleEvent ev)
    then show ?thesis unfolding Event
      by (cases ev) (simp only: apply_transition.simps apply_event.simps, rule handle_oracle_result_steps, simp)
  qed
next
  case (Resume r)
  then show ?thesis by (simp add: resume_signing stay)
qed

section \<open>The core invariant\<close>

definition epochs_ok :: "lib \<Rightarrow> transition \<Rightarrow> (epoch_id, epoch) fmap \<Rightarrow> bool" where
  "epochs_ok L T E \<longleftrightarrow>
     (\<forall>e ep. fmlookup E e = Some ep \<longrightarrow> group_derived L T e (ep_group ep) \<and> member T (ep_group ep))"

text \<open>
  The epoch a rollover works toward lies after the active epoch and after every epoch on record; only a
  staged epoch is on record before it becomes active.
\<close>

definition clock_ok :: "rollover_state \<Rightarrow> epoch_id \<Rightarrow> (epoch_id, epoch) fmap \<Rightarrow> bool" where
  "clock_ok r active E \<longleftrightarrow>
     (case next_epoch r of
        None \<Rightarrow> True
      | Some Genesis \<Rightarrow> active = Genesis \<and> E = fmempty
      | Some (Number n) \<Rightarrow> active < Number n \<and>
          (\<forall>e. e |\<in>| fmdom E \<longrightarrow> e < Number n \<or> (r = EpochStaged n \<and> e = Number n)))"

definition core_ok :: "lib \<Rightarrow> transition \<Rightarrow> state \<Rightarrow> bool" where
  "core_ok L T s \<longleftrightarrow> rollover_ok L T (rollover s) \<and> epochs_ok L T (epochs s) \<and>
     clock_ok (rollover s) (active_epoch s) (epochs s)"

lemma core_initial: "core_ok L T initial_state"
  by (simp add: core_ok_def epochs_ok_def clock_ok_def initial_state_def)

lemma core_frame:
  "rollover s' = rollover s \<Longrightarrow> epochs s' = epochs s \<Longrightarrow> active_epoch s' = active_epoch s \<Longrightarrow>
   core_ok L T s \<Longrightarrow> core_ok L T s'"
  by (simp add: core_ok_def)

lemma handle_sign_frame [frames]:
  "rollover (fst (handle_sign T s b gid m sid)) = rollover s"
  "epochs (fst (handle_sign T s b gid m sid)) = epochs s"
  "active_epoch (fst (handle_sign T s b gid m sid)) = active_epoch s"
  by (auto simp: handle_sign_def Let_def split: option.split signing_state.split packet.split)

lemma handle_oracle_result_frame [frames]:
  "rollover (fst (handle_oracle_result T s b oracle m a)) = rollover s"
  "epochs (fst (handle_oracle_result T s b oracle m a)) = epochs s"
  "active_epoch (fst (handle_oracle_result T s b oracle m a)) = active_epoch s"
  by (auto simp: handle_oracle_result_def split: option.split signing_state.split)

lemma handle_sign_committed_nonces_frame [frames]:
  "rollover (fst (handle_sign_committed_nonces L T s b sid a n)) = rollover s"
  "epochs (fst (handle_sign_committed_nonces L T s b sid a n)) = epochs s"
  "active_epoch (fst (handle_sign_committed_nonces L T s b sid a n)) = active_epoch s"
  by (auto simp: handle_sign_committed_nonces_def Let_def split: option.split signing_state.split)

lemma handle_sign_shared_frame [frames]:
  "rollover (fst (handle_sign_shared s sid rt a)) = rollover s"
  "epochs (fst (handle_sign_shared s sid rt a)) = epochs s"
  "active_epoch (fst (handle_sign_shared s sid rt a)) = active_epoch s"
  by (auto simp: handle_sign_shared_def split: option.split signing_state.split)

lemma handle_sign_completed_frame [frames]:
  "rollover (fst (handle_sign_completed T s b sid)) = rollover s"
  "epochs (fst (handle_sign_completed T s b sid)) = epochs s"
  "active_epoch (fst (handle_sign_completed T s b sid)) = active_epoch s"
  by (auto simp: handle_sign_completed_def split: option.split signing_state.split)

lemma handle_sign_attested_frame [frames]:
  "rollover (fst (handle_sign_attested s m)) = rollover s"
  "epochs (fst (handle_sign_attested s m)) = epochs s"
  "active_epoch (fst (handle_sign_attested s m)) = active_epoch s"
  by (simp_all add: handle_sign_attested_def Let_def)

lemma handle_transaction_proposed_frame [frames]:
  "rollover (fst (handle_transaction_proposed L T s b oracle re od tx)) = rollover s"
  "epochs (fst (handle_transaction_proposed L T s b oracle re od tx)) = epochs s"
  "active_epoch (fst (handle_transaction_proposed L T s b oracle re od tx)) = active_epoch s"
  by (auto simp: handle_transaction_proposed_def Let_def split: option.split)

lemma handle_transaction_attested_frame [frames]:
  "rollover (fst (handle_transaction_attested L T s th oracle re dh)) = rollover s"
  "epochs (fst (handle_transaction_attested L T s th oracle re dh)) = epochs s"
  "active_epoch (fst (handle_transaction_attested L T s th oracle re dh)) = active_epoch s"
  by (simp_all add: handle_transaction_attested_def handle_sign_attested_frame)

lemma round_step_from: "round_step L T M r r' \<Longrightarrow> r' = r \<or> round_of r \<noteq> None"
  by (induction rule: round_step.induct) auto

lemma core_round:
  assumes "s' = s\<lparr>rollover := rollover s'\<rparr> \<and> round_step L T M (rollover s) (rollover s')" "core_ok L T s"
  shows "core_ok L T s'"
proof -
  have fr: "epochs s' = epochs s" "active_epoch s' = active_epoch s"
    using only_rollover_frame [OF conjunct1 [OF assms(1)]] by auto
  have "clock_ok (rollover s') (active_epoch s) (epochs s)"
  proof (cases "rollover s' = rollover s")
    case False
    then have "round_of (rollover s) \<noteq> None" using round_step_from [OF conjunct2 [OF assms(1)]] by simp
    then have "rollover s \<noteq> EpochStaged n" for n by auto
    then show ?thesis using assms(2) round_step_next [OF conjunct2 [OF assms(1)]]
      by (auto simp: core_ok_def clock_ok_def split: option.splits epoch_id.splits)
  qed (use assms(2) in \<open>simp add: core_ok_def\<close>)
  then show ?thesis using round_step_ok [OF conjunct2 [OF assms(1)]] assms(2) by (simp add: core_ok_def fr)
qed

lemma started_next [simp]: "started L T e ps d r \<Longrightarrow> next_epoch r = Some e"
  by (auto simp: started_def)

lemma epochs_ok_upd:
  "epochs_ok L T E \<Longrightarrow> group_derived L T e g \<Longrightarrow> (ks \<noteq> None \<Longrightarrow> member T g) \<Longrightarrow>
   epochs_ok L T (epochs (finalize_key_gen (s\<lparr>epochs := E\<rparr>) e g ks))"
  by (auto simp: epochs_ok_def finalize_key_gen_def split: option.split)

lemma finalize_dom: "e' |\<in>| fmdom (epochs (finalize_key_gen s e g ks)) \<Longrightarrow> e' = e \<or> e' |\<in>| fmdom (epochs s)"
  by (auto simp: finalize_key_gen_def split: option.splits)

lemma confirmed_share_member:
  "rollover_ok L T (CollectingConfirmations e g p st cf cs dl) \<Longrightarrow> confirmed_key_share st \<noteq> None \<Longrightarrow> member T g"
  by (cases st) auto

lemma core_confirmed:
  assumes h: "handle_key_gen_confirmed L T s block gid a = (s', cs)" and ok: "core_ok L T s"
  shows "core_ok L T s'"
proof (cases rule: key_gen_confirmed_cases [where M = "\<lambda>_. True", OF h TrueI])
  case 1
  then show ?thesis using core_round ok by blast
next
  case (2 g p st cf cmp dl n)
  have E: "epochs s = fmempty" "active_epoch s = Genesis" using ok 2(1) by (auto simp: core_ok_def clock_ok_def)
  have gd: "group_derived L T Genesis g" "confirmed_key_share st \<noteq> None \<Longrightarrow> member T g"
    using ok 2(1) confirmed_share_member unfolding core_ok_def by fastforce+
  have e': "epochs s' = epochs (finalize_key_gen (s\<lparr>epochs := fmempty\<rparr>) Genesis g (confirmed_key_share st))"
    using only_rollover_frame(2) [OF 2(3)] E(1) by (metis (full_types) state.surjective state.update_convs(3))
  have a': "active_epoch s' = Genesis" using only_rollover_frame(4) [OF 2(3)] E by simp
  have n: "next_epoch (rollover s') = Some (Number n)" "rollover_ok L T (rollover s')"
    using 2(4) started_ok(1) by auto
  have "epochs_ok L T (epochs s')" unfolding e' using gd by (intro epochs_ok_upd) (auto simp: epochs_ok_def)
  moreover have "e |\<in>| fmdom (epochs s') \<Longrightarrow> e < Number n" for e unfolding e' using finalize_dom by fastforce
  ultimately show ?thesis using n a' by (auto simp: core_ok_def clock_ok_def)
next
  case (3 n g p st cf cmp dl sessions)
  have "confirmed_key_share st \<noteq> None \<Longrightarrow> member T g"
    using ok 3(1) confirmed_share_member unfolding core_ok_def by fastforce
  then show ?thesis using 3(2) ok 3(1) by (auto simp: core_ok_def clock_ok_def)
qed

lemma core_staged:
  assumes h: "handle_epoch_staged s raw gid = (s', cs)" and ok: "core_ok L T s"
  shows "core_ok L T s'"
proof (cases rule: epoch_staged_cases [OF h])
  case 1
  then show ?thesis using ok by simp
next
  case 2
  have "epochs s' = fmempty" "active_epoch s' = Genesis"
    using only_rollover_frame [OF 2(2)] ok 2(1) by (auto simp: core_ok_def clock_ok_def)
  then show ?thesis using 2(3) by (auto simp: core_ok_def clock_ok_def epochs_ok_def split: option.splits)
next
  case (3 n g ks m)
  have r: "rollover s' = EpochStaged n" "active_epoch s' = active_epoch s"
    "epochs s' = epochs (finalize_key_gen (s\<lparr>epochs := epochs s\<rparr>) (Number n) g ks)"
    unfolding 3(2) by (simp_all add: frames) (simp add: finalize_key_gen_def split: option.split)
  have gd: "group_derived L T (Number n) g" "ks \<noteq> None \<Longrightarrow> member T g" "epochs_ok L T (epochs s)"
    using ok 3(1) by (auto simp: core_ok_def)
  have act: "active_epoch s < Number n" and old: "e |\<in>| fmdom (epochs s) \<Longrightarrow> e < Number n" for e
    using ok 3(1) by (auto simp: core_ok_def clock_ok_def)
  have "epochs_ok L T (epochs s')" unfolding r(3) by (rule epochs_ok_upd [OF gd(3,1,2)])
  moreover have "e |\<in>| fmdom (epochs s') \<Longrightarrow> e < Number n \<or> e = Number n" for e
    unfolding r(3) using finalize_dom old by fastforce
  ultimately show ?thesis using r(1,2) act by (auto simp: core_ok_def clock_ok_def)
qed

lemma core_clock:
  assumes h: "handle_rollover_new_block L T s block = (s', cs)" and ok: "core_ok L T s"
  shows "core_ok L T s' \<and> active_epoch s \<le> active_epoch s'"
proof (cases rule: rollover_new_block_cases [OF h])
  case 1
  then show ?thesis using ok by simp
next
  case (2 target n)
  note fr = only_clock_frame [OF 2(4)]
  have act: "active_epoch s < Number target" and upto: "e |\<in>| fmdom (epochs s) \<Longrightarrow> e \<le> Number target" for e
    using ok 2(1) by (auto simp: core_ok_def clock_ok_def)
  have old: "e |\<in>| fmdom (epochs s) \<Longrightarrow> e < Number n" for e
    using upto 2(3) by (meson le_less_trans number_less_iff)
  have "active_epoch s' \<le> Number target" "active_epoch s \<le> active_epoch s'" using act fr(4) by auto
  moreover from this(1) have "active_epoch s' < Number n" using 2(3) by (meson le_less_trans number_less_iff)
  moreover have "next_epoch (rollover s') = Some (Number n)" "rollover_ok L T (rollover s')"
    using 2(5) started_ok(1) by auto
  ultimately show ?thesis using ok old fr(2) by (auto simp: core_ok_def clock_ok_def)
qed

lemma oldest_epoch_le:
  "oldest_epoch s \<le> active_epoch s"
  "fmlookup (signing s) m = Some x \<Longrightarrow> oldest_epoch s \<le> packet_epoch (sgn_packet x)"
proof -
  have fold_min: "fold min xs a \<le> a \<and> (\<forall>x\<in>set xs. fold min xs a \<le> (x :: epoch_id))" for xs a
  proof (induction xs arbitrary: a)
    case (Cons y ys)
    have "min y a \<le> a" "min y a \<le> y" by simp_all
    with Cons [of "min y a"] show ?case by (auto intro: order_trans)
  qed simp
  show "oldest_epoch s \<le> active_epoch s" using fold_min by (simp add: oldest_epoch_def)
  assume "fmlookup (signing s) m = Some x"
  then have "x \<in> set (fm_values (signing s))" by (auto simp: set_fm_values)
  then show "oldest_epoch s \<le> packet_epoch (sgn_packet x)" using fold_min by (force simp: oldest_epoch_def)
qed

lemma core_reconciliation:
  assumes "handle_group_reconciliation s block = (s', cs)" "core_ok L T s"
  shows "core_ok L T s'"
  using assms(2) reconciliation_frame [OF assms(1)]
  by (auto simp: core_ok_def clock_ok_def epochs_ok_def fmap_ext split: option.splits epoch_id.splits if_splits)

lemma core_coordinator: "core_ok L T s \<Longrightarrow> core_ok L T (fst (apply_coordinator L T s block ev))"
proof (cases ev)
  case (KeyGen gid ps count threshold ctx)
  assume ok: "core_ok L T s"
  obtain s' cs where h: "handle_genesis_key_gen L T s gid = (s', cs)" by (cases rule: prod.exhaust)
  consider "s' = s" | "rollover s = WaitingForGenesis" "s' = s\<lparr>rollover := rollover s'\<rparr>"
    "started L T Genesis (tr_genesis T) None (rollover s')"
    using genesis_key_gen_cases [OF h] by blast
  then have "core_ok L T s'"
  proof cases
    case 2
    then show ?thesis using ok only_rollover_frame [OF 2(2)] started_ok(2) [OF 2(3)]
      by (auto simp: core_ok_def clock_ok_def)
  qed (use ok in simp)
  then show ?thesis by (simp add: KeyGen h)
next
  case (KeyGenCommitted gid a kc b)
  assume "core_ok L T s"
  then show ?thesis using core_round committed_step [where M = "\<lambda>_. True"] KeyGenCommitted
    by (metis apply_coordinator.simps(2) prod.collapse)
next
  case (KeyGenSecretShared gid a sh b)
  assume "core_ok L T s"
  then show ?thesis using core_round secret_shared_step KeyGenSecretShared
    by (metis apply_coordinator.simps(3) prod.collapse)
next
  case (KeyGenConfirmed gid a b)
  assume "core_ok L T s"
  then show ?thesis using core_confirmed KeyGenConfirmed by (metis apply_coordinator.simps(4) prod.collapse)
next
  case (KeyGenComplained gid plaintiff a b)
  assume "core_ok L T s"
  then show ?thesis using core_round complained_step [where M = "\<lambda>_. True"] KeyGenComplained
    by (metis apply_coordinator.simps(5) prod.collapse)
next
  case (KeyGenComplaintResponded gid plaintiff a sh)
  assume "core_ok L T s"
  then show ?thesis using core_round responded_step KeyGenComplaintResponded
    by (metis apply_coordinator.simps(6) prod.collapse)
qed (simp_all add: core_frame frames)

lemma core_consensus: "core_ok L T s \<Longrightarrow> core_ok L T (fst (apply_consensus L T s block ev))"
proof (cases ev)
  case (EpochStagedEvent active proposed rb gid gk sid att)
  assume "core_ok L T s"
  then show ?thesis using core_staged EpochStagedEvent by (metis apply_consensus.simps(1) prod.collapse)
qed (simp_all add: core_frame frames)

lemma core_new_block:
  assumes ok: "core_ok L T s"
  shows "core_ok L T (fst (apply_new_block L T s block)) \<and>
    active_epoch s \<le> active_epoch (fst (apply_new_block L T s block))"
proof -
  obtain s1 c1 s2 c2 s3 c3 s4 c4 where ph: "handle_rollover_new_block L T s block = (s1, c1)"
    "handle_key_gen_timeouts L T s1 block = (s2, c2)" "handle_signing_timeouts L T s2 block = (s3, c3)"
    "handle_group_reconciliation s3 block = (s4, c4)" "apply_new_block L T s block = (s4, c1 @ c2 @ c3 @ c4)"
    by (rule new_block_phases)
  have 1: "core_ok L T s1" "active_epoch s \<le> active_epoch s1" using core_clock [OF ph(1) ok] by auto
  have 2: "core_ok L T s2" "active_epoch s2 = active_epoch s1"
    using core_round [OF timeouts_step [OF ph(2)] 1(1)] key_gen_timeouts_frame(4) [OF ph(2)] by auto
  have 3: "core_ok L T s3" "active_epoch s3 = active_epoch s2"
    using core_frame [of s3 s2 L T] 2(1) signing_timeouts_frame [where L = L and T = T and block = block and s = s2] ph(3) by auto
  show ?thesis using core_reconciliation [OF ph(4) 3(1)] 1(2) 2(2) 3(2) reconciliation_frame(4) [OF ph(4)] ph(5)
    by simp
qed

lemma core_resume: "core_ok L T s \<Longrightarrow> core_ok L T (fst (apply_resume L T s r))"
proof (cases r)
  case (Setup gid secrets)
  assume "core_ok L T s"
  then show ?thesis using core_round setup_step Setup by (metis apply_resume.simps(2) prod.collapse)
qed (auto simp: handle_nonce_commitments_def handle_nonces_def
    split: option.splits signing_state.splits sum.splits)

lemma core_step: "core_ok L T s \<Longrightarrow> core_ok L T (fst (apply_transition L T s msg))"
proof (cases msg)
  case (Event log)
  assume ok: "core_ok L T s"
  show ?thesis
  proof (cases "log_data log")
    case (OracleEvent ev)
    then show ?thesis using ok Event by (cases ev) (simp add: core_frame frames)
  qed (use ok Event core_coordinator core_consensus in simp_all)
qed (simp_all add: core_new_block core_resume)

section \<open>Sessions keep their epochs\<close>

definition sessions_ok :: "lib \<Rightarrow> transition \<Rightarrow> state \<Rightarrow> bool" where
  "sessions_ok L T s \<longleftrightarrow>
     (\<forall>m x. fmlookup (signing s) m = Some x \<longrightarrow> session_sound L T m x \<and> session_keyed T (epochs s) x)"

lemma round_epochs:
  "s' = s\<lparr>rollover := rollover s'\<rparr> \<and> round_step L T M (rollover s) (rollover s') \<Longrightarrow> epochs s' = epochs s"
  by (metis only_rollover_frame(2))

lemma confirmed_epochs:
  assumes h: "handle_key_gen_confirmed L T s block gid a = (s', cs)" and ok: "core_ok L T s"
    and e: "fmlookup (epochs s) e = Some ep"
  shows "fmlookup (epochs s') e = Some ep"
proof (cases rule: key_gen_confirmed_cases [where M = "\<lambda>_. True", OF h TrueI])
  case 1
  then show ?thesis using e only_rollover_frame(2) by metis
next
  case (2 g p st cf cmp dl n)
  then show ?thesis using ok e by (auto simp: core_ok_def clock_ok_def)
next
  case (3 n g p st cf cmp dl sessions)
  then show ?thesis using e by simp
qed

lemma staged_epochs:
  assumes h: "handle_epoch_staged s raw gid = (s', cs)" and ok: "core_ok L T s"
    and e: "fmlookup (epochs s) e = Some ep"
  shows "fmlookup (epochs s') e = Some ep"
proof (cases rule: epoch_staged_cases [OF h])
  case 2
  then show ?thesis using ok e by (auto simp: core_ok_def clock_ok_def)
next
  case (3 n g ks m)
  have "e < Number n" using ok 3(1) fmdomI [OF e] by (auto simp: core_ok_def clock_ok_def)
  then have "e \<noteq> Number n" by auto
  then show ?thesis unfolding 3(2) using e
    by (auto simp: frames finalize_key_gen_def split: option.split)
qed (use e in simp)

lemma coordinator_epochs:
  assumes ok: "core_ok L T s" and e: "fmlookup (epochs s) e = Some ep"
  shows "fmlookup (epochs (fst (apply_coordinator L T s block ev))) e = Some ep"
proof (cases ev)
  case (KeyGen gid ps count threshold ctx)
  have "epochs (fst (handle_genesis_key_gen L T s gid)) = epochs s"
    using genesis_key_gen_cases [of L T s gid] by (metis only_rollover_frame(2) prod.collapse)
  then show ?thesis using e KeyGen by simp
next
  case (KeyGenCommitted gid a kc b)
  then show ?thesis using e round_epochs [OF committed_step [where M = "\<lambda>_. True", OF prod.collapse [symmetric] TrueI]] by simp
next
  case (KeyGenSecretShared gid a sh b)
  then show ?thesis using e round_epochs [OF secret_shared_step [OF prod.collapse [symmetric]]] by simp
next
  case (KeyGenConfirmed gid a b)
  then show ?thesis using confirmed_epochs [OF prod.collapse [symmetric] ok e] by simp
next
  case (KeyGenComplained gid plaintiff a b)
  then show ?thesis using e round_epochs [OF complained_step [where M = "\<lambda>_. True", OF prod.collapse [symmetric] TrueI]] by simp
next
  case (KeyGenComplaintResponded gid plaintiff a sh)
  then show ?thesis using e round_epochs [OF responded_step [OF prod.collapse [symmetric]]] by simp
qed (simp_all add: frames e)

lemma consensus_epochs:
  assumes ok: "core_ok L T s" and e: "fmlookup (epochs s) e = Some ep"
  shows "fmlookup (epochs (fst (apply_consensus L T s block ev))) e = Some ep"
proof (cases ev)
  case (EpochStagedEvent active proposed rb gid gk sid att)
  then show ?thesis using staged_epochs [OF prod.collapse [symmetric] ok e] by simp
qed (simp_all add: frames e)

lemma new_block_epochs:
  assumes e: "fmlookup (epochs s) e = Some ep"
    and x: "fmlookup (signing (fst (apply_new_block L T s block))) m = Some x" "packet_epoch (sgn_packet x) = e"
  shows "fmlookup (epochs (fst (apply_new_block L T s block))) e = Some ep"
proof -
  obtain s1 c1 s2 c2 s3 c3 s4 c4 where ph: "handle_rollover_new_block L T s block = (s1, c1)"
    "handle_key_gen_timeouts L T s1 block = (s2, c2)" "handle_signing_timeouts L T s2 block = (s3, c3)"
    "handle_group_reconciliation s3 block = (s4, c4)" "apply_new_block L T s block = (s4, c1 @ c2 @ c3 @ c4)"
    by (rule new_block_phases)
  have "epochs s3 = epochs s"
    using rollover_new_block_frame(2) [OF ph(1)] key_gen_timeouts_frame(2) [OF ph(2)]
      signing_timeouts_frame(3) [where L = L and T = T and block = block and s = s2] ph(3) by simp
  moreover have "oldest_epoch s3 \<le> e"
    using oldest_epoch_le(2) [of s3 m x] x ph(5) reconciliation_frame(1) [OF ph(4)] by simp
  ultimately show ?thesis using e ph(5) reconciliation_frame(5) [OF ph(4)] by simp
qed

lemma resume_epochs: "epochs (fst (apply_resume L T s r)) = epochs s"
proof (cases r)
  case (Setup gid secrets)
  then show ?thesis using round_epochs [OF setup_step [OF prod.collapse [symmetric]]] by simp
qed (auto simp: handle_nonce_commitments_def handle_nonces_def
    split: option.splits signing_state.splits sum.splits)

lemma transition_epochs:
  assumes ok: "core_ok L T s" and e: "fmlookup (epochs s) e = Some ep"
    and x: "fmlookup (signing (fst (apply_transition L T s msg))) m = Some x" "packet_epoch (sgn_packet x) = e"
  shows "fmlookup (epochs (fst (apply_transition L T s msg))) e = Some ep"
proof (cases msg)
  case (NewBlock b)
  then show ?thesis using new_block_epochs [OF e] x by simp
next
  case (Event log)
  show ?thesis
  proof (cases "log_data log")
    case (OracleEvent ev)
    then show ?thesis using e Event by (cases ev) (simp add: frames)
  qed (use Event coordinator_epochs [OF ok e] consensus_epochs [OF ok e] in simp_all)
next
  case (Resume r)
  then show ?thesis using e by (simp add: resume_epochs)
qed

definition state_ok :: "lib \<Rightarrow> transition \<Rightarrow> state \<Rightarrow> bool" where
  "state_ok L T s \<longleftrightarrow> core_ok L T s \<and> sessions_ok L T s"

lemma state_ok_initial: "state_ok L T initial_state"
  using core_initial by (simp add: state_ok_def sessions_ok_def initial_state_def)

lemma state_ok_step: "state_ok L T s \<Longrightarrow> state_ok L T (fst (apply_transition L T s msg))"
proof -
  assume ok: "state_ok L T s"
  then have core: "core_ok L T s" and sess: "sessions_ok L T s" by (auto simp: state_ok_def)
  let ?s' = "fst (apply_transition L T s msg)"
  have joined: "epochs_joined T (epochs s)" using core by (auto simp: core_ok_def epochs_ok_def epochs_joined_def)
  have "session_sound L T m x \<and> session_keyed T (epochs ?s') x" if m: "fmlookup (signing ?s') m = Some x" for m x
  proof -
    let ?old = "fmlookup (signing s) m"
    have old: "pred_option (session_sound L T m) ?old" "pred_option (session_keyed T (epochs s)) ?old"
      using sess by (cases ?old; auto simp: sessions_ok_def)+
    have step: "session_step L T (epochs s) (approval_of msg m) m ?old (Some x)"
      using spec [OF apply_transition_steps [of L T s msg], of m] m by simp
    have sound: "session_sound L T m x" using session_step_sound [OF step old(1)] by simp
    have keyed: "session_keyed T (epochs s) x" using session_step_keyed [OF step joined old(2)] by simp
    then obtain ep where ep: "fmlookup (epochs s) (packet_epoch (sgn_packet x)) = Some ep"
      using session_keyed_epoch by (fastforce simp: fm_has_def)
    have "session_keyed T (epochs ?s') x"
      by (rule session_keyed_cong [OF keyed]) (simp add: ep transition_epochs [OF core ep m refl])
    with sound show ?thesis by simp
  qed
  then show ?thesis using core_step [OF core] by (simp add: state_ok_def sessions_ok_def)
qed

end
