(* ===== verification/Runs.thy ===== *)
theory Runs
  imports Prelude
begin

text \<open>
  Runs of a state machine over a list of messages, and the locales through which the invariants of the
  components are lifted from single steps to whole runs.  A guarded system keeps its invariant on the
  messages its environment can produce; a closed system keeps it on every message.
\<close>

primrec run_from :: "('s \<Rightarrow> 'm \<Rightarrow> 's) \<Rightarrow> 's \<Rightarrow> 'm list \<Rightarrow> 's" where
  "run_from step s [] = s"
| "run_from step s (m # ms) = run_from step (step s m) ms"

primrec run_ok :: "('s \<Rightarrow> 'm \<Rightarrow> 's) \<Rightarrow> ('s \<Rightarrow> 'm \<Rightarrow> bool) \<Rightarrow> 's \<Rightarrow> 'm list \<Rightarrow> bool" where
  "run_ok step env s [] = True"
| "run_ok step env s (m # ms) = (env s m \<and> run_ok step env (step s m) ms)"

lemma run_from_append: "run_from step s (ms @ ns) = run_from step (run_from step s ms) ns"
  by (induction ms arbitrary: s) simp_all

lemma run_ok_append: "run_ok step env s (ms @ ns) \<longleftrightarrow> run_ok step env s ms \<and> run_ok step env (run_from step s ms) ns"
  by (induction ms arbitrary: s) auto

lemma run_ok_mono: "(\<And>s m. env s m \<Longrightarrow> env' s m) \<Longrightarrow> run_ok step env s ms \<Longrightarrow> run_ok step env' s ms"
  by (induction ms arbitrary: s) auto

lemma run_ok_True: "run_ok step (\<lambda>_ _. True) s ms"
  by (induction ms arbitrary: s) simp_all

lemma run_ok_stateless: "run_ok step (\<lambda>_. P) s ms \<longleftrightarrow> list_all P ms"
  by (induction ms arbitrary: s) simp_all

text \<open>What the steps of a run put out, and how an invariant of the state and the output so far is carried along.\<close>

primrec run_trace :: "('s \<Rightarrow> 'm \<Rightarrow> 's) \<Rightarrow> ('s \<Rightarrow> 'm \<Rightarrow> 'o list) \<Rightarrow> 's \<Rightarrow> 'm list \<Rightarrow> 'o list" where
  "run_trace step out s [] = []"
| "run_trace step out s (m # ms) = out s m @ run_trace step out (step s m) ms"

lemma run_trace_inv:
  assumes "I s acc" "\<And>s m acc. I s acc \<Longrightarrow> I (step s m) (acc @ out s m)"
  shows "I (run_from step s ms) (acc @ run_trace step out s ms)"
  using assms(1)
proof (induction ms arbitrary: s acc)
  case (Cons m ms)
  then show ?case using Cons.IH [OF assms(2) [OF Cons.prems], of m] by simp
qed simp

locale guarded_system =
  fixes step :: "'s \<Rightarrow> 'm \<Rightarrow> 's" and env :: "'s \<Rightarrow> 'm \<Rightarrow> bool" and inv :: "'s \<Rightarrow> bool" and init :: 's
  assumes starts: "inv init"
    and keeps: "inv s \<Longrightarrow> env s m \<Longrightarrow> inv (step s m)"
begin

lemma run_keeps: "inv s \<Longrightarrow> run_ok step env s ms \<Longrightarrow> inv (run_from step s ms)"
  by (induction ms arbitrary: s) (auto intro: keeps)

lemma always: "run_ok step env init ms \<Longrightarrow> inv (run_from step init ms)"
  by (rule run_keeps [OF starts])

end

locale closed_system =
  fixes step :: "'s \<Rightarrow> 'm \<Rightarrow> 's" and inv :: "'s \<Rightarrow> bool" and init :: 's
  assumes starts: "inv init"
    and keeps: "inv s \<Longrightarrow> inv (step s m)"

sublocale closed_system \<subseteq> open_run: guarded_system step "\<lambda>_ _. True" inv init
  by unfold_locales (auto intro: starts keeps)

context closed_system
begin

lemma run_inv: "inv (run_from step init ms)"
  by (rule open_run.always [OF run_ok_True])

text \<open>A relation that every step respects and that composes is respected by runs.\<close>

lemma run_relation:
  assumes "\<And>s m. inv s \<Longrightarrow> R s (step s m)" "\<And>s. R s s" "\<And>a b c. R a b \<Longrightarrow> R b c \<Longrightarrow> R a c"
  shows "R (run_from step init ms) (run_from step init (ms @ ns))"
proof -
  have "inv s \<Longrightarrow> R s (run_from step s ns)" for s
    by (induction ns arbitrary: s) (auto intro: assms keeps)
  then show ?thesis using run_inv by (simp add: run_from_append)
qed

end

end
