(* ===== verification/Demo.thy ===== *)
theory Demo
  imports Validator Runs
begin

text \<open>
  A concrete validator and a concrete run, used by the witnesses: two participants generate the genesis
  key, a transaction is proposed, its oracle approves it and both signers commit nonces.  The FROST
  library is replaced by one over constant points that accepts everything.
\<close>

definition demo_sig :: signature where
  "demo_sig = \<lparr>schnorr_r = Affine 1 1, schnorr_z = 1\<rparr>"

definition demo_share :: key_share where
  "demo_share = \<lparr>kp_identifier = 1, kp_signing_share = 5, kp_verifying_share = Affine 1 1,
     kp_verifying_key = Affine 1 1, kp_min_signers = 2\<rparr>"

definition demo_frost :: frost_lib where
  "demo_frost = \<lparr>derive = ucast, on_curve = (\<lambda>_ _. True), canonical = (\<lambda>_. True),
     mul_generator = (\<lambda>k. Affine k k), mul_x = (\<lambda>_ _. 0), hash_to_scalar = (\<lambda>_ _. 7),
     compute_proof_of_knowledge = (\<lambda>_ _ _ _. Inr demo_sig), verify_proof_of_knowledge = (\<lambda>_ _ _. Inr ()),
     dkg_part1 = (\<lambda>i n t e. Inr (\<lparr>r1s_identifier = i, r1s_coefficients = [], r1s_commitment = [Affine 1 1]\<rparr>,
        \<lparr>r1_commitment = [Affine 1 1], r1_proof_of_knowledge = demo_sig\<rparr>)),
     dkg_part2 = (\<lambda>sec r1. Inr (\<lparr>r2s_identifier = r1s_identifier sec, r2s_commitment = r1s_commitment sec,
        r2s_secret_share = 5\<rparr>, fmmap (\<lambda>_. \<lparr>r2_signing_share = 5\<rparr>) r1)),
     dkg_part3 = (\<lambda>_ _ _. Inr demo_share),
     sum_commitments = (\<lambda>_. Inr [Affine 1 1]), key_from_commitment = (\<lambda>_. Inr (Affine 1 1)),
     share_from_commitment = (\<lambda>_ _. Affine 1 1), verify_signing_share = (\<lambda>_ _ _. Inr ()),
     nonces_new = (\<lambda>_ _. \<lparr>nonce_hiding = 1, nonce_binding = 1,
        nonce_commitments = \<lparr>sc_hiding = Affine 1 1, sc_binding = Affine 1 1\<rparr>\<rparr>),
     round2_sign = (\<lambda>_ _ _ _. Inr 3), binding_factors = (\<lambda>c _ _. Inr (fmmap (\<lambda>_. 1) c)),
     interpolating_value = (\<lambda>_ _. Inr 1), commitment_share = (\<lambda>_ _. Affine 1 1),
     compute_group_commitment = (\<lambda>_ _. Inr (Affine 1 1))\<rparr>"

definition demo_L :: lib where
  "demo_L = demo_lib demo_frost"

text \<open>Two participants that are active at genesis only; the running validator is participant 1.\<close>

definition demo_parts :: "participant list" where
  "demo_parts = map (\<lambda>a. \<lparr>p_address = a, active_from = 0, active_before = Some (nz_of 1)\<rparr>) [1, 2]"

definition demo_genesis :: participant_set where
  "demo_genesis = \<lparr>ps_addresses = {|1, 2|}, ps_excluded = {||}, ps_context = 0\<rparr>"

definition demo_T :: transition where
  "demo_T = \<lparr>tr_account = 1, tr_genesis = demo_genesis, tr_consensus = consensus_domain 1 9,
     tr_config = \<lparr>cfg_consensus = 9, cfg_staker = None, cfg_participants = demo_parts, cfg_oracles = {|8|},
       cfg_genesis_salt = 0, cfg_blocks_per_epoch = nz_of 100, cfg_key_gen_timeout = nz_of 10,
       cfg_signing_timeout = nz_of 5, cfg_oracle_timeout = nz_of 7\<rparr>\<rparr>"

definition demo_group :: group where
  "demo_group = group_of (keccak256 demo_L) demo_genesis"

definition demo_gid :: b256 where
  "demo_gid = grp_id demo_group"

definition demo_tx :: safe_transaction where
  "demo_tx = \<lparr>tx_chain_id = 1, tx_safe = 3, tx_to = 4, tx_value = 0, tx_data = [], tx_operation = CALL,
     tx_safe_tx_gas = 0, tx_base_gas = 0, tx_gas_price = 0, tx_gas_token = 0, tx_refund_receiver = 0,
     tx_nonce = 0\<rparr>"

definition demo_packet :: packet where
  "demo_packet = Transaction Genesis 8 [] demo_tx"

definition demo_message :: b256 where
  "demo_message = packet_hash demo_L demo_T demo_packet"

definition demo_secrets :: secrets where
  "demo_secrets = \<lparr>encryption_key = 7,
     encryption_package = \<lparr>public_key_point = Affine 7 7, proof_of_possession = demo_sig\<rparr>,
     secret_package = \<lparr>r1s_identifier = 1, r1s_coefficients = [], r1s_commitment = [Affine 1 1]\<rparr>,
     proof_of_knowledge = demo_sig\<rparr>"

definition demo_kc :: kg_commitment where
  "demo_kc = secrets_commitment demo_secrets"

definition demo_vc :: verified_commitment where
  "demo_vc = \<lparr>vc_encryption_public_key = Affine 7 7,
     vc_package = \<lparr>r1_commitment = [Affine 1 1], r1_proof_of_knowledge = demo_sig\<rparr>\<rparr>"

definition demo_kss :: kg_secret_share where
  "demo_kss = \<lparr>kgs_y = \<lparr>pt_x = 1, pt_y = 1\<rparr>, kgs_f = [5]\<rparr>"

definition demo_nonces :: sign_nonces where
  "demo_nonces = \<lparr>sn_d = \<lparr>pt_x = 1, pt_y = 1\<rparr>, sn_e = \<lparr>pt_x = 1, pt_y = 1\<rparr>\<rparr>"

definition demo_committed :: committed_nonces where
  "demo_committed = \<lparr>cn_commitments = \<lparr>sc_hiding = Affine 1 1, sc_binding = Affine 1 1\<rparr>\<rparr>"

definition demo_log :: "u64 \<Rightarrow> address \<Rightarrow> event \<Rightarrow> msg" where
  "demo_log block emitter ev =
     Event \<lparr>log_block = block, log_timestamp = 0, log_index = 0, log_address = emitter, log_data = ev\<rparr>"

definition demo_keygen :: "msg list" where
  "demo_keygen =
     [demo_log 1 9 (CoordinatorEvent (KeyGen demo_gid 0 2 2 0)),
      Resume (Setup demo_gid demo_secrets),
      demo_log 2 9 (CoordinatorEvent (KeyGenCommitted demo_gid 1 demo_kc False)),
      demo_log 2 9 (CoordinatorEvent (KeyGenCommitted demo_gid 2 demo_kc True)),
      demo_log 3 9 (CoordinatorEvent (KeyGenSecretShared demo_gid 1 demo_kss False)),
      demo_log 3 9 (CoordinatorEvent (KeyGenSecretShared demo_gid 2 demo_kss True)),
      demo_log 4 9 (CoordinatorEvent (KeyGenConfirmed demo_gid 1 False)),
      demo_log 4 9 (CoordinatorEvent (KeyGenConfirmed demo_gid 2 True))]"

definition demo_signing :: "msg list" where
  "demo_signing =
     [demo_log 5 9 (ConsensusEvent (TransactionProposed 2 0 8 0 [] demo_tx)),
      demo_log 5 9 (CoordinatorEvent (Sign 2 demo_gid demo_message 77 0)),
      demo_log 6 8 (OracleEvent (OracleResult demo_message 2 [] True)),
      demo_log 7 9 (CoordinatorEvent (SignCommittedNonces 77 1 demo_nonces)),
      demo_log 7 9 (CoordinatorEvent (SignCommittedNonces 77 2 demo_nonces))]"

section \<open>Evaluating the run\<close>

lemma demo_T_simps [simp]:
  "tr_account demo_T = 1" "tr_genesis demo_T = demo_genesis" "cfg_participants (tr_config demo_T) = demo_parts"
  "cfg_oracles (tr_config demo_T) = {|8|}" "cfg_consensus (tr_config demo_T) = 9"
  "nz_get (cfg_key_gen_timeout (tr_config demo_T)) = 10" "nz_get (cfg_signing_timeout (tr_config demo_T)) = 5"
  "nz_get (cfg_oracle_timeout (tr_config demo_T)) = 7" "cfg_blocks_per_epoch (tr_config demo_T) = nz_of 100"
  "tr_consensus demo_T = consensus_domain 1 9"
  by (simp_all add: demo_T_def)

lemma demo_L_simps [simp]: "frost demo_L = demo_frost"
  by (simp add: demo_L_def)

lemma demo_group_simps [simp]:
  "grp_id demo_group = demo_gid" "grp_count demo_group = 2" "grp_threshold demo_group = 2"
  "grp_participants demo_group = {|1, 2|}" "group_of (keccak256 demo_L) demo_genesis = demo_group"
  by (simp_all add: demo_group_def demo_gid_def demo_genesis_def as_u16_def fcard_finsert_if group_threshold_def)

lemma demo_frost_facts [simp]:
  "verify_commitment demo_frost a demo_kc = Inr demo_vc"
  "verify_committed_nonces demo_frost a demo_nonces = Inr demo_committed"
  by (simp_all add: verify_commitment_def demo_kc_def demo_secrets_def secrets_commitment_def
      solidity_commitment_def frost_commitment_def frost_point_def frost_signature_def frost_scalar_def
      solidity_signature_def demo_sig_def demo_frost_def verified_public_key_def encryption_public_key_def
      err_with_culprit_def demo_vc_def verify_committed_nonces_def frost_signing_commitments_def demo_nonces_def
      demo_committed_def)

lemma demo_keys [simp]:
  "fm_keys (fmupd (2 :: address) v (fmupd 1 w fmempty)) = [1, 2]"
  "sorted_list_of_fset {|1 :: address, 2|} = [1, 2]"
  by (simp_all add: fin_simps word_le_nat_alt)

definition demo_poap :: "b256 list" where
  "demo_poap = inclusion_proof (participants_tree (keccak256 demo_L) {|1, 2|}) 0"

lemma demo_participate:
  "participate_as (keccak256 demo_L) demo_genesis 1 = Some (demo_group, demo_poap)"
proof -
  have "ps_addresses demo_genesis = {|1, 2|}" by (simp add: demo_genesis_def)
  then show ?thesis unfolding participate_as_eq_Some by (simp add: demo_poap_def)
qed

definition demo_gc :: group_commitments where
  "demo_gc = \<lparr>gc_commitments = fmupd 2 demo_vc (fmupd 1 demo_vc fmempty), gc_group_commitment = [Affine 1 1],
     gc_verifying_key = Affine 1 1\<rparr>"

definition demo_ss :: sharing_state where
  "demo_ss = \<lparr>ss_encryption_key = 7,
     ss_secret_package = \<lparr>r2s_identifier = 1, r2s_commitment = [Affine 1 1], r2s_secret_share = 5\<rparr>,
     ss_peer_packages = fmupd 2 \<lparr>r2_signing_share = 5\<rparr> fmempty, ss_group_commitments = demo_gc\<rparr>"

definition demo_vs :: verified_share where
  "demo_vs = \<lparr>vs_package = \<lparr>r2_signing_share = 5\<rparr>\<rparr>"

lemma demo_fmaps:
  "fmmap f (fmupd (2 :: frost_id) a fmempty) = fmupd 2 (f a) fmempty"
  "fmdrop 1 (fmupd 2 b (fmupd (1 :: frost_id) a fmempty)) = fmupd 2 b fmempty"
  by (rule fmap_ext; simp)+

lemma demo_rekey [simp]:
  "rekey demo_frost (fmupd 2 b (fmupd 1 a fmempty)) f = fmupd 2 (f b) (fmupd 1 (f a) fmempty)"
  by (simp add: rekey_def demo_frost_def)

lemma demo_generate [simp]:
  "generate_secret_shares demo_frost demo_secrets (fmupd 2 demo_vc (fmupd 1 demo_vc fmempty)) = Inr (demo_ss, demo_kss)"
  unfolding generate_secret_shares_def peer_packages_def demo_rekey
  by (simp add: demo_secrets_def demo_frost_def demo_fmaps demo_vc_def
      group_commitment_def encrypt_shares_def ecdh_def err_unexpected_def solidity_secret_share_def
      demo_ss_def demo_gc_def demo_kss_def Let_def)

lemma demo_shares [simp]:
  "a = 1 \<or> a = 2 \<Longrightarrow> verify_secret_share demo_frost demo_gc a demo_kss = Inr [5]"
  "a = 1 \<or> a = 2 \<Longrightarrow> verify_encrypted_secret_share demo_frost demo_ss a [5] = Inr demo_vs"
  "finalize demo_frost demo_ss (fmupd 2 demo_vs (fmupd 1 demo_vs fmempty)) = Inr demo_share"
  "ss_group_commitments demo_ss = demo_gc"
  by (auto simp: verify_secret_share_def verify_encrypted_secret_share_def finalize_def peer_packages_def
      demo_gc_def demo_ss_def demo_kss_def demo_vs_def demo_vc_def fm_has_def frost_point_def
      verified_share_new_def err_with_culprit_def err_unexpected_def frost_scalar_def ecdh_def Let_def)
    (auto simp: demo_frost_def)

abbreviation demo_step :: "state \<Rightarrow> msg \<Rightarrow> state" where
  "demo_step \<equiv> \<lambda>s m. fst (apply_transition demo_L demo_T s m)"

definition demo_epochs :: "(epoch_id, epoch) fmap" where
  "demo_epochs = fmupd Genesis \<lparr>ep_group = demo_group, ep_key_share = demo_share\<rparr> fmempty"

definition demo_ready :: state where
  "demo_ready = initial_state\<lparr>rollover := EpochSkipped (nz_of 1), epochs := demo_epochs\<rparr>"

lemma demo_no_fresh: "fresh_participants demo_L demo_T n = None"
proof -
  have "filter (\<lambda>p. active_from p \<le> nz_get n \<and> (case active_before p of None \<Rightarrow> True | Some b \<Rightarrow> n < b)) demo_parts = []"
    by (auto simp: demo_parts_def less_nonzero_u64_def)
  then show ?thesis
    by (simp add: fresh_participants_def participants_set_def min_participants_def as_u16_def)
qed

lemma demo_next: "next_number 4 (nz_of 100) = nz_of 1"
  by (simp add: next_number_def sat_add_def)

lemma demo_keygen_run: "run_from demo_step initial_state demo_keygen = demo_ready"
  unfolding demo_keygen_def run_from.simps demo_log_def
  apply (simp add: handle_genesis_key_gen_def start_key_gen_def demo_participate initial_state_def)
  apply (simp add: handle_key_gen_setup_def handle_key_gen_committed_def group_size_def as_u16_def fm_len_def
      fcard_finsert_if Let_def finalize_key_gen_commitments_def)
  apply (simp add: handle_key_gen_secret_shared_def register_share_def group_size_def as_u16_def fm_len_def
      fcard_finsert_if Let_def confirm_key_gen_def)
  apply (simp add: handle_key_gen_confirmed_def group_size_def as_u16_def fcard_finsert_if Let_def demo_no_fresh
      demo_next finalize_key_gen_def demo_ready_def demo_epochs_def initial_state_def)
  done

definition demo_with :: "signing_state \<Rightarrow> state" where
  "demo_with x = demo_ready\<lparr>signing := fmupd demo_message x fmempty, sid_to_message := fmupd 77 demo_message fmempty\<rparr>"

abbreviation demo_nonce_round :: "(address, committed_nonces) fmap \<Rightarrow> signing_state" where
  "demo_nonce_round c \<equiv> CollectNonceCommitments demo_share demo_gid 77 c demo_packet {|1, 2|} 11"

definition demo_share_round :: signing_state where
  "demo_share_round = CollectSigningShares demo_share demo_gid 77
     (fmupd 2 demo_committed (fmupd 1 demo_committed fmempty)) fmempty demo_packet {|1, 2|} 12"

lemma demo_message_eq: "transaction_packet_hash demo_L (consensus_domain 1 9) Genesis 8 [] demo_tx = demo_message"
  by (simp add: demo_message_def demo_packet_def)

lemma demo_from_raw [simp]: "from_raw 0 = Genesis"
  by (simp add: from_raw_def nz_new_def)

declare fmupd_twice [simp]

lemma demo_proposed:
  "demo_step demo_ready (demo_signing ! 0) =
     demo_ready\<lparr>signing := fmupd demo_message
       (WaitingForRequest demo_share demo_gid None demo_packet False {|1, 2|} 10) fmempty\<rparr>"
  by (simp add: demo_signing_def demo_log_def handle_transaction_proposed_def demo_ready_def demo_epochs_def
      initial_state_def demo_message_eq demo_packet_def sat_add_def)

lemma demo_requested:
  "demo_step (demo_step demo_ready (demo_signing ! 0)) (demo_signing ! 1) =
     demo_with (WaitingForOracle demo_share 8 demo_gid 77 demo_packet {|1, 2|} 12)"
  unfolding demo_proposed
  by (simp add: demo_signing_def demo_log_def handle_sign_def demo_packet_def demo_with_def
      sat_add_def demo_ready_def initial_state_def)

lemma demo_approved:
  "apply_transition demo_L demo_T (demo_with (WaitingForOracle demo_share 8 demo_gid 77 demo_packet {|1, 2|} 12))
     (demo_signing ! 2) = (demo_with (demo_nonce_round fmempty), [Effect (GenerateNonces demo_gid 77 demo_share)])"
  by (simp add: demo_signing_def demo_log_def handle_oracle_result_def demo_with_def sat_add_def)

lemma demo_commit_1:
  "demo_step (demo_with (demo_nonce_round fmempty)) (demo_signing ! 3) =
     demo_with (demo_nonce_round (fmupd 1 demo_committed fmempty))"
  by (simp add: demo_signing_def demo_log_def handle_sign_committed_nonces_def demo_with_def
      register_commitment_def fm_len_def fcard_finsert_if)

lemma demo_commit_2:
  "apply_transition demo_L demo_T (demo_with (demo_nonce_round (fmupd 1 demo_committed fmempty))) (demo_signing ! 4) =
     (demo_with demo_share_round, [Effect (UseNonces demo_message 77)])"
  by (simp add: demo_signing_def demo_log_def handle_sign_committed_nonces_def demo_with_def
      register_commitment_def fm_len_def fcard_finsert_if demo_share_round_def sat_add_def)

lemma demo_run_approved:
  "run_from demo_step initial_state (demo_keygen @ take 2 demo_signing) =
     demo_with (WaitingForOracle demo_share 8 demo_gid 77 demo_packet {|1, 2|} 12)"
proof -
  have "take 2 demo_signing = [demo_signing ! 0, demo_signing ! 1]"
    by (simp add: demo_signing_def)
  then show ?thesis by (simp only: run_from_append demo_keygen_run demo_requested run_from.simps)
qed

lemma demo_run_shares:
  "run_from demo_step initial_state (demo_keygen @ demo_signing) = demo_with demo_share_round"
proof -
  have "demo_signing = take 2 demo_signing @ [demo_signing ! 2, demo_signing ! 3, demo_signing ! 4]"
    by (simp add: demo_signing_def)
  then have "run_from demo_step initial_state (demo_keygen @ demo_signing) =
      run_from demo_step (run_from demo_step initial_state (demo_keygen @ take 2 demo_signing))
        [demo_signing ! 2, demo_signing ! 3, demo_signing ! 4]"
    by (metis append.assoc run_from_append)
  then show ?thesis by (simp only: demo_run_approved run_from.simps demo_approved fst_conv demo_commit_1 demo_commit_2)
qed

end
