(* ===== verification/Safety.thy ===== *)
theory Safety
  imports Demo
begin

text \<open>
  Safety of all runs of the validator from its initial state, over any messages unless a theorem
  restricts them: what sessions and groups can look like, when nonces are generated and used, how
  epochs advance, and that timeouts and reconciliation leave nothing behind and drop nothing that is
  needed.
\<close>

definition run :: "lib \<Rightarrow> transition \<Rightarrow> msg list \<Rightarrow> state" where
  "run L T ms = run_from (\<lambda>s m. fst (apply_transition L T s m)) initial_state ms"

interpretation validator: closed_system "\<lambda>s m. fst (apply_transition L T s m)" "state_ok L T" initial_state for L T
  by unfold_locales (simp_all add: state_ok_initial state_ok_step)

lemma run_ok_state: "state_ok L T (run L T ms)"
  unfolding run_def by (rule validator.run_inv)

lemma run_snoc: "run L T (ms @ [msg]) = fst (apply_transition L T (run L T ms) msg)"
  by (simp add: run_def run_from_append)

lemma demo_run [simp]: "run demo_L demo_T (demo_keygen @ demo_signing) = demo_with demo_share_round"
  unfolding run_def by (rule demo_run_shares)

lemma demo_run_waiting [simp]:
  "run demo_L demo_T (demo_keygen @ take 2 demo_signing) =
     demo_with (WaitingForOracle demo_share 8 demo_gid 77 demo_packet {|1, 2|} 12)"
  unfolding run_def by (rule demo_run_approved)

lemma demo_lookup [simp]: "fmlookup (signing (demo_with x)) demo_message = Some x"
  "epochs (demo_with x) = demo_epochs" "sid_to_message (demo_with x) = fmupd 77 demo_message fmempty"
  "rollover (demo_with x) = EpochSkipped (nz_of 1)" "active_epoch (demo_with x) = Genesis"
  by (simp_all add: demo_with_def demo_ready_def initial_state_def)

section \<open>Sessions\<close>

lemma run_session:
  assumes "fmlookup (signing (run L T ms)) m = Some x"
  shows "session_sound L T m x" "session_keyed T (epochs (run L T ms)) x"
  using run_ok_state [of L T ms] assms by (auto simp: state_ok_def sessions_ok_def)

section \<open>Commands\<close>

lemma not_signing_backed: "\<not> signing_cmd c \<Longrightarrow> cmd_backed sg c"
  by (simp add: cmd_backed_def)

lemma start_cmds: "start_key_gen L T s e ps d = (s', cs) \<Longrightarrow> c \<in> set cs \<Longrightarrow> \<not> signing_cmd c"
  by (auto simp: start_key_gen_def split: option.splits)

lemma restart_cmds: "restart_key_gen_excluding L T s e ex d = (s', cs) \<Longrightarrow> c \<in> set cs \<Longrightarrow> \<not> signing_cmd c"
  by (auto simp: restart_key_gen_excluding_def Let_def dest: start_cmds split: option.splits)

lemma finalize_commitments_cmds:
  "finalize_key_gen_commitments L e g sec c d = (r, cs) \<Longrightarrow> x \<in> set cs \<Longrightarrow> \<not> signing_cmd x"
  by (auto simp: finalize_key_gen_commitments_def Let_def split: option.splits sum.splits prod.splits)

lemma confirm_cmds: "confirm_key_gen L T e g ss shs dl = Inr (st, cs) \<Longrightarrow> x \<in> set cs \<Longrightarrow> \<not> signing_cmd x"
  by (auto simp: confirm_key_gen_def split: sum.splits)

lemma setup_cmds: "handle_key_gen_setup L T s gid sec = (s', cs) \<Longrightarrow> x \<in> set cs \<Longrightarrow> \<not> signing_cmd x"
  by (auto simp: handle_key_gen_setup_def Let_def dest: finalize_commitments_cmds
      split: rollover_state.splits keygen_commitment.splits option.splits if_splits prod.splits)

lemma committed_cmds: "handle_key_gen_committed L T s b gid a kc = (s', cs) \<Longrightarrow> x \<in> set cs \<Longrightarrow> \<not> signing_cmd x"
  by (auto simp: handle_key_gen_committed_def Let_def dest: finalize_commitments_cmds
      split: rollover_state.splits keygen_commitment.splits option.splits if_splits prod.splits)

lemma register_share_cmds: "register_share L T b g p d a sh acc = (x1, x2, cs) \<Longrightarrow> x \<in> set cs \<Longrightarrow> \<not> signing_cmd x"
  by (auto simp: register_share_def Let_def split: prod.splits sum.splits keygen_participation.splits)

lemma secret_shared_cmds:
  "handle_key_gen_secret_shared L T s b gid a sh = (s', cs) \<Longrightarrow> x \<in> set cs \<Longrightarrow> \<not> signing_cmd x"
  by (auto simp: handle_key_gen_secret_shared_def Let_def dest: register_share_cmds confirm_cmds
      split: rollover_state.splits keygen_participation.splits if_splits prod.splits sum.splits)

lemma confirmed_cmds: "handle_key_gen_confirmed L T s b gid a = (s', cs) \<Longrightarrow> x \<in> set cs \<Longrightarrow> \<not> signing_cmd x"
  by (auto simp: handle_key_gen_confirmed_def Let_def dest: start_cmds
      split: rollover_state.splits epoch_id.splits option.splits if_splits prod.splits)

lemma complained_cmds:
  "handle_key_gen_complained L T s b gid pl a = (s', cs) \<Longrightarrow> x \<in> set cs \<Longrightarrow> \<not> signing_cmd x"
  by (auto simp: handle_key_gen_complained_def Let_def dest: restart_cmds
      split: option.splits keygen_participation.splits if_splits prod.splits sum.splits)

lemma responded_cmds:
  "handle_key_gen_complaint_responded L T s b gid pl a sh = (s', cs) \<Longrightarrow> x \<in> set cs \<Longrightarrow> \<not> signing_cmd x"
  by (auto simp: handle_key_gen_complaint_responded_def confirm_when_complete_def Let_def
      dest: restart_cmds confirm_cmds
      split: option.splits if_splits sum.splits rollover_state.splits keygen_participation.splits
        keygen_confirmation.splits)

lemma genesis_cmds: "handle_genesis_key_gen L T s gid = (s', cs) \<Longrightarrow> x \<in> set cs \<Longrightarrow> \<not> signing_cmd x"
  by (auto simp: handle_genesis_key_gen_def Let_def dest: start_cmds split: if_splits)

lemma clock_cmds: "handle_rollover_new_block L T s b = (s', cs) \<Longrightarrow> x \<in> set cs \<Longrightarrow> \<not> signing_cmd x"
  by (auto simp: handle_rollover_new_block_def Let_def dest: start_cmds split: option.splits if_splits)

lemma timeout_cmds: "handle_key_gen_timeouts L T s b = (s', cs) \<Longrightarrow> x \<in> set cs \<Longrightarrow> \<not> signing_cmd x"
  by (auto simp: handle_key_gen_timeouts_def dest: restart_cmds split: option.splits)

lemma coordinator_backed:
  assumes "apply_coordinator L T s b ev = (s', cs)" "c \<in> set cs"
  shows "cmd_backed (signing s') c"
  using assms
  by (cases ev)
    (auto intro: not_signing_backed dest: genesis_cmds committed_cmds secret_shared_cmds confirmed_cmds
      complained_cmds responded_cmds handle_sign_backed handle_sign_committed_nonces_backed
      simp: handle_sign_shared_def handle_sign_completed_def split: option.splits signing_state.splits)

lemma consensus_no_cmds: "snd (apply_consensus L T s b ev) = []"
  by (cases ev) (auto simp: handle_epoch_staged_def handle_sign_attested_def handle_transaction_proposed_def
      handle_transaction_attested_def Let_def split: rollover_state.split option.split)

lemma new_block_backed:
  assumes "apply_new_block L T s b = (s', cs)" "c \<in> set cs"
  shows "cmd_backed (signing s') c"
proof -
  obtain s1 c1 s2 c2 s3 c3 s4 c4 where ph: "handle_rollover_new_block L T s b = (s1, c1)"
    "handle_key_gen_timeouts L T s1 b = (s2, c2)" "handle_signing_timeouts L T s2 b = (s3, c3)"
    "handle_group_reconciliation s3 b = (s4, c4)" "apply_new_block L T s b = (s4, c1 @ c2 @ c3 @ c4)"
    by (rule new_block_phases)
  consider "\<not> signing_cmd c" | "c \<in> set c3"
    using assms ph(5) clock_cmds [OF ph(1)] timeout_cmds [OF ph(2)] reconciliation_frame(6) [OF ph(4)] by fastforce
  then show ?thesis
  proof cases
    case 2
    then show ?thesis using handle_signing_timeouts_backed [OF ph(3)] reconciliation_frame(1) [OF ph(4)] ph(5) assms(1)
      by simp
  qed (rule not_signing_backed)
qed

lemma resume_backed:
  assumes "apply_resume L T s r = (s', cs)" "c \<in> set cs"
  shows "cmd_backed (signing s') c"
  using assms
  by (cases r) (auto intro: not_signing_backed dest: setup_cmds handle_nonces_backed handle_nonce_commitments_backed)

lemma transition_backed:
  assumes "apply_transition L T s msg = (s', cs)" "c \<in> set cs"
  shows "cmd_backed (signing s') c"
proof (cases msg)
  case (Event log)
  show ?thesis
  proof (cases "log_data log")
    case (ConsensusEvent ev)
    then show ?thesis using assms Event consensus_no_cmds [of L T s "log_block log" ev] by simp
  next
    case (CoordinatorEvent ev)
    then show ?thesis using assms Event coordinator_backed by simp
  next
    case (OracleEvent ev)
    then show ?thesis using assms Event handle_oracle_result_backed by (cases ev) simp
  qed
qed (use assms new_block_backed resume_backed in simp_all)

section \<open>Oracle approval\<close>

definition approved_in :: "msg list \<Rightarrow> b256 \<Rightarrow> address \<Rightarrow> bool" where
  "approved_in ms m oracle \<longleftrightarrow> list_ex (\<lambda>msg. approval_of msg m = Some oracle) ms"

text \<open>The run with its approvals as a ghost component.\<close>

definition ghost_step :: "lib \<Rightarrow> transition \<Rightarrow> state \<times> (b256 \<times> address) set \<Rightarrow> msg \<Rightarrow> state \<times> (b256 \<times> address) set" where
  "ghost_step L T sh msg =
     (fst (apply_transition L T (fst sh) msg), snd sh \<union> {(m, oracle). approval_of msg m = Some oracle})"

definition ghost_inv :: "state \<times> (b256 \<times> address) set \<Rightarrow> bool" where
  "ghost_inv sh \<longleftrightarrow> (\<forall>m x. fmlookup (signing (fst sh)) m = Some x \<longrightarrow> gated (snd sh) m x)"

lemma ghost_inv_step: "ghost_inv sh \<Longrightarrow> ghost_inv (ghost_step L T sh msg)"
  unfolding ghost_inv_def
proof (intro allI impI)
  fix m x
  assume inv: "\<forall>m x. fmlookup (signing (fst sh)) m = Some x \<longrightarrow> gated (snd sh) m x"
    and x: "fmlookup (signing (fst (ghost_step L T sh msg))) m = Some x"
  let ?H = "snd (ghost_step L T sh msg)"
  have "pred_option (gated ?H m) (fmlookup (signing (fst sh)) m)"
    using inv gated_mono [of "snd sh" m _ ?H] by (cases "fmlookup (signing (fst sh)) m") (auto simp: ghost_step_def)
  moreover have "session_step L T (epochs (fst sh)) (approval_of msg m) m (fmlookup (signing (fst sh)) m) (Some x)"
    using spec [OF apply_transition_steps [of L T "fst sh" msg], of m] x by (simp add: ghost_step_def)
  ultimately have "pred_option (gated ?H m) (Some x)"
    using session_step_gated [of L T "epochs (fst sh)" "approval_of msg m" m _ "Some x" ?H]
    by (auto simp: ghost_step_def)
  then show "gated ?H m x" by simp
qed

interpretation ghost: closed_system "ghost_step L T" ghost_inv "(initial_state, {})" for L T
  by unfold_locales (simp_all add: ghost_inv_step, simp add: ghost_inv_def initial_state_def)

lemma ghost_run:
  "run_from (ghost_step L T) (s, H) ms =
     (run_from (\<lambda>s m. fst (apply_transition L T s m)) s ms, H \<union> {(m, oracle). approved_in ms m oracle})"
  by (induction ms arbitrary: s H) (auto simp: approved_in_def ghost_step_def)

lemma run_gated:
  assumes "fmlookup (signing (run L T ms)) m = Some x"
  shows "gated {(m, oracle). approved_in ms m oracle} m x"
  using ghost.run_inv [of L T ms] assms by (simp add: ghost_run ghost_inv_def run_def)

text \<open>
  C2: nonces are only ever generated for a session whose packet the oracle has approved: when a step
  asks for nonces, there is a session of the new state for exactly this group, signature id and key
  share, its message is the hash of its packet, and if the packet is a transaction then its oracle is
  allowed by the configuration and has approved this very message in an earlier message of the run or in
  this one.
\<close>

theorem nonces_only_after_approval:
  assumes "Effect (GenerateNonces gid sid ks) \<in> set (snd (apply_transition L T (run L T ms) msg))"
  shows "\<exists>m p sg d. fmlookup (signing (run L T (ms @ [msg]))) m =
      Some (CollectNonceCommitments ks gid sid fmempty p sg d) \<and> m = packet_hash L T p \<and>
    pred_option (\<lambda>oracle. oracle |\<in>| cfg_oracles (tr_config T) \<and> approved_in (ms @ [msg]) m oracle) (packet_oracle p)"
proof -
  have "cmd_backed (signing (run L T (ms @ [msg]))) (Effect (GenerateNonces gid sid ks))"
    using transition_backed [OF prod.collapse [symmetric] assms] by (simp add: run_snoc)
  then obtain m x where x: "fmlookup (signing (run L T (ms @ [msg]))) m = Some x" "opens_nonces x gid sid ks"
    by (auto simp: cmd_backed_def)
  then obtain p sg d where eq: "x = CollectNonceCommitments ks gid sid fmempty p sg d" by (cases x) auto
  from run_session(1) [OF x(1)] run_gated [OF x(1)] have "m = packet_hash L T p"
    and "pred_option (\<lambda>oracle. oracle |\<in>| cfg_oracles (tr_config T) \<and> approved_in (ms @ [msg]) m oracle) (packet_oracle p)"
    by (auto simp: eq session_sound_def option.pred_set)
  then show ?thesis using x(1) eq by blast
qed

theorem nonces_only_after_approval_witness:
  "\<exists>m p sg d. fmlookup (signing (run demo_L demo_T ((demo_keygen @ take 2 demo_signing) @ [demo_signing ! 2]))) m =
      Some (CollectNonceCommitments demo_share demo_gid 77 fmempty p sg d) \<and> m = packet_hash demo_L demo_T p \<and>
    pred_option (\<lambda>oracle. oracle |\<in>| cfg_oracles (tr_config demo_T) \<and>
      approved_in ((demo_keygen @ take 2 demo_signing) @ [demo_signing ! 2]) m oracle) (packet_oracle p)"
  by (rule nonces_only_after_approval) (simp only: demo_run_waiting demo_approved, simp)

text \<open>
  C3: our nonces are only used for a round that is complete: when a step asks to use the nonces for a
  message, that message has a fresh share round under this signature id, whose nonce commitments are
  exactly those of its signers, ours included, whose packet hashes to the message, and whose oracle (for a
  transaction) has approved the message.
\<close>

theorem nonces_used_for_complete_rounds:
  assumes "Effect (UseNonces m sid) \<in> set (snd (apply_transition L T (run L T ms) msg))"
  shows "\<exists>ks gid c p d. fmlookup (signing (run L T (ms @ [msg]))) m =
      Some (CollectSigningShares ks gid sid c fmempty p (fmdom c) d) \<and>
    fm_has c (tr_account T) \<and> m = packet_hash L T p \<and> pred_option (approved_in (ms @ [msg]) m) (packet_oracle p)"
proof -
  have "cmd_backed (signing (run L T (ms @ [msg]))) (Effect (UseNonces m sid))"
    using transition_backed [OF prod.collapse [symmetric] assms] by (simp add: run_snoc)
  then obtain x where x: "fmlookup (signing (run L T (ms @ [msg]))) m = Some x" "opens_shares x sid"
    by (auto simp: cmd_backed_def)
  then obtain ks gid c p sg d where eq: "x = CollectSigningShares ks gid sid c fmempty p sg d" by (cases x) auto
  have "fmdom c = sg" "fm_has c (tr_account T)" "m = packet_hash L T p" "pred_option (approved_in (ms @ [msg]) m) (packet_oracle p)"
    using run_session [OF x(1)] run_gated [OF x(1)] by (auto simp: eq session_sound_def option.pred_set fm_has_iff)
  then show ?thesis using x(1) eq by blast
qed

lemma demo_run_committed:
  "run demo_L demo_T (demo_keygen @ take 4 demo_signing) =
     demo_with (demo_nonce_round (fmupd 1 demo_committed fmempty))"
proof -
  have "take 4 demo_signing = take 2 demo_signing @ [demo_signing ! 2, demo_signing ! 3]"
    by (simp add: demo_signing_def)
  then have "run demo_L demo_T (demo_keygen @ take 4 demo_signing) =
      run_from demo_step (run demo_L demo_T (demo_keygen @ take 2 demo_signing)) [demo_signing ! 2, demo_signing ! 3]"
    unfolding run_def by (metis append.assoc run_from_append)
  then show ?thesis by (simp only: demo_run_waiting run_from.simps demo_approved fst_conv demo_commit_1)
qed

theorem nonces_used_for_complete_rounds_witness:
  "\<exists>ks gid c p d. fmlookup (signing (run demo_L demo_T ((demo_keygen @ take 4 demo_signing) @ [demo_signing ! 4])))
      demo_message = Some (CollectSigningShares ks gid 77 c fmempty p (fmdom c) d) \<and>
    fm_has c (tr_account demo_T) \<and> demo_message = packet_hash demo_L demo_T p \<and>
    pred_option (approved_in ((demo_keygen @ take 4 demo_signing) @ [demo_signing ! 4]) demo_message) (packet_oracle p)"
  by (rule nonces_used_for_complete_rounds) (simp only: demo_run_committed demo_commit_2, simp)

section \<open>Epochs\<close>

lemma round_active:
  "s' = s\<lparr>rollover := rollover s'\<rparr> \<and> round_step L T M (rollover s) (rollover s') \<Longrightarrow> active_epoch s' = active_epoch s"
  by (metis only_rollover_frame(4))

lemma confirmed_active: "active_epoch (fst (handle_key_gen_confirmed L T s b gid a)) = active_epoch s"
proof -
  obtain s' cs where h: "handle_key_gen_confirmed L T s b gid a = (s', cs)" by (cases rule: prod.exhaust)
  have "active_epoch s' = active_epoch s"
  proof (cases rule: key_gen_confirmed_cases [where M = "\<lambda>_. True", OF h TrueI])
    case (2 g p st cf cmp dl n)
    then show ?thesis using only_rollover_frame(4) [OF 2(3)] by simp
  qed (use only_rollover_frame(4) in \<open>blast, simp\<close>)
  then show ?thesis using h by simp
qed

lemma coordinator_active: "active_epoch (fst (apply_coordinator L T s b ev)) = active_epoch s"
proof (cases ev)
  case (KeyGen gid ps count threshold ctx)
  have "active_epoch (fst (handle_genesis_key_gen L T s gid)) = active_epoch s"
    using genesis_key_gen_cases [of L T s gid] by (metis only_rollover_frame(4) prod.collapse)
  then show ?thesis using KeyGen by simp
next
  case (KeyGenCommitted gid a kc f)
  then show ?thesis using round_active [OF committed_step [where M = "\<lambda>_. True", OF prod.collapse [symmetric] TrueI]] by simp
next
  case (KeyGenSecretShared gid a sh f)
  then show ?thesis using round_active [OF secret_shared_step [OF prod.collapse [symmetric]]] by simp
next
  case (KeyGenComplained gid pl a f)
  then show ?thesis using round_active [OF complained_step [where M = "\<lambda>_. True", OF prod.collapse [symmetric] TrueI]] by simp
next
  case (KeyGenComplaintResponded gid pl a sh)
  then show ?thesis using round_active [OF responded_step [OF prod.collapse [symmetric]]] by simp
qed (simp_all add: frames confirmed_active)

lemma consensus_active: "active_epoch (fst (apply_consensus L T s b ev)) = active_epoch s"
  by (cases ev) (auto simp: handle_epoch_staged_def Let_def frames split: rollover_state.split)

lemma resume_active: "active_epoch (fst (apply_resume L T s r)) = active_epoch s"
proof (cases r)
  case (Setup gid secrets)
  then show ?thesis using round_active [OF setup_step [OF prod.collapse [symmetric]]] by simp
qed (auto simp: handle_nonce_commitments_def handle_nonces_def
    split: option.splits signing_state.splits sum.splits)

lemma transition_active:
  "core_ok L T s \<Longrightarrow> active_epoch s \<le> active_epoch (fst (apply_transition L T s msg))"
proof (cases msg)
  case (Event log)
  show ?thesis
  proof (cases "log_data log")
    case (OracleEvent ev)
    then show ?thesis using Event by (cases ev) (simp add: frames)
  qed (simp_all add: Event coordinator_active consensus_active)
qed (simp_all add: core_new_block resume_active)

text \<open>
  C28: the active epoch never goes back over a run, and at every point the epoch the rollover works
  toward lies strictly after it (or the rollover is still before or in genesis, or halted).
\<close>

theorem active_epoch_advances:
  "active_epoch (run L T ms) \<le> active_epoch (run L T (ms @ ns)) \<and>
   (case next_epoch (rollover (run L T ms)) of
      Some (Number n) \<Rightarrow> active_epoch (run L T ms) < Number n
    | Some Genesis \<Rightarrow> active_epoch (run L T ms) = Genesis
    | None \<Rightarrow> True)"
proof -
  have "active_epoch (run L T ms) \<le> active_epoch (run L T (ms @ ns))"
    unfolding run_def
    by (rule validator.run_relation [where R = "\<lambda>a b. active_epoch a \<le> active_epoch b"])
      (auto simp: state_ok_def intro: transition_active order_trans)
  then show ?thesis using run_ok_state [of L T ms]
    by (auto simp: state_ok_def core_ok_def clock_ok_def split: option.splits epoch_id.splits)
qed

lemma round_target: "round_step L T M r r' \<Longrightarrow> next_epoch r' = Some (Number n) \<Longrightarrow> next_epoch r = Some (Number n)"
  using round_step_next by fastforce

text \<open>
  After every new block the rollover works toward an epoch that the block clock has not passed: its
  target is at least the next epoch of that block.
\<close>

lemma new_block_catches_up:
  assumes "next_epoch (rollover (fst (apply_new_block L T s block))) = Some (Number n)"
  shows "next_number block (cfg_blocks_per_epoch (tr_config T)) \<le> n"
proof -
  obtain s1 c1 s2 c2 s3 c3 s4 c4 where ph: "handle_rollover_new_block L T s block = (s1, c1)"
    "handle_key_gen_timeouts L T s1 block = (s2, c2)" "handle_signing_timeouts L T s2 block = (s3, c3)"
    "handle_group_reconciliation s3 block = (s4, c4)" "apply_new_block L T s block = (s4, c1 @ c2 @ c3 @ c4)"
    by (rule new_block_phases)
  have "rollover s4 = rollover s2"
    using reconciliation_frame(3) [OF ph(4)] signing_timeouts_frame(1) [where L = L and T = T and block = block and s = s2] ph(3)
    by simp
  then have n: "next_epoch (rollover s1) = Some (Number n)"
    using assms ph(5) round_target [OF conjunct2 [OF timeouts_step [OF ph(2)]]] by simp
  show ?thesis
  proof (cases rule: rollover_new_block_cases [OF ph(1)])
    case 1
    then show ?thesis using n by simp
  next
    case (2 target n')
    then have "next_epoch (rollover s1) = Some (Number n')" by auto
    then show ?thesis using n 2(2) by simp
  qed
qed

section \<open>Groups and complaints\<close>

text \<open>The genesis set is the one that the service derives from the configuration at start-up.\<close>

definition configured :: "lib \<Rightarrow> transition \<Rightarrow> bool" where
  "configured L T \<longleftrightarrow>
     participants_set (keccak256 L) (cfg_participants (tr_config T)) (GenesisGroup (cfg_genesis_salt (tr_config T))) =
       Some (tr_genesis T)"

lemma configured_wf: "configured L T \<Longrightarrow> ps_wf (tr_genesis T)"
  unfolding configured_def by (rule participants_set_wf)

lemma demo_configured: "configured demo_L demo_T"
  by (simp add: configured_def participants_set_def demo_parts_def demo_genesis_def demo_T_def genesis_context_def
      min_participants_def as_u16_def fcard_finsert_if)

definition state_group :: "state \<Rightarrow> epoch_id \<Rightarrow> group \<Rightarrow> bool" where
  "state_group s e g \<longleftrightarrow>
     (case round_of (rollover s) of Some (e', g', _) \<Rightarrow> e' = e \<and> g' = g | None \<Rightarrow> False) \<or>
     (case fmlookup (epochs s) e of Some ep \<Rightarrow> ep_group ep = g | None \<Rightarrow> False)"

lemma run_group_derived: "state_group (run L T ms) e g \<Longrightarrow> group_derived L T e g"
  using run_ok_state [of L T ms]
  by (cases "rollover (run L T ms)")
    (auto simp: state_group_def state_ok_def core_ok_def epochs_ok_def split: option.splits)

text \<open>
  Every group that a run can work with, in a key generation round or on record for an epoch, has
  between two and 65535 members, a count field that is their number, a threshold of a strict majority,
  no excluded member, and for a numbered epoch its members are exactly the participants configured for
  that epoch less the excluded ones.
\<close>

lemma run_groups_sound:
  assumes "configured L T" and "state_group (run L T ms) e g"
  shows "group_wf g \<and> (case e of Genesis \<Rightarrow> g = group_of (keccak256 L) (tr_genesis T)
    | Number n \<Rightarrow> grp_participants g =
        fst (epoch_addresses (keccak256 L) (cfg_participants (tr_config T))
          (NumberGroup (cfg_consensus (tr_config T)) n (grp_excluded g))) |-| grp_excluded g)"
proof -
  have d: "group_derived L T e g" by (rule run_group_derived [OF assms(2)])
  moreover have "grp_participants g = A |-| grp_excluded g"
    if "e = Number n" "epoch_addresses (keccak256 L) (cfg_participants (tr_config T))
          (NumberGroup (cfg_consensus (tr_config T)) n (grp_excluded g)) = (A, B, C)" for n A B C
    using d that participants_set_SomeD(1) [where k = "keccak256 L"]
    by (auto simp: numbered_set_def split: option.splits)
  ultimately show ?thesis using group_derived_wf [OF configured_wf [OF assms(1)] d]
    by (auto split: epoch_id.split)
qed

fun round_complaints :: "rollover_state \<Rightarrow> (address, complaint) fmap" where
  "round_complaints (CollectingShares e g p shd shs cs d) = cs"
| "round_complaints (CollectingConfirmations e g p st cf cs dl) = cs"
| "round_complaints _ = fmempty"

lemma below_u16: "a < b \<Longrightarrow> unat (a + 1) = unat a + 1" for a b :: u16
proof -
  assume "a < b"
  then have "unat a + 1 < 2 ^ 16" using unat_less_exp [of b] by (simp add: word_less_nat_alt)
  then show ?thesis by (simp add: unat_word_ariths)
qed

text \<open>
  The sixteen-bit complaint counter never overflows: in every reachable round, each participant has
  fewer complaints than the group's signing threshold (the one that reaches it restarts the round), so
  counting one more complaint adds exactly one.
\<close>

lemma complaint_counter_never_wraps:
  assumes "round_of (rollover (run L T ms)) = Some (e, g, nd)"
    and "fmlookup (round_complaints (rollover (run L T ms))) accused = Some c"
  shows "total c < grp_threshold g \<and>
    unat (total (count_complaint requires_response plaintiff (Some c))) = unat (total c) + 1"
proof -
  have "rollover_ok L T (rollover (run L T ms))"
    using run_ok_state [of L T ms] by (simp add: state_ok_def core_ok_def)
  then have "total c < grp_threshold g"
    using assms by (cases "rollover (run L T ms)") (auto simp: complaints_ok_def)
  then show ?thesis using below_u16 by (simp add: count_complaint_def Let_def)
qed

definition demo_complaint :: "msg list" where
  "demo_complaint = take 4 demo_keygen @ [demo_log 3 9 (CoordinatorEvent (KeyGenComplained demo_gid 1 2 False))]"

definition demo_sharing :: "(address, complaint) fmap \<Rightarrow> rollover_state" where
  "demo_sharing cs = CollectingShares Genesis demo_group (Participating demo_ss) {||} fmempty cs None"

lemma demo_sharing_run:
  "run demo_L demo_T (take 4 demo_keygen) = initial_state\<lparr>rollover := demo_sharing fmempty\<rparr>"
  unfolding demo_keygen_def run_def demo_log_def demo_sharing_def
  apply (simp add: handle_genesis_key_gen_def start_key_gen_def demo_participate initial_state_def)
  apply (simp add: handle_key_gen_setup_def handle_key_gen_committed_def group_size_def as_u16_def fm_len_def
      fcard_finsert_if Let_def finalize_key_gen_commitments_def)
  done

lemma demo_complaint_run:
  "rollover (run demo_L demo_T demo_complaint) = demo_sharing (fmupd 2 \<lparr>total = 1, unresponded = {|1|}\<rparr> fmempty)"
  unfolding demo_complaint_def run_snoc demo_sharing_run
  by (simp add: demo_log_def demo_sharing_def handle_key_gen_complained_def count_complaint_def
      complaint_default_def group_size_def Let_def word_le_nat_alt)

section \<open>Deadlines and reconciliation\<close>

lemma new_block_signing:
  "fmlookup (signing (fst (apply_new_block L T s block))) m = swept L T block m (fmlookup (signing s) m)"
proof -
  obtain s1 c1 s2 c2 s3 c3 s4 c4 where ph: "handle_rollover_new_block L T s block = (s1, c1)"
    "handle_key_gen_timeouts L T s1 block = (s2, c2)" "handle_signing_timeouts L T s2 block = (s3, c3)"
    "handle_group_reconciliation s3 block = (s4, c4)" "apply_new_block L T s block = (s4, c1 @ c2 @ c3 @ c4)"
    by (rule new_block_phases)
  then show ?thesis
    using reconciliation_frame(1) [OF ph(4)] signing_timeouts_signing [of L T s2 block m]
      rollover_new_block_frame(1) [OF ph(1)] key_gen_timeouts_frame(1) [OF ph(2)] by simp
qed

text \<open>
  C29: a new block leaves nothing behind that it should have ended.  After it, every open signing session has its
  deadline after the block, and so has a key generation in its commitment or share round.  In a confirmation round
  the deadline for confirmations lies after the block, and so does the deadline for responses as long as a
  complaint is unanswered; without one it may have passed, since then nothing waits for it.  (The last block number,
  which no deadline can exceed, is excluded.)
\<close>

theorem new_block_leaves_nothing_expired:
  assumes "block \<noteq> - 1"
  shows "let s' = fst (apply_new_block L T s block)
    in (\<forall>m x. fmlookup (signing s') m = Some x \<longrightarrow> block < sgn_deadline x) \<and>
       (\<forall>e g sec c d. rollover s' = CollectingCommitments e g sec c (Some d) \<longrightarrow> block < d) \<and>
       (\<forall>e g p shd shs cs d. rollover s' = CollectingShares e g p shd shs cs (Some d) \<longrightarrow> block < d) \<and>
       (\<forall>e g p st cf cs dl. rollover s' = CollectingConfirmations e g p st cf cs (Some dl) \<longrightarrow>
          block < dl_confirm dl \<and>
          (\<forall>a complaint. fmlookup cs a = Some complaint \<and> unresponded complaint \<noteq> {||} \<longrightarrow> block < dl_response dl))"
proof -
  obtain s1 c1 s2 c2 s3 c3 s4 c4 where ph: "handle_rollover_new_block L T s block = (s1, c1)"
    "handle_key_gen_timeouts L T s1 block = (s2, c2)" "handle_signing_timeouts L T s2 block = (s3, c3)"
    "handle_group_reconciliation s3 block = (s4, c4)" "apply_new_block L T s block = (s4, c1 @ c2 @ c3 @ c4)"
    by (rule new_block_phases)
  have "rollover s4 = rollover s2"
    using reconciliation_frame(3) [OF ph(4)] signing_timeouts_frame(1) [where L = L and T = T and block = block and s = s2] ph(3)
    by simp
  then have "round_live block (rollover s4)" using key_gen_timeouts_live [OF ph(2) assms] by simp
  moreover have "a |\<in>| unresponded_complaints cs" if "fmlookup cs a = Some c" "unresponded c \<noteq> {||}" for cs a c
    using that by (auto simp: unresponded_complaints_def fset_of_list_elem intro: fmdomI)
  ultimately show ?thesis using swept_deadline [OF assms] ph(5) new_block_signing [of L T s block]
    unfolding Let_def by fastforce
qed

theorem new_block_leaves_nothing_expired_witness:
  "sgn_deadline (demo_nonce_round (fmupd 2 demo_committed (fmupd 1 demo_committed fmempty))) = 11 \<and>
   (\<exists>x. fmlookup (signing (fst (apply_new_block demo_L demo_T
       (demo_with (demo_nonce_round (fmupd 2 demo_committed (fmupd 1 demo_committed fmempty)))) 11))) demo_message = Some x \<and>
     11 < sgn_deadline x)"
proof -
  let ?s = "demo_with (demo_nonce_round (fmupd 2 demo_committed (fmupd 1 demo_committed fmempty)))"
  have "(11 :: u64) \<noteq> - 1" by simp
  note ok = new_block_leaves_nothing_expired [OF this, of demo_L demo_T ?s]
  have "fmlookup (signing (fst (apply_new_block demo_L demo_T ?s 11))) demo_message \<noteq> None"
    by (simp add: new_block_signing swept_def timeout_session_def fm_len_def fcard_finsert_if
        demo_share_def ks_threshold_def fm_has_def)
  with ok show ?thesis by (auto simp: Let_def)
qed

end
