(* ===== verification/Environment.thy ===== *)
theory Environment
  imports Safety
begin

text \<open>
  Properties of runs against an environment that behaves as the contracts document: signature ids are
  never reused, a rollover message is not already being signed, and key generation events only name
  members of the group they are about.
\<close>

section \<open>Signature ids\<close>

fun fresh_event :: "lib \<Rightarrow> transition \<Rightarrow> state \<Rightarrow> event \<Rightarrow> bool" where
  "fresh_event L T s (CoordinatorEvent (Sign initiator gid message sid sequence)) =
     (fmlookup (sid_to_message s) sid = None)"
| "fresh_event L T s (CoordinatorEvent (KeyGenConfirmed gid participant confirmed)) =
     (case rollover s of
        CollectingConfirmations (Number n) g p st cf cs dl \<Rightarrow> fmlookup (signing s) (rollover_message L T s n p) = None
      | _ \<Rightarrow> True)"
| "fresh_event L T s _ = True"

fun fresh_ids :: "lib \<Rightarrow> transition \<Rightarrow> state \<Rightarrow> msg \<Rightarrow> bool" where
  "fresh_ids L T s (Event log) = fresh_event L T s (log_data log)"
| "fresh_ids L T s _ = True"

abbreviation state_sid_index :: "state \<Rightarrow> bool" where
  "state_sid_index s \<equiv> sid_index (signing s) (sid_to_message s)"

lemma sid_index_same:
  "signing s' = signing s \<Longrightarrow> sid_to_message s' = sid_to_message s \<Longrightarrow> state_sid_index s \<Longrightarrow> state_sid_index s'"
  by simp

lemma sid_index_round:
  "s' = s\<lparr>rollover := rollover s'\<rparr> \<and> round_step L T M (rollover s) (rollover s') \<Longrightarrow> state_sid_index s \<Longrightarrow> state_sid_index s'"
  by (metis only_rollover_frame(1,3))

lemma sid_index_confirmed:
  assumes h: "handle_key_gen_confirmed L T s block gid a = (s', cs)" and ix: "state_sid_index s"
    and fresh: "fresh_event L T s (CoordinatorEvent (KeyGenConfirmed gid a f))"
  shows "state_sid_index s'"
proof (cases rule: key_gen_confirmed_cases [where M = "\<lambda>_. True", OF h TrueI])
  case 1
  then show ?thesis using ix sid_index_round by blast
next
  case (2 g p st cf cmp dl n)
  then show ?thesis using ix only_rollover_frame(1,3) [OF 2(3)] by simp
next
  case (3 n g p st cf cmp dl sessions)
  then show ?thesis using ix fresh by (auto intro: sid_index_open split: option.splits)
qed

lemma sid_index_staged:
  assumes h: "handle_epoch_staged s raw gid = (s', cs)" and ix: "state_sid_index s"
  shows "state_sid_index s'"
proof (cases rule: epoch_staged_cases [OF h])
  case 2
  then show ?thesis using ix only_rollover_frame(1,3) [OF 2(2)] by simp
next
  case (3 n g ks m)
  then show ?thesis using ix handle_sign_attested_sids by simp
qed (use ix in simp)

lemma sid_index_coordinator:
  assumes ix: "state_sid_index s" and fresh: "fresh_event L T s (CoordinatorEvent ev)"
  shows "state_sid_index (fst (apply_coordinator L T s block ev))"
proof (cases ev)
  case (KeyGen gid ps count threshold ctx)
  have "signing (fst (handle_genesis_key_gen L T s gid)) = signing s"
    "sid_to_message (fst (handle_genesis_key_gen L T s gid)) = sid_to_message s"
    using genesis_key_gen_cases [of L T s gid] by (metis only_rollover_frame(1,3) prod.collapse)+
  then show ?thesis using ix KeyGen by simp
next
  case (KeyGenCommitted gid a kc f)
  then show ?thesis
    using ix sid_index_round [OF committed_step [where M = "\<lambda>_. True", OF prod.collapse [symmetric] TrueI]] by simp
next
  case (KeyGenSecretShared gid a sh f)
  then show ?thesis using ix sid_index_round [OF secret_shared_step [OF prod.collapse [symmetric]]] by simp
next
  case (KeyGenConfirmed gid a f)
  then show ?thesis using sid_index_confirmed [OF prod.collapse [symmetric] ix] fresh by simp
next
  case (KeyGenComplained gid pl a f)
  then show ?thesis
    using ix sid_index_round [OF complained_step [where M = "\<lambda>_. True", OF prod.collapse [symmetric] TrueI]] by simp
next
  case (KeyGenComplaintResponded gid pl a sh)
  then show ?thesis using ix sid_index_round [OF responded_step [OF prod.collapse [symmetric]]] by simp
qed (use ix fresh handle_sign_sids [OF _ _ refl] handle_sign_committed_nonces_sids [OF _ refl]
    handle_sign_shared_sids [OF _ refl] handle_sign_completed_sids [OF _ refl] in simp_all)

lemma sid_index_new_block:
  assumes ix: "state_sid_index s"
  shows "state_sid_index (fst (apply_new_block L T s block))"
proof -
  obtain s1 c1 s2 c2 s3 c3 s4 c4 where ph: "handle_rollover_new_block L T s block = (s1, c1)"
    "handle_key_gen_timeouts L T s1 block = (s2, c2)" "handle_signing_timeouts L T s2 block = (s3, c3)"
    "handle_group_reconciliation s3 block = (s4, c4)" "apply_new_block L T s block = (s4, c1 @ c2 @ c3 @ c4)"
    by (rule new_block_phases)
  have "state_sid_index s2"
    using ix rollover_new_block_frame(1,3) [OF ph(1)] key_gen_timeouts_frame(1,3) [OF ph(2)] by simp
  from handle_signing_timeouts_sids [OF this] ph(3) have "state_sid_index s3" by (metis fst_conv)
  then show ?thesis using reconciliation_frame(1,2) [OF ph(4)] ph(5) by simp
qed

lemma sid_index_resume: "state_sid_index s \<Longrightarrow> state_sid_index (fst (apply_resume L T s r))"
proof (cases r)
  case (Setup gid secrets)
  assume "state_sid_index s"
  then show ?thesis using sid_index_round [OF setup_step [OF prod.collapse [symmetric]]] Setup by simp
qed (auto simp: handle_nonce_commitments_def handle_nonces_def
    split: option.splits signing_state.splits sum.splits)

lemma sid_index_step:
  assumes ix: "state_sid_index s" and fresh: "fresh_ids L T s msg"
  shows "state_sid_index (fst (apply_transition L T s msg))"
proof (cases msg)
  case (Event log)
  show ?thesis
  proof (cases "log_data log")
    case (ConsensusEvent ev)
    then show ?thesis using ix Event
        sid_index_staged [OF prod.collapse [symmetric] ix] handle_transaction_proposed_sids [OF ix refl]
        handle_sign_attested_sids [OF ix refl]
      by (cases ev) (simp_all add: handle_transaction_attested_def)
  next
    case (CoordinatorEvent ev)
    then show ?thesis using Event fresh sid_index_coordinator [OF ix] by simp
  next
    case (OracleEvent ev)
    then show ?thesis using Event handle_oracle_result_sids [OF ix refl] by (cases ev) simp
  qed
qed (use ix sid_index_new_block sid_index_resume in simp_all)

interpretation fresh: guarded_system "\<lambda>s m. fst (apply_transition L T s m)" "fresh_ids L T" state_sid_index initial_state
  for L T
  by unfold_locales (simp add: sid_index_def initial_state_def, rule sid_index_step)

text \<open>
  C21: on every run whose signature ids and rollover messages are fresh, the index of signature ids is
  exact: a signature id is mapped to a message if and only if the open session of that message carries
  it.  In particular no two sessions share a signature id and none is left dangling when its session is
  dropped, restarted or attested.
\<close>

theorem signature_ids_are_exact:
  assumes "run_ok (\<lambda>s m. fst (apply_transition L T s m)) (fresh_ids L T) initial_state ms"
  shows "fmlookup (sid_to_message (run L T ms)) sid = Some m \<longleftrightarrow>
    (\<exists>x. fmlookup (signing (run L T ms)) m = Some x \<and> sgn_signature_id x = Some sid)"
  using fresh.always [OF assms] by (simp add: sid_index_def run_def)

lemma demo_keygen_fresh: "run_ok demo_step (fresh_ids demo_L demo_T) initial_state demo_keygen"
  unfolding demo_keygen_def run_ok.simps demo_log_def
  apply (simp add: handle_genesis_key_gen_def start_key_gen_def demo_participate initial_state_def)
  apply (simp add: handle_key_gen_setup_def handle_key_gen_committed_def group_size_def as_u16_def fm_len_def
      fcard_finsert_if Let_def finalize_key_gen_commitments_def)
  apply (simp add: handle_key_gen_secret_shared_def register_share_def group_size_def as_u16_def fm_len_def
      fcard_finsert_if Let_def confirm_key_gen_def)
  apply (simp add: handle_key_gen_confirmed_def group_size_def as_u16_def fcard_finsert_if Let_def)
  done

lemma demo_requests_fresh: "run_ok demo_step (fresh_ids demo_L demo_T) demo_ready (take 2 demo_signing)"
proof -
  have "take 2 demo_signing = [demo_signing ! 0, demo_signing ! 1]" by (simp add: demo_signing_def)
  moreover have "fresh_ids demo_L demo_T s (demo_signing ! 0)" for s by (simp add: demo_signing_def demo_log_def)
  moreover have "fresh_ids demo_L demo_T (demo_step demo_ready (demo_signing ! 0)) (demo_signing ! 1)"
    unfolding demo_proposed by (simp add: demo_signing_def demo_log_def demo_ready_def initial_state_def)
  ultimately show ?thesis by (simp del: apply_transition.simps)
qed

theorem signature_ids_are_exact_witness:
  "\<exists>x. fmlookup (signing (run demo_L demo_T (demo_keygen @ take 2 demo_signing))) demo_message = Some x \<and>
     sgn_signature_id x = Some 77"
proof -
  have "run_ok demo_step (fresh_ids demo_L demo_T) initial_state (demo_keygen @ take 2 demo_signing)"
    by (simp only: run_ok_append demo_keygen_fresh demo_keygen_run demo_requests_fresh simp_thms)
  from signature_ids_are_exact [OF this, of 77 demo_message] show ?thesis by simp
qed

section \<open>Restarts\<close>

fun names_member :: "rollover_state \<Rightarrow> b256 \<Rightarrow> address \<Rightarrow> bool" where
  "names_member r gid a =
     (case round_of r of Some (e, g, _) \<Rightarrow> grp_id g = gid \<longrightarrow> a |\<in>| grp_participants g | None \<Rightarrow> True)"

fun member_event :: "state \<Rightarrow> event \<Rightarrow> bool" where
  "member_event s (CoordinatorEvent (KeyGenCommitted gid a kc committed)) = names_member (rollover s) gid a"
| "member_event s (CoordinatorEvent (KeyGenConfirmed gid a confirmed)) = names_member (rollover s) gid a"
| "member_event s (CoordinatorEvent (KeyGenComplained gid plaintiff a compromised)) = names_member (rollover s) gid a"
| "member_event s _ = True"

fun members_only :: "state \<Rightarrow> msg \<Rightarrow> bool" where
  "members_only s (Event log) = member_event s (log_data log)"
| "members_only s _ = True"

definition members_inv :: "lib \<Rightarrow> transition \<Rightarrow> state \<Rightarrow> bool" where
  "members_inv L T s \<longleftrightarrow> (ps_wf (tr_genesis T) \<longrightarrow> core_ok L T s \<and> rollover_members (rollover s))"

text \<open>An event for another group changes nothing, so the named participant may be taken for a member.\<close>

lemma other_group:
  assumes "round_of (rollover s) = Some (e, g, nd)" "grp_id g \<noteq> gid"
  shows "handle_key_gen_committed L T s b gid a kc = (s, [])"
    "handle_key_gen_confirmed L T s b gid a = (s, [])"
    "handle_key_gen_complained L T s b gid pl a = (s, [])"
  using assms
  by (cases "rollover s"; auto simp: handle_key_gen_committed_def handle_key_gen_confirmed_def
      handle_key_gen_complained_def)+

abbreviation in_group :: "rollover_state \<Rightarrow> address \<Rightarrow> bool" where
  "in_group r a \<equiv> \<forall>e g nd. round_of r = Some (e, g, nd) \<longrightarrow> a |\<in>| grp_participants g"

lemma members_round:
  assumes "s' = s\<lparr>rollover := rollover s'\<rparr> \<and> round_step L T (in_group (rollover s)) (rollover s) (rollover s')"
    and "rollover_members (rollover s)" "core_ok L T s" "ps_wf (tr_genesis T)"
  shows "rollover_members (rollover s')"
  by (rule round_step_members [OF conjunct2 [OF assms(1)] assms(2) _ assms(4)]) (use assms(3) in \<open>auto simp: core_ok_def\<close>)

lemma in_group_or_unchanged:
  assumes "names_member (rollover s) gid a"
  obtains "in_group (rollover s) a" | e g nd where "round_of (rollover s) = Some (e, g, nd)" "grp_id g \<noteq> gid"
  using assms by (cases "round_of (rollover s)") (auto split: prod.splits)

lemma members_confirmed:
  assumes h: "handle_key_gen_confirmed L T s b gid a = (s', cs)" and M: "in_group (rollover s) a"
    and inv: "rollover_members (rollover s)" "core_ok L T s" "ps_wf (tr_genesis T)"
  shows "rollover_members (rollover s')"
proof (cases rule: key_gen_confirmed_cases [where M = "in_group (rollover s)", OF h M])
  case 1
  then show ?thesis using members_round inv by blast
next
  case (2 g p st cf cmp dl n)
  from 2(4) show ?thesis
  proof
    assume "\<exists>ps d. numbered_set L T n {||} = Some ps \<and> started L T (Number n) ps (Some d) (rollover s')"
    then show ?thesis using started_members numbered_set_Some(2) by blast
  qed simp
next
  case (3 n g p st cf cmp dl sessions)
  then show ?thesis by simp
qed

lemma members_coordinator:
  assumes inv: "rollover_members (rollover s)" "core_ok L T s" "ps_wf (tr_genesis T)"
    and env: "member_event s (CoordinatorEvent ev)"
  shows "rollover_members (rollover (fst (apply_coordinator L T s b ev)))"
proof (cases ev)
  case (KeyGen gid ps count threshold ctx)
  then show ?thesis using inv genesis_key_gen_cases [OF prod.collapse [symmetric], of L T s gid]
      started_members [OF _ inv(3)] by auto
next
  case (KeyGenCommitted gid a kc f)
  then have "names_member (rollover s) gid a" using env by simp
  then show ?thesis
  proof (rule in_group_or_unchanged)
    assume "in_group (rollover s) a"
    from members_round [OF committed_step [where M = "in_group (rollover s)", OF prod.collapse [symmetric] this] inv] KeyGenCommitted show ?thesis by simp
  qed (use inv KeyGenCommitted other_group(1) in simp)
next
  case (KeyGenSecretShared gid a sh f)
  then show ?thesis using members_round [OF secret_shared_step [OF prod.collapse [symmetric]] inv] by simp
next
  case (KeyGenConfirmed gid a f)
  then have "names_member (rollover s) gid a" using env by simp
  then show ?thesis
  proof (rule in_group_or_unchanged)
    assume "in_group (rollover s) a"
    from members_confirmed [OF prod.collapse [symmetric] this inv] KeyGenConfirmed show ?thesis by simp
  qed (use inv KeyGenConfirmed other_group(2) in simp)
next
  case (KeyGenComplained gid pl a f)
  then have "names_member (rollover s) gid a" using env by simp
  then show ?thesis
  proof (rule in_group_or_unchanged)
    assume "in_group (rollover s) a"
    from members_round [OF complained_step [where M = "in_group (rollover s)", OF prod.collapse [symmetric] this] inv] KeyGenComplained show ?thesis by simp
  qed (use inv KeyGenComplained other_group(3) in simp)
next
  case (KeyGenComplaintResponded gid pl a sh)
  then show ?thesis using members_round [OF responded_step [OF prod.collapse [symmetric]] inv] by simp
qed (use inv in \<open>simp_all add: frames\<close>)

lemma members_new_block:
  assumes inv: "rollover_members (rollover s)" "core_ok L T s" "ps_wf (tr_genesis T)"
  shows "rollover_members (rollover (fst (apply_new_block L T s b)))"
proof -
  obtain s1 c1 s2 c2 s3 c3 s4 c4 where ph: "handle_rollover_new_block L T s b = (s1, c1)"
    "handle_key_gen_timeouts L T s1 b = (s2, c2)" "handle_signing_timeouts L T s2 b = (s3, c3)"
    "handle_group_reconciliation s3 b = (s4, c4)" "apply_new_block L T s b = (s4, c1 @ c2 @ c3 @ c4)"
    by (rule new_block_phases)
  have "rollover_members (rollover s1)"
  proof (cases rule: rollover_new_block_cases [OF ph(1)])
    case (2 target n)
    from 2(5) show ?thesis
    proof
      assume "\<exists>ps. numbered_set L T n {||} = Some ps \<and>
          started L T (Number n) ps (Some (sat_add b (key_gen_timeout T))) (rollover s1)"
      then show ?thesis using started_members numbered_set_Some(2) by blast
    qed simp
  qed (use inv in simp)
  then have "rollover_members (rollover s2)"
    using members_round [OF timeouts_step [OF ph(2)]] core_clock [OF ph(1) inv(2)] inv(3) by blast
  then show ?thesis
    using reconciliation_frame(3) [OF ph(4)] signing_timeouts_frame(1) [where L = L and T = T and block = b and s = s2]
      ph(3,5) by simp
qed

lemma members_step:
  assumes inv: "members_inv L T s" and env: "members_only s msg"
  shows "members_inv L T (fst (apply_transition L T s msg))"
  unfolding members_inv_def
proof
  assume wf: "ps_wf (tr_genesis T)"
  with inv have ok: "rollover_members (rollover s)" "core_ok L T s" by (auto simp: members_inv_def)
  have "rollover_members (rollover (fst (apply_transition L T s msg)))"
  proof (cases msg)
    case (Event log)
    show ?thesis
    proof (cases "log_data log")
      case (ConsensusEvent ev)
      have "rollover_members (rollover (fst (apply_consensus L T s b ev)))" for b
        using ok by (cases ev) (auto simp: handle_epoch_staged_def Let_def frames split: rollover_state.splits option.splits)
      then show ?thesis using Event ConsensusEvent by simp
    next
      case (CoordinatorEvent ev)
      then show ?thesis using Event env members_coordinator [OF ok wf] by simp
    next
      case (OracleEvent ev)
      then show ?thesis using Event ok by (cases ev) (simp add: frames)
    qed
  next
    case (NewBlock b)
    then show ?thesis using members_new_block [OF ok wf] by simp
  next
    case (Resume r)
    then show ?thesis
    proof (cases r)
      case (Setup gid secrets)
      then show ?thesis using Resume members_round [OF setup_step [OF prod.collapse [symmetric]] ok wf] by simp
    qed (use ok Resume in \<open>auto simp: handle_nonce_commitments_def handle_nonces_def
        split: option.splits signing_state.splits sum.splits\<close>)
  qed
  then show "core_ok L T (fst (apply_transition L T s msg)) \<and> rollover_members (rollover (fst (apply_transition L T s msg)))"
    using core_step [OF ok(2)] by simp
qed

interpretation members: guarded_system "\<lambda>s m. fst (apply_transition L T s m)" members_only "members_inv L T" initial_state
  for L T
  by unfold_locales (simp add: members_inv_def core_initial, simp add: initial_state_def, rule members_step)

lemma restart_shrinks:
  assumes "restart_key_gen_excluding L T s1 e (grp_excluded g |\<union>| X) d = (s', cs)"
    and "group_derived L T e g" "grp_participants g |\<inter>| X \<noteq> {||}"
  shows "rollover s' = rollover_failure e \<or>
    (\<exists>g' sec. rollover s' = CollectingCommitments e g' sec fmempty d \<and> grp_participants g' |\<subset>| grp_participants g)"
proof (cases "\<exists>n ps. e = Number n \<and> numbered_set L T n (grp_excluded g |\<union>| X) = Some ps")
  case True
  then obtain n ps where e: "e = Number n" and ps: "numbered_set L T n (grp_excluded g |\<union>| X) = Some ps" by auto
  then have "start_key_gen L T s1 e ps d = (s', cs)"
    using assms(1) by (simp add: restart_key_gen_excluding_def numbered_set_def)
  from conjunct2 [OF start_key_gen_started [OF this]]
  obtain sec where "rollover s' = CollectingCommitments e (group_of (keccak256 L) ps) sec fmempty d"
    unfolding started_def by blast
  moreover have "ps_addresses ps |\<subset>| grp_participants g"
    using numbered_restart [OF assms(2) [unfolded e] ps] assms(3) by auto
  ultimately show ?thesis by auto
next
  case False
  then show ?thesis
    using assms(1) by (auto simp: restart_key_gen_excluding_def numbered_set_def Let_def
        split: epoch_id.splits option.splits)
qed

lemma derived_disjoint:
  "ps_wf (tr_genesis T) \<Longrightarrow> group_derived L T e g \<Longrightarrow> grp_participants g |\<inter>| (grp_excluded g |\<union>| X) \<noteq> {||} \<Longrightarrow>
   grp_participants g |\<inter>| X \<noteq> {||}"
  using group_derived_wf [of T L e g] by (auto simp: group_wf_def)

lemma round_derived: "rollover_ok L T r \<Longrightarrow> round_of r = Some (e, g, nd) \<Longrightarrow> group_derived L T e g"
  by (cases r) auto

text \<open>
  C20: when a key generation round times out and the events only named members of its group, the round
  is either given up (the epoch is skipped) or restarted for the same epoch with strictly fewer
  participants and a deadline after the block.  So an epoch can only be restarted as often as its group
  has members, and never for genesis.
\<close>

theorem timeout_restarts_shrink_group:
  assumes "configured L T"
    and "run_ok (\<lambda>s m. fst (apply_transition L T s m)) members_only initial_state ms"
    and "round_of (rollover (run L T ms)) = Some (e, g, nd)"
    and "handle_key_gen_timeouts L T (run L T ms) block = (s', cs)" "rollover s' \<noteq> rollover (run L T ms)"
  shows "e \<noteq> Genesis \<and> (rollover s' = rollover_failure e \<or>
    (\<exists>g' sec. rollover s' = CollectingCommitments e g' sec fmempty (Some (sat_add block (key_gen_timeout T))) \<and>
      grp_participants g' |\<subset>| grp_participants g))"
proof -
  let ?r = "rollover (run L T ms)"
  have wf: "ps_wf (tr_genesis T)" by (rule configured_wf [OF assms(1)])
  have "members_inv L T (run L T ms)" using members.always [OF assms(2)] by (simp add: run_def)
  with wf have mem: "rollover_members ?r" and ok: "rollover_ok L T ?r" by (auto simp: members_inv_def core_ok_def)
  note d = round_derived [OF ok assms(3)]
  show ?thesis
  proof (cases "stuck_setup block ?r")
    case (Some e')
    then have "e' = e" "\<not> nd" using stuck_setup_round [OF Some] assms(3) by auto
    then show ?thesis using Some assms(4) round_epoch_deadline [OF ok assms(3)] by (auto simp: handle_key_gen_timeouts_def)
  next
    case None
    then obtain e' ex where t: "timed_out block ?r = Some (e', ex)"
      using assms(4,5) by (cases "timed_out block ?r") (auto simp: handle_key_gen_timeouts_def)
    then obtain X where eq: "e' = e" "\<not> nd" "ex = grp_excluded g |\<union>| X" using timed_out_round [OF t] assms(3) by auto
    have "grp_participants g |\<inter>| X \<noteq> {||}"
      using derived_disjoint [OF wf d] timed_out_excludes_member [OF t None mem] assms(3) group_derived_wf [OF wf d] eq
      by simp
    from restart_shrinks [OF _ d this] show ?thesis
      using assms(4) None t eq round_epoch_deadline [OF ok assms(3)] by (auto simp: handle_key_gen_timeouts_def)
  qed
qed

definition demo_four :: transition where
  "demo_four = demo_T\<lparr>tr_genesis := \<lparr>ps_addresses = {|1, 2, 3, 4|}, ps_excluded = {||}, ps_context = 0\<rparr>,
     tr_config := (tr_config demo_T)\<lparr>cfg_participants := demo_participants\<rparr>\<rparr>"

definition demo_four_set :: participant_set where
  "demo_four_set = \<lparr>ps_addresses = {|1, 2, 3, 4|}, ps_excluded = {||}, ps_context = group_context 9 2\<rparr>"

definition demo_four_group :: group where
  "demo_four_group = group_of (keccak256 demo_L) demo_four_set"

definition demo_stalled :: "msg list" where
  "demo_stalled =
     [demo_log 1 9 (ConsensusEvent (EpochStagedEvent 0 1 100 0 \<lparr>pt_x = 1, pt_y = 1\<rparr> 0
        \<lparr>sig_r = \<lparr>pt_x = 1, pt_y = 1\<rparr>, sig_z = 0\<rparr>)), NewBlock 150] @
     map (\<lambda>a. demo_log 151 9 (CoordinatorEvent (KeyGenCommitted (grp_id demo_four_group) a demo_kc False))) [1, 2, 3]"

lemma demo_four_simps [simp]:
  "tr_account demo_four = 1" "cfg_participants (tr_config demo_four) = demo_participants"
  "cfg_consensus (tr_config demo_four) = 9" "nz_get (cfg_key_gen_timeout (tr_config demo_four)) = 10"
  "cfg_blocks_per_epoch (tr_config demo_four) = nz_of 100"
  by (simp_all add: demo_four_def demo_T_def)

lemma demo_four_group_simps [simp]:
  "grp_count demo_four_group = 4" "grp_participants demo_four_group = {|1, 2, 3, 4|}"
  "grp_excluded demo_four_group = {||}"
  by (simp_all add: demo_four_group_def demo_four_set_def as_u16_def fcard_finsert_if)

lemma demo_four_configured: "configured demo_L demo_four"
  by (simp add: configured_def participants_set_def demo_participants_def demo_four_def demo_T_def
      genesis_context_def min_participants_def as_u16_def fcard_finsert_if)

lemma demo_four_fresh: "fresh_participants demo_L demo_four (nz_of 2) = Some demo_four_set"
  by (simp add: fresh_participants_def participants_set_def demo_participants_def min_participants_def as_u16_def
      fcard_finsert_if demo_four_set_def)

definition demo_four_poap :: "b256 list" where
  "demo_four_poap = snd (the (participate_as (keccak256 demo_L) demo_four_set 1))"

lemma demo_four_participate:
  "participate_as (keccak256 demo_L) demo_four_set 1 = Some (demo_four_group, demo_four_poap)"
proof -
  have "(1 :: address) |\<in>| ps_addresses demo_four_set" by (simp add: demo_four_set_def)
  then obtain g p where gp: "participate_as (keccak256 demo_L) demo_four_set 1 = Some (g, p)"
    by (cases "group_and_participants_tree (keccak256 demo_L) demo_four_set") (auto simp: participate_as_def)
  then have "g = demo_four_group" by (simp add: demo_four_group_def participate_as_eq_Some)
  then show ?thesis using gp by (simp add: demo_four_poap_def)
qed

definition demo_four_round :: "(address, verified_commitment) fmap \<Rightarrow> rollover_state" where
  "demo_four_round c =
     CollectingCommitments (Number (nz_of 2)) demo_four_group (CommitParticipating demo_four_poap None) c (Some 160)"

definition demo_three :: "(address, verified_commitment) fmap" where
  "demo_three = fmupd 3 demo_vc (fmupd 2 demo_vc (fmupd 1 demo_vc fmempty))"

lemma demo_recovered:
  "fst (apply_transition demo_L demo_four initial_state (demo_stalled ! 0)) = initial_state\<lparr>rollover := EpochSkipped (nz_of 1)\<rparr>"
  by (simp add: demo_stalled_def demo_log_def handle_epoch_staged_def initial_state_def nz_new_def)

lemma demo_four_started:
  "fst (apply_transition demo_L demo_four (initial_state\<lparr>rollover := EpochSkipped (nz_of 1)\<rparr>) (demo_stalled ! 1)) =
     initial_state\<lparr>rollover := demo_four_round fmempty\<rparr>"
proof -
  have nn: "next_number 150 (nz_of 100) = nz_of 2" by (simp add: next_number_def sat_add_def)
  have "nz_of 1 < nz_of 2" by (simp add: less_nonzero_u64_def word_less_nat_alt)
  then have "handle_rollover_new_block demo_L demo_four (initial_state\<lparr>rollover := EpochSkipped (nz_of 1)\<rparr>) 150 =
      (initial_state\<lparr>rollover := demo_four_round fmempty\<rparr>, snd (start_key_gen demo_L demo_four initial_state (Number (nz_of 2)) demo_four_set (Some 160)))"
    by (auto simp: handle_rollover_new_block_def nn demo_four_fresh start_key_gen_def demo_four_participate
        demo_four_round_def sat_add_def initial_state_def Let_def)
  then show ?thesis
    by (simp add: demo_stalled_def apply_new_block_def handle_key_gen_timeouts_def handle_group_reconciliation_def
        handle_signing_timeouts_def initial_state_def fm_keys_def demo_four_round_def word_le_nat_alt Let_def)
      (rule fmap_ext, simp)
qed

lemma demo_four_commits:
  "run_from (\<lambda>s m. fst (apply_transition demo_L demo_four s m)) (initial_state\<lparr>rollover := demo_four_round fmempty\<rparr>)
     (drop 2 demo_stalled) = initial_state\<lparr>rollover := demo_four_round demo_three\<rparr>"
  by (simp add: demo_stalled_def demo_log_def handle_key_gen_committed_def demo_four_round_def group_size_def
      as_u16_def fm_len_def fcard_finsert_if demo_three_def)

lemma demo_stalled_split:
  "demo_stalled = [demo_stalled ! 0, demo_stalled ! 1] @ drop 2 demo_stalled"
  by (simp add: demo_stalled_def)

lemma demo_stalled_run: "run demo_L demo_four demo_stalled = initial_state\<lparr>rollover := demo_four_round demo_three\<rparr>"
  unfolding run_def
  by (subst demo_stalled_split)
    (simp only: run_from_append run_from.simps demo_recovered demo_four_started demo_four_commits)

lemma demo_stalled_ok:
  "run_ok (\<lambda>s m. fst (apply_transition demo_L demo_four s m)) members_only initial_state demo_stalled"
proof -
  have first: "members_only s (demo_stalled ! 0)" "members_only s (demo_stalled ! 1)" for s
    by (simp_all add: demo_stalled_def demo_log_def)
  have rest: "run_ok (\<lambda>s m. fst (apply_transition demo_L demo_four s m)) members_only
      (initial_state\<lparr>rollover := demo_four_round fmempty\<rparr>) (drop 2 demo_stalled)"
    by (simp add: demo_stalled_def demo_log_def handle_key_gen_committed_def demo_four_round_def group_size_def
        as_u16_def fm_len_def fcard_finsert_if)
  show ?thesis
    by (subst demo_stalled_split)
      (simp only: run_ok_append run_ok.simps run_from.simps demo_recovered demo_four_started first rest simp_thms)
qed

lemma demo_four_shrunk: "numbered_set demo_L demo_four (nz_of 2) {|4|} = Some demo_set"
proof -
  have "keccak256 demo_L = demo_hash" by (simp add: demo_L_def demo_hash_def fun_eq_iff)
  then show ?thesis by (simp add: numbered_set_def demo_participants_set)
qed

theorem timeout_restarts_shrink_group_witness:
  "\<exists>g' sec s' cs. handle_key_gen_timeouts demo_L demo_four (run demo_L demo_four demo_stalled) 160 = (s', cs) \<and>
     rollover s' = CollectingCommitments (Number (nz_of 2)) g' sec fmempty (Some (sat_add 160 10)) \<and>
     grp_participants g' |\<subset>| {|1, 2, 3, 4|}"
proof -
  obtain s' cs where h: "handle_key_gen_timeouts demo_L demo_four (run demo_L demo_four demo_stalled) 160 = (s', cs)"
    by (cases rule: prod.exhaust)
  have round: "round_of (rollover (run demo_L demo_four demo_stalled)) = Some (Number (nz_of 2), demo_four_group, False)"
    by (simp add: demo_stalled_run demo_four_round_def)
  have ex: "{|1, 2, 3, 4|} |-| {|3, 2, 1|} = {|4 :: address|}" by auto
  obtain sec where r: "rollover s' = CollectingCommitments (Number (nz_of 2)) (group_of (keccak256 demo_L) demo_set) sec fmempty
      (Some (sat_add 160 10))"
  proof -
    have "restart_key_gen_excluding demo_L demo_four (run demo_L demo_four demo_stalled) (Number (nz_of 2)) {|4|}
        (Some (sat_add 160 10)) = (s', cs)"
      using h by (simp add: demo_stalled_run demo_four_round_def handle_key_gen_timeouts_def group_size_def as_u16_def
          fm_len_def fcard_finsert_if demo_three_def exclude_all_others_def also_exclude_def ex)
    then have "start_key_gen demo_L demo_four (run demo_L demo_four demo_stalled) (Number (nz_of 2)) demo_set
        (Some (sat_add 160 10)) = (s', cs)"
      using demo_four_shrunk by (simp add: restart_key_gen_excluding_def numbered_set_def)
    then show ?thesis using that conjunct2 [OF start_key_gen_started] unfolding started_def by blast
  qed
  then have "rollover s' \<noteq> rollover (run demo_L demo_four demo_stalled)"
    by (auto simp: demo_stalled_run demo_four_round_def demo_three_def dest!: arg_cong [of _ _ "\<lambda>m. fmlookup m 1"])
  from timeout_restarts_shrink_group [OF demo_four_configured demo_stalled_ok round h this] h r show ?thesis
    by fastforce
qed

section \<open>Halting\<close>

lemma halted_step:
  assumes r: "rollover s = Halted"
  shows "rollover (fst (apply_transition L T s msg)) = Halted"
proof (cases msg)
  case (Event log)
  have "rollover (fst (apply_coordinator L T s b ev)) = Halted" for b ev
    using r by (cases ev) (simp_all add: frames handle_genesis_key_gen_def handle_key_gen_committed_def
        handle_key_gen_secret_shared_def handle_key_gen_confirmed_def handle_key_gen_complained_def
        handle_key_gen_complaint_responded_def Let_def)
  moreover have "rollover (fst (apply_consensus L T s b ev)) = Halted" for b ev
    using r by (cases ev) (simp_all add: frames handle_epoch_staged_def)
  moreover have "rollover (fst (apply_event L T s b a (OracleEvent ev))) = Halted" for b a ev
    using r by (cases ev) (simp add: frames)
  ultimately show ?thesis using Event by (cases "log_data log") simp_all
next
  case (NewBlock b)
  have "handle_rollover_new_block L T s b = (s, [])" "handle_key_gen_timeouts L T s b = (s, [])"
    using r by (simp_all add: handle_rollover_new_block_def handle_key_gen_timeouts_def)
  then show ?thesis using NewBlock r signing_timeouts_frame(1) [where L = L and T = T and block = b and s = s]
    by (cases "handle_signing_timeouts L T s b") (simp add: apply_new_block_def handle_group_reconciliation_def Let_def)
next
  case (Resume rs)
  then show ?thesis using r
    by (cases rs) (auto simp: handle_key_gen_setup_def handle_nonce_commitments_def handle_nonces_def
        split: option.splits signing_state.splits sum.splits)
qed

text \<open>
  A halted rollover stays halted: once genesis has failed, no message starts another key
  generation.
\<close>

lemma halted_is_permanent:
  assumes "rollover (run L T ms) = Halted"
  shows "rollover (run L T (ms @ ns)) = Halted"
proof -
  have "rollover s = Halted \<Longrightarrow> rollover (run_from (\<lambda>s m. fst (apply_transition L T s m)) s ns) = Halted" for s
    by (induction ns arbitrary: s) (simp_all add: halted_step)
  then show ?thesis using assms by (simp add: run_def run_from_append)
qed

end
