(* ===== verification/Secret_Store.thy ===== *)
theory Secret_Store
  imports Validator_State
begin

text \<open>
  The store of locally generated secrets (\<^verbatim>\<open>crates/validator/src/secrets/store.rs\<close>) and the effect handler
  that is its only client (\<^verbatim>\<open>service/effect.rs\<close>).  The two SQLite tables are finite maps over their primary
  keys, the reconciliation marker is an optional block.  Every operation of the store runs in one
  database transaction, so an operation either happens as a whole or fails and leaves the store as it
  was; whether the database fails is an argument of the handler.
\<close>

section \<open>Tables\<close>

text \<open>Blocks are stored as signed 64-bit integers.\<close>

record keygen_row =
  kr_secrets :: secrets
  kr_delete_at :: "int option"

record nonce_row =
  nr_group :: b256
  nr_address :: address
  nr_nonces :: "signing_nonces option"
  nr_delete_at :: "int option"

record secret_store =
  keygen_rows :: "(b256 \<times> address, keygen_row) fmap"
  nonce_rows :: "(b256, nonce_row) fmap"
  reconciled :: "int option"

datatype store_error = Database | Serialization | Overflow

definition empty_store :: secret_store where
  "empty_store = \<lparr>keygen_rows = fmempty, nonce_rows = fmempty, reconciled = None\<rparr>"

definition i64_of :: "u64 \<Rightarrow> store_error + int" where
  "i64_of w = (if unat w < 2 ^ 63 then Inr (int (unat w)) else Inl Overflow)"

section \<open>Operations\<close>

definition store_keygen_secrets :: "secret_store \<Rightarrow> b256 \<times> address \<Rightarrow> secrets \<Rightarrow> secret_store \<times> secrets" where
  "store_keygen_secrets st key secrets =
     (case fmlookup (keygen_rows st) key of
        Some existing \<Rightarrow>
          (st\<lparr>keygen_rows := fmupd key (existing\<lparr>kr_delete_at := None\<rparr>) (keygen_rows st)\<rparr>, kr_secrets existing)
      | None \<Rightarrow>
          (st\<lparr>keygen_rows := fmupd key \<lparr>kr_secrets = secrets, kr_delete_at = None\<rparr> (keygen_rows st)\<rparr>, secrets))"

definition store_signing_nonces :: "secret_store \<Rightarrow> b256 \<Rightarrow> b256 \<Rightarrow> address \<Rightarrow> signing_nonces \<Rightarrow>
    secret_store \<times> sign_nonces option" where
  "store_signing_nonces st gid sid me nonces =
     (let rows = (case fmlookup (nonce_rows st) sid of
                    None \<Rightarrow> fmupd sid \<lparr>nr_group = gid, nr_address = me, nr_nonces = Some nonces, nr_delete_at = None\<rparr>
                              (nonce_rows st)
                  | Some _ \<Rightarrow> nonce_rows st);
          stored = Option.bind (fmlookup rows sid) nr_nonces
      in (st\<lparr>nonce_rows := rows\<rparr>, map_option nonces_commitments stored))"

definition take_signing_nonces :: "secret_store \<Rightarrow> b256 \<Rightarrow> secret_store \<times> signing_nonces option" where
  "take_signing_nonces st sid =
     (case fmlookup (nonce_rows st) sid of
        Some row \<Rightarrow>
          (case nr_nonces row of
             Some nonces \<Rightarrow>
               (st\<lparr>nonce_rows := fmupd sid (row\<lparr>nr_nonces := None\<rparr>) (nonce_rows st)\<rparr>, Some nonces)
           | None \<Rightarrow> (st, None))
      | None \<Rightarrow> (st, None))"

text \<open>
  The new deadline of a row.  The code builds one of two statements, depending on whether any group is
  retained.
\<close>

definition absent_deadline :: "int \<Rightarrow> b256 fset \<Rightarrow> b256 \<Rightarrow> int option \<Rightarrow> int option" where
  "absent_deadline block retained gid delete_at =
     (let coalesced = (case delete_at of Some d \<Rightarrow> Some d | None \<Rightarrow> Some block)
      in if retained = {||} then coalesced else if gid |\<in>| retained then None else coalesced)"

definition schedule_absent_keygen :: "int \<Rightarrow> b256 fset \<Rightarrow> (b256 \<times> address, keygen_row) fmap \<Rightarrow>
    (b256 \<times> address, keygen_row) fmap" where
  "schedule_absent_keygen block retained =
     fmmap_keys (\<lambda>(gid, _) row. row\<lparr>kr_delete_at := absent_deadline block retained gid (kr_delete_at row)\<rparr>)"

definition schedule_absent_nonces :: "int \<Rightarrow> b256 fset \<Rightarrow> (b256, nonce_row) fmap \<Rightarrow> (b256, nonce_row) fmap" where
  "schedule_absent_nonces block retained =
     fmmap (\<lambda>row. row\<lparr>nr_delete_at := absent_deadline block retained (nr_group row) (nr_delete_at row)\<rparr>)"

definition schedule_group_secrets_deletion :: "secret_store \<Rightarrow> u64 \<Rightarrow> (b256, retained_secrets) fmap \<Rightarrow>
    store_error + (secret_store \<times> bool)" where
  "schedule_group_secrets_deletion st block retained =
     (case i64_of block of
        Inl err \<Rightarrow> Inl err
      | Inr block \<Rightarrow>
          let keygen = ffilter (\<lambda>gid. fmlookup retained gid = Some RetainAll) (fmdom retained);
              nonces = fmdom retained;
              accepted = (case reconciled st of None \<Rightarrow> True | Some previous \<Rightarrow> previous \<le> block)
          in if \<not> accepted then Inr (st, False)
             else Inr (st\<lparr>reconciled := Some block,
                          keygen_rows := schedule_absent_keygen block keygen (keygen_rows st),
                          nonce_rows := schedule_absent_nonces block nonces (nonce_rows st)\<rparr>, True))"

definition due :: "int \<Rightarrow> int option \<Rightarrow> bool" where
  "due safe delete_at = (case delete_at of None \<Rightarrow> False | Some d \<Rightarrow> d \<le> safe)"

record pruned =
  pruned_keygen :: nat
  pruned_nonces :: nat

definition prune_scheduled_secrets :: "secret_store \<Rightarrow> u64 \<Rightarrow> store_error + (secret_store \<times> pruned)" where
  "prune_scheduled_secrets st safe =
     (case i64_of safe of
        Inl err \<Rightarrow> Inl err
      | Inr safe \<Rightarrow>
          let keygen = fmfilter (\<lambda>k. \<not> due safe (kr_delete_at (the (fmlookup (keygen_rows st) k)))) (keygen_rows st);
              nonces = fmfilter (\<lambda>k. \<not> due safe (nr_delete_at (the (fmlookup (nonce_rows st) k)))) (nonce_rows st)
          in Inr (st\<lparr>keygen_rows := keygen, nonce_rows := nonces\<rparr>,
                  \<lparr>pruned_keygen = fm_len (keygen_rows st) - fm_len keygen,
                   pruned_nonces = fm_len (nonce_rows st) - fm_len nonces\<rparr>))"

section \<open>The effect handler\<close>

text \<open>
  \<open>rnd\<close> is what the thread's generator yields for this effect and \<open>db\<close> says whether the database
  carries out its transaction.
\<close>

record randomness =
  rnd_setup :: "bytes \<times> bytes \<times> bytes"
  rnd_nonces :: bytes

definition try_perform_effect :: "frost_lib \<Rightarrow> address \<Rightarrow> randomness \<Rightarrow> bool \<Rightarrow> secret_store \<Rightarrow> effect \<Rightarrow>
    (error + store_error) + (secret_store \<times> resume)" where
  "try_perform_effect F me rnd db st e =
     (case e of
        KeyGenSetup gid count threshold \<Rightarrow>
          (case keygen_setup F (rnd_setup rnd) me count threshold of
             Inl err \<Rightarrow> Inl (Inl err)
           | Inr secrets \<Rightarrow>
               if \<not> db then Inl (Inr Database)
               else let (st, stored) = store_keygen_secrets st (gid, me) secrets
                    in Inr (st, Setup gid stored))
      | GenerateNonces gid sid ks \<Rightarrow>
          if \<not> db then Inl (Inr Database)
          else let (st, stored) = store_signing_nonces st gid sid me (nonces_generate F (rnd_nonces rnd) ks)
               in Inr (st, case stored of Some nonces \<Rightarrow> NonceCommitments sid nonces | None \<Rightarrow> Noop)
      | UseNonces message sid \<Rightarrow>
          if \<not> db then Inl (Inr Database)
          else let (st, taken) = take_signing_nonces st sid
               in Inr (st, case taken of Some nonces \<Rightarrow> Nonces message nonces | None \<Rightarrow> Noop)
      | ReconcileGroupSecrets block groups \<Rightarrow>
          (case schedule_group_secrets_deletion st block groups of
             Inl err \<Rightarrow> Inl (Inr err)
           | Inr (st, _) \<Rightarrow> if \<not> db then Inl (Inr Database) else Inr (st, Noop)))"

definition perform_effect :: "frost_lib \<Rightarrow> address \<Rightarrow> randomness \<Rightarrow> bool \<Rightarrow> secret_store \<Rightarrow> effect \<Rightarrow>
    secret_store \<times> resume" where
  "perform_effect F me rnd db st e =
     (case try_perform_effect F me rnd db st e of Inr r \<Rightarrow> r | Inl _ \<Rightarrow> (st, Noop))"

definition housekeeping :: "bool \<Rightarrow> secret_store \<Rightarrow> block_status \<Rightarrow> secret_store" where
  "housekeeping db st status =
     (if \<not> db then st
      else case prune_scheduled_secrets st (bs_safe status) of Inr (st', _) \<Rightarrow> st' | Inl _ \<Rightarrow> st)"

section \<open>Write-once tables\<close>

text \<open>
  What the handler relies on for key generation: storing under a key that is taken returns what was
  stored first.
\<close>

locale write_once =
  fixes put :: "'s \<Rightarrow> 'k \<Rightarrow> 'v \<Rightarrow> 's \<times> 'v" and get :: "'s \<Rightarrow> 'k \<Rightarrow> 'v option"
  assumes put_returns: "snd (put s k v) = (case get s k of Some w \<Rightarrow> w | None \<Rightarrow> v)"
    and get_put: "get (fst (put s k v)) k' = (if k' = k then Some (snd (put s k v)) else get s k')"
begin

lemma put_again: "snd (put (fst (put s k v)) k w) = snd (put s k v)"
  by (simp add: put_returns get_put)

lemma put_present: "get s k = Some w \<Longrightarrow> snd (put s k v) = w"
  by (simp add: put_returns)

end

definition keygen_secret :: "secret_store \<Rightarrow> b256 \<times> address \<Rightarrow> secrets option" where
  "keygen_secret st key = map_option kr_secrets (fmlookup (keygen_rows st) key)"

interpretation keygen_table: write_once store_keygen_secrets keygen_secret
  by unfold_locales (auto simp: store_keygen_secrets_def keygen_secret_def split: option.split)

section \<open>Sequences of store operations\<close>

datatype store_op =
    Perform effect randomness bool
  | Housekeep block_status bool

fun store_step :: "frost_lib \<Rightarrow> address \<Rightarrow> secret_store \<Rightarrow> store_op \<Rightarrow> secret_store \<times> resume" where
  "store_step F me st (Perform e rnd db) = perform_effect F me rnd db st e"
| "store_step F me st (Housekeep status db) = (housekeeping db st status, Noop)"

text \<open>The operations paired with what each of them resumes with.\<close>

primrec store_trace :: "frost_lib \<Rightarrow> address \<Rightarrow> secret_store \<Rightarrow> store_op list \<Rightarrow> (store_op \<times> resume) list" where
  "store_trace F me st [] = []"
| "store_trace F me st (op # ops) =
     (let (st', r) = store_step F me st op in (op, r) # store_trace F me st' ops)"

text \<open>The nonces that an entry of the trace hands out for a signature id, and the commitments it publishes.\<close>

fun taken_nonces :: "b256 \<Rightarrow> store_op \<times> resume \<Rightarrow> signing_nonces option" where
  "taken_nonces sid (Perform (UseNonces m sid') rnd db, Nonces m' n) = (if sid' = sid then Some n else None)"
| "taken_nonces sid _ = None"

fun published_commitments :: "b256 \<Rightarrow> store_op \<times> resume \<Rightarrow> sign_nonces option" where
  "published_commitments sid (op, NonceCommitments sid' c) = (if sid' = sid then Some c else None)"
| "published_commitments sid _ = None"

fun setup_secrets :: "b256 \<Rightarrow> store_op \<times> resume \<Rightarrow> secrets option" where
  "setup_secrets gid (op, Setup gid' sec) = (if gid' = gid then Some sec else None)"
| "setup_secrets gid _ = None"

text \<open>An operation keeps the nonces of a group, or all of its secrets, if its reconciliation retains them.\<close>

fun retains_nonces :: "b256 \<Rightarrow> b256 \<Rightarrow> store_op \<Rightarrow> bool" where
  "retains_nonces gid sid (Perform (ReconcileGroupSecrets block groups) rnd db) = fm_has groups gid"
| "retains_nonces gid sid (Perform (GenerateNonces gid' sid' ks) rnd db) = (sid' = sid \<longrightarrow> gid' = gid)"
| "retains_nonces gid sid _ = True"

fun retains_all :: "b256 \<Rightarrow> store_op \<Rightarrow> bool" where
  "retains_all gid (Perform (ReconcileGroupSecrets block groups) rnd db) = (fmlookup groups gid = Some RetainAll)"
| "retains_all gid _ = True"

definition nonce_row_kept :: "b256 \<Rightarrow> b256 \<Rightarrow> secret_store \<Rightarrow> bool" where
  "nonce_row_kept gid sid st \<longleftrightarrow>
     (case fmlookup (nonce_rows st) sid of None \<Rightarrow> True | Some row \<Rightarrow> nr_group row = gid \<and> nr_delete_at row = None)"

definition keygen_row_kept :: "b256 \<times> address \<Rightarrow> secret_store \<Rightarrow> bool" where
  "keygen_row_kept key st \<longleftrightarrow>
     (case fmlookup (keygen_rows st) key of None \<Rightarrow> True | Some row \<Rightarrow> kr_delete_at row = None)"

lemma absent_deadline_retained: "gid |\<in>| retained \<Longrightarrow> absent_deadline block retained gid d = None"
  by (auto simp: absent_deadline_def Let_def)

lemma housekeeping_nonce_rows:
  "nonce_row_kept gid sid st \<Longrightarrow> fmlookup (nonce_rows (housekeeping db st status)) sid = fmlookup (nonce_rows st) sid"
  by (auto simp: housekeeping_def prune_scheduled_secrets_def nonce_row_kept_def due_def Let_def
      split: sum.splits option.splits if_splits)

lemma housekeeping_keygen_rows:
  "keygen_row_kept key st \<Longrightarrow> fmlookup (keygen_rows (housekeeping db st status)) key = fmlookup (keygen_rows st) key"
  by (auto simp: housekeeping_def prune_scheduled_secrets_def keygen_row_kept_def due_def Let_def
      split: sum.splits option.splits if_splits)

text \<open>The nonces of a signature id: absent, present with a value, or used.\<close>

definition nonce_value :: "secret_store \<Rightarrow> b256 \<Rightarrow> signing_nonces option option" where
  "nonce_value st sid = map_option nr_nonces (fmlookup (nonce_rows st) sid)"

lemma reconcile_nonce_rows:
  assumes "schedule_group_secrets_deletion st block groups = Inr (st', b)" "fm_has groups gid" "nonce_row_kept gid sid st"
  shows "nonce_row_kept gid sid st'" "nonce_value st' sid = nonce_value st sid"
  using assms
  by (auto simp: schedule_group_secrets_deletion_def schedule_absent_nonces_def nonce_row_kept_def nonce_value_def
      fm_has_iff absent_deadline_retained Let_def split: sum.splits if_splits option.splits)

lemma reconcile_keygen_rows:
  assumes "schedule_group_secrets_deletion st block groups = Inr (st', b)" "fmlookup groups gid = Some RetainAll"
    and "keygen_row_kept (gid, me) st"
  shows "keygen_row_kept (gid, me) st'" "keygen_secret st' (gid, me) = keygen_secret st (gid, me)"
proof -
  have "gid |\<in>| ffilter (\<lambda>gid. fmlookup groups gid = Some RetainAll) (fmdom groups)"
    using assms(2) by (auto intro: fmdomI)
  then show "keygen_row_kept (gid, me) st'" "keygen_secret st' (gid, me) = keygen_secret st (gid, me)"
    using assms(1,3)
    by (auto simp: schedule_group_secrets_deletion_def schedule_absent_keygen_def keygen_row_kept_def keygen_secret_def
        absent_deadline_retained Let_def simp del: ffmember_filter split: sum.splits if_splits option.splits)
qed

lemma perform_nonce_step:
  assumes "perform_effect F me rnd db st e = (st', r)" "retains_nonces gid sid (Perform e rnd db)" "nonce_row_kept gid sid st"
  shows "nonce_row_kept gid sid st'"
    "taken_nonces sid (Perform e rnd db, r) = Some n \<Longrightarrow> nonce_value st sid = Some (Some n) \<and> nonce_value st' sid = Some None"
    "taken_nonces sid (Perform e rnd db, r) = None \<Longrightarrow>
       nonce_value st' sid = nonce_value st sid \<or> (nonce_value st sid = None \<and> (\<exists>n. nonce_value st' sid = Some (Some n)))"
    "published_commitments sid (Perform e rnd db, r) = Some c \<Longrightarrow>
       \<exists>n. nonce_value st' sid = Some (Some n) \<and> c = nonces_commitments n"
proof -
  have "nonce_row_kept gid sid st' \<and>
    (taken_nonces sid (Perform e rnd db, r) = Some n \<longrightarrow> nonce_value st sid = Some (Some n) \<and> nonce_value st' sid = Some None) \<and>
    (taken_nonces sid (Perform e rnd db, r) = None \<longrightarrow>
       nonce_value st' sid = nonce_value st sid \<or> (nonce_value st sid = None \<and> (\<exists>n. nonce_value st' sid = Some (Some n)))) \<and>
    (published_commitments sid (Perform e rnd db, r) = Some c \<longrightarrow>
       (\<exists>n. nonce_value st' sid = Some (Some n) \<and> c = nonces_commitments n))"
  proof (cases e)
    case (KeyGenSetup g n t)
    then show ?thesis using assms
      by (auto simp: perform_effect_def try_perform_effect_def store_keygen_secrets_def nonce_row_kept_def nonce_value_def
          split: sum.splits if_splits option.splits)
  next
    case (GenerateNonces g i ks)
    then show ?thesis using assms
      by (auto simp: perform_effect_def try_perform_effect_def store_signing_nonces_def nonce_row_kept_def nonce_value_def Let_def
          split: sum.splits if_splits option.splits)
  next
    case (UseNonces m i)
    then show ?thesis using assms
      by (auto simp: perform_effect_def try_perform_effect_def take_signing_nonces_def nonce_row_kept_def nonce_value_def
          split: sum.splits if_splits option.splits)
  next
    case (ReconcileGroupSecrets b groups)
    then have "r = Noop \<and> (st' = st \<or> (\<exists>x. schedule_group_secrets_deletion st b groups = Inr (st', x)))"
      using assms(1) by (auto simp: perform_effect_def try_perform_effect_def split: sum.splits if_splits)
    then show ?thesis using reconcile_nonce_rows [where gid = gid and sid = sid] assms(2,3) ReconcileGroupSecrets by auto
  qed
  then show "nonce_row_kept gid sid st'"
    "taken_nonces sid (Perform e rnd db, r) = Some n \<Longrightarrow> nonce_value st sid = Some (Some n) \<and> nonce_value st' sid = Some None"
    "taken_nonces sid (Perform e rnd db, r) = None \<Longrightarrow>
       nonce_value st' sid = nonce_value st sid \<or> (nonce_value st sid = None \<and> (\<exists>n. nonce_value st' sid = Some (Some n)))"
    "published_commitments sid (Perform e rnd db, r) = Some c \<Longrightarrow>
       \<exists>n. nonce_value st' sid = Some (Some n) \<and> c = nonces_commitments n"
    by auto
qed

lemma store_nonce_step:
  assumes "store_step F me st op = (st', r)" "retains_nonces gid sid op" "nonce_row_kept gid sid st"
  shows "nonce_row_kept gid sid st'"
    "taken_nonces sid (op, r) = Some n \<Longrightarrow> nonce_value st sid = Some (Some n) \<and> nonce_value st' sid = Some None"
    "taken_nonces sid (op, r) = None \<Longrightarrow>
       nonce_value st' sid = nonce_value st sid \<or> (nonce_value st sid = None \<and> (\<exists>n. nonce_value st' sid = Some (Some n)))"
    "published_commitments sid (op, r) = Some c \<Longrightarrow>
       \<exists>n. nonce_value st' sid = Some (Some n) \<and> c = nonces_commitments n"
  using assms perform_nonce_step housekeeping_nonce_rows [of gid sid st]
  by (cases op; auto simp: nonce_row_kept_def nonce_value_def)+

text \<open>
  What a trace can hand out for a signature id, depending on the state of its row: nothing once used,
  and before that only the one pair on record.
\<close>

definition trace_agrees :: "b256 \<Rightarrow> signing_nonces \<Rightarrow> (store_op \<times> resume) list \<Rightarrow> bool" where
  "trace_agrees sid n tr \<longleftrightarrow>
     (\<forall>x\<in>set tr. (\<forall>n'. taken_nonces sid x = Some n' \<longrightarrow> n' = n) \<and>
        (\<forall>c. published_commitments sid x = Some c \<longrightarrow> c = nonces_commitments n))"

definition takes :: "b256 \<Rightarrow> (store_op \<times> resume) list \<Rightarrow> nat" where
  "takes sid tr = length (filter (\<lambda>x. taken_nonces sid x \<noteq> None) tr)"

lemma trace_used:
  "list_all (retains_nonces gid sid) ops \<Longrightarrow> nonce_row_kept gid sid st \<Longrightarrow> nonce_value st sid = Some None \<Longrightarrow>
   takes sid (store_trace F me st ops) = 0 \<and> trace_agrees sid n (store_trace F me st ops)"
proof (induction ops arbitrary: st)
  case (Cons op ops)
  obtain st' r where s: "store_step F me st op = (st', r)" by (cases "store_step F me st op")
  note step = store_nonce_step [OF s, of gid sid]
  have kept: "nonce_row_kept gid sid st'" and t: "taken_nonces sid (op, r) = None"
    using step(1,2) Cons.prems by fastforce+
  moreover have v: "nonce_value st' sid = Some None" using step(3) t Cons.prems by simp
  moreover have "published_commitments sid (op, r) = None"
    using step(4) Cons.prems v by (cases "published_commitments sid (op, r)") auto
  ultimately show ?case using Cons.IH [of st'] Cons.prems s by (auto simp: takes_def trace_agrees_def)
qed (simp add: takes_def trace_agrees_def)

lemma trace_present:
  "list_all (retains_nonces gid sid) ops \<Longrightarrow> nonce_row_kept gid sid st \<Longrightarrow> nonce_value st sid = Some (Some n) \<Longrightarrow>
   takes sid (store_trace F me st ops) \<le> 1 \<and> trace_agrees sid n (store_trace F me st ops)"
proof (induction ops arbitrary: st)
  case (Cons op ops)
  obtain st' r where s: "store_step F me st op = (st', r)" by (cases "store_step F me st op")
  note step = store_nonce_step [OF s, of gid sid]
  have kept: "nonce_row_kept gid sid st'" using step(1) Cons.prems by simp
  show ?case
  proof (cases "taken_nonces sid (op, r)")
    case None
    then have v: "nonce_value st' sid = Some (Some n)" using step(3) Cons.prems by simp
    moreover have "published_commitments sid (op, r) = Some c \<Longrightarrow> c = nonces_commitments n" for c
      using step(4) Cons.prems v by auto
    ultimately show ?thesis using Cons.IH [of st'] Cons.prems kept s None by (auto simp: takes_def trace_agrees_def)
  next
    case (Some n')
    then have v: "n' = n" "nonce_value st' sid = Some None" using step(2) Cons.prems by auto
    moreover have "published_commitments sid (op, r) = None"
      using step(4) Cons.prems v by (cases "published_commitments sid (op, r)") auto
    ultimately show ?thesis using trace_used [of gid sid ops st' F me n] Cons.prems kept s Some
      by (auto simp: takes_def trace_agrees_def)
  qed
qed (simp add: takes_def trace_agrees_def)

lemma trace_absent:
  "list_all (retains_nonces gid sid) ops \<Longrightarrow> nonce_row_kept gid sid st \<Longrightarrow> nonce_value st sid = None \<Longrightarrow>
   \<exists>n. takes sid (store_trace F me st ops) \<le> 1 \<and> trace_agrees sid n (store_trace F me st ops)"
proof (induction ops arbitrary: st)
  case (Cons op ops)
  obtain st' r where s: "store_step F me st op = (st', r)" by (cases "store_step F me st op")
  note step = store_nonce_step [OF s, of gid sid]
  have kept: "nonce_row_kept gid sid st'" and t: "taken_nonces sid (op, r) = None"
    using step(1,2) Cons.prems by fastforce+
  then consider "nonce_value st' sid = None" | n where "nonce_value st' sid = Some (Some n)"
    using step(3) Cons.prems by auto
  then show ?case
  proof cases
    case 1
    then have "published_commitments sid (op, r) = None"
      using step(4) Cons.prems by (cases "published_commitments sid (op, r)") auto
    then show ?thesis using Cons.IH [of st'] Cons.prems kept s t 1 by (auto simp: takes_def trace_agrees_def)
  next
    case (2 n)
    then have "published_commitments sid (op, r) = Some c \<Longrightarrow> c = nonces_commitments n" for c
      using step(4) Cons.prems by auto
    then show ?thesis using trace_present [of gid sid ops st' n F me] Cons.prems kept s t 2
      by (auto simp: takes_def trace_agrees_def)
  qed
qed (simp add: takes_def trace_agrees_def)

section \<open>Nonces are used once\<close>

text \<open>
  C7: a signing nonce pair is used at most once.  Take any sequence of effects and housekeeping, with any
  randomness, database failures and repetitions (as a reorg replays them), in which the ceremony's group
  stays retained.  For a signature id that has no row at the start, the nonces are handed out at most
  once over the whole sequence, and every commitment published for the id is the commitment of the very
  pair that is handed out.
\<close>

theorem signing_nonces_used_once:
  assumes "fmlookup (nonce_rows st) sid = None" "list_all (retains_nonces gid sid) ops"
  shows "\<exists>n. takes sid (store_trace F me st ops) \<le> 1 \<and> trace_agrees sid n (store_trace F me st ops)"
  using trace_absent [OF assms(2), of st F me] assms(1) by (simp add: nonce_row_kept_def nonce_value_def)

text \<open>A library whose nonces are its entropy's first byte, and a replayed ceremony.\<close>

definition replay_lib :: "frost_lib \<Rightarrow> frost_lib" where
  "replay_lib F = F\<lparr>nonces_new := (\<lambda>_ bs. \<lparr>nonce_hiding = ucast (hd bs), nonce_binding = 0,
     nonce_commitments = \<lparr>sc_hiding = Affine (ucast (hd bs)) 1, sc_binding = Affine 1 1\<rparr>\<rparr>)\<rparr>"

definition replay_rnd :: "u8 \<Rightarrow> randomness" where
  "replay_rnd b = \<lparr>rnd_setup = ([], [], []), rnd_nonces = [b]\<rparr>"

definition replay_ops :: "key_share \<Rightarrow> store_op list" where
  "replay_ops ks =
     [Perform (GenerateNonces 5 77 ks) (replay_rnd 1) True, Perform (UseNonces 9 77) (replay_rnd 2) True,
      Perform (ReconcileGroupSecrets 8 (fmupd 5 RetainNonces fmempty)) (replay_rnd 3) True,
      Housekeep \<lparr>bs_latest = 20, bs_safe = 19\<rparr> True,
      Perform (GenerateNonces 5 77 ks) (replay_rnd 4) True, Perform (UseNonces 9 77) (replay_rnd 5) True]"

theorem signing_nonces_used_once_witness:
  "\<forall>F ks. \<exists>n. takes 77 (store_trace (replay_lib F) 1 empty_store (replay_ops ks)) \<le> 1 \<and>
     trace_agrees 77 n (store_trace (replay_lib F) 1 empty_store (replay_ops ks)) \<and>
     taken_nonces 77 (store_trace (replay_lib F) 1 empty_store (replay_ops ks) ! 1) = Some n"
proof (intro allI)
  fix F ks
  let ?tr = "store_trace (replay_lib F) 1 empty_store (replay_ops ks)"
  have "fmlookup (nonce_rows empty_store) 77 = None" "list_all (retains_nonces 5 77) (replay_ops ks)"
    by (simp_all add: empty_store_def replay_ops_def fm_has_def)
  from signing_nonces_used_once [OF this, of "replay_lib F" 1] obtain n
    where n: "takes 77 ?tr \<le> 1" "trace_agrees 77 n ?tr" by blast
  have t: "\<exists>n'. taken_nonces 77 (?tr ! 1) = Some n'"
    by (simp add: replay_ops_def perform_effect_def try_perform_effect_def store_signing_nonces_def
        take_signing_nonces_def empty_store_def Let_def split_def)
  have "?tr ! 1 \<in> set ?tr" by (rule nth_mem) (simp add: replay_ops_def Let_def split_def)
  with n t show "\<exists>n. takes 77 ?tr \<le> 1 \<and> trace_agrees 77 n ?tr \<and> taken_nonces 77 (?tr ! 1) = Some n"
    by (auto simp: trace_agrees_def)
qed

section \<open>Key generation secrets are stable\<close>

lemma perform_keygen_step:
  assumes "perform_effect F me rnd db st e = (st', r)" "retains_all gid (Perform e rnd db)" "keygen_row_kept (gid, me) st"
  shows "keygen_row_kept (gid, me) st' \<and>
    (keygen_secret st' (gid, me) = keygen_secret st (gid, me) \<or> keygen_secret st (gid, me) = None) \<and>
    (\<forall>sec. setup_secrets gid (Perform e rnd db, r) = Some sec \<longrightarrow> keygen_secret st' (gid, me) = Some sec)"
proof (cases e)
  case (KeyGenSetup g n t)
  show ?thesis
  proof (cases "db \<and> (\<exists>sec. keygen_setup F (rnd_setup rnd) me n t = Inr sec)")
    case True
    then obtain sec where sec: "keygen_setup F (rnd_setup rnd) me n t = Inr sec" by auto
    obtain st1 stored where p: "store_keygen_secrets st (g, me) sec = (st1, stored)" by (cases rule: prod.exhaust)
    have eq: "st' = st1" "r = Setup g stored"
      using assms(1) True sec p KeyGenSetup by (auto simp: perform_effect_def try_perform_effect_def)
    have "keygen_secret st1 (gid, me) = (if g = gid then Some stored else keygen_secret st (gid, me))"
      using keygen_table.get_put [of st "(g, me)" sec "(gid, me)"] p by auto
    moreover have "g = gid \<Longrightarrow> keygen_secret st (gid, me) = Some w \<Longrightarrow> stored = w" for w
      using keygen_table.put_present [of st "(gid, me)" w sec] p by auto
    moreover have "keygen_row_kept (gid, me) st1"
      using assms(3) p by (auto simp: store_keygen_secrets_def keygen_row_kept_def split: option.splits if_splits)
    ultimately show ?thesis using eq KeyGenSetup by (cases "keygen_secret st (gid, me)") auto
  next
    case False
    then have "st' = st" "r = Noop"
      using assms(1) KeyGenSetup by (auto simp: perform_effect_def try_perform_effect_def split: sum.splits)
    then show ?thesis using assms(3) by simp
  qed
next
  case (GenerateNonces g i ks)
  then show ?thesis using assms
    by (auto simp: perform_effect_def try_perform_effect_def store_signing_nonces_def keygen_row_kept_def keygen_secret_def
        Let_def split: sum.splits if_splits option.splits)
next
  case (UseNonces m i)
  then show ?thesis using assms
    by (auto simp: perform_effect_def try_perform_effect_def take_signing_nonces_def keygen_row_kept_def keygen_secret_def
        split: sum.splits if_splits option.splits)
next
  case (ReconcileGroupSecrets b groups)
  then have "r = Noop \<and> (st' = st \<or> (\<exists>x. schedule_group_secrets_deletion st b groups = Inr (st', x)))"
    using assms(1) by (auto simp: perform_effect_def try_perform_effect_def split: sum.splits if_splits)
  then show ?thesis using reconcile_keygen_rows [where gid = gid and me = me] assms(2,3) ReconcileGroupSecrets by auto
qed

lemma store_keygen_step:
  assumes "store_step F me st op = (st', r)" "retains_all gid op" "keygen_row_kept (gid, me) st"
  shows "keygen_row_kept (gid, me) st' \<and>
    (keygen_secret st' (gid, me) = keygen_secret st (gid, me) \<or> keygen_secret st (gid, me) = None) \<and>
    (\<forall>sec. setup_secrets gid (op, r) = Some sec \<longrightarrow> keygen_secret st' (gid, me) = Some sec)"
proof (cases op)
  case (Perform e rnd db)
  then show ?thesis using perform_keygen_step assms by simp
next
  case (Housekeep status db)
  then show ?thesis using assms housekeeping_keygen_rows [of "(gid, me)" st db status]
    by (auto simp: keygen_row_kept_def keygen_secret_def)
qed

lemma trace_keygen:
  "list_all (retains_all gid) ops \<Longrightarrow> keygen_row_kept (gid, me) st \<Longrightarrow>
   \<exists>sec. (keygen_secret st (gid, me) \<noteq> None \<longrightarrow> keygen_secret st (gid, me) = Some sec) \<and>
     (\<forall>x\<in>set (store_trace F me st ops). setup_secrets gid x \<in> {None, Some sec})"
proof (induction ops arbitrary: st)
  case Nil
  then show ?case by auto
next
  case (Cons op ops)
  obtain st' r where s: "store_step F me st op = (st', r)" by (cases "store_step F me st op")
  note step = store_keygen_step [OF s, of gid]
  have "keygen_row_kept (gid, me) st'" using step Cons.prems by simp
  moreover have "list_all (retains_all gid) ops" using Cons.prems by simp
  ultimately obtain sec where sec: "keygen_secret st' (gid, me) \<noteq> None \<longrightarrow> keygen_secret st' (gid, me) = Some sec"
    "\<forall>x\<in>set (store_trace F me st' ops). setup_secrets gid x \<in> {None, Some sec}"
    using Cons.IH [of st'] by blast
  show ?case
  proof (cases "keygen_secret st (gid, me)")
    case None
    moreover have "setup_secrets gid (op, r) \<in> {None, Some sec}"
      using sec(1) step Cons.prems by (cases "setup_secrets gid (op, r)") auto
    ultimately show ?thesis using sec(2) s by (intro exI [of _ sec]) (auto simp del: setup_secrets.simps)
  next
    case (Some w)
    then have "keygen_secret st' (gid, me) = Some w" using step Cons.prems by auto
    moreover from this have "setup_secrets gid (op, r) \<in> {None, Some sec}"
      using sec(1) step Cons.prems by (cases "setup_secrets gid (op, r)") auto
    ultimately show ?thesis using sec s Some by (intro exI [of _ sec]) (auto simp del: setup_secrets.simps)
  qed
qed

text \<open>
  A key generation is never given two different secrets.  Over any sequence of effects and
  housekeeping in which the group stays retained with all its secrets, every setup of the group resumes
  with one and the same secrets, which are the stored ones if there were any at the start.
\<close>

lemma keygen_secrets_are_stable:
  assumes "keygen_row_kept (gid, me) st" "list_all (retains_all gid) ops"
  shows "\<exists>sec. (keygen_secret st (gid, me) \<noteq> None \<longrightarrow> keygen_secret st (gid, me) = Some sec) \<and>
    (\<forall>x\<in>set (store_trace F me st ops). setup_secrets gid x \<in> {None, Some sec})"
  by (rule trace_keygen [OF assms(2,1)])

section \<open>Reconciliation and collection\<close>

text \<open>
  Reconciliations are ordered by their block: one that is older than the last accepted one changes
  nothing and reports so, and an accepted one becomes the last, so the marker never goes back.
\<close>

lemma reconciliations_are_ordered:
  assumes "schedule_group_secrets_deletion st block groups = Inr (st', accepted)"
  shows "(\<not> accepted \<longrightarrow> st' = st \<and> (\<exists>previous. reconciled st = Some previous \<and> int (unat block) < previous)) \<and>
    (accepted \<longrightarrow> reconciled st' = Some (int (unat block)) \<and>
      (\<forall>previous. reconciled st = Some previous \<longrightarrow> previous \<le> int (unat block)))"
  using assms
  by (auto simp: schedule_group_secrets_deletion_def i64_of_def Let_def split: if_splits option.splits)

lemma schedule_nonce_lookup:
  "fmlookup (schedule_absent_nonces block retained rows) sid =
     map_option (\<lambda>row. row\<lparr>nr_delete_at := absent_deadline block retained (nr_group row) (nr_delete_at row)\<rparr>)
       (fmlookup rows sid)"
  by (simp add: schedule_absent_nonces_def)

lemma prune_nonces:
  "prune_scheduled_secrets st safe = Inr (st', p) \<Longrightarrow>
   fmlookup (nonce_rows st') sid =
     (case fmlookup (nonce_rows st) sid of
        Some row \<Rightarrow> if due (int (unat safe)) (nr_delete_at row) then None else Some row
      | None \<Rightarrow> None)"
  by (auto simp: prune_scheduled_secrets_def i64_of_def Let_def split: if_splits option.splits)

text \<open>
  Secrets are collected exactly when their deadline allows it.  Take a nonce row that is not
  scheduled.  A reconciliation at some block that is accepted and does not retain its group gives it that
  block as its deadline; any later accepted reconciliation that still does not retain the group leaves
  the deadline alone, so it is never pushed out; and a collection then deletes the row if the safe block
  has reached the first reconciliation's block, and keeps it otherwise.
\<close>

lemma absent_groups_are_collected_on_time:
  assumes "fmlookup (nonce_rows st0) sid = Some row" "nr_delete_at row = None"
    and "schedule_group_secrets_deletion st0 b1 groups1 = Inr (st1, True)" "\<not> fm_has groups1 (nr_group row)"
    and "schedule_group_secrets_deletion st1 b2 groups2 = Inr (st2, True)" "\<not> fm_has groups2 (nr_group row)"
    and "prune_scheduled_secrets st2 safe = Inr (st3, p)"
  shows "fmlookup (nonce_rows st3) sid =
    (if b1 \<le> safe then None else Some (row\<lparr>nr_delete_at := Some (int (unat b1))\<rparr>))"
proof -
  have 1: "fmlookup (nonce_rows st1) sid = Some (row\<lparr>nr_delete_at := Some (int (unat b1))\<rparr>)"
    using assms(1-4)
    by (auto simp: schedule_group_secrets_deletion_def schedule_nonce_lookup absent_deadline_def i64_of_def fm_has_iff
        Let_def split: if_splits)
  have 2: "fmlookup (nonce_rows st2) sid = Some (row\<lparr>nr_delete_at := Some (int (unat b1))\<rparr>)"
    using assms(5,6) 1
    by (auto simp: schedule_group_secrets_deletion_def schedule_nonce_lookup absent_deadline_def i64_of_def fm_has_iff
        Let_def split: if_splits)
  show ?thesis unfolding prune_nonces [OF assms(7)] by (simp add: 2 due_def word_le_def)
qed

end
