(* ===== verification/Snapshots.thy ===== *)
theory Snapshots
  imports Messages
begin

text \<open>
  The store of state snapshots that survives restarts and undoes reorgs
  (\<^verbatim>\<open>crates/core/src/state/storage.rs\<close>).  The table is a finite map from signed 64-bit block numbers to
  states; every operation is one database transaction, and whether the database carries it out is an
  argument.  The JSON of a state is the state.
\<close>

section \<open>The table\<close>

type_synonym 's snapshots = "(int, 's) fmap"

datatype snapshot_error =
    SnapshotDatabase
  | SnapshotSerialization
  | BlockNumberOverflow
  | MissingSnapshot u64

definition to_i64 :: "u64 \<Rightarrow> snapshot_error + int" where
  "to_i64 w = (if uint w < 2 ^ 63 then Inr (uint w) else Inl BlockNumberOverflow)"

definition to_u64 :: "int \<Rightarrow> snapshot_error + u64" where
  "to_u64 k = (if k < 0 then Inl BlockNumberOverflow else Inr (word_of_int k))"

section \<open>Operations\<close>

definition current :: "bool \<Rightarrow> 's snapshots \<Rightarrow> snapshot_error + (u64 \<times> 's) option" where
  "current db snaps =
     (if \<not> db then Inl SnapshotDatabase
      else if fmdom snaps = {||} then Inr None
      else let k = fMax (fmdom snaps)
           in case to_u64 k of Inl err \<Rightarrow> Inl err | Inr block \<Rightarrow> Inr (Some (block, the (fmlookup snaps k))))"

definition snapshot_status :: "bool \<Rightarrow> 's snapshots \<Rightarrow> snapshot_error + block_status option" where
  "snapshot_status db snaps =
     (if \<not> db then Inl SnapshotDatabase
      else if fmdom snaps = {||} then Inr None
      else case to_u64 (fMax (fmdom snaps)) of
             Inl err \<Rightarrow> Inl err
           | Inr latest \<Rightarrow>
               (case to_u64 (fMin (fmdom snaps)) of
                  Inl err \<Rightarrow> Inl err
                | Inr safe \<Rightarrow> Inr (Some \<lparr>bs_latest = latest, bs_safe = safe\<rparr>)))"

definition commit :: "bool \<Rightarrow> 's snapshots \<Rightarrow> u64 \<Rightarrow> 's \<Rightarrow> snapshot_error + 's snapshots" where
  "commit db snaps block s =
     (case to_i64 block of
        Inl err \<Rightarrow> Inl err
      | Inr k \<Rightarrow> if \<not> db then Inl SnapshotDatabase else Inr (fmupd k s snaps))"

definition reorg :: "bool \<Rightarrow> 's snapshots \<Rightarrow> u64 \<Rightarrow> snapshot_error + ('s snapshots \<times> u64 \<times> 's)" where
  "reorg db snaps uncle =
     (case checked_sub uncle 1 of
        None \<Rightarrow> Inl BlockNumberOverflow
      | Some parent \<Rightarrow>
          if \<not> db then Inl SnapshotDatabase
          else case to_i64 uncle of
                 Inl err \<Rightarrow> Inl err
               | Inr u \<Rightarrow>
                   let kept = fmfilter (\<lambda>k. \<not> u \<le> k) snaps
                   in case to_i64 parent of
                        Inl err \<Rightarrow> Inl err
                      | Inr p \<Rightarrow>
                          (case fmlookup kept p of
                             None \<Rightarrow> Inl (MissingSnapshot parent)
                           | Some s \<Rightarrow> Inr (kept, parent, s)))"

definition prune :: "bool \<Rightarrow> 's snapshots \<Rightarrow> u64 \<Rightarrow> snapshot_error + 's snapshots" where
  "prune db snaps safe =
     (case to_i64 safe of
        Inl err \<Rightarrow> Inl err
      | Inr s \<Rightarrow>
          if \<not> db then Inl SnapshotDatabase
          else Inr (fmfilter (\<lambda>k. \<not> (k < s \<and> k < fMax (fmdom snaps))) snaps))"

section \<open>What the store promises\<close>

text \<open>
  The contract of a versioned store: a lookup by block, and what committing, rolling back and pruning do
  to it.  The machine that uses the store relies on nothing else.
\<close>

locale versioned_store =
  fixes valid :: "'m \<Rightarrow> bool"
    and at :: "'m \<Rightarrow> u64 \<Rightarrow> 's option"
    and commit :: "'m \<Rightarrow> u64 \<Rightarrow> 's \<Rightarrow> 'e + 'm"
    and reorg :: "'m \<Rightarrow> u64 \<Rightarrow> 'e + ('m \<times> u64 \<times> 's)"
    and prune :: "'m \<Rightarrow> u64 \<Rightarrow> 'e + 'm"
    and fits :: "u64 \<Rightarrow> bool"
  assumes commit_valid: "valid m \<Longrightarrow> commit m b s = Inr m' \<Longrightarrow> valid m'"
    and reorg_valid: "valid m \<Longrightarrow> reorg m u = Inr (m', p, s) \<Longrightarrow> valid m'"
    and prune_valid: "valid m \<Longrightarrow> prune m safe = Inr m' \<Longrightarrow> valid m'"
    and at_commit: "commit m b s = Inr m' \<Longrightarrow> at m' b' = (if b' = b then Some s else at m b')"
    and at_reorg: "reorg m u = Inr (m', p, s) \<Longrightarrow>
      u \<noteq> 0 \<and> p = u - 1 \<and> at m p = Some s \<and> (\<forall>b. at m' b = (if b < u then at m b else None))"
    and reorg_defined: "u \<noteq> 0 \<Longrightarrow> fits u \<Longrightarrow> at m (u - 1) = Some s \<Longrightarrow> \<exists>m'. reorg m u = Inr (m', u - 1, s)"
    and at_prune: "valid m \<Longrightarrow> prune m safe = Inr m' \<Longrightarrow>
      at m' b = (if b < safe \<and> (\<exists>b'>b. at m b' \<noteq> None) then None else at m b)"

primrec commit_all :: "('m \<Rightarrow> u64 \<Rightarrow> 's \<Rightarrow> 'e + 'm) \<Rightarrow> 'm \<Rightarrow> (u64 \<times> 's) list \<Rightarrow> 'e + 'm" where
  "commit_all put m [] = Inr m"
| "commit_all put m (x # xs) = (case put m (fst x) (snd x) of Inl err \<Rightarrow> Inl err | Inr m' \<Rightarrow> commit_all put m' xs)"

lemma successor_facts: "b + 1 \<noteq> 0 \<and> (b' < b + 1 \<longleftrightarrow> b' \<le> b)" if "b \<noteq> - 1" for b b' :: u64
proof -
  have "unat (b + 1) = unat b + 1" using unat_less_max [OF that] by (simp add: unat_word_ariths)
  then show ?thesis by (auto simp: word_less_nat_alt word_le_nat_alt simp flip: unat_gt_0)
qed

context versioned_store
begin

lemma commits_above_keep:
  "commit_all commit m xs = Inr m' \<Longrightarrow> \<forall>x\<in>set xs. b < fst x \<Longrightarrow> b' \<le> b \<Longrightarrow> at m' b' = at m b'"
  by (induction xs arbitrary: m) (auto simp: at_commit split: sum.splits)

lemma rollback_restores:
  assumes "commit m b s = Inr m1" "commit_all commit m1 xs = Inr m2" "\<forall>x\<in>set xs. b < fst x"
    and "b \<noteq> - 1" "fits (b + 1)"
  shows "\<exists>m3. reorg m2 (b + 1) = Inr (m3, b, s) \<and> (\<forall>b'. at m3 b' = (if b' \<le> b then at m1 b' else None))"
proof -
  have kept: "b' \<le> b \<Longrightarrow> at m2 b' = at m1 b'" for b' by (rule commits_above_keep [OF assms(2,3)])
  then have "at m2 b = Some s" using assms(1) by (simp add: at_commit)
  then obtain m3 where m3: "reorg m2 (b + 1) = Inr (m3, b, s)"
    using reorg_defined [of "b + 1" m2 s] assms(4,5) successor_facts by auto
  then show ?thesis using at_reorg [OF m3] kept successor_facts [OF assms(4)] by auto
qed

lemma prune_keeps_recent:
  assumes "valid m" "prune m safe = Inr m'" "at m b = Some s" "safe \<le> b \<or> (\<forall>b'>b. at m b' = None)"
  shows "at m' b = Some s"
  using at_prune [OF assms(1,2), of b] assms(3,4) by auto

end

section \<open>The table keeps the promise\<close>

definition snapshot_at :: "'s snapshots \<Rightarrow> u64 \<Rightarrow> 's option" where
  "snapshot_at snaps b = (case to_i64 b of Inl _ \<Rightarrow> None | Inr k \<Rightarrow> fmlookup snaps k)"

definition keys_fit :: "'s snapshots \<Rightarrow> bool" where
  "keys_fit snaps \<longleftrightarrow> fBall (fmdom snaps) (\<lambda>k. 0 \<le> k \<and> k < 2 ^ 63)"

definition fits_i64 :: "u64 \<Rightarrow> bool" where
  "fits_i64 b \<longleftrightarrow> uint b < 2 ^ 63"

lemma snapshot_at_iff: "snapshot_at snaps b = Some s \<longleftrightarrow> fits_i64 b \<and> fmlookup snaps (uint b) = Some s"
  by (auto simp: snapshot_at_def to_i64_def fits_i64_def)

lemma uint_of_key: "0 \<le> k \<Longrightarrow> k < 2 ^ 63 \<Longrightarrow> uint (word_of_int k :: u64) = k"
  by (simp add: uint_word_of_int take_bit_int_eq_self)

lemma uint_predecessor: "1 \<le> u \<Longrightarrow> uint (u - 1) = uint u - 1" for u :: u64
  by (simp add: uint_minus_simple_alt word_le_def)

lemma commit_eq: "commit db snaps b s = Inr snaps' \<longleftrightarrow> db \<and> fits_i64 b \<and> snaps' = fmupd (uint b) s snaps"
  by (auto simp: commit_def to_i64_def fits_i64_def)

lemma one_le_iff: "1 \<le> u \<longleftrightarrow> u \<noteq> 0" for u :: u64
  by (auto simp: word_le_nat_alt unat_gt_0 Suc_le_eq)

lemma reorg_eq:
  "reorg db snaps u = Inr (snaps', p, s) \<longleftrightarrow>
     db \<and> u \<noteq> 0 \<and> fits_i64 u \<and> p = u - 1 \<and> snaps' = fmfilter (\<lambda>k. k < uint u) snaps \<and>
     fmlookup snaps (uint u - 1) = Some s"
  by (auto simp: reorg_def to_i64_def fits_i64_def checked_sub_def one_le_iff uint_predecessor not_le Let_def
      split: option.splits if_splits)

lemma prune_eq:
  "prune db snaps safe = Inr snaps' \<longleftrightarrow>
     db \<and> fits_i64 safe \<and> snaps' = fmfilter (\<lambda>k. \<not> (k < uint safe \<and> k < fMax (fmdom snaps))) snaps"
  by (auto simp: prune_def to_i64_def fits_i64_def)

lemma later_snapshot_iff:
  assumes "keys_fit snaps" "fits_i64 b"
  shows "(\<exists>b'>b. snapshot_at snaps b' \<noteq> None) \<longleftrightarrow> fmdom snaps \<noteq> {||} \<and> uint b < fMax (fmdom snaps)"
proof
  assume "\<exists>b'>b. snapshot_at snaps b' \<noteq> None"
  then obtain b' s where b': "b < b'" "snapshot_at snaps b' = Some s" by auto
  then have k: "uint b' |\<in>| fmdom snaps" by (auto simp: snapshot_at_iff intro: fmdomI)
  have "uint b < uint b'" using b'(1) by (simp add: word_less_def)
  also have "uint b' \<le> fMax (fmdom snaps)" using k by simp
  finally show "fmdom snaps \<noteq> {||} \<and> uint b < fMax (fmdom snaps)" using k by auto
next
  let ?k = "fMax (fmdom snaps)"
  assume r: "fmdom snaps \<noteq> {||} \<and> uint b < ?k"
  then have k: "?k |\<in>| fmdom snaps" by simp
  then have range: "0 \<le> ?k" "?k < 2 ^ 63" using assms(1) by (auto simp: keys_fit_def)
  then have "uint (word_of_int ?k :: u64) = ?k" by (rule uint_of_key)
  with k r range show "\<exists>b'>b. snapshot_at snaps b' \<noteq> None"
    by (intro exI [of _ "word_of_int ?k"]) (auto simp: snapshot_at_def to_i64_def word_less_def fmlookup_dom_iff)
qed

interpretation table: versioned_store keys_fit snapshot_at "commit db" "reorg db" "prune db" "\<lambda>b. db \<and> fits_i64 b" for db
proof unfold_locales
  fix m :: "'a snapshots" and m' b b' s u p safe
  show "keys_fit m \<Longrightarrow> commit db m b s = Inr m' \<Longrightarrow> keys_fit m'"
    by (auto simp: commit_eq keys_fit_def fits_i64_def)
  show "keys_fit m \<Longrightarrow> reorg db m u = Inr (m', p, s) \<Longrightarrow> keys_fit m'"
    by (auto simp: reorg_eq keys_fit_def)
  show "keys_fit m \<Longrightarrow> prune db m safe = Inr m' \<Longrightarrow> keys_fit m'"
    by (auto simp: prune_eq keys_fit_def)
  show "commit db m b s = Inr m' \<Longrightarrow> snapshot_at m' b' = (if b' = b then Some s else snapshot_at m b')"
    by (auto simp: commit_eq snapshot_at_def to_i64_def fits_i64_def dest: word_uint_eq_iff [THEN iffD2])
  show "reorg db m u = Inr (m', p, s) \<Longrightarrow>
      u \<noteq> 0 \<and> p = u - 1 \<and> snapshot_at m p = Some s \<and> (\<forall>b. snapshot_at m' b = (if b < u then snapshot_at m b else None))"
    by (auto simp: reorg_eq snapshot_at_def to_i64_def fits_i64_def uint_predecessor one_le_iff word_less_def)
  show "u \<noteq> 0 \<Longrightarrow> db \<and> fits_i64 u \<Longrightarrow> snapshot_at m (u - 1) = Some s \<Longrightarrow> \<exists>m'. reorg db m u = Inr (m', u - 1, s)"
    by (auto simp: reorg_eq snapshot_at_iff uint_predecessor one_le_iff)
  show "keys_fit m \<Longrightarrow> prune db m safe = Inr m' \<Longrightarrow>
      snapshot_at m' b = (if b < safe \<and> (\<exists>b'>b. snapshot_at m b' \<noteq> None) then None else snapshot_at m b)"
    using later_snapshot_iff [of m b] fmdom_notD [of "uint b" m]
    by (auto simp: prune_eq snapshot_at_def to_i64_def fits_i64_def word_less_def split: if_splits)
qed

text \<open>
  A rollback restores what was committed.  After a state has been committed at a block and any states
  at later blocks, rolling back the block after it returns that state, keeps the snapshots up to that
  block as they were when it was committed and removes all later ones.
\<close>

lemma rollback_restores_commit:
  assumes "commit True snaps b s = Inr snaps1" "commit_all (commit True) snaps1 later = Inr snaps2"
    and "\<forall>x\<in>set later. b < fst x" "uint b + 1 < 2 ^ 63"
  shows "\<exists>snaps3. reorg True snaps2 (b + 1) = Inr (snaps3, b, s) \<and>
    (\<forall>b'. snapshot_at snaps3 b' = (if b' \<le> b then snapshot_at snaps1 b' else None))"
proof -
  have "b \<noteq> - 1" using assms(4) by (auto simp: unsigned_minus_1_eq_mask mask_eq_exp_minus_1)
  moreover have "fits_i64 (b + 1)"
    using assms(4) by (simp add: fits_i64_def uint_word_ariths)
  ultimately show ?thesis using table.rollback_restores [OF assms(1-3)] by simp
qed

text \<open>
  Pruning never takes a snapshot that can still be rolled back to, nor the resume point: snapshots
  from the safe block on and the latest snapshot are kept as they are, and every other one is removed.
\<close>

lemma prune_keeps_rollback_targets:
  assumes "keys_fit snaps" "prune True snaps safe = Inr snaps'" "snapshot_at snaps b = Some s"
  shows "snapshot_at snaps' b = (if safe \<le> b \<or> (\<forall>b'>b. snapshot_at snaps b' = None) then Some s else None)"
  using table.prune_keeps_recent [OF assms] table.at_prune [OF assms(1,2), of b] by (auto simp: not_le)

end
