(* ===== verification/State_Machine.thy ===== *)
theory State_Machine
  imports Snapshots Runs
begin

text \<open>
  The service state machine (\<^verbatim>\<open>crates/core/src/state/mod.rs\<close>): it takes the indexer's updates in order,
  applies the transition of the service to every block and event, commits a snapshot per processed log
  range and rolls back on reorgs.  The transition is a parameter, as in the code.  The machine over an
  arbitrary transition is shown to be the image of one machine that merely records the messages it was
  fed, so what holds of its histories holds of every service.
\<close>

section \<open>The machine\<close>

datatype machine_error =
    Storage snapshot_error
  | EndOfChain
  | BadUpdate
  | Poisoned

datatype status =
    Initialized
  | BlockPending u64
  | BlockApplied u64
  | BlockEvents u64
  | WarpEvents u64 u64

type_synonym ('s, 'e, 'r, 'c) service = "'s \<Rightarrow> ('e, 'r) message \<Rightarrow> 's \<times> 'c list"

text \<open>The lock holds nothing once a transition has failed.\<close>

record 's machine =
  inner :: "('s \<times> status) option"
  snapshots :: "'s snapshots"

definition next_block :: "u64 \<Rightarrow> machine_error + u64" where
  "next_block number = (case checked_add number 1 of Some n \<Rightarrow> Inr n | None \<Rightarrow> Inl EndOfChain)"

definition block_range :: "u64 \<Rightarrow> u64 \<Rightarrow> machine_error + (u64 \<times> u64)" where
  "block_range from to = (if from \<le> to then Inr (from, to) else Inl BadUpdate)"

definition is_next_in_range :: "u64 \<times> u64 \<Rightarrow> u64 \<times> u64 \<Rightarrow> bool" where
  "is_next_in_range rng sub \<longleftrightarrow> fst rng = fst sub \<and> fst rng \<le> snd sub \<and> snd sub \<le> snd rng"

definition with_init :: "bool \<Rightarrow> 's \<Rightarrow> 's snapshots \<Rightarrow> machine_error + 's machine" where
  "with_init db init snaps =
     (case current db snaps of
        Inl err \<Rightarrow> Inl (Storage err)
      | Inr None \<Rightarrow> Inr \<lparr>inner = Some (init, Initialized), snapshots = snaps\<rparr>
      | Inr (Some (latest, s)) \<Rightarrow>
          (case checked_add latest 1 of
             None \<Rightarrow> Inl EndOfChain
           | Some pending \<Rightarrow> Inr \<lparr>inner = Some (s, BlockPending pending), snapshots = snaps\<rparr>))"

definition accumulate_transition :: "('s, 'e, 'r, 'c) service \<Rightarrow> 's \<times> 'c list \<Rightarrow> ('e, 'r) message \<Rightarrow> 's \<times> 'c list" where
  "accumulate_transition T acc msg = (let (s', new) = T (fst acc) msg in (s', snd acc @ new))"

section \<open>Handling updates\<close>

text \<open>The inner loop over the logs of one block, and the outer one over the blocks of a range.\<close>

fun feed_logs :: "('s, 'e, 'r, 'c) service \<Rightarrow> u64 \<Rightarrow> 'e event_log list \<Rightarrow> 's \<times> 'c list \<Rightarrow>
    ('s \<times> 'c list) \<times> 'e event_log list" where
  "feed_logs T block [] acc = (acc, [])"
| "feed_logs T block (log # logs) acc =
     (if log_block log = block then feed_logs T block logs (accumulate_transition T acc (Event log))
      else (acc, log # logs))"

fun feed_blocks :: "('s, 'e, 'r, 'c) service \<Rightarrow> bool \<Rightarrow> u64 list \<Rightarrow> 'e event_log list \<Rightarrow> 's \<times> 'c list \<Rightarrow> 's \<times> 'c list" where
  "feed_blocks T warping [] logs acc = acc"
| "feed_blocks T warping (block # blocks) logs acc =
     (let acc = (if warping then accumulate_transition T acc (NewBlock block) else acc);
          (acc, logs) = feed_logs T block logs acc
      in feed_blocks T warping blocks logs acc)"

definition blocks_of :: "u64 \<Rightarrow> u64 \<Rightarrow> u64 list" where
  "blocks_of from to = map of_nat [unat from..<Suc (unat to)]"

definition log_before :: "'e event_log \<Rightarrow> 'e event_log \<Rightarrow> bool" where
  "log_before a b \<longleftrightarrow> log_block a < log_block b \<or> log_block a = log_block b \<and> log_index a < log_index b"

definition accepts_uncle :: "status \<Rightarrow> u64 \<Rightarrow> bool" where
  "accepts_uncle st number =
     (case st of BlockPending pending \<Rightarrow> number < pending
      | BlockApplied pending \<Rightarrow> number < pending
      | BlockEvents latest \<Rightarrow> number \<le> latest
      | _ \<Rightarrow> False)"

definition accepts_logs :: "status \<Rightarrow> u64 \<times> u64 \<Rightarrow> bool" where
  "accepts_logs st blocks =
     (case st of BlockEvents latest \<Rightarrow> is_next_in_range (latest, latest) blocks
      | WarpEvents from to \<Rightarrow> is_next_in_range (from, to) blocks
      | _ \<Rightarrow> False)"

definition status_after_logs :: "status \<Rightarrow> u64 \<Rightarrow> machine_error + status" where
  "status_after_logs st last_block =
     (case st of
        WarpEvents from to \<Rightarrow>
          if last_block < to
          then (case next_block last_block of
                  Inl err \<Rightarrow> Inl err
                | Inr n \<Rightarrow> (case block_range n to of Inl err \<Rightarrow> Inl err | Inr (a, b) \<Rightarrow> Inr (WarpEvents a b)))
          else (case next_block last_block of Inl err \<Rightarrow> Inl err | Inr pending \<Rightarrow> Inr (BlockPending pending))
      | _ \<Rightarrow> (case next_block last_block of Inl err \<Rightarrow> Inl err | Inr pending \<Rightarrow> Inr (BlockPending pending)))"

definition handle_logs :: "('s, 'e, 'r, 'c) service \<Rightarrow> bool \<Rightarrow> 's \<Rightarrow> status \<Rightarrow> 's snapshots \<Rightarrow> 'e event_update \<Rightarrow>
    machine_error + ('s \<times> status \<times> 's snapshots \<times> 'c list)" where
  "handle_logs T db s st snaps eu =
     (if \<not> successively log_before (eu_logs eu) \<or>
         \<not> list_all (\<lambda>log. eu_first eu \<le> log_block log \<and> log_block log \<le> eu_last eu) (eu_logs eu)
      then Inl BadUpdate
      else
        let warping = (case st of WarpEvents _ _ \<Rightarrow> True | _ \<Rightarrow> False);
            (s, cmds) = feed_blocks T warping (blocks_of (eu_first eu) (eu_last eu)) (eu_logs eu) (s, [])
        in case status_after_logs st (eu_last eu) of
             Inl err \<Rightarrow> Inl err
           | Inr st \<Rightarrow>
               (case commit db snaps (eu_last eu) s of
                  Inl err \<Rightarrow> Inl (Storage err)
                | Inr snaps \<Rightarrow>
                    (case st of
                       BlockPending pending \<Rightarrow>
                         let (s, cmds) = accumulate_transition T (s, cmds) (NewBlock pending)
                         in Inr (s, BlockApplied pending, snaps, cmds)
                     | _ \<Rightarrow> Inr (s, st, snaps, cmds))))"

fun update_step :: "('s, 'e, 'r, 'c) service \<Rightarrow> bool \<Rightarrow> 's \<Rightarrow> status \<Rightarrow> 's snapshots \<Rightarrow> 'e update \<Rightarrow>
    machine_error + ('s \<times> status \<times> 's snapshots \<times> 'c list)" where
  "update_step T db s st snaps (BlockUpdate (Warp from to)) =
     (if st = Initialized \<or> st = BlockPending from
      then (case block_range from to of
              Inl err \<Rightarrow> Inl err
            | Inr (a, b) \<Rightarrow> Inr (s, WarpEvents a b, snaps, []))
      else Inl BadUpdate)"
| "update_step T db s st snaps (BlockUpdate (Uncle number)) =
     (if accepts_uncle st number
      then (case reorg db snaps number of
              Inl err \<Rightarrow> Inl (Storage err)
            | Inr (snaps, _, s) \<Rightarrow> Inr (s, BlockPending number, snaps, []))
      else Inl BadUpdate)"
| "update_step T db s st snaps (BlockUpdate (New number hash timestamp bloom)) =
     (if st = Initialized \<or> st = BlockPending number \<or> st = BlockApplied number
      then let (s, cmds) = (case st of BlockApplied _ \<Rightarrow> (s, []) | _ \<Rightarrow> T s (NewBlock number))
           in Inr (s, BlockEvents number, snaps, cmds)
      else Inl BadUpdate)"
| "update_step T db s st snaps (Logs eu) =
     (if accepts_logs st (eu_first eu, eu_last eu) then handle_logs T db s st snaps eu else Inl BadUpdate)"

definition handle_update :: "('s, 'e, 'r, 'c) service \<Rightarrow> bool \<Rightarrow> 's machine \<Rightarrow> 'e update \<Rightarrow>
    's machine \<times> (machine_error + 'c list)" where
  "handle_update T db m u =
     (case inner m of
        None \<Rightarrow> (m, Inl Poisoned)
      | Some (s, st) \<Rightarrow>
          (case update_step T db s st (snapshots m) u of
             Inl err \<Rightarrow> (m\<lparr>inner := None\<rparr>, Inl err)
           | Inr (s, st, snaps, cmds) \<Rightarrow> (\<lparr>inner = Some (s, st), snapshots = snaps\<rparr>, Inr cmds)))"

definition handle_resume :: "('s, 'e, 'r, 'c) service \<Rightarrow> 's machine \<Rightarrow> 'r \<Rightarrow> 's machine \<times> (machine_error + 'c list)" where
  "handle_resume T m r =
     (case inner m of
        None \<Rightarrow> (m, Inl Poisoned)
      | Some (s, st) \<Rightarrow> let (s, cmds) = T s (Resume r) in (m\<lparr>inner := Some (s, st)\<rparr>, Inr cmds))"

definition prune_machine :: "bool \<Rightarrow> 's machine \<Rightarrow> u64 \<Rightarrow> 's machine \<times> (machine_error + unit)" where
  "prune_machine db m safe =
     (case prune db (snapshots m) safe of
        Inl err \<Rightarrow> (m, Inl (Storage err))
      | Inr snaps \<Rightarrow> (m\<lparr>snapshots := snaps\<rparr>, Inr ()))"

section \<open>Sequences of operations\<close>

text \<open>
  What can happen to a machine, each time with a database that works or fails: an update, an effect that
  resumes, a pruning of old snapshots, and a restart of the process on the same database.
\<close>

datatype ('e, 'r) machine_op =
    HandleUpdate "'e update" bool
  | HandleResume 'r
  | PruneSnapshots u64 bool
  | Restart bool

fun machine_step :: "('s, 'e, 'r, 'c) service \<Rightarrow> 's \<Rightarrow> 's machine \<Rightarrow> ('e, 'r) machine_op \<Rightarrow> 's machine" where
  "machine_step T init m (HandleUpdate u db) = fst (handle_update T db m u)"
| "machine_step T init m (HandleResume r) = fst (handle_resume T m r)"
| "machine_step T init m (PruneSnapshots safe db) = fst (prune_machine db m safe)"
| "machine_step T init m (Restart db) =
     (case with_init db init (snapshots m) of Inl _ \<Rightarrow> m\<lparr>inner := None\<rparr> | Inr m' \<Rightarrow> m')"

definition new_machine :: "'s \<Rightarrow> 's machine" where
  "new_machine init = \<lparr>inner = Some (init, Initialized), snapshots = fmempty\<rparr>"

definition machine_run :: "('s, 'e, 'r, 'c) service \<Rightarrow> 's \<Rightarrow> ('e, 'r) machine_op list \<Rightarrow> 's machine" where
  "machine_run T init ops = run_from (machine_step T init) (new_machine init) ops"

section \<open>Services as images of histories\<close>

text \<open>
  A morphism from one service to another: states and commands of the first determine those of the second.
  The machine commutes with it, so the second service's machine is the image of the first's.
\<close>

definition map_machine :: "('a \<Rightarrow> 'b) \<Rightarrow> 'a machine \<Rightarrow> 'b machine" where
  "map_machine f m = \<lparr>inner = map_option (map_prod f id) (inner m), snapshots = fmmap f (snapshots m)\<rparr>"

lemma map_machine_simps [simp]:
  "inner (map_machine f m) = map_option (map_prod f id) (inner m)"
  "snapshots (map_machine f m) = fmmap f (snapshots m)"
  by (simp_all add: map_machine_def)

lemma fmmap_filter: "fmfilter P (fmmap f m) = fmmap f (fmfilter P m)"
  by (rule fmap_ext) simp

lemma fmmap_upd: "fmmap f (fmupd k v m) = fmupd k (f v) (fmmap f m)"
  by (rule fmap_ext) simp

lemma current_map: "current db (fmmap f snaps) = map_sum id (map_option (map_prod id f)) (current db snaps)"
  by (auto simp: current_def Let_def fmlookup_dom_iff split: sum.splits dest!: fMax_in)

lemma commit_map: "commit db (fmmap f snaps) b (f s) = map_sum id (fmmap f) (commit db snaps b s)"
  by (auto simp: commit_def fmmap_upd split: sum.splits)

lemma reorg_map: "reorg db (fmmap f snaps) u = map_sum id (map_prod (fmmap f) (map_prod id f)) (reorg db snaps u)"
  by (auto simp: reorg_def fmmap_filter Let_def split: sum.splits option.splits)

lemma prune_map: "prune db (fmmap f snaps) safe = map_sum id (fmmap f) (prune db snaps safe)"
  by (auto simp: prune_def fmmap_filter split: sum.splits)

locale service_morphism =
  fixes T1 :: "('s, 'e, 'r, 'c) service" and T2 :: "('t, 'e, 'r, 'd) service"
    and f :: "'s \<Rightarrow> 't" and g :: "'c \<Rightarrow> 'd list"
  assumes commutes: "T2 (f s) msg = (f (fst (T1 s msg)), concat (map g (snd (T1 s msg))))"
begin

lemma accumulate_map:
  "accumulate_transition T2 (map_prod f (\<lambda>cs. concat (map g cs)) acc) msg =
     map_prod f (\<lambda>cs. concat (map g cs)) (accumulate_transition T1 acc msg)"
  by (cases acc) (simp add: accumulate_transition_def commutes split_def Let_def)

lemma feed_logs_map:
  "feed_logs T2 block logs (map_prod f (\<lambda>cs. concat (map g cs)) acc) =
     map_prod (map_prod f (\<lambda>cs. concat (map g cs))) id (feed_logs T1 block logs acc)"
  by (induction logs arbitrary: acc) (simp_all add: accumulate_map)

lemma feed_blocks_map:
  "feed_blocks T2 w blocks logs (map_prod f (\<lambda>cs. concat (map g cs)) acc) =
     map_prod f (\<lambda>cs. concat (map g cs)) (feed_blocks T1 w blocks logs acc)"
  by (induction blocks arbitrary: logs acc; cases w; simp add: accumulate_map feed_logs_map split_def Let_def)

lemma handle_logs_map:
  "handle_logs T2 db (f s) st (fmmap f snaps) eu =
     map_sum id (map_prod f (map_prod id (map_prod (fmmap f) (\<lambda>cs. concat (map g cs))))) (handle_logs T1 db s st snaps eu)"
proof -
  let ?w = "case st of WarpEvents _ _ \<Rightarrow> True | _ \<Rightarrow> False"
  obtain s' cs where fed: "feed_blocks T1 ?w (blocks_of (eu_first eu) (eu_last eu)) (eu_logs eu) (s, []) = (s', cs)"
    by (cases rule: prod.exhaust)
  then have "feed_blocks T2 ?w (blocks_of (eu_first eu) (eu_last eu)) (eu_logs eu) (f s, []) = (f s', concat (map g cs))"
    using feed_blocks_map [of ?w _ _ "(s, [])"] by simp
  then show ?thesis using fed accumulate_map [of "(s', cs)"]
    by (auto simp: handle_logs_def commit_map split_def Let_def split: sum.splits status.splits)
qed

lemma update_step_map:
  "update_step T2 db (f s) st (fmmap f snaps) u =
     map_sum id (map_prod f (map_prod id (map_prod (fmmap f) (\<lambda>cs. concat (map g cs))))) (update_step T1 db s st snaps u)"
  by (cases "(T1, db, s, st, snaps, u)" rule: update_step.cases)
    (auto simp: reorg_map handle_logs_map commutes split_def Let_def split: sum.splits status.splits)

lemma step_map: "machine_step T2 (f init) (map_machine f m) op = map_machine f (machine_step T1 init m op)"
proof (cases op)
  case (HandleUpdate u db)
  then show ?thesis
    by (auto simp: handle_update_def update_step_map map_machine_def split: sum.splits option.splits)
next
  case (HandleResume r)
  then show ?thesis by (auto simp: handle_resume_def commutes map_machine_def split_def Let_def split: option.splits)
next
  case (PruneSnapshots safe db)
  then show ?thesis by (auto simp: prune_machine_def prune_map map_machine_def split: sum.splits)
next
  case (Restart db)
  then show ?thesis
    by (auto simp: with_init_def current_map map_machine_def split: sum.splits option.splits)
qed

lemma run_map: "machine_run T2 (f init) ops = map_machine f (machine_run T1 init ops)"
proof -
  have "run_from (machine_step T2 (f init)) (map_machine f m) ops =
      map_machine f (run_from (machine_step T1 init) m ops)" for m
    by (induction ops arbitrary: m) (simp_all add: step_map)
  moreover have "new_machine (f init) = map_machine f (new_machine init)"
    by (simp add: new_machine_def map_machine_def)
  ultimately show ?thesis by (simp add: machine_run_def)
qed

end

section \<open>Histories\<close>

type_synonym ('e, 'r) history = "('e, 'r) message list"

text \<open>The service that records its messages; its commands name the transitions that were made.\<close>

definition record_history :: "(('e, 'r) history, 'e, 'r, ('e, 'r) history \<times> ('e, 'r) message) service" where
  "record_history h msg = (h @ [msg], [(h, msg)])"

definition exec :: "('s, 'e, 'r, 'c) service \<Rightarrow> 's \<Rightarrow> ('e, 'r) history \<Rightarrow> 's" where
  "exec T init h = run_from (\<lambda>s msg. fst (T s msg)) init h"

lemma exec_snoc [simp]: "exec T init (h @ [msg]) = fst (T (exec T init h) msg)"
  by (simp add: exec_def run_from_append)

lemma exec_Nil [simp]: "exec T init [] = init"
  by (simp add: exec_def)

interpretation history: service_morphism record_history T "exec T init" "\<lambda>(h, msg). snd (T (exec T init h) msg)"
  for T init
  by unfold_locales (simp add: record_history_def)

text \<open>
  Where a history stands on the chain: before any block, or at a block with the index of its last event.
  Blocks follow each other without gaps, and events belong to the block that was announced last, in
  ascending order; effects may resume at any point.
\<close>

datatype chain_pos = Fresh | At u64 "u64 option"

fun follow :: "chain_pos \<Rightarrow> ('e, 'r) message \<Rightarrow> chain_pos option" where
  "follow Fresh (NewBlock b) = Some (At b None)"
| "follow (At a i) (NewBlock b) = (if checked_add a 1 = Some b then Some (At b None) else None)"
| "follow Fresh (Event log) = None"
| "follow (At a i) (Event log) =
     (if log_block log = a \<and> (case i of None \<Rightarrow> True | Some j \<Rightarrow> j < log_index log)
      then Some (At a (Some (log_index log))) else None)"
| "follow p (Resume r) = Some p"

definition follow_all :: "chain_pos option \<Rightarrow> ('e, 'r) message list \<Rightarrow> chain_pos option" where
  "follow_all p ms = foldl (\<lambda>p msg. Option.bind p (\<lambda>q. follow q msg)) p ms"

definition chain_position :: "('e, 'r) history \<Rightarrow> chain_pos option" where
  "chain_position h = follow_all (Some Fresh) h"

lemma follow_all_simps [simp]:
  "follow_all p [] = p"
  "follow_all (Some q) (msg # ms) = follow_all (follow q msg) ms"
  by (simp_all add: follow_all_def)

lemma follow_all_append: "follow_all p (ms @ ns) = follow_all (follow_all p ms) ns"
  by (simp add: follow_all_def)

lemma chain_position_append: "chain_position (h @ ms) = follow_all (chain_position h) ms"
  by (simp add: chain_position_def follow_all_append)

lemma chain_position_Nil [simp]: "chain_position [] = Some Fresh"
  by (simp add: chain_position_def)

section \<open>What a log range feeds\<close>

definition feed :: "('s, 'e, 'r, 'c) service \<Rightarrow> 's \<times> 'c list \<Rightarrow> ('e, 'r) message list \<Rightarrow> 's \<times> 'c list" where
  "feed T acc ms = foldl (accumulate_transition T) acc ms"

fun range_messages :: "bool \<Rightarrow> u64 list \<Rightarrow> 'e event_log list \<Rightarrow> ('e, 'r) message list" where
  "range_messages w [] logs = []"
| "range_messages w (b # bs) logs =
     (if w then [NewBlock b] else []) @ map Event (takeWhile (\<lambda>l. log_block l = b) logs) @
     range_messages w bs (dropWhile (\<lambda>l. log_block l = b) logs)"

lemma feed_simps [simp]: "feed T acc [] = acc" "feed T acc (m # ms) = feed T (accumulate_transition T acc m) ms"
  by (simp_all add: feed_def)

lemma feed_append: "feed T acc (ms @ ns) = feed T (feed T acc ms) ns"
  by (simp add: feed_def)

lemma feed_logs_eq:
  "feed_logs T b logs acc =
     (feed T acc (map Event (takeWhile (\<lambda>l. log_block l = b) logs)), dropWhile (\<lambda>l. log_block l = b) logs)"
  by (induction logs arbitrary: acc) simp_all

lemma feed_blocks_eq: "feed_blocks T w bs logs acc = feed T acc (range_messages w bs logs)"
  by (induction bs arbitrary: logs acc; cases w; simp add: feed_logs_eq feed_append)

lemma feed_record: "fst (feed record_history acc ms) = fst acc @ ms"
  by (induction ms arbitrary: acc) (simp_all add: accumulate_transition_def record_history_def)

lemma blocks_of_Cons: "f \<le> t \<Longrightarrow> blocks_of f t = f # (if f = t then [] else blocks_of (f + 1) t)"
proof -
  assume le: "f \<le> t"
  then have "unat f < Suc (unat t)" by (simp add: word_le_nat_alt)
  then have "blocks_of f t = f # map of_nat [Suc (unat f)..<Suc (unat t)]"
    by (simp add: blocks_of_def upt_conv_Cons del: upt_Suc)
  moreover have "f \<noteq> t \<Longrightarrow> unat (f + 1) = Suc (unat f)"
    using le unat_less_exp [of t] by (auto simp: word_le_nat_alt unat_word_ariths word_unat_eq_iff)
  ultimately show ?thesis by (auto simp: blocks_of_def simp del: upt_Suc)
qed

lemma successively_split:
  "successively P xs \<Longrightarrow> successively P (takeWhile Q xs) \<and> successively P (dropWhile Q xs)"
  using successively_append_iff [of P "takeWhile Q xs" "dropWhile Q xs"] by simp

lemma follow_events:
  "successively log_before logs \<Longrightarrow> \<forall>l\<in>set logs. log_block l = b \<Longrightarrow>
   (case i of None \<Rightarrow> True | Some j \<Rightarrow> logs = [] \<or> j < log_index (hd logs)) \<Longrightarrow>
   \<exists>i'. follow_all (Some (At b i)) (map Event logs :: ('e, 'r) message list) = Some (At b i')"
proof (induction logs arbitrary: i)
  case (Cons l logs)
  have "logs = [] \<or> log_before l (hd logs)" using Cons.prems(1) by (auto simp: successively_Cons)
  moreover have "logs = [] \<or> log_block (hd logs) = log_block l" using Cons.prems(2) by (metis hd_in_set list.set_intros)
  ultimately have "logs = [] \<or> log_index l < log_index (hd logs)" unfolding log_before_def by (metis order.irrefl)
  then have "\<exists>i'. follow_all (Some (At b (Some (log_index l)))) (map Event logs :: ('e, 'r) message list) = Some (At b i')"
    using Cons.prems(1,2) by (intro Cons.IH) (auto simp: successively_Cons)
  moreover have "follow (At b i) (Event l :: ('e, 'r) message) = Some (At b (Some (log_index l)))"
    using Cons.prems(2,3) by (cases i) simp_all
  ultimately show ?case by simp
qed simp

lemma follow_block_events:
  "successively log_before logs \<Longrightarrow>
   \<exists>i. follow_all (Some (At b None)) (map Event (takeWhile (\<lambda>l. log_block l = b) logs)) = Some (At b i)"
  by (rule follow_events) (auto dest: set_takeWhileD successively_split)

lemma follow_warp:
  assumes "f \<le> t" "successively log_before logs" "follow q (NewBlock f :: ('e, 'r) message) = Some (At f None)"
  shows "\<exists>i. follow_all (Some q) (range_messages True (blocks_of f t) logs :: ('e, 'r) message list) = Some (At t i)"
  using assms
proof (induction "unat t - unat f" arbitrary: f logs q)
  case 0
  then have "f = t" by (simp add: word_le_nat_alt word_unat_eq_iff)
  then show ?case using 0 follow_block_events [of logs t] by (simp add: blocks_of_Cons follow_all_append)
next
  case (Suc n)
  obtain i where i: "follow_all (Some (At f None)) (map Event (takeWhile (\<lambda>l. log_block l = f) logs)
      :: ('e, 'r) message list) = Some (At f i)"
    using follow_block_events [OF Suc.prems(2)] by blast
  have ne: "f \<noteq> t" using Suc.hyps(2) by auto
  then have s: "unat (f + 1) = Suc (unat f)" "checked_add f 1 = Some (f + 1)"
    using Suc.prems(1) unat_less_exp [of t]
    by (auto simp: word_le_nat_alt unat_word_ariths word_unat_eq_iff checked_add_def)
  then have "f + 1 \<le> t" using Suc.hyps(2) by (simp add: word_le_nat_alt)
  then have "\<exists>i'. follow_all (Some (At f i)) (range_messages True (blocks_of (f + 1) t)
      (dropWhile (\<lambda>l. log_block l = f) logs) :: ('e, 'r) message list) = Some (At t i')"
    using s Suc.hyps successively_split [OF Suc.prems(2)] by (intro Suc.hyps(1)) auto
  then show ?case using ne i Suc.prems by (simp add: blocks_of_Cons follow_all_append)
qed

end
