(* ===== verification/Reorg.thy ===== *)
theory Reorg
  imports State_Machine
begin

text \<open>
  What the state machine guarantees about the chain it follows, over any sequence of updates, resumes,
  prunings, restarts and database failures: every live state and every snapshot is the result of a gapless
  and ordered history of blocks and events, a restart continues with the block that was awaited, and a
  range of blocks that is warped over leads to the same state as the same blocks seen one by one.
\<close>

section \<open>Invariant\<close>

fun status_follows :: "status \<Rightarrow> chain_pos option \<Rightarrow> bool" where
  "status_follows Initialized p \<longleftrightarrow> p = Some Fresh"
| "status_follows (BlockPending n) p \<longleftrightarrow> (\<exists>i. n \<noteq> 0 \<and> p = Some (At (n - 1) i))"
| "status_follows (BlockApplied n) p \<longleftrightarrow> p = Some (At n None)"
| "status_follows (BlockEvents n) p \<longleftrightarrow> p = Some (At n None)"
| "status_follows (WarpEvents f t) p \<longleftrightarrow> f \<le> t \<and> (p = Some Fresh \<or> (\<exists>i. f \<noteq> 0 \<and> p = Some (At (f - 1) i)))"

definition tip_below :: "u64 \<Rightarrow> 's snapshots \<Rightarrow> bool" where
  "tip_below n snaps \<longleftrightarrow>
     fBall (fmdom snaps) (\<lambda>k. k < uint n) \<and> (fmdom snaps = {||} \<or> uint n - 1 |\<in>| fmdom snaps)"

fun tip_ok :: "status \<Rightarrow> 's snapshots \<Rightarrow> bool" where
  "tip_ok Initialized snaps \<longleftrightarrow> fmdom snaps = {||}"
| "tip_ok (BlockPending n) snaps \<longleftrightarrow> fmdom snaps \<noteq> {||} \<and> tip_below n snaps"
| "tip_ok (BlockApplied n) snaps \<longleftrightarrow> fmdom snaps \<noteq> {||} \<and> tip_below n snaps"
| "tip_ok (BlockEvents n) snaps \<longleftrightarrow> tip_below n snaps"
| "tip_ok (WarpEvents f t) snaps \<longleftrightarrow> tip_below f snaps"

definition snapshots_placed :: "('e, 'r) history snapshots \<Rightarrow> bool" where
  "snapshots_placed snaps \<longleftrightarrow> keys_fit snaps \<and>
     (\<forall>k h. fmlookup snaps k = Some h \<longrightarrow> (\<exists>i. chain_position h = Some (At (word_of_int k) i)))"

definition history_inv :: "('e, 'r) history machine \<Rightarrow> bool" where
  "history_inv m \<longleftrightarrow> snapshots_placed (snapshots m) \<and>
     (case inner m of None \<Rightarrow> True
      | Some (h, st) \<Rightarrow> status_follows st (chain_position h) \<and> tip_ok st (snapshots m))"

section \<open>Blocks\<close>

lemma checked_add_one: "checked_add b 1 = Some n \<longleftrightarrow> n \<noteq> 0 \<and> b = n - 1" for b n :: u64
proof (cases "b = - 1")
  case True
  then show ?thesis by (auto simp: checked_add_def unat_minus_one_word)
next
  case False
  then have "unat b + 1 < 2 ^ 64" "b + 1 \<noteq> 0" using unat_less_max [of b] by (auto simp: add_eq_0_iff2)
  then show ?thesis by (auto simp: checked_add_def)
qed

lemma next_block_eq: "next_block b = Inr n \<longleftrightarrow> n \<noteq> 0 \<and> b = n - 1"
  by (auto simp: next_block_def simp flip: checked_add_one split: option.splits)

lemma word_of_predecessor: "word_of_int (uint n - 1) = n - 1" for n :: u64
  by simp

section \<open>Snapshots\<close>

lemma tip_below_commit:
  "tip_below f snaps \<Longrightarrow> f \<le> n - 1 \<Longrightarrow> n \<noteq> 0 \<Longrightarrow> tip_below n (fmupd (uint (n - 1)) h snaps)"
proof -
  assume "tip_below f snaps" "f \<le> n - 1" and n: "n \<noteq> 0"
  moreover have "uint (n - 1) = uint n - 1" using n by (simp add: uint_predecessor one_le_iff)
  ultimately show ?thesis by (fastforce simp: tip_below_def word_le_def)
qed

lemma placed_commit:
  assumes "snapshots_placed snaps" "commit db snaps b h = Inr snaps'" "chain_position h = Some (At b i)"
  shows "snapshots_placed snaps'"
  using assms table.commit_valid [of snaps db b h snaps']
  by (auto simp: snapshots_placed_def commit_eq)

lemma placed_reorg:
  assumes "snapshots_placed snaps" "reorg db snaps u = Inr (snaps', p, h)"
  shows "snapshots_placed snaps'" "status_follows (BlockPending u) (chain_position h)" "tip_ok (BlockPending u) snaps'"
proof -
  have r: "u \<noteq> 0" "snaps' = fmfilter (\<lambda>k. k < uint u) snaps" "fmlookup snaps (uint u - 1) = Some h"
    using assms(2) by (simp_all add: reorg_eq)
  show "snapshots_placed snaps'"
    using assms(1) table.reorg_valid [OF _ assms(2)] r(2) by (auto simp: snapshots_placed_def split: if_splits)
  obtain i where "chain_position h = Some (At (word_of_int (uint u - 1)) i)"
    using assms(1) r(3) unfolding snapshots_placed_def by blast
  then show "status_follows (BlockPending u) (chain_position h)" using r(1) by simp
  have "uint u - 1 |\<in>| fmdom snaps'" using r(2,3) by (simp add: fmdomI)
  moreover have "fBall (fmdom snaps') (\<lambda>k. k < uint u)" using r(2) by simp
  ultimately show "tip_ok (BlockPending u) snaps'" by (auto simp: tip_below_def)
qed

lemma prune_tip:
  assumes "tip_below n snaps" "prune db snaps safe = Inr snaps'"
  shows "tip_below n snaps' \<and> (fmdom snaps' = {||} \<longleftrightarrow> fmdom snaps = {||})"
proof (cases "fmdom snaps = {||}")
  case False
  then have tip: "uint n - 1 |\<in>| fmdom snaps" "fBall (fmdom snaps) (\<lambda>k. k < uint n)"
    using assms(1) by (simp_all add: tip_below_def)
  then have "fMax (fmdom snaps) = uint n - 1" by (intro fMax_eqI) fastforce+
  then show ?thesis using tip assms(2) by (auto simp: prune_eq tip_below_def)
qed (use assms in \<open>auto simp: prune_eq tip_below_def\<close>)

section \<open>Every operation keeps the invariant\<close>

lemma range_position:
  assumes "status_follows st (chain_position h)" "accepts_logs st (f, l)" "successively log_before logs"
    and "w = (case st of WarpEvents _ _ \<Rightarrow> True | _ \<Rightarrow> False)"
  shows "\<exists>i. chain_position (h @ range_messages w (blocks_of f l) logs) = Some (At l i)"
proof (cases st)
  case (BlockEvents n)
  then show ?thesis using assms follow_block_events [OF assms(3), of n]
    by (auto simp: accepts_logs_def is_next_in_range_def chain_position_append blocks_of_Cons)
next
  case (WarpEvents a b)
  then obtain q where "chain_position h = Some q" "follow q (NewBlock f :: ('a, 'b) message) = Some (At f None)"
    using assms(1,2) by (auto simp: accepts_logs_def is_next_in_range_def checked_add_one)
  moreover have "f \<le> l" using assms(2) WarpEvents by (auto simp: accepts_logs_def is_next_in_range_def)
  ultimately show ?thesis using follow_warp [OF _ assms(3), of f l q] WarpEvents assms(4)
    by (simp add: chain_position_append)
qed (use assms in \<open>simp_all add: accepts_logs_def\<close>)

lemma accepted_tip: "accepts_logs st (f, l) \<Longrightarrow> tip_ok st snaps \<Longrightarrow> tip_below f snaps \<and> f \<le> l"
  by (auto simp: accepts_logs_def is_next_in_range_def split: status.splits)

lemma status_after_logs_cases:
  assumes "accepts_logs st (f, l)" "status_after_logs st l = Inr st'"
  obtains n t where "st' = WarpEvents n t" "n \<noteq> 0" "l = n - 1" "n \<le> t"
  | n where "st' = BlockPending n" "n \<noteq> 0" "l = n - 1"
  using assms
  by (auto simp: accepts_logs_def status_after_logs_def next_block_eq block_range_def
      split: status.splits if_splits sum.splits)

lemma handle_logs_inv:
  assumes placed: "snapshots_placed snaps" and pos: "status_follows st (chain_position h)" and tip: "tip_ok st snaps"
    and acc: "accepts_logs st (eu_first eu, eu_last eu)"
    and step: "handle_logs record_history db h st snaps eu = Inr (h', st', snaps', cs)"
  shows "snapshots_placed snaps' \<and> status_follows st' (chain_position h') \<and> tip_ok st' snaps'"
proof -
  let ?w = "case st of WarpEvents _ _ \<Rightarrow> True | _ \<Rightarrow> False"
  define h1 where "h1 = h @ range_messages ?w (blocks_of (eu_first eu) (eu_last eu)) (eu_logs eu)"
  obtain cs1 where fed: "feed_blocks record_history ?w (blocks_of (eu_first eu) (eu_last eu)) (eu_logs eu) (h, []) = (h1, cs1)"
    using feed_record [of "(h, [])"] by (metis feed_blocks_eq fst_conv h1_def prod.collapse)
  have sorted: "successively log_before (eu_logs eu)" using step by (auto simp: handle_logs_def split: if_splits)
  obtain st1 snaps1 where st1: "status_after_logs st (eu_last eu) = Inr st1"
    and c: "commit db snaps (eu_last eu) h1 = Inr snaps1"
    using step fed by (auto simp: handle_logs_def split: if_splits sum.splits)
  obtain i where i: "chain_position h1 = Some (At (eu_last eu) i)"
    using range_position [OF pos acc sorted refl] by (auto simp: h1_def)
  note p1 = placed_commit [OF placed c i]
  have s1: "snaps1 = fmupd (uint (eu_last eu)) h1 snaps" using c by (simp add: commit_eq)
  from acc st1 show ?thesis
  proof (cases rule: status_after_logs_cases)
    case (1 n t)
    then have "h' = h1" "st' = WarpEvents n t" "snaps' = snaps1"
      using step fed st1 c by (simp_all add: handle_logs_def split: if_splits)
    then show ?thesis using 1 i p1 s1 tip_below_commit accepted_tip [OF acc tip] by auto
  next
    case (2 n)
    then have "h' = h1 @ [NewBlock n]" "st' = BlockApplied n" "snaps' = snaps1"
      using step fed st1 c
      by (simp_all add: handle_logs_def accumulate_transition_def record_history_def split: if_splits)
    then show ?thesis using 2 i p1 s1 tip_below_commit accepted_tip [OF acc tip]
      by (auto simp: chain_position_append checked_add_one)
  qed
qed

lemma update_step_inv:
  assumes "snapshots_placed snaps" "status_follows st (chain_position h)" "tip_ok st snaps"
    and "update_step record_history db h st snaps u = Inr (h', st', snaps', cs)"
  shows "snapshots_placed snaps' \<and> status_follows st' (chain_position h') \<and> tip_ok st' snaps'"
proof (cases u)
  case (Logs eu)
  then show ?thesis using assms handle_logs_inv [of snaps st h eu db h' st' snaps' cs] by (simp split: if_splits)
next
  case (BlockUpdate b)
  show ?thesis
  proof (cases b)
    case (Warp f t)
    then show ?thesis using assms BlockUpdate
      by (auto simp: block_range_def tip_below_def split: if_splits)
  next
    case (Uncle n)
    then show ?thesis using assms BlockUpdate placed_reorg [OF assms(1), of db n]
      by (auto split: if_splits sum.splits)
  next
    case (New n hash ts bloom)
    then show ?thesis using assms BlockUpdate
      by (auto simp: record_history_def chain_position_append checked_add_one tip_below_def split: if_splits)
  qed
qed

lemma prune_inv:
  assumes "history_inv m" "prune db (snapshots m) safe = Inr snaps'"
  shows "history_inv (m\<lparr>snapshots := snaps'\<rparr>)"
proof -
  have "snapshots_placed snaps'"
    using assms table.prune_valid [OF _ assms(2)]
    by (auto simp: history_inv_def snapshots_placed_def prune_eq split: if_splits)
  moreover have "tip_ok st (snapshots m) \<Longrightarrow> tip_ok st snaps'" for st
    using prune_tip [OF _ assms(2)] assms(2) by (cases st) (auto simp: prune_eq)
  ultimately show ?thesis using assms(1) by (auto simp: history_inv_def split: option.splits)
qed

lemma restart_eq:
  assumes "keys_fit snaps" "fmdom snaps \<noteq> {||}" "tip_below n snaps" "n \<noteq> 0" "fmlookup snaps (uint n - 1) = Some s"
  shows "with_init True init snaps = Inr \<lparr>inner = Some (s, BlockPending n), snapshots = snaps\<rparr>"
proof -
  have "fMax (fmdom snaps) = uint n - 1"
    using assms(2,3) by (intro fMax_eqI) (fastforce simp: tip_below_def)+
  moreover have "0 \<le> uint n - 1" using uint_predecessor [of n] uint_ge_0 [of "n - 1"] assms(4) one_le_iff [of n] by metis
  moreover have "checked_add (n - 1) 1 = Some n" using assms(4) by (simp add: checked_add_one)
  ultimately show ?thesis using assms(2,5) by (simp add: with_init_def current_def to_u64_def Let_def)
qed

lemma restart_inv:
  assumes "snapshots_placed snaps" "with_init db [] snaps = Inr m'"
  shows "history_inv m'"
proof (cases "fmdom snaps = {||}")
  case True
  then show ?thesis using assms by (auto simp: with_init_def current_def history_inv_def split: if_splits)
next
  case False
  let ?k = "fMax (fmdom snaps)"
  have k: "?k |\<in>| fmdom snaps" using False by simp
  then have fit: "0 \<le> ?k" "?k < 2 ^ 63" using assms(1) by (auto simp: snapshots_placed_def keys_fit_def)
  obtain h where h: "fmlookup snaps ?k = Some h" using k by (auto simp: fmlookup_dom_iff)
  obtain n where n: "checked_add (word_of_int ?k :: u64) 1 = Some n"
    and m': "m' = \<lparr>inner = Some (h, BlockPending n), snapshots = snaps\<rparr>"
    using assms(2) False fit(1) h
    by (auto simp: with_init_def current_def to_u64_def Let_def split: if_splits option.splits)
  then have n': "n \<noteq> 0" "word_of_int ?k = n - 1" by (simp_all add: checked_add_one)
  then have u: "uint n = ?k + 1" using uint_of_key [OF fit] uint_predecessor [of n] by (simp add: one_le_iff)
  obtain i where "chain_position h = Some (At (n - 1) i)"
    using assms(1) h n'(2) unfolding snapshots_placed_def by metis
  moreover have "tip_below n snaps"
    unfolding tip_below_def u using k fMax_ge [of _ "fmdom snaps"] by (auto intro: fBallI simp: less_add_one le_imp_less_Suc)
  ultimately show ?thesis using assms(1) m' n' False by (simp add: history_inv_def)
qed

lemma follow_resume: "follow_all p [Resume r] = p"
  by (cases p) (simp_all add: follow_all_def)

lemma machine_step_inv:
  assumes "history_inv m"
  shows "history_inv (machine_step record_history [] m op)"
proof (cases op)
  case (HandleUpdate u db)
  show ?thesis
  proof (cases "inner m")
    case None
    then show ?thesis using assms HandleUpdate by (simp add: handle_update_def)
  next
    case (Some x)
    obtain h st where x: "x = (h, st)" by (cases x)
    have "snapshots_placed (snapshots m)" "status_follows st (chain_position h)" "tip_ok st (snapshots m)"
      using assms Some x by (simp_all add: history_inv_def)
    note inv = update_step_inv [OF this, of db u]
    show ?thesis
    proof (cases "update_step record_history db h st (snapshots m) u")
      case (Inl err)
      then show ?thesis using assms Some x HandleUpdate by (simp add: handle_update_def history_inv_def)
    next
      case (Inr y)
      then show ?thesis using inv Some x HandleUpdate by (cases y) (simp add: handle_update_def history_inv_def)
    qed
  qed
next
  case (HandleResume r)
  then show ?thesis using assms
    by (auto simp: handle_resume_def record_history_def history_inv_def chain_position_append follow_resume
        split: option.splits)
next
  case (PruneSnapshots safe db)
  then show ?thesis using assms prune_inv [OF assms, of db safe] by (auto simp: prune_machine_def split: sum.splits)
next
  case (Restart db)
  then show ?thesis using assms restart_inv [of "snapshots m" db]
    by (auto simp: history_inv_def split: sum.splits)
qed

interpretation histories: closed_system "machine_step record_history []" history_inv "new_machine []"
  by unfold_locales
    (simp_all add: machine_step_inv, simp add: history_inv_def new_machine_def snapshots_placed_def keys_fit_def)

lemma history_run: "history_inv (machine_run record_history [] ops)"
  unfolding machine_run_def by (rule histories.run_inv)

lemma run_is_image: "machine_run T init ops = map_machine (exec T init) (machine_run record_history [] ops)"
  using history.run_map [of T init "[]"] by simp

lemma live_history:
  assumes "inner (machine_run T init ops) = Some (s, st)"
  shows "\<exists>h. s = exec T init h \<and> status_follows st (chain_position h)"
proof -
  obtain h where "inner (machine_run record_history [] ops) = Some (h, st)" "s = exec T init h"
    using assms unfolding run_is_image [of T] by auto
  then show ?thesis using history_run [of ops] by (auto simp: history_inv_def)
qed

lemma snapshot_history:
  assumes "snapshot_at (snapshots (machine_run T init ops)) b = Some s"
  shows "\<exists>h i. s = exec T init h \<and> chain_position h = Some (At b i)"
proof -
  let ?H = "machine_run record_history [] ops"
  obtain h where "fmlookup (snapshots ?H) (uint b) = Some h" "s = exec T init h"
    using assms unfolding run_is_image [of T] by (auto simp: snapshot_at_iff)
  moreover have "snapshots_placed (snapshots ?H)" using history_run [of ops] by (simp add: history_inv_def)
  ultimately show ?thesis unfolding snapshots_placed_def by (metis word_of_int_uint)
qed

text \<open>The states that a machine holds or has stored.\<close>

definition machine_state :: "'s machine \<Rightarrow> 's \<Rightarrow> bool" where
  "machine_state m s \<longleftrightarrow> (\<exists>st. inner m = Some (s, st)) \<or> (\<exists>b. snapshot_at (snapshots m) b = Some s)"

lemma machine_state_history:
  assumes "machine_state (machine_run T init ops) s"
  shows "\<exists>h. s = exec T init h \<and> chain_position h \<noteq> None"
proof -
  from assms consider st where "inner (machine_run T init ops) = Some (s, st)"
    | b where "snapshot_at (snapshots (machine_run T init ops)) b = Some s"
    by (auto simp: machine_state_def)
  then show ?thesis
  proof cases
    case (1 st)
    from live_history [OF this] obtain h where "s = exec T init h" "status_follows st (chain_position h)" by blast
    then show ?thesis by (cases st) auto
  next
    case 2
    from snapshot_history [OF this] show ?thesis by auto
  qed
qed

text \<open>
  C12: whatever happens to a service (updates in any order, reorgs, resumes, prunings, restarts, database
  failures), its live state is the result of its transition over a history of messages in which blocks
  follow each other without gap or repetition and each event comes after the announcement of its own
  block, in ascending order, and which ends exactly where the machine's status says; and so is every
  stored snapshot, whose history ends at the snapshot's block.
\<close>

theorem states_have_ordered_histories:
  "(\<forall>s st. inner (machine_run T init ops) = Some (s, st) \<longrightarrow>
      (\<exists>h. s = exec T init h \<and> status_follows st (chain_position h))) \<and>
   (\<forall>b s. snapshot_at (snapshots (machine_run T init ops)) b = Some s \<longrightarrow>
      (\<exists>h i. s = exec T init h \<and> chain_position h = Some (At b i)))"
  by (intro conjI allI impI; (rule live_history | rule snapshot_history); assumption)

text \<open>
  A counting service: it numbers the messages it sees.  Two blocks are indexed, the second is rolled back
  and replaced by one with an event.
\<close>

definition count_messages :: "(int, nat, unit, int) service" where
  "count_messages n msg = (n + 1, [n])"

definition replaced_block :: "(nat, unit) machine_op list" where
  "replaced_block =
     [HandleUpdate (BlockUpdate (New 7 70 0 0)) True,
      HandleUpdate (Logs \<lparr>eu_first = 7, eu_last = 7, eu_logs = []\<rparr>) True,
      HandleUpdate (BlockUpdate (New 8 80 0 0)) True,
      HandleUpdate (BlockUpdate (Uncle 8)) True,
      HandleUpdate (BlockUpdate (New 8 81 0 0)) True,
      HandleUpdate (Logs \<lparr>eu_first = 8, eu_last = 8,
        eu_logs = [\<lparr>log_block = 8, log_timestamp = 0, log_index = 3, log_address = 5, log_data = 9\<rparr>]\<rparr>) True]"

lemmas machine_simps = machine_run_def new_machine_def handle_update_def accepts_logs_def accepts_uncle_def
  is_next_in_range_def handle_logs_def status_after_logs_def next_block_def checked_add_def checked_sub_def
  commit_def reorg_def to_i64_def accumulate_transition_def blocks_of_def Let_def

lemma replaced_block_run: "inner (machine_run count_messages 0 replaced_block) = Some (4, BlockApplied 9)"
  by (simp add: replaced_block_def machine_simps count_messages_def)

theorem states_have_ordered_histories_witness:
  "\<exists>h. 4 = exec count_messages 0 h \<and> status_follows (BlockApplied 9) (chain_position h)"
  using states_have_ordered_histories [of count_messages 0 replaced_block] replaced_block_run by blast

section \<open>Restarts\<close>

fun awaited :: "status \<Rightarrow> u64 option" where
  "awaited Initialized = None"
| "awaited (BlockPending n) = Some n"
| "awaited (BlockApplied n) = Some n"
| "awaited (BlockEvents n) = Some n"
| "awaited (WarpEvents f t) = Some f"

lemma fmdom_empty_iff: "fmdom m = {||} \<longleftrightarrow> m = fmempty"
  by (auto intro!: fmap_ext fmdom_notD)

text \<open>
  A restart neither skips nor repeats a block.  Once a snapshot has been stored, restarting the process
  on the same database resumes from the snapshot of the block before the first one whose events were still
  awaited, and waits for that block.
\<close>

lemma restart_resumes_awaited_block:
  assumes "inner (machine_run T init ops) = Some (s, st)" "awaited st = Some n"
    and "snapshots (machine_run T init ops) \<noteq> fmempty"
  shows "\<exists>s'. snapshot_at (snapshots (machine_run T init ops)) (n - 1) = Some s' \<and>
    with_init True init (snapshots (machine_run T init ops)) =
      Inr \<lparr>inner = Some (s', BlockPending n), snapshots = snapshots (machine_run T init ops)\<rparr>"
proof -
  let ?H = "machine_run record_history [] ops" and ?snaps = "snapshots (machine_run T init ops)"
  have dom: "fmdom ?snaps = fmdom (snapshots ?H)" unfolding run_is_image [of T] by simp
  have ne: "fmdom ?snaps \<noteq> {||}" using assms(3) by (auto simp: fmdom_empty_iff)
  obtain h where "inner ?H = Some (h, st)" using assms(1) unfolding run_is_image [of T] by auto
  then have "tip_ok st (snapshots ?H)" and fit: "keys_fit ?snaps"
    using history_run [of ops] dom by (auto simp: history_inv_def snapshots_placed_def keys_fit_def)
  then have tip: "tip_below n ?snaps" using assms(2) dom by (cases st) (auto simp: tip_below_def)
  then have k: "uint n - 1 |\<in>| fmdom ?snaps" using ne by (simp add: tip_below_def)
  then obtain s' where s': "fmlookup ?snaps (uint n - 1) = Some s'" by (auto simp: fmlookup_dom_iff)
  have range: "0 \<le> uint n - 1" "uint n - 1 < 2 ^ 63" using fit k by (auto simp: keys_fit_def)
  then have "n \<noteq> 0" by auto
  then have n: "n \<noteq> 0" "uint (n - 1) = uint n - 1" using uint_predecessor [of n] by (simp_all add: one_le_iff)
  then have "snapshot_at ?snaps (n - 1) = Some s'" using s' range by (simp add: snapshot_at_iff fits_i64_def)
  then show ?thesis using restart_eq [OF fit ne tip n(1) s'] by simp
qed

lemma replaced_block_snapshots:
  "snapshots (machine_run count_messages 0 replaced_block) = fmupd 8 3 (fmupd 7 1 fmempty)"
  by (simp add: replaced_block_def machine_simps count_messages_def)

section \<open>Warping\<close>

fun handle_updates :: "('s, 'e, 'r, 'c) service \<Rightarrow> 's machine \<Rightarrow> 'e update list \<Rightarrow> 's machine \<times> (machine_error + 'c list)" where
  "handle_updates T m [] = (m, Inr [])"
| "handle_updates T m (u # us) =
     (case handle_update T True m u of
        (m', Inl err) \<Rightarrow> (m', Inl err)
      | (m', Inr cs) \<Rightarrow>
          (case handle_updates T m' us of (m'', Inl err) \<Rightarrow> (m'', Inl err) | (m'', Inr ds) \<Rightarrow> (m'', Inr (cs @ ds))))"

definition logs_of :: "u64 \<Rightarrow> 'e event_log list \<Rightarrow> 'e event_log list" where
  "logs_of b logs = filter (\<lambda>l. log_block l = b) logs"

definition block_logs :: "u64 \<Rightarrow> u64 \<Rightarrow> 'e event_log list \<Rightarrow> 'e update" where
  "block_logs f t logs = Logs \<lparr>eu_first = f, eu_last = t, eu_logs = logs\<rparr>"

definition warped :: "u64 \<Rightarrow> u64 \<Rightarrow> 'e event_log list \<Rightarrow> 'e update list" where
  "warped f t logs = [BlockUpdate (Warp f t), block_logs f t logs]"

definition live :: "(u64 \<Rightarrow> b256) \<Rightarrow> (u64 \<Rightarrow> u64) \<Rightarrow> (u64 \<Rightarrow> bloom) \<Rightarrow> u64 list \<Rightarrow> 'e event_log list \<Rightarrow> 'e update list" where
  "live hash time bloom bs logs =
     concat (map (\<lambda>b. [BlockUpdate (New b (hash b) (time b) (bloom b)), block_logs b b (logs_of b logs)]) bs)"

lemma feed_acc: "feed T (s, cs) ms = (fst (feed T (s, []) ms), cs @ snd (feed T (s, []) ms))"
proof (induction ms arbitrary: s cs)
  case (Cons m ms)
  obtain s' c where "T s m = (s', c)" by (cases "T s m")
  then show ?case using Cons [of s' "cs @ c"] Cons [of s' c] by (simp add: accumulate_transition_def)
qed simp

lemma log_before_trans: "transp log_before"
  by (auto simp: transp_def log_before_def)

lemma sorted_logs_filter: "successively log_before logs \<Longrightarrow> successively log_before (filter P logs)"
  by (simp add: successively_conv_sorted_wrt [OF log_before_trans] sorted_wrt_filter)

lemma logs_split:
  assumes "successively log_before logs" "\<forall>l\<in>set logs. f \<le> log_block l"
  shows "takeWhile (\<lambda>l. log_block l = f) logs = logs_of f logs"
    and "dropWhile (\<lambda>l. log_block l = f) logs = filter (\<lambda>l. log_block l \<noteq> f) logs"
proof -
  have sorted: "sorted_wrt log_before logs"
    using assms(1) by (simp add: successively_conv_sorted_wrt [OF log_before_trans])
  have "l \<in> set (dropWhile (\<lambda>l. log_block l = f) logs) \<Longrightarrow> log_block l \<noteq> f" for l
    using sorted assms(2)
  proof (induction logs)
    case (Cons a logs)
    show ?case
    proof (cases "log_block a = f")
      case False
      then have "f < log_block a" using Cons.prems(3) by auto
      moreover have "l = a \<or> log_before a l" using Cons.prems(1,2) False by auto
      ultimately show ?thesis by (auto simp: log_before_def)
    qed (use Cons in auto)
  qed simp
  then have drop: "filter (\<lambda>l. log_block l = f) (dropWhile (\<lambda>l. log_block l = f) logs) = []"
    "filter (\<lambda>l. log_block l \<noteq> f) (dropWhile (\<lambda>l. log_block l = f) logs) = dropWhile (\<lambda>l. log_block l = f) logs"
    unfolding filter_empty_conv filter_id_conv by blast+
  have take: "filter (\<lambda>l. log_block l = f) (takeWhile (\<lambda>l. log_block l = f) logs) = takeWhile (\<lambda>l. log_block l = f) logs"
    "filter (\<lambda>l. log_block l \<noteq> f) (takeWhile (\<lambda>l. log_block l = f) logs) = []"
    unfolding filter_empty_conv filter_id_conv by (blast dest: set_takeWhileD)+
  have split: "filter P logs =
      filter P (takeWhile (\<lambda>l. log_block l = f) logs) @ filter P (dropWhile (\<lambda>l. log_block l = f) logs)" for P
    by (simp flip: filter_append)
  show "takeWhile (\<lambda>l. log_block l = f) logs = logs_of f logs"
    unfolding logs_of_def by (subst split) (simp add: drop take)
  show "dropWhile (\<lambda>l. log_block l = f) logs = filter (\<lambda>l. log_block l \<noteq> f) logs"
    by (subst split) (simp add: drop take)
qed

lemma logs_of_other: "b \<noteq> f \<Longrightarrow> logs_of b (filter (\<lambda>l. log_block l \<noteq> f) logs) = logs_of b logs"
  by (auto simp: logs_of_def intro: filter_cong)

lemma live_skip: "f \<notin> set bs \<Longrightarrow> live hash time bloom bs (filter (\<lambda>l. log_block l \<noteq> f) logs) = live hash time bloom bs logs"
  unfolding live_def by (rule arg_cong [of _ _ concat], rule map_cong, simp) (metis logs_of_other)

lemma block_successor: "b + 1 \<noteq> 0" if "uint b + 1 < 2 ^ 63" for b :: u64
proof -
  have "b \<noteq> - 1" using that by (auto simp: unsigned_minus_1_eq_mask mask_eq_exp_minus_1)
  then show ?thesis using successor_facts by blast
qed

lemma live_Cons: "live hash time bloom (b # bs) logs = live hash time bloom [b] logs @ live hash time bloom bs logs"
  by (simp add: live_def)

text \<open>One block observed live, from the moment its transition has been applied.\<close>

lemma live_block:
  assumes "inner m = Some (s, BlockApplied b)" "successively log_before logs" "uint b + 1 < 2 ^ 63"
  shows "\<exists>snaps s' cs. handle_updates T m (live hash time bloom [b] logs) =
       (\<lparr>inner = Some (s', BlockApplied (b + 1)), snapshots = snaps\<rparr>, Inr cs) \<and>
     feed T (s, []) (map Event (logs_of b logs) @ [NewBlock (b + 1)]) = (s', cs) \<and>
     snapshot_at snaps b = Some (fst (feed T (s, []) (map Event (logs_of b logs))))"
proof -
  have n: "next_block b = Inr (b + 1)"
    using block_successor [OF assms(3)] by (simp add: next_block_eq)
  have k: "uint b < 2 ^ 63" using assms(3) by simp
  have logs: "successively log_before (logs_of b logs)" "\<forall>l\<in>set (logs_of b logs). log_block l = b"
    using sorted_logs_filter [OF assms(2)] by (simp_all add: logs_of_def)
  obtain s' cs where fed: "feed T (s, []) (map Event (logs_of b logs) @ [NewBlock (b + 1)]) = (s', cs)"
    by (cases rule: prod.exhaust)
  then show ?thesis
    using assms(1) n k logs
    by (simp add: live_def block_logs_def handle_update_def accepts_logs_def is_next_in_range_def handle_logs_def
        blocks_of_Cons feed_blocks_eq takeWhile_eq_all_conv [THEN iffD2] status_after_logs_def commit_def to_i64_def
        split_def Let_def list_all_iff feed_append snapshot_at_def)
qed

lemma handle_updates_append:
  "handle_updates T m us = (m', Inr cs) \<Longrightarrow> handle_updates T m' vs = (m'', Inr ds) \<Longrightarrow>
   handle_updates T m (us @ vs) = (m'', Inr (cs @ ds))"
  by (induction us arbitrary: m cs) (auto split: prod.splits sum.splits)

lemma range_messages_Cons:
  assumes "f \<le> t" "successively log_before logs" "\<forall>l\<in>set logs. f \<le> log_block l"
  shows "range_messages True (blocks_of f t) logs =
    NewBlock f # map Event (logs_of f logs) @
      (if f = t then [] else range_messages True (blocks_of (f + 1) t) (filter (\<lambda>l. log_block l \<noteq> f) logs))"
  by (simp add: blocks_of_Cons [OF assms(1)] logs_split [OF assms(2,3)])

lemma blocks_after: "f \<le> t \<Longrightarrow> f \<noteq> t \<Longrightarrow> f \<notin> set (blocks_of (f + 1) t) \<and> f + 1 \<le> t \<and> unat (f + 1) = Suc (unat f)"
proof -
  assume "f \<le> t" "f \<noteq> t"
  then have lt: "unat f < unat t" by (auto simp: word_le_nat_alt word_unat_eq_iff)
  then have s: "unat (f + 1) = Suc (unat f)" using unat_less_exp [of t] by (simp add: unat_word_ariths)
  have "x \<in> set (blocks_of (f + 1) t) \<Longrightarrow> unat f < unat x" for x
    using unat_less_exp [of t] s by (auto simp: blocks_of_def unat_of_nat simp del: upt_Suc)
  then show ?thesis using s lt by (auto simp: word_le_nat_alt)
qed

lemma live_from_applied:
  fixes T :: "('s, 'e, 'r, 'c) service"
  assumes "inner m = Some (s, BlockApplied f)" "f \<le> t" "successively log_before logs"
    and "\<forall>l\<in>set logs. f \<le> log_block l" "uint t + 1 < 2 ^ 63"
  shows "\<exists>snaps s' cs. handle_updates T m (live hash time bloom (blocks_of f t) logs) =
       (\<lparr>inner = Some (s', BlockApplied (t + 1)), snapshots = snaps\<rparr>, Inr cs) \<and>
     feed T (s, []) (tl (range_messages True (blocks_of f t) logs) @ [NewBlock (t + 1)]) = (s', cs) \<and>
     snapshot_at snaps t = Some (fst (feed T (s, []) (tl (range_messages True (blocks_of f t) logs))))"
  using assms
proof (induction "unat t - unat f" arbitrary: f m s logs)
  case 0
  then have "f = t" by (simp add: word_le_nat_alt word_unat_eq_iff)
  then show ?case
    using live_block [OF 0(2,4), of T hash time bloom] 0 by (simp add: blocks_of_Cons logs_split)
next
  case (Suc n)
  then have "f \<noteq> t" by auto
  note after = blocks_after [OF Suc.prems(2) this]
  let ?rest = "filter (\<lambda>l. log_block l \<noteq> f) logs"
  have "uint f + 1 < 2 ^ 63" using Suc.prems(2,5) by (simp add: word_le_def)
  from live_block [OF Suc.prems(1,3) this, of T hash time bloom] obtain snaps s1 cs where
    first: "handle_updates T m (live hash time bloom [f] logs) =
        (\<lparr>inner = Some (s1, BlockApplied (f + 1)), snapshots = snaps\<rparr>, Inr cs)"
    and fed: "feed T (s, []) (map Event (logs_of f logs) @ [NewBlock (f + 1)]) = (s1, cs)"
    by blast
  define m1 where "m1 = \<lparr>inner = Some (s1, BlockApplied (f + 1)), snapshots = snaps\<rparr>"
  define tail :: "('e, 'r) message list" where "tail = tl (range_messages True (blocks_of (f + 1) t) ?rest)"
  have above: "\<forall>l\<in>set ?rest. f + 1 \<le> log_block l"
  proof
    fix l assume "l \<in> set ?rest"
    then have "unat f \<le> unat (log_block l)" "unat f \<noteq> unat (log_block l)"
      using Suc.prems(4) by (auto simp: word_le_nat_alt word_unat_eq_iff)
    then show "f + 1 \<le> log_block l" using after by (simp add: word_le_nat_alt)
  qed
  have "n = unat t - unat (f + 1)" "inner m1 = Some (s1, BlockApplied (f + 1))"
    using Suc.hyps(2) after by (simp_all add: m1_def)
  from Suc.hyps(1) [OF this conjunct1 [OF conjunct2 [OF after]] sorted_logs_filter [OF Suc.prems(3)] above Suc.prems(5)]
  obtain snaps' s2 ds where
    others: "handle_updates T m1 (live hash time bloom (blocks_of (f + 1) t) ?rest) =
        (\<lparr>inner = Some (s2, BlockApplied (t + 1)), snapshots = snaps'\<rparr>, Inr ds)"
    and fed': "feed T (s1, []) (tail @ [NewBlock (t + 1)]) = (s2, ds)"
    and snap: "snapshot_at snaps' t = Some (fst (feed T (s1, []) tail))"
    unfolding tail_def by blast
  have split: "range_messages True (blocks_of f t) logs =
      NewBlock f # (map Event (logs_of f logs) @ [NewBlock (f + 1)]) @ tail"
    using Suc.prems(2-4) after above sorted_logs_filter [OF Suc.prems(3)] \<open>f \<noteq> t\<close>
    by (simp add: range_messages_Cons tail_def)
  have "live hash time bloom (blocks_of f t) logs = live hash time bloom [f] logs @ live hash time bloom (blocks_of (f + 1) t) ?rest"
    using live_skip [of f "blocks_of (f + 1) t" hash time bloom logs] after \<open>f \<noteq> t\<close>
    by (subst blocks_of_Cons [OF Suc.prems(2)]) (simp add: live_Cons [of hash time bloom f "blocks_of (f + 1) t"])
  then have steps: "handle_updates T m (live hash time bloom (blocks_of f t) logs) =
      (\<lparr>inner = Some (s2, BlockApplied (t + 1)), snapshots = snaps'\<rparr>, Inr (cs @ ds))"
    using handle_updates_append first others unfolding m1_def by fastforce
  have all: "feed T (s, []) ((map Event (logs_of f logs) @ [NewBlock (f + 1)]) @ x) =
      (fst (feed T (s1, []) x), cs @ snd (feed T (s1, []) x))" for x
    by (subst feed_append) (simp only: fed feed_acc [of T s1 cs x])
  have "feed T (s, []) (tl (range_messages True (blocks_of f t) logs) @ [NewBlock (t + 1)]) = (s2, cs @ ds)"
    using all [of "tail @ [NewBlock (t + 1)]"] fed' unfolding split by simp
  moreover have "fst (feed T (s, []) (tl (range_messages True (blocks_of f t) logs))) = fst (feed T (s1, []) tail)"
    using all [of tail] unfolding split by simp
  ultimately show ?case using steps snap by simp
qed

lemma live_from_pending:
  assumes "inner m = Some (s, BlockPending f)" "T s (NewBlock f) = (s1, c0)" "f \<le> t"
    and "handle_updates T (m\<lparr>inner := Some (s1, BlockApplied f)\<rparr>) (live hash time bloom (blocks_of f t) logs) = (m', Inr cs)"
  shows "handle_updates T m (live hash time bloom (blocks_of f t) logs) = (m', Inr (c0 @ cs))"
proof -
  obtain us where "live hash time bloom (blocks_of f t) logs = BlockUpdate (New f (hash f) (time f) (bloom f)) # us"
    using assms(3) by (simp add: live_def blocks_of_Cons)
  then show ?thesis using assms by (auto simp: handle_update_def split: prod.splits sum.splits)
qed

lemma warped_updates:
  assumes "inner m = Some (s, BlockPending f)" "f \<le> t" "successively log_before logs"
    and "\<forall>l\<in>set logs. f \<le> log_block l \<and> log_block l \<le> t" "uint t + 1 < 2 ^ 63"
  shows "\<exists>snaps s' cs. handle_updates T m (warped f t logs) =
       (\<lparr>inner = Some (s', BlockApplied (t + 1)), snapshots = snaps\<rparr>, Inr cs) \<and>
     feed T (s, []) (range_messages True (blocks_of f t) logs @ [NewBlock (t + 1)]) = (s', cs) \<and>
     snapshot_at snaps t = Some (fst (feed T (s, []) (range_messages True (blocks_of f t) logs)))"
proof -
  have n: "next_block t = Inr (t + 1)" using block_successor [OF assms(5)] by (simp add: next_block_eq)
  have k: "uint t < 2 ^ 63" using assms(5) by simp
  obtain s' cs where "feed T (s, []) (range_messages True (blocks_of f t) logs @ [NewBlock (t + 1)]) = (s', cs)"
    by (cases rule: prod.exhaust)
  then show ?thesis
    using assms(1-4) n k
    by (simp add: warped_def block_logs_def handle_update_def accepts_logs_def is_next_in_range_def block_range_def
        handle_logs_def feed_blocks_eq status_after_logs_def commit_def to_i64_def split_def Let_def list_all_iff
        feed_append snapshot_at_def)
qed

text \<open>
  C25: catching up equals following along.  When a machine waits for a block, warping over a range of blocks
  with all their logs in one update leads to the same live state and status, the same commands in the same
  order and the same snapshot of the last block as observing the blocks one by one with their own logs,
  whatever their hashes, timestamps and bloom filters.
\<close>

theorem warp_equals_live:
  assumes "inner m = Some (s, BlockPending f)" "f \<le> t" "successively log_before logs"
    and "\<forall>l\<in>set logs. f \<le> log_block l \<and> log_block l \<le> t" "uint t + 1 < 2 ^ 63"
  shows "\<exists>m1 m2 cs. handle_updates T m (warped f t logs) = (m1, Inr cs) \<and>
    handle_updates T m (live hash time bloom (blocks_of f t) logs) = (m2, Inr cs) \<and>
    inner m1 = inner m2 \<and> (\<exists>s'. inner m1 = Some (s', BlockApplied (t + 1))) \<and>
    snapshot_at (snapshots m1) t = snapshot_at (snapshots m2) t \<and> snapshot_at (snapshots m1) t \<noteq> None"
proof -
  obtain s1 c0 where T: "T s (NewBlock f) = (s1, c0)" by (cases "T s (NewBlock f)")
  have above: "\<forall>l\<in>set logs. f \<le> log_block l" using assms(4) by simp
  let ?R = "range_messages True (blocks_of f t) logs"
  have R: "?R = NewBlock f # tl ?R" by (subst range_messages_Cons [OF assms(2,3) above])+ simp
  have fed: "feed T (s, []) (NewBlock f # x) = (fst (feed T (s1, []) x), c0 @ snd (feed T (s1, []) x))" for x
    using feed_acc [of T s1 c0 x] T by (simp add: accumulate_transition_def)
  obtain snaps2 s2 cs2 where
    a: "handle_updates T (m\<lparr>inner := Some (s1, BlockApplied f)\<rparr>) (live hash time bloom (blocks_of f t) logs) =
       (\<lparr>inner = Some (s2, BlockApplied (t + 1)), snapshots = snaps2\<rparr>, Inr cs2)"
    and b: "feed T (s1, []) (tl ?R @ [NewBlock (t + 1)]) = (s2, cs2)"
    and c: "snapshot_at snaps2 t = Some (fst (feed T (s1, []) (tl ?R)))"
    using live_from_applied [of "m\<lparr>inner := Some (s1, BlockApplied f)\<rparr>" s1 f t logs T hash time bloom] assms(2,3,5) above
    by auto
  note live = live_from_pending [of m s f T s1 c0, OF assms(1) T assms(2) a]
  obtain snaps1 s' cs where
    w: "handle_updates T m (warped f t logs) = (\<lparr>inner = Some (s', BlockApplied (t + 1)), snapshots = snaps1\<rparr>, Inr cs)"
    and f1: "feed T (s, []) (?R @ [NewBlock (t + 1)]) = (s', cs)"
    and f2: "snapshot_at snaps1 t = Some (fst (feed T (s, []) ?R))"
    using warped_updates [OF assms, of T] by blast
  have "s' = s2" "cs = c0 @ cs2"
    using f1 fed [of "tl ?R @ [NewBlock (t + 1)]"] b by (metis R append_Cons fst_conv snd_conv)+
  moreover have "snapshot_at snaps1 t = snapshot_at snaps2 t"
    using f2 c fed [of "tl ?R"] by (metis R fst_conv)
  ultimately show ?thesis using w live c by auto
qed

theorem warp_equals_live_witness:
  "\<exists>m1 m2 cs. handle_updates count_messages \<lparr>inner = Some (5, BlockPending 7), snapshots = fmempty\<rparr>
      (warped 7 9 [\<lparr>log_block = 8, log_timestamp = 0, log_index = 3, log_address = 5, log_data = 9\<rparr>]) = (m1, Inr cs) \<and>
    inner m1 = inner m2 \<and>
    handle_updates count_messages \<lparr>inner = Some (5, BlockPending 7), snapshots = fmempty\<rparr>
      (live (\<lambda>_. 0) (\<lambda>_. 0) (\<lambda>_. 0) (blocks_of 7 9)
        [\<lparr>log_block = 8, log_timestamp = 0, log_index = 3, log_address = 5, log_data = 9\<rparr>]) = (m2, Inr cs)"
proof -
  let ?m = "\<lparr>inner = Some (5, BlockPending 7), snapshots = fmempty\<rparr> :: int machine"
  let ?logs = "[\<lparr>log_block = 8, log_timestamp = 0, log_index = 3, log_address = 5, log_data = 9\<rparr>] :: nat event_log list"
  have "inner ?m = Some (5, BlockPending 7)" "(7 :: u64) \<le> 9" "successively log_before ?logs"
    "\<forall>l\<in>set ?logs. 7 \<le> log_block l \<and> log_block l \<le> 9" "uint (9 :: u64) + 1 < 2 ^ 63"
    by simp_all
  from warp_equals_live [OF this, of count_messages "\<lambda>_. 0" "\<lambda>_. 0" "\<lambda>_. 0"] show ?thesis by blast
qed

end
