(* ===== verification/Effects.thy ===== *)
theory Effects
  imports Reorg "HOL-Library.Multiset"
begin

text \<open>
  Effects and the tasks that perform them (\<^verbatim>\<open>crates/core/src/effects.rs\<close>).  The state machine hands out effects,
  each is performed by a task of its own, and the results come back in the order in which the tasks complete.
  The handler is a parameter, as in the code: what it does between two of its waits is one step on the world
  that its tasks share.  A service's state machine is composed with its tasks into a system, in which updates,
  steps of tasks, panics, resumes, housekeeping and reboots interleave freely.
\<close>

section \<open>The effect manager\<close>

datatype ('f, 'p, 'r) task =
    Running 'f 'p
  | Finished 'f 'r
  | Panicked 'f

fun task_effect :: "('f, 'p, 'r) task \<Rightarrow> 'f" where
  "task_effect (Running f p) = f"
| "task_effect (Finished f r) = f"
| "task_effect (Panicked f) = f"

text \<open>
  The handler: where a task begins, one step of a task, which leaves it at its next wait or with a result,
  and the maintenance at a new block.  Each takes what it finds outside of the program.
\<close>

record ('w, 'x, 'f, 'p, 'r) effect_handler =
  eh_begin :: "'f \<Rightarrow> 'p"
  eh_work :: "'x \<Rightarrow> 'w \<Rightarrow> 'f \<Rightarrow> 'p \<Rightarrow> 'w \<times> ('p + 'r)"
  eh_housekeeping :: "'x \<Rightarrow> 'w \<Rightarrow> block_status \<Rightarrow> 'w"

definition spawned_effects :: "('a, 'f) command list \<Rightarrow> 'f list" where
  "spawned_effects cmds = concat (map (\<lambda>c. case c of Action _ \<Rightarrow> [] | Effect f \<Rightarrow> [f]) cmds)"

definition spawn_task :: "('w, 'x, 'f, 'p, 'r) effect_handler \<Rightarrow> ('f, 'p, 'r) task list \<Rightarrow> 'f \<Rightarrow> ('f, 'p, 'r) task list" where
  "spawn_task eh tasks f = tasks @ [Running f (eh_begin eh f)]"

definition without :: "nat \<Rightarrow> 'b list \<Rightarrow> 'b list" where
  "without k xs = take k xs @ drop (Suc k) xs"

text \<open>
  Awaiting the next result.  The first argument tells in which order the tasks complete; when it ends, or
  names a task that still runs, the caller has stopped waiting.
\<close>

fun next_resume :: "nat list \<Rightarrow> ('f, 'p, 'r) task list \<Rightarrow> ('f, 'p, 'r) task list \<times> 'r option" where
  "next_resume [] tasks = (tasks, None)"
| "next_resume (k # ks) tasks =
     (if k < length tasks
      then case tasks ! k of
             Finished f r \<Rightarrow> (without k tasks, Some r)
           | Panicked f \<Rightarrow> next_resume ks (without k tasks)
           | Running f p \<Rightarrow> (tasks, None)
      else (tasks, None))"

text \<open>
  One step of a task, and its failure: a task may fail before it is done, also after the last of its steps that
  the world sees.
\<close>

definition work_task :: "('w, 'x, 'f, 'p, 'r) effect_handler \<Rightarrow> 'x \<Rightarrow> 'w \<Rightarrow> ('f, 'p, 'r) task list \<Rightarrow> nat \<Rightarrow>
    'w \<times> ('f, 'p, 'r) task list" where
  "work_task eh x w tasks k =
     (if k < length tasks
      then case tasks ! k of
             Running f p \<Rightarrow> (case eh_work eh x w f p of
                 (w, Inl p) \<Rightarrow> (w, tasks[k := Running f p])
               | (w, Inr r) \<Rightarrow> (w, tasks[k := Finished f r]))
           | _ \<Rightarrow> (w, tasks)
      else (w, tasks))"

definition panic_task :: "('f, 'p, 'r) task list \<Rightarrow> nat \<Rightarrow> ('f, 'p, 'r) task list" where
  "panic_task tasks k =
     (if k < length tasks then tasks[k := Panicked (task_effect (tasks ! k))] else tasks)"

subsection \<open>No result is lost or made up\<close>

fun live_task :: "('f, 'p, 'r) task \<Rightarrow> bool" where
  "live_task (Panicked f) \<longleftrightarrow> False"
| "live_task _ \<longleftrightarrow> True"

lemma without_mset: "k < length xs \<Longrightarrow> mset xs = add_mset (xs ! k) (mset (without k xs))"
  by (metis id_take_nth_drop mset_append mset.simps(2) union_mset_add_mset_right without_def)

lemma without_subset: "set (without k xs) \<subseteq> set xs"
  by (auto simp: without_def dest: in_set_takeD in_set_dropD)

lemma next_resume_conserves:
  "next_resume ks tasks = (tasks', res) \<Longrightarrow>
   \<exists>joined. filter_mset live_task (mset tasks) = filter_mset live_task (mset tasks') + joined \<and>
     (case res of None \<Rightarrow> joined = {#} | Some r \<Rightarrow> \<exists>f. joined = {#Finished f r#})"
proof (induction ks tasks rule: next_resume.induct)
  case (2 k ks tasks)
  show ?case
  proof (cases "k < length tasks")
    case True
    note m = without_mset [OF True]
    show ?thesis
    proof (cases "tasks ! k")
      case (Panicked f)
      then have "next_resume ks (without k tasks) = (tasks', res)" using 2 True by simp
      from 2(1) [OF True Panicked this] show ?thesis using m Panicked by simp
    qed (use 2 True m in auto)
  qed (use 2 in auto)
qed auto

lemma next_resume_tasks:
  assumes "next_resume ks tasks = (tasks', res)"
  shows "set tasks' \<subseteq> set tasks" "res = Some r \<Longrightarrow> \<exists>f. Finished f r \<in> set tasks"
  using assms
  by (induction ks tasks rule: next_resume.induct)
    (auto split: if_splits task.splits dest!: subsetD [OF without_subset], metis nth_mem)

section \<open>A service with its tasks\<close>

text \<open>
  The machine of a service, its tasks and the world they share, with the record of the commands that were
  sent and of the events and results that the machine was told.
\<close>

record ('s, 'w, 'e, 'f, 'p, 'r, 'a) system =
  sy_machine :: "'s machine"
  sy_tasks :: "('f, 'p, 'r) task list"
  sy_world :: 'w
  sy_sent :: "('a, 'f) command list"
  sy_heard :: "('e, 'r) message list"

datatype ('e, 'x) system_op =
    SysUpdate "'e update" bool u64 bool
  | SysResume "nat list"
  | SysWork nat 'x
  | SysPanic nat
  | SysKeep block_status 'x
  | SysReboot bool

definition send_commands :: "('w, 'x, 'f, 'p, 'r) effect_handler \<Rightarrow> ('s, 'w, 'e, 'f, 'p, 'r, 'a) system \<Rightarrow>
    ('a, 'f) command list \<Rightarrow> ('s, 'w, 'e, 'f, 'p, 'r, 'a) system" where
  "send_commands eh sy cmds =
     sy\<lparr>sy_tasks := foldl (spawn_task eh) (sy_tasks sy) (spawned_effects cmds), sy_sent := sy_sent sy @ cmds\<rparr>"

definition events_of :: "'e update \<Rightarrow> ('e, 'r) message list" where
  "events_of u = (case u of Logs eu \<Rightarrow> map Event (eu_logs eu) | BlockUpdate _ \<Rightarrow> [])"

text \<open>
  An update is handled and the snapshots are pruned before its commands are sent.  A reboot aborts the tasks
  and opens the machine on its snapshots; the world outside the snapshots is left as it is.
\<close>

fun system_step :: "('s, 'e, 'r, ('a, 'f) command) service \<Rightarrow> 's \<Rightarrow> ('w, 'x, 'f, 'p, 'r) effect_handler \<Rightarrow>
    ('s, 'w, 'e, 'f, 'p, 'r, 'a) system \<Rightarrow> ('e, 'x) system_op \<Rightarrow> ('s, 'w, 'e, 'f, 'p, 'r, 'a) system" where
  "system_step T init eh sy (SysUpdate u db safe db') =
     (let sy = sy\<lparr>sy_heard := sy_heard sy @ events_of u\<rparr>
      in case handle_update T db (sy_machine sy) u of
           (m, Inl err) \<Rightarrow> sy\<lparr>sy_machine := m\<rparr>
         | (m, Inr cmds) \<Rightarrow>
             (case prune_machine db' m safe of
                (m, Inl err) \<Rightarrow> sy\<lparr>sy_machine := m\<rparr>
              | (m, Inr _) \<Rightarrow> send_commands eh (sy\<lparr>sy_machine := m\<rparr>) cmds))"
| "system_step T init eh sy (SysResume ks) =
     (case next_resume ks (sy_tasks sy) of
        (tasks, None) \<Rightarrow> sy\<lparr>sy_tasks := tasks\<rparr>
      | (tasks, Some r) \<Rightarrow>
          let sy = sy\<lparr>sy_tasks := tasks, sy_heard := sy_heard sy @ [Resume r]\<rparr>
          in (case handle_resume T (sy_machine sy) r of
                (m, Inl err) \<Rightarrow> sy\<lparr>sy_machine := m\<rparr>
              | (m, Inr cmds) \<Rightarrow> send_commands eh (sy\<lparr>sy_machine := m\<rparr>) cmds))"
| "system_step T init eh sy (SysWork k x) =
     (case work_task eh x (sy_world sy) (sy_tasks sy) k of (w, tasks) \<Rightarrow> sy\<lparr>sy_world := w, sy_tasks := tasks\<rparr>)"
| "system_step T init eh sy (SysPanic k) = sy\<lparr>sy_tasks := panic_task (sy_tasks sy) k\<rparr>"
| "system_step T init eh sy (SysKeep st x) = sy\<lparr>sy_world := eh_housekeeping eh x (sy_world sy) st\<rparr>"
| "system_step T init eh sy (SysReboot db) =
     sy\<lparr>sy_machine := machine_step T init (sy_machine sy) (Restart db), sy_tasks := []\<rparr>"

definition new_system :: "'s \<Rightarrow> 'w \<Rightarrow> ('s, 'w, 'e, 'f, 'p, 'r, 'a) system" where
  "new_system init w = \<lparr>sy_machine = new_machine init, sy_tasks = [], sy_world = w, sy_sent = [], sy_heard = []\<rparr>"

definition system_run :: "('s, 'e, 'r, ('a, 'f) command) service \<Rightarrow> 's \<Rightarrow> ('w, 'x, 'f, 'p, 'r) effect_handler \<Rightarrow> 'w \<Rightarrow>
    ('e, 'x) system_op list \<Rightarrow> ('s, 'w, 'e, 'f, 'p, 'r, 'a) system" where
  "system_run T init eh w ops = run_from (system_step T init eh) (new_system init w) ops"

section \<open>Histories of a system\<close>

text \<open>What a message tells the machine besides the number of a block.\<close>

fun told :: "('e, 'r) message \<Rightarrow> bool" where
  "told (NewBlock b) \<longleftrightarrow> False"
| "told _ \<longleftrightarrow> True"

definition heard :: "('e, 'r) history \<Rightarrow> ('e, 'r) message set" where
  "heard h = {msg \<in> set h. told msg}"

lemma heard_append [simp]: "heard (h @ ms) = heard h \<union> heard ms"
  by (auto simp: heard_def)

lemma heard_simps [simp]:
  "heard [] = {}" "heard [NewBlock b] = {}" "heard [Event log] = {Event log}" "heard [Resume r] = {Resume r}"
  by (auto simp: heard_def)

lemma heard_range: "heard (range_messages w bs logs) \<subseteq> set (map Event logs)"
proof (induction w bs logs rule: range_messages.induct)
  case (2 w b bs logs)
  then show ?case
    by (fastforce simp: heard_def dest: set_takeWhileD set_dropWhileD)
qed simp

text \<open>The histories that a recording machine holds are made of what was heard.\<close>

definition machine_heard :: "('e, 'r) message set \<Rightarrow> ('e, 'r) history machine \<Rightarrow> bool" where
  "machine_heard R m \<longleftrightarrow> (\<forall>h st. inner m = Some (h, st) \<longrightarrow> heard h \<subseteq> R) \<and>
     (\<forall>k h. fmlookup (snapshots m) k = Some h \<longrightarrow> heard h \<subseteq> R)"

lemma machine_heard_mono: "machine_heard R m \<Longrightarrow> R \<subseteq> R' \<Longrightarrow> machine_heard R' m"
  unfolding machine_heard_def by blast

definition recorded_heard :: "('e, 'r) message set \<Rightarrow> (('e, 'r) history \<times> ('e, 'r) message) list \<Rightarrow> bool" where
  "recorded_heard R cs \<longleftrightarrow> (\<forall>(h, msg) \<in> set cs. heard (h @ [msg]) \<subseteq> R)"

lemma recorded_heard_snoc [simp]:
  "recorded_heard R (cs @ [(h, msg)]) \<longleftrightarrow> recorded_heard R cs \<and> heard h \<subseteq> R \<and> heard [msg] \<subseteq> R"
  by (auto simp: recorded_heard_def)

lemma feed_record_heard:
  "heard (fst acc @ ms) \<subseteq> R \<Longrightarrow> recorded_heard R (snd acc) \<Longrightarrow> recorded_heard R (snd (feed record_history acc ms))"
proof (induction ms arbitrary: acc)
  case (Cons msg ms)
  show ?case unfolding feed_simps
    by (rule Cons.IH) (use Cons.prems in \<open>auto simp: accumulate_transition_def record_history_def recorded_heard_def heard_def\<close>)
qed simp

lemma update_step_heard:
  assumes "heard h \<subseteq> R" "\<And>k h. fmlookup snaps k = Some h \<Longrightarrow> heard h \<subseteq> R" "set (events_of u) \<subseteq> R"
    and "update_step record_history db h st snaps u = Inr (h', st', snaps', cs)"
  shows "heard h' \<subseteq> R \<and> (\<forall>k h. fmlookup snaps' k = Some h \<longrightarrow> heard h \<subseteq> R) \<and> recorded_heard R cs"
proof (cases u)
  case (BlockUpdate b)
  then show ?thesis using assms(1,3,4)
    by (cases b) (auto simp: record_history_def recorded_heard_def reorg_eq intro: subsetD [OF assms(2)]
        split: if_splits sum.splits status.splits prod.splits)
next
  case (Logs eu)
  let ?w = "case st of WarpEvents _ _ \<Rightarrow> True | _ \<Rightarrow> False"
  define ms where "ms = (range_messages ?w (blocks_of (eu_first eu) (eu_last eu)) (eu_logs eu) :: ('a, 'b) message list)"
  define cs1 where "cs1 = snd (feed record_history (h, []) ms)"
  have fed: "feed_blocks record_history ?w (blocks_of (eu_first eu) (eu_last eu)) (eu_logs eu) (h, []) = (h @ ms, cs1)"
    using feed_record [of "(h, [])" ms] by (simp add: feed_blocks_eq ms_def cs1_def prod_eq_iff)
  have ms: "heard (h @ ms) \<subseteq> R"
    using assms(1,3) heard_range [of ?w "blocks_of (eu_first eu) (eu_last eu)" "eu_logs eu"] Logs
    by (auto simp: ms_def events_of_def)
  then have cs1: "recorded_heard R cs1" 
    using feed_record_heard [of "(h, [])" ms R] by (simp add: cs1_def recorded_heard_def)
  have "snaps' = fmupd (uint (eu_last eu)) (h @ ms) snaps"
    "h' = h @ ms \<and> cs = cs1 \<or> (\<exists>p. h' = h @ ms @ [NewBlock p] \<and> cs = cs1 @ [(h @ ms, NewBlock p)])"
    using assms(4) Logs fed
    by (auto simp: handle_logs_def accumulate_transition_def record_history_def commit_eq
        split: if_splits sum.splits status.splits)
  then show ?thesis using assms(2) ms cs1 by auto
qed

text \<open>
  What a system's machine does is done by a recording machine as well, and every command it sends is the
  answer of the service to a message after a history, of which everything was heard.
\<close>

definition history_command :: "('s, 'e, 'r, 'c) service \<Rightarrow> 's \<Rightarrow> ('e, 'r) message set \<Rightarrow> 'c \<Rightarrow> bool" where
  "history_command T init R c \<longleftrightarrow> (\<exists>h msg. c \<in> set (snd (T (exec T init h) msg)) \<and> heard (h @ [msg]) \<subseteq> R)"

lemma history_command_mono: "history_command T init R c \<Longrightarrow> R \<subseteq> R' \<Longrightarrow> history_command T init R' c"
  unfolding history_command_def by blast

lemma recorded_commands:
  "recorded_heard R cs \<Longrightarrow> c \<in> set (concat (map (\<lambda>(h, msg). snd (T (exec T init h) msg)) cs)) \<Longrightarrow> history_command T init R c"
  unfolding recorded_heard_def history_command_def by fastforce

lemma handle_update_heard:
  assumes "machine_heard R H" "set (events_of u) \<subseteq> R" "handle_update T db (map_machine (exec T init) H) u = (m, res)"
  shows "\<exists>H'. m = map_machine (exec T init) H' \<and> machine_heard R H' \<and>
    (\<forall>cmds. res = Inr cmds \<longrightarrow> (\<forall>c\<in>set cmds. history_command T init R c))"
proof (cases "inner H")
  case None
  then show ?thesis using assms by (auto simp: handle_update_def)
next
  case (Some x)
  obtain h st where x: "x = (h, st)" by (cases x)
  show ?thesis
  proof (cases "update_step record_history db h st (snapshots H) u")
    case (Inl err)
    then have "(m, res) = (map_machine (exec T init) (H\<lparr>inner := None\<rparr>), Inl err)"
      using assms(3) Some x history.update_step_map [of T db init h st "snapshots H" u]
      by (simp add: handle_update_def map_machine_def)
    then show ?thesis using assms(1) by (intro exI [of _ "H\<lparr>inner := None\<rparr>"]) (auto simp: machine_heard_def)
  next
    case (Inr y)
    obtain h' st' snaps' cs where y: "y = (h', st', snaps', cs)" by (cases y)
    have "heard h \<subseteq> R" "\<And>k h. fmlookup (snapshots H) k = Some h \<Longrightarrow> heard h \<subseteq> R"
      using assms(1) Some x by (auto simp: machine_heard_def)
    from update_step_heard [OF this assms(2) Inr [unfolded y]]
    have k: "heard h' \<subseteq> R" "\<And>k h. fmlookup snaps' k = Some h \<Longrightarrow> heard h \<subseteq> R" "recorded_heard R cs" by auto
    have "(m, res) = (map_machine (exec T init) \<lparr>inner = Some (h', st'), snapshots = snaps'\<rparr>,
        Inr (concat (map (\<lambda>(h, msg). snd (T (exec T init h) msg)) cs)))"
      using assms(3) Some x Inr y history.update_step_map [of T db init h st "snapshots H" u]
      by (simp add: handle_update_def map_machine_def)
    moreover have "machine_heard R \<lparr>inner = Some (h', st'), snapshots = snaps'\<rparr>" using k by (simp add: machine_heard_def)
    ultimately show ?thesis using recorded_commands [OF k(3), of _ T init] by blast
  qed
qed

lemma handle_resume_heard:
  assumes "machine_heard R H" "Resume r \<in> R" "handle_resume T (map_machine (exec T init) H) r = (m, res)"
  shows "\<exists>H'. m = map_machine (exec T init) H' \<and> machine_heard R H' \<and>
    (\<forall>cmds. res = Inr cmds \<longrightarrow> (\<forall>c\<in>set cmds. history_command T init R c))"
proof (cases "inner H")
  case None
  then show ?thesis using assms by (auto simp: handle_resume_def)
next
  case (Some x)
  obtain h st where x: "x = (h, st)" by (cases x)
  have h: "heard (h @ [Resume r]) \<subseteq> R" using assms(1,2) Some x by (auto simp: machine_heard_def)
  have "m = map_machine (exec T init) (H\<lparr>inner := Some (h @ [Resume r], st)\<rparr>)"
    "res = Inr (snd (T (exec T init h) (Resume r)))"
    using assms(3) Some x by (auto simp: handle_resume_def map_machine_def split_def Let_def)
  moreover have "machine_heard R (H\<lparr>inner := Some (h @ [Resume r], st)\<rparr>)"
    using assms(1) h by (auto simp: machine_heard_def)
  moreover have "\<forall>c\<in>set (snd (T (exec T init h) (Resume r))). history_command T init R c"
    using h unfolding history_command_def by blast
  ultimately show ?thesis by blast
qed

lemma prune_heard:
  assumes "machine_heard R H" "prune_machine db (map_machine f H) safe = (m, res)"
  shows "\<exists>H'. m = map_machine f H' \<and> machine_heard R H'"
proof (cases "prune db (snapshots H) safe")
  case (Inl err)
  then show ?thesis using assms by (auto simp: prune_machine_def prune_map)
next
  case (Inr snaps)
  then have "m = map_machine f (H\<lparr>snapshots := snaps\<rparr>)" using assms(2)
    by (auto simp: prune_machine_def prune_map map_machine_def)
  moreover have "machine_heard R (H\<lparr>snapshots := snaps\<rparr>)"
    using assms(1) Inr by (auto simp: machine_heard_def prune_eq split: if_splits)
  ultimately show ?thesis by blast
qed

lemma restart_heard:
  assumes "machine_heard R H"
  shows "\<exists>H'. machine_step T init (map_machine (exec T init) H) (Restart db) = map_machine (exec T init) H' \<and>
    machine_heard R H'"
proof -
  have "machine_heard R (machine_step record_history [] H (Restart db))"
    using assms fMax_in [of "fmdom (snapshots H)"]
    by (fastforce simp: machine_heard_def with_init_def current_def Let_def fmlookup_dom_iff
        split: sum.splits option.splits if_splits)
  then show ?thesis using history.step_map [of T init "[]" H "Restart db"] by auto
qed

section \<open>Every system has histories\<close>

definition system_ok :: "('s, 'e, 'r, ('a, 'f) command) service \<Rightarrow> 's \<Rightarrow> ('s, 'w, 'e, 'f, 'p, 'r, 'a) system \<Rightarrow> bool" where
  "system_ok T init sy \<longleftrightarrow>
     (\<exists>H. sy_machine sy = map_machine (exec T init) H \<and> machine_heard (set (sy_heard sy)) H) \<and>
     (\<forall>c\<in>set (sy_sent sy). history_command T init (set (sy_heard sy)) c) \<and>
     (\<forall>t\<in>set (sy_tasks sy). Effect (task_effect t) \<in> set (sy_sent sy))"

lemma spawned_tasks: "set (foldl (spawn_task eh) tasks fs) = set tasks \<union> (\<lambda>f. Running f (eh_begin eh f)) ` set fs"
  by (induction fs arbitrary: tasks) (auto simp: spawn_task_def)

lemma spawned_effects_set: "f \<in> set (spawned_effects cmds) \<longleftrightarrow> Effect f \<in> set cmds"
  by (force simp: spawned_effects_def split: command.splits)

lemma send_ok:
  assumes "system_ok T init sy" "\<forall>c\<in>set cmds. history_command T init (set (sy_heard sy)) c"
  shows "system_ok T init (send_commands eh sy cmds)"
  using assms by (auto simp: system_ok_def send_commands_def spawned_tasks spawned_effects_set)

lemma told_ok:
  "system_ok T init sy \<Longrightarrow> set (sy_heard sy) \<subseteq> R \<Longrightarrow>
   (\<exists>H. sy_machine sy = map_machine (exec T init) H \<and> machine_heard R H) \<and>
   (\<forall>c\<in>set (sy_sent sy). history_command T init R c) \<and>
   (\<forall>t\<in>set (sy_tasks sy). Effect (task_effect t) \<in> set (sy_sent sy))"
  unfolding system_ok_def by (meson history_command_mono machine_heard_mono)

lemma update_ok:
  assumes "system_ok T init sy"
  shows "system_ok T init (system_step T init eh sy (SysUpdate u db safe db'))"
proof -
  define sy1 where "sy1 = sy\<lparr>sy_heard := sy_heard sy @ events_of u\<rparr>"
  let ?R = "set (sy_heard sy1)"
  obtain H where H: "sy_machine sy1 = map_machine (exec T init) H" "machine_heard ?R H"
    and rest: "\<forall>c\<in>set (sy_sent sy1). history_command T init ?R c"
      "\<forall>t\<in>set (sy_tasks sy1). Effect (task_effect t) \<in> set (sy_sent sy1)"
    using told_ok [OF assms, of ?R] by (auto simp: sy1_def)
  then have ok: "machine_heard ?R H' \<Longrightarrow> system_ok T init (sy1\<lparr>sy_machine := map_machine (exec T init) H'\<rparr>)" for H'
    by (auto simp: system_ok_def)
  obtain m res where u: "handle_update T db (sy_machine sy1) u = (m, res)" by (cases rule: prod.exhaust)
  have "set (events_of u) \<subseteq> ?R" by (simp add: sy1_def)
  from handle_update_heard [OF H(2) this u [unfolded H(1)]] obtain H1 where H1: "m = map_machine (exec T init) H1"
    "machine_heard ?R H1" "\<And>cmds. res = Inr cmds \<Longrightarrow> \<forall>c\<in>set cmds. history_command T init ?R c" by auto
  obtain m' res' where p: "prune_machine db' m safe = (m', res')" by (cases rule: prod.exhaust)
  from prune_heard [OF H1(2) p [unfolded H1(1)]] obtain H2
    where H2: "m' = map_machine (exec T init) H2" "machine_heard ?R H2" by blast
  have "system_ok T init (sy1\<lparr>sy_machine := m\<rparr>)" "system_ok T init (sy1\<lparr>sy_machine := m'\<rparr>)"
    using ok H1 H2 by simp_all
  then show ?thesis using u p H1(3) send_ok [of T init "sy1\<lparr>sy_machine := m'\<rparr>"]
    by (auto simp: sy1_def [symmetric] split: sum.splits)
qed

lemma resume_ok:
  assumes "system_ok T init sy"
  shows "system_ok T init (system_step T init eh sy (SysResume ks))"
proof -
  obtain tasks res where n: "next_resume ks (sy_tasks sy) = (tasks, res)" by (cases rule: prod.exhaust)
  have sub: "set tasks \<subseteq> set (sy_tasks sy)" using next_resume_tasks(1) [OF n] .
  show ?thesis
  proof (cases res)
    case None
    then show ?thesis using assms n sub by (auto simp: system_ok_def)
  next
    case (Some r)
    define sy1 where "sy1 = sy\<lparr>sy_tasks := tasks, sy_heard := sy_heard sy @ [Resume r]\<rparr>"
    let ?R = "set (sy_heard sy1)"
    obtain H where H: "sy_machine sy1 = map_machine (exec T init) H" "machine_heard ?R H"
      and rest: "\<forall>c\<in>set (sy_sent sy1). history_command T init ?R c"
        "\<forall>t\<in>set (sy_tasks sy1). Effect (task_effect t) \<in> set (sy_sent sy1)"
      using told_ok [OF assms, of ?R] sub by (auto simp: sy1_def subset_insertI)
    obtain m res where h: "handle_resume T (sy_machine sy1) r = (m, res)" by (cases rule: prod.exhaust)
    have "Resume r \<in> ?R" by (simp add: sy1_def)
    from handle_resume_heard [OF H(2) this h [unfolded H(1)]] obtain H1 where H1: "m = map_machine (exec T init) H1"
      "machine_heard ?R H1" "\<And>cmds. res = Inr cmds \<Longrightarrow> \<forall>c\<in>set cmds. history_command T init ?R c" by auto
    then have "system_ok T init (sy1\<lparr>sy_machine := m\<rparr>)" using rest by (auto simp: system_ok_def)
    moreover have "sy_machine sy1 = sy_machine sy" by (simp add: sy1_def)
    ultimately show ?thesis using Some n h H1(3) send_ok [of T init "sy1\<lparr>sy_machine := m\<rparr>"]
      by (auto simp: sy1_def [symmetric] split: sum.splits)
  qed
qed

lemma work_task_effects: "work_task eh x w tasks k = (w', tasks') \<Longrightarrow> map task_effect tasks' = map task_effect tasks"
  by (auto simp: work_task_def map_update list_update_same_conv split: if_splits task.splits prod.splits sum.splits)

lemma panic_task_effects: "map task_effect (panic_task tasks k) = map task_effect tasks"
  by (auto simp: panic_task_def map_update list_update_same_conv split: task.splits)

lemma tasks_ok:
  assumes "system_ok T init sy" "map task_effect tasks = map task_effect (sy_tasks sy)"
  shows "system_ok T init (sy\<lparr>sy_world := w, sy_tasks := tasks\<rparr>)"
proof -
  have "task_effect ` set tasks = task_effect ` set (sy_tasks sy)" using assms(2) by (metis set_map)
  then have "t \<in> set tasks \<Longrightarrow> \<exists>t'\<in>set (sy_tasks sy). task_effect t = task_effect t'" for t by blast
  then show ?thesis using assms(1) by (fastforce simp: system_ok_def)
qed

interpretation systems: closed_system "system_step T init eh" "system_ok T init" "new_system init w" for T init eh w
proof
  show "system_ok T init (new_system init w)"
    using exec_Nil [of T init]
    by (auto simp: system_ok_def new_system_def new_machine_def map_machine_def machine_heard_def
        intro!: exI [of _ "\<lparr>inner = Some ([], Initialized), snapshots = fmempty\<rparr>"])
next
  fix sy :: "('a, 'f, 'b, 'e, 'h, 'c, 'd) system" and op
  assume ok: "system_ok T init sy"
  show "system_ok T init (system_step T init eh sy op)"
  proof (cases op)
    case (SysWork k x)
    obtain w tasks where k: "work_task eh x (sy_world sy) (sy_tasks sy) k = (w, tasks)" by (cases rule: prod.exhaust)
    then show ?thesis using SysWork tasks_ok [OF ok work_task_effects [OF k]] by simp
  next
    case (SysPanic k)
    then show ?thesis using tasks_ok [OF ok panic_task_effects, of k "sy_world sy"] by simp
  next
    case (SysReboot db)
    then show ?thesis using ok restart_heard by (fastforce simp: system_ok_def simp del: machine_step.simps)
  next
    case (SysKeep st x)
    then show ?thesis using ok by (simp add: system_ok_def)
  qed (simp_all only: update_ok [OF ok] resume_ok [OF ok])
qed

lemma sent_by_history: "c \<in> set (sy_sent (system_run T init eh w ops)) \<Longrightarrow>
    history_command T init (set (sy_heard (system_run T init eh w ops))) c"
  using systems.run_inv [of T init eh w ops] by (simp add: system_run_def system_ok_def)

section \<open>Results of tasks\<close>

text \<open>The results that the tasks of a system have brought about and that are not lost, with repetitions.\<close>

fun finished :: "('f, 'p, 'r) task \<Rightarrow> 'r list" where
  "finished (Finished f r) = [r]"
| "finished _ = []"

fun resumed :: "('e, 'r) message \<Rightarrow> 'r list" where
  "resumed (Resume r) = [r]"
| "resumed _ = []"

definition results :: "('s, 'w, 'e, 'f, 'p, 'r, 'a) system \<Rightarrow> 'r multiset" where
  "results sy = mset (concat (map finished (sy_tasks sy))) + mset (concat (map resumed (sy_heard sy)))"

lemma heard_results: "Resume r \<in> set (sy_heard sy) \<Longrightarrow> r \<in># results sy"
  by (force simp: results_def)

lemma concat_without:
  "k < length xs \<Longrightarrow> mset (concat (map f xs)) = mset (f (xs ! k)) + mset (concat (map f (without k xs)))"
  "k < length xs \<Longrightarrow> mset (concat (map f (xs[k := y]))) = mset (f y) + mset (concat (map f (without k xs)))"
  by (subst id_take_nth_drop [of k xs], simp_all add: without_def upd_conv_take_nth_drop)

lemma next_resume_results:
  "next_resume ks tasks = (tasks', res) \<Longrightarrow>
   mset (concat (map finished tasks)) = mset (concat (map finished tasks')) + (case res of None \<Rightarrow> {#} | Some r \<Rightarrow> {#r#})"
  by (induction ks tasks rule: next_resume.induct)
    (auto simp: concat_without(1) [of _ _ finished] split: if_splits task.splits)

lemma spawn_results: "concat (map finished (foldl (spawn_task eh) tasks fs)) = concat (map finished tasks)"
  by (induction fs arbitrary: tasks) (simp_all add: spawn_task_def)

lemma send_results [simp]:
  "results (send_commands eh sy cmds) = results sy" "sy_world (send_commands eh sy cmds) = sy_world sy"
  "sy_heard (send_commands eh sy cmds) = sy_heard sy"
  by (simp_all add: results_def send_commands_def spawn_results)

lemma results_machine [simp]: "results (sy\<lparr>sy_machine := m\<rparr>) = results sy"
  by (simp add: results_def)

lemma results_events: "results (sy\<lparr>sy_heard := sy_heard sy @ events_of u\<rparr>) = results sy"
  by (cases u) (auto simp: results_def events_of_def intro!: arg_cong [of _ _ mset])

lemma update_results:
  "results (system_step T init eh sy (SysUpdate u db safe db')) = results sy"
  "sy_world (system_step T init eh sy (SysUpdate u db safe db')) = sy_world sy"
  by (simp_all add: Let_def results_events split: prod.splits sum.splits)

lemma resume_results:
  "results (system_step T init eh sy (SysResume ks)) = results sy"
  "sy_world (system_step T init eh sy (SysResume ks)) = sy_world sy"
proof -
  obtain tasks res where n: "next_resume ks (sy_tasks sy) = (tasks, res)" by (cases rule: prod.exhaust)
  from next_resume_results [OF n] show "results (system_step T init eh sy (SysResume ks)) = results sy"
    by (cases res) (simp_all add: n results_def Let_def send_commands_def spawn_results split: prod.splits sum.splits)
  show "sy_world (system_step T init eh sy (SysResume ks)) = sy_world sy"
    by (simp add: n Let_def split: option.splits prod.splits sum.splits)
qed

text \<open>What a step does to the world and to the results: nothing new, the step of a task, or housekeeping.\<close>

lemma system_step_world:
  obtains (quiet) "sy_world (system_step T init eh sy op) = sy_world sy" "results (system_step T init eh sy op) \<subseteq># results sy"
  | (worked) k x f p w res where "op = SysWork k x" "k < length (sy_tasks sy)" "sy_tasks sy ! k = Running f p"
      "eh_work eh x (sy_world sy) f p = (w, res)" "sy_world (system_step T init eh sy op) = w"
      "results (system_step T init eh sy op) = results sy + (case res of Inl _ \<Rightarrow> {#} | Inr r \<Rightarrow> {#r#})"
  | (kept) st x where "op = SysKeep st x" "sy_world (system_step T init eh sy op) = eh_housekeeping eh x (sy_world sy) st"
      "results (system_step T init eh sy op) = results sy"
proof (cases op)
  case (SysWork k x)
  show ?thesis
  proof (cases "\<exists>f p. k < length (sy_tasks sy) \<and> sy_tasks sy ! k = Running f p")
    case True
    then obtain f p where k: "k < length (sy_tasks sy)" "sy_tasks sy ! k = Running f p" by blast
    obtain w res where w: "eh_work eh x (sy_world sy) f p = (w, res)" by (cases rule: prod.exhaust)
    show ?thesis
      by (rule worked [OF SysWork k w])
        (use k w SysWork concat_without [OF k(1), of finished] in \<open>auto simp: work_task_def results_def split: sum.splits\<close>)
  next
    case False
    then have "work_task eh x (sy_world sy) (sy_tasks sy) k = (sy_world sy, sy_tasks sy)"
      by (auto simp: work_task_def split: task.splits)
    then show ?thesis using quiet SysWork by (simp add: results_def)
  qed
next
  case (SysPanic k)
  then show ?thesis by (intro quiet) (cases "k < length (sy_tasks sy)",
      use concat_without [of k "sy_tasks sy" finished] in \<open>simp_all add: results_def panic_task_def\<close>)
next
  case (SysKeep st x)
  then show ?thesis by (intro kept) (auto simp: results_def)
next
  case (SysReboot db)
  then show ?thesis by (intro quiet) (auto simp: results_def)
next
  case (SysUpdate u db safe db')
  show ?thesis unfolding SysUpdate by (rule quiet) (simp_all only: SysUpdate update_results subset_mset.order_refl)
next
  case (SysResume ks)
  show ?thesis unfolding SysResume by (rule quiet) (simp_all only: SysResume resume_results subset_mset.order_refl)
qed

text \<open>Whatever holds of the commands for blocks and events holds of the commands of an update.\<close>

lemma feed_commands:
  assumes "\<And>s msg. msg \<in> set ms \<Longrightarrow> list_all P (snd (T s msg))" "list_all P (snd acc)"
  shows "list_all P (snd (feed T acc ms))"
  using assms by (induction ms arbitrary: acc) (simp_all add: accumulate_transition_def split_def Let_def)

lemma range_no_resume: "Resume r \<notin> set (range_messages w bs logs)"
  by (induction w bs logs rule: range_messages.induct) auto

lemma update_commands:
  fixes T :: "('s, 'e, 'r, 'c) service"
  assumes "\<And>s msg. (\<And>r. msg \<noteq> Resume r) \<Longrightarrow> list_all P (snd (T s msg))" "handle_update T db m u = (m', Inr cmds)"
  shows "list_all P cmds"
proof -
  obtain s st s' st' snaps where u: "update_step T db s st (snapshots m) u = Inr (s', st', snaps, cmds)"
    using assms(2) by (auto simp: handle_update_def split: option.splits sum.splits)
  show ?thesis
  proof (cases u)
    case (BlockUpdate b)
    moreover have "T s (NewBlock n) = (s1, cs) \<Longrightarrow> list_all P cs" for n s1 cs using assms(1) [of "NewBlock n" s] by simp
    ultimately show ?thesis using u by (cases b) (auto split: if_splits sum.splits status.splits prod.splits)
  next
    case (Logs eu)
    have "list_all P (snd (feed T (s, []) (range_messages w bs logs)))" for w bs logs
    proof (rule feed_commands)
      fix s and msg :: "('e, 'r) message"
      assume "msg \<in> set (range_messages w bs logs)"
      then have "msg \<noteq> Resume r" for r by (auto simp: range_no_resume)
      then show "list_all P (snd (T s msg))" by (rule assms(1))
    qed simp
    then show ?thesis using u Logs assms(1) [of "NewBlock n" for n]
      by (auto simp: handle_logs_def accumulate_transition_def feed_blocks_eq split_def Let_def
          split: if_splits sum.splits status.splits)
  qed
qed

lemma sent_grows: "set (sy_sent sy) \<subseteq> set (sy_sent (system_step T init eh sy op))"
  by (cases op) (auto simp: send_commands_def Let_def split: prod.splits sum.splits option.splits)

section \<open>Steps of a running chain\<close>

text \<open>A block and its logs, as the indexer reports them to a machine whose database works.\<close>

lemma prune_nothing:
  assumes "fBall (fmdom (snapshots m)) (\<lambda>k. 0 \<le> k)"
  shows "prune_machine True m 0 = (m, Inr ())"
proof -
  have "fmfilter (\<lambda>k. \<not> (k < uint (0 :: u64) \<and> k < fMax (fmdom (snapshots m)))) (snapshots m) = snapshots m"
  proof (rule fmap_ext)
    fix k
    have "fmlookup (snapshots m) k \<noteq> None \<Longrightarrow> 0 \<le> k" using assms by (auto dest: fmdomI)
    then show "fmlookup (fmfilter (\<lambda>k. \<not> (k < uint (0 :: u64) \<and> k < fMax (fmdom (snapshots m)))) (snapshots m)) k =
        fmlookup (snapshots m) k" by (cases "fmlookup (snapshots m) k") auto
  qed
  then show ?thesis by (simp add: prune_machine_def prune_def to_i64_def)
qed

lemma first_block_step:
  assumes "sy_machine sy = \<lparr>inner = Some (s, Initialized), snapshots = snaps\<rparr>" "fBall (fmdom snaps) (\<lambda>k. 0 \<le> k)"
    and "T s (NewBlock n) = (s', cs)"
  shows "system_step T init eh sy (SysUpdate (BlockUpdate (New n h t b)) True 0 True) =
    send_commands eh (sy\<lparr>sy_machine := \<lparr>inner = Some (s', BlockEvents n), snapshots = snaps\<rparr>\<rparr>) cs"
  using assms by (simp add: handle_update_def events_of_def prune_nothing)

lemma applied_block_step:
  assumes "sy_machine sy = \<lparr>inner = Some (s, BlockApplied n), snapshots = snaps\<rparr>" "fBall (fmdom snaps) (\<lambda>k. 0 \<le> k)"
  shows "system_step T init eh sy (SysUpdate (BlockUpdate (New n h t b)) True 0 True) =
    sy\<lparr>sy_machine := \<lparr>inner = Some (s, BlockEvents n), snapshots = snaps\<rparr>\<rparr>"
  using assms by (simp add: handle_update_def events_of_def send_commands_def spawned_effects_def prune_nothing)

lemma block_logs_step:
  assumes "sy_machine sy = \<lparr>inner = Some (s, BlockEvents n), snapshots = snaps\<rparr>" "fBall (fmdom snaps) (\<lambda>k. 0 \<le> k)"
    and "successively log_before logs" "list_all (\<lambda>log. log_block log = n) logs" "fits_i64 n"
    and "feed T (s, []) (map Event logs) = (s1, cs)" "T s1 (NewBlock (n + 1)) = (s', cs')"
  shows "system_step T init eh sy (SysUpdate (Logs \<lparr>eu_first = n, eu_last = n, eu_logs = logs\<rparr>) True 0 True) =
    send_commands eh (sy\<lparr>sy_heard := sy_heard sy @ map Event logs,
      sy_machine := \<lparr>inner = Some (s', BlockApplied (n + 1)), snapshots = fmupd (uint n) s1 snaps\<rparr>\<rparr>) (cs @ cs')"
proof -
  have tw: "takeWhile (\<lambda>l. log_block l = n) logs = logs" using assms(4) by (auto simp: list_all_iff)
  have "list_all (\<lambda>log. n \<le> log_block log \<and> log_block log \<le> n) logs" using assms(4) by (auto simp: list_all_iff)
  moreover have "next_block n = Inr (n + 1)"
  proof -
    have "n < 2 ^ 63" using assms(5) by (simp add: fits_i64_def word_less_def)
    then have "unat n < 2 ^ 63" by (simp add: word_less_nat_alt)
    then show ?thesis by (simp add: next_block_def checked_add_def)
  qed
  ultimately have "update_step T True s (BlockEvents n) snaps (Logs \<lparr>eu_first = n, eu_last = n, eu_logs = logs\<rparr>) =
      Inr (s', BlockApplied (n + 1), fmupd (uint n) s1 snaps, cs @ cs')"
    using assms(3-7) by (simp add: accepts_logs_def is_next_in_range_def handle_logs_def feed_blocks_eq blocks_of_Cons
      status_after_logs_def commit_def to_i64_def fits_i64_def accumulate_transition_def tw)
  then show ?thesis using assms(1,2) by (simp add: handle_update_def events_of_def prune_nothing)
qed

end
