(* ===== verification/Validator_Service.thy ===== *)
theory Validator_Service
  imports Safety Secret_Store Effects "HOL-Library.Sublist"
begin

text \<open>
  The running validator: its state machine, the tasks that perform its effects, and the secret store they share
  (\<^verbatim>\<open>crates/validator/src/service/effect.rs\<close> under \<^verbatim>\<open>crates/core/src/effects.rs\<close>).  Updates, effects, panics,
  resumes, housekeeping and reboots interleave in any order, and every call of the database may fail.  Over all
  of it, no nonce pair makes two signature shares.
\<close>

section \<open>The effect handler\<close>

text \<open>Every effect makes one transaction on the database, so a task has one step.\<close>

type_synonym effect_input = "randomness \<times> bool"

fun validator_work :: "frost_lib \<Rightarrow> address \<Rightarrow> effect_input \<Rightarrow> secret_store \<Rightarrow> effect \<Rightarrow> unit \<Rightarrow> secret_store \<times> (unit + resume)" where
  "validator_work F me (rnd, db) st e p = (case perform_effect F me rnd db st e of (st, r) \<Rightarrow> (st, Inr r))"

definition validator_handler :: "frost_lib \<Rightarrow> address \<Rightarrow> (secret_store, effect_input, effect, unit, resume) effect_handler" where
  "validator_handler F me = \<lparr>eh_begin = (\<lambda>_. ()), eh_work = validator_work F me,
     eh_housekeeping = (\<lambda>x st status. housekeeping (snd x) st status)\<rparr>"

lemma validator_handler_simps [simp]:
  "eh_work (validator_handler F me) = validator_work F me"
  "eh_housekeeping (validator_handler F me) x st status = housekeeping (snd x) st status"
  by (simp_all add: validator_handler_def)

type_synonym validator_system = "(state, secret_store, event, effect, unit, resume, action) system"

type_synonym validator_op = "(event, effect_input) system_op"

abbreviation validator_step :: "lib \<Rightarrow> transition \<Rightarrow> validator_system \<Rightarrow> validator_op \<Rightarrow> validator_system" where
  "validator_step L T \<equiv> system_step (apply_transition L T) initial_state (validator_handler (frost L) (tr_account T))"

abbreviation validator_start :: validator_system where
  "validator_start \<equiv> new_system initial_state empty_store"

abbreviation validator_service :: "lib \<Rightarrow> transition \<Rightarrow> validator_op list \<Rightarrow> validator_system" where
  "validator_service L T \<equiv> system_run (apply_transition L T) initial_state (validator_handler (frost L) (tr_account T)) empty_store"

section \<open>Values of a map\<close>

definition map_values :: "('k \<rightharpoonup> 'v) \<Rightarrow> 'v multiset" where
  "map_values m = image_mset (\<lambda>k. the (m k)) (mset_set (dom m))"

lemma map_values_insert: "finite (dom m) \<Longrightarrow> m k = None \<Longrightarrow> map_values (m(k \<mapsto> v)) = add_mset v (map_values m)"
proof -
  assume m: "finite (dom m)" "m k = None"
  then have "image_mset (\<lambda>j. the ((m(k \<mapsto> v)) j)) (mset_set (dom m)) = map_values m"
    unfolding map_values_def by (intro image_mset_cong) auto
  then show ?thesis using m by (simp add: map_values_def domIff)
qed

lemma map_values_delete: "finite (dom m) \<Longrightarrow> m k = Some v \<Longrightarrow> map_values m = add_mset v (map_values (m(k := None)))"
  using map_values_insert [of "m(k := None)" k v] by (simp add: map_upd_triv)

lemma map_values_mono: "m \<subseteq>\<^sub>m m' \<Longrightarrow> finite (dom m') \<Longrightarrow> map_values m \<subseteq># map_values m'"
proof -
  assume m: "m \<subseteq>\<^sub>m m'" "finite (dom m')"
  then have "map_values m = image_mset (\<lambda>k. the (m' k)) (mset_set (dom m))"
    unfolding map_values_def
    by (intro image_mset_cong) (metis domIff elem_mset_set finite_subset map_le_def map_le_implies_dom_le)
  then show ?thesis using m
    by (simp add: map_values_def image_mset_subseteq_mono map_le_implies_dom_le subset_imp_msubset_mset_set)
qed

lemma subseq_mset: "subseq xs ys \<Longrightarrow> mset xs \<subseteq># mset ys"
  by (induction rule: list_emb.induct) (simp_all add: subseteq_mset_def le_SucI)

section \<open>The nonces of the store\<close>

definition held :: "secret_store \<Rightarrow> b256 \<rightharpoonup> signing_nonces" where
  "held st sid = Option.bind (fmlookup (nonce_rows st) sid) nr_nonces"

lemma finite_held: "finite (dom (held st))"
  by (rule finite_subset [of _ "fmdom' (nonce_rows st)"]) (auto simp: held_def dom_def fmdom'_alt_def bind_eq_Some_conv fmdomI)

lemma housekeeping_held: "held (housekeeping db st status) \<subseteq>\<^sub>m held st"
  by (auto simp: held_def map_le_def dom_def housekeeping_def prune_scheduled_secrets_def Let_def
      split: sum.splits if_splits)

lemma perform_held:
  assumes "perform_effect F me rnd db st e = (st', r)"
  obtains (kept) "held st' \<subseteq>\<^sub>m held st" "\<And>m n. r \<noteq> Nonces m n"
  | (drawn) gid sid ks where "e = GenerateNonces gid sid ks" "held st sid = None"
      "held st' = (held st)(sid \<mapsto> nonces_generate F (rnd_nonces rnd) ks)" "\<And>m n. r \<noteq> Nonces m n"
  | (taken) m sid n where "e = UseNonces m sid" "held st sid = Some n" "held st' = (held st)(sid := None)" "r = Nonces m n"
proof (cases e)
  case (KeyGenSetup gid count threshold)
  then have "nonce_rows st' = nonce_rows st" "\<And>m n. r \<noteq> Nonces m n"
    using assms by (auto simp: perform_effect_def try_perform_effect_def store_keygen_secrets_def Let_def
        split: sum.splits if_splits option.splits)
  then show thesis by (intro kept) (simp_all add: held_def map_le_def)
next
  case (GenerateNonces gid sid ks)
  show thesis
  proof (cases "db \<and> fmlookup (nonce_rows st) sid = None")
    case True
    then show thesis using assms GenerateNonces drawn [OF GenerateNonces]
      by (auto simp: perform_effect_def try_perform_effect_def store_signing_nonces_def held_def Let_def fun_eq_iff)
  next
    case False
    then have "st' = st" "\<And>m n. r \<noteq> Nonces m n" using assms GenerateNonces
      by (auto simp: perform_effect_def try_perform_effect_def store_signing_nonces_def Let_def split: option.splits if_splits)
    then show thesis by (intro kept) simp_all
  qed
next
  case (UseNonces m sid)
  show thesis
  proof (cases "db \<and> held st sid \<noteq> None")
    case True
    then show thesis using assms UseNonces taken [OF UseNonces]
      by (auto simp: perform_effect_def try_perform_effect_def take_signing_nonces_def held_def fun_eq_iff bind_eq_Some_conv)
  next
    case False
    then have "st' = st" "\<And>m n. r \<noteq> Nonces m n" using assms UseNonces
      by (auto simp: perform_effect_def try_perform_effect_def take_signing_nonces_def held_def bind_eq_Some_conv
          split: option.splits if_splits)
    then show thesis by (intro kept) simp_all
  qed
next
  case (ReconcileGroupSecrets block groups)
  then have "held st' sid = held st sid" "\<And>m n. r \<noteq> Nonces m n" for sid
    using assms by (cases "fmlookup (nonce_rows st) sid", auto simp: perform_effect_def try_perform_effect_def
        schedule_group_secrets_deletion_def schedule_absent_nonces_def held_def Let_def
        split: sum.splits if_splits option.splits)+
  then show thesis by (intro kept) (simp_all add: map_le_def)
qed

section \<open>Nonces in circulation\<close>

text \<open>The nonces that a step draws, and those that are stored, in a result or already told to the machine.\<close>

fun draws :: "frost_lib \<Rightarrow> validator_system \<Rightarrow> validator_op \<Rightarrow> signing_nonces list" where
  "draws F sy (SysWork k (rnd, db)) =
     (if k < length (sy_tasks sy)
      then case sy_tasks sy ! k of
             Running (GenerateNonces gid sid ks) p \<Rightarrow> [nonces_generate F (rnd_nonces rnd) ks]
           | _ \<Rightarrow> []
      else [])"
| "draws F sy _ = []"

fun nonces_of :: "resume \<Rightarrow> signing_nonces list" where
  "nonces_of (Nonces m n) = [n]"
| "nonces_of _ = []"

definition resumed_nonces :: "resume multiset \<Rightarrow> signing_nonces multiset" where
  "resumed_nonces rs = (\<Sum>r\<in>#rs. mset (nonces_of r))"

lemma resumed_nonces_simps [simp]:
  "resumed_nonces {#} = {#}" "resumed_nonces (add_mset r rs) = mset (nonces_of r) + resumed_nonces rs"
  "resumed_nonces (rs + rs') = resumed_nonces rs + resumed_nonces rs'"
  by (simp_all add: resumed_nonces_def)

lemma resumed_nonces_mono: "rs \<subseteq># rs' \<Longrightarrow> resumed_nonces rs \<subseteq># resumed_nonces rs'"
  by (metis mset_subset_eq_add_left resumed_nonces_simps(3) subset_mset.add_diff_inverse)

lemma resumed_nonces_list: "resumed_nonces (mset rs) = mset (concat (map nonces_of rs))"
  by (induction rs) simp_all

definition circulating :: "validator_system \<Rightarrow> signing_nonces multiset" where
  "circulating sy = map_values (held (sy_world sy)) + resumed_nonces (results sy)"

lemma nonces_of_other: "(\<And>m n. r \<noteq> Nonces m n) \<Longrightarrow> nonces_of r = []"
  by (cases r) auto

lemma circulating_step: "circulating (validator_step L T sy op) \<subseteq># circulating sy + mset (draws (frost L) sy op)"
proof (cases rule: system_step_world [of "apply_transition L T" initial_state "validator_handler (frost L) (tr_account T)" sy op])
  case quiet
  then show ?thesis
    by (simp add: circulating_def resumed_nonces_mono subset_mset.add_increasing2)
next
  case (kept st x)
  then show ?thesis using map_values_mono [OF housekeeping_held finite_held, of "snd x" "sy_world sy" st]
    by (simp add: circulating_def)
next
  case (worked k x f p w res)
  obtain rnd db where x: "x = (rnd, db)" by (cases x)
  obtain r where r: "perform_effect (frost L) (tr_account T) rnd db (sy_world sy) f = (w, r)" "res = Inr r"
    using worked(4) x by (auto split: prod.splits)
  have c: "circulating (validator_step L T sy op) = map_values (held w) + (mset (nonces_of r) + resumed_nonces (results sy))"
    using worked(5,6) r(2) by (simp add: circulating_def)
  from r(1) show ?thesis
  proof (cases rule: perform_held)
    case kept
    then show ?thesis unfolding c using map_values_mono [OF _ finite_held] nonces_of_other [of r]
      by (simp add: circulating_def subset_mset.add_increasing2)
  next
    case (drawn gid sid ks)
    then show ?thesis unfolding c using worked(1-3) x nonces_of_other [of r] map_values_insert [OF finite_held]
      by (simp add: circulating_def)
  next
    case (taken m sid n)
    then show ?thesis unfolding c using map_values_delete [OF finite_held, of "sy_world sy" sid n]
      by (simp add: circulating_def)
  qed
qed

section \<open>Signature shares\<close>

fun is_share :: "cmd \<Rightarrow> bool" where
  "is_share (Action (SignShare sid selection share proof cb d)) \<longleftrightarrow> True"
| "is_share _ \<longleftrightarrow> False"

text \<open>A share that is computed from a nonce pair.\<close>

definition share_from :: "lib \<Rightarrow> signing_nonces \<Rightarrow> cmd \<Rightarrow> bool" where
  "share_from L n c \<longleftrightarrow> (\<exists>ks committed message sid result cb d.
     signature_share_of (keccak256 L) (frost L) ks n committed message = Inr result \<and>
     c = Action (SignShare sid (ssh_selection result) (ssh_share result) (ssh_proof result) cb d))"

lemma not_signing_no_share: "\<not> signing_cmd c \<Longrightarrow> \<not> is_share c"
  by (cases c rule: is_share.cases) simp_all

lemmas keygen_no_share = genesis_cmds [THEN not_signing_no_share] committed_cmds [THEN not_signing_no_share]
  secret_shared_cmds [THEN not_signing_no_share] confirmed_cmds [THEN not_signing_no_share]
  complained_cmds [THEN not_signing_no_share] responded_cmds [THEN not_signing_no_share]
  clock_cmds [THEN not_signing_no_share] timeout_cmds [THEN not_signing_no_share] setup_cmds [THEN not_signing_no_share]

lemma attestation_no_share: "\<not> is_share (Action (attestation_action L p sid d))"
  by (cases p) simp_all

lemma timeout_session_no_share: "c \<in> set (fst (snd (timeout_session L T block m x))) \<Longrightarrow> \<not> is_share c"
  by (cases x) (auto simp: timeout_session_def Let_def attestation_no_share split: option.split_asm if_split_asm)

lemma signing_timeouts_no_share: "c \<in> set (snd (handle_signing_timeouts L T s block)) \<Longrightarrow> \<not> is_share c"
  using timeout_session_no_share unfolding signing_timeouts_commands
  by (fastforce simp: pushed_def split: option.splits)

lemma coordinator_no_share: "apply_coordinator L T s b ev = (s', cs) \<Longrightarrow> c \<in> set cs \<Longrightarrow> \<not> is_share c"
  by (cases ev)
    (auto dest: keygen_no_share
      simp: handle_sign_def handle_sign_committed_nonces_def handle_sign_shared_def handle_sign_completed_def Let_def
      split: option.splits signing_state.splits if_splits prod.splits packet.splits)

lemma new_block_no_share:
  assumes "apply_new_block L T s b = (s', cs)" "c \<in> set cs"
  shows "\<not> is_share c"
proof -
  obtain s1 c1 s2 c2 s3 c3 where ph: "handle_rollover_new_block L T s b = (s1, c1)"
    "handle_key_gen_timeouts L T s1 b = (s2, c2)" "handle_signing_timeouts L T s2 b = (s3, c3)"
    by (meson surj_pair)
  then show ?thesis using assms keygen_no_share signing_timeouts_no_share [of c L T s2 b]
    by (auto simp: apply_new_block_def handle_group_reconciliation_def Let_def)
qed

lemma only_nonces_make_shares:
  assumes "\<And>r. msg \<noteq> Resume r"
  shows "list_all (\<lambda>c. \<not> is_share c) (snd (apply_transition L T s msg))"
proof (cases msg)
  case (NewBlock b)
  then show ?thesis using new_block_no_share [OF prod.collapse [symmetric]] by (simp add: list_all_iff)
next
  case (Event log)
  then show ?thesis
  proof (cases "log_data log")
    case (CoordinatorEvent ev)
    then show ?thesis using Event coordinator_no_share [OF prod.collapse [symmetric]] by (simp add: list_all_iff)
  next
    case (ConsensusEvent ev)
    then show ?thesis using Event consensus_no_cmds by simp
  next
    case (OracleEvent ev)
    then show ?thesis using Event
      by (cases ev) (auto simp: handle_oracle_result_def Let_def split: option.splits signing_state.splits)
  qed
qed (use assms in simp)

lemma resume_shares:
  "filter is_share (snd (apply_transition L T s (Resume r))) = [] \<or>
   (\<exists>n c. nonces_of r = [n] \<and> filter is_share (snd (apply_transition L T s (Resume r))) = [c] \<and> share_from L n c)"
proof (cases r)
  case (Setup gid secrets)
  then show ?thesis using keygen_no_share(9) [OF prod.collapse [symmetric]] by (auto simp: filter_empty_conv)
next
  case (NonceCommitments sid nonces)
  then show ?thesis
    by (auto simp: handle_nonce_commitments_def session_of_def split: option.splits signing_state.splits)
next
  case (Nonces m n)
  then show ?thesis
    by (auto simp: handle_nonces_def share_from_def split: option.splits signing_state.splits sum.splits)
qed simp

text \<open>The shares that were sent are computed from nonces that the machine was told, in the same order.\<close>

definition shares_matched :: "lib \<Rightarrow> validator_system \<Rightarrow> bool" where
  "shares_matched L sy \<longleftrightarrow> (\<exists>ns. subseq ns (concat (map nonces_of (concat (map resumed (sy_heard sy))))) \<and>
     list_all2 (share_from L) ns (filter is_share (sy_sent sy)))"

lemma sent_shares: "filter is_share (sy_sent (send_commands eh sy cmds)) = filter is_share (sy_sent sy) @ filter is_share cmds"
  by (simp add: send_commands_def)

lemma events_resumed: "concat (map resumed (events_of u)) = []"
  by (cases u) (auto simp: events_of_def)

lemma matched_quiet:
  "shares_matched L sy \<Longrightarrow> concat (map resumed (sy_heard sy')) = concat (map resumed (sy_heard sy)) \<Longrightarrow>
   filter is_share (sy_sent sy') = filter is_share (sy_sent sy) \<Longrightarrow> shares_matched L sy'"
  by (simp add: shares_matched_def)

interpretation shares: closed_system "validator_step L T" "shares_matched L" validator_start for L T
proof
  show "shares_matched L validator_start" by (simp add: shares_matched_def new_system_def)
next
  fix sy :: validator_system and op
  assume m: "shares_matched L sy"
  show "shares_matched L (validator_step L T sy op)"
  proof (cases op)
    case (SysUpdate u db safe db')
    have "filter is_share cmds = []" if "handle_update (apply_transition L T) db (sy_machine sy) u = (m', Inr cmds)" for m' cmds
      using update_commands [OF only_nonces_make_shares that] by (simp add: filter_empty_conv list_all_iff)
    then show ?thesis unfolding SysUpdate
      by (intro matched_quiet [OF m]) (auto simp: events_resumed sent_shares Let_def split: prod.splits sum.splits)
  next
    case (SysResume ks)
    obtain tasks res where n: "next_resume ks (sy_tasks sy) = (tasks, res)" by (cases rule: prod.exhaust)
    show ?thesis
    proof (cases res)
      case None
      then show ?thesis unfolding SysResume by (intro matched_quiet [OF m]) (simp_all add: n)
    next
      case (Some r)
      obtain ns where ns: "subseq ns (concat (map nonces_of (concat (map resumed (sy_heard sy)))))"
        "list_all2 (share_from L) ns (filter is_share (sy_sent sy))" using m by (auto simp: shares_matched_def)
      let ?cs = "case inner (sy_machine sy) of None \<Rightarrow> [] | Some (s, st) \<Rightarrow> snd (apply_transition L T s (Resume r))"
      have sent: "filter is_share (sy_sent (validator_step L T sy op)) = filter is_share (sy_sent sy) @ filter is_share ?cs"
        "sy_heard (validator_step L T sy op) = sy_heard sy @ [Resume r]"
        by (auto simp: SysResume n Some handle_resume_def sent_shares split_def Let_def split: option.splits)
      have "filter is_share ?cs = [] \<or> (\<exists>n c. nonces_of r = [n] \<and> filter is_share ?cs = [c] \<and> share_from L n c)"
        using resume_shares [of L T _ r] by (auto split: option.splits)
      then obtain ms where "subseq ms (nonces_of r)" "list_all2 (share_from L) ms (filter is_share ?cs)"
        by (metis list_all2_Cons list_all2_Nil list_emb_Nil subseq_order.order_refl)
      then show ?thesis using ns unfolding shares_matched_def sent
        by (intro exI [of _ "ns @ ms"]) (simp add: list_emb_append_mono list_all2_appendI)
    qed
  next
    case (SysWork k x)
    then show ?thesis by (intro matched_quiet [OF m]) (simp_all split: prod.splits)
  qed (use m in \<open>simp_all add: shares_matched_def\<close>)
qed

text \<open>
  C4: no nonce pair makes two signature shares.  In any run of the validator, through reorgs and the effects they
  replay, failed calls, panicked tasks, prunings and reboots, every signature share that is sent is computed from a
  nonce pair of its own: the shares can be matched one to one with draws of nonces from the random source.
\<close>

theorem nonces_make_one_share:
  "\<exists>ns. list_all2 (share_from L) ns (filter is_share (sy_sent (validator_service L T ops))) \<and>
     mset ns \<subseteq># mset (run_trace (validator_step L T) (draws (frost L)) validator_start ops)"
proof -
  let ?sy = "validator_service L T ops" and ?drawn = "run_trace (validator_step L T) (draws (frost L)) validator_start ops"
  have drawn: "circulating ?sy \<subseteq># mset ([] @ ?drawn)"
    unfolding system_run_def
  proof (rule run_trace_inv [where I = "\<lambda>sy acc. circulating sy \<subseteq># mset acc"])
    show "circulating validator_start \<subseteq># mset []"
      by (simp add: circulating_def new_system_def results_def held_def empty_store_def map_values_def dom_def)
  next
    fix sy :: validator_system and op acc
    assume "circulating sy \<subseteq># mset acc"
    then show "circulating (validator_step L T sy op) \<subseteq># mset (acc @ draws (frost L) sy op)"
      using circulating_step [of L T sy op] subset_mset.order_trans by fastforce
  qed
  obtain ns where ns: "subseq ns (concat (map nonces_of (concat (map resumed (sy_heard ?sy)))))"
    "list_all2 (share_from L) ns (filter is_share (sy_sent ?sy))"
    using shares.run_inv [of L T ops] by (auto simp: shares_matched_def system_run_def)
  have "mset ns \<subseteq># resumed_nonces (mset (concat (map resumed (sy_heard ?sy))))"
    unfolding resumed_nonces_list by (rule subseq_mset [OF ns(1)])
  also have "\<dots> \<subseteq># circulating ?sy" by (simp add: circulating_def results_def)
  also have "\<dots> \<subseteq># mset ?drawn" using drawn by simp
  finally show ?thesis using ns(2) by blast
qed

section \<open>Shares are approved\<close>

text \<open>A share that signs the hash of a packet which its oracle, if it has one, approved in an event that was seen.\<close>

definition approved_share :: "lib \<Rightarrow> transition \<Rightarrow> msg set \<Rightarrow> cmd \<Rightarrow> bool" where
  "approved_share L T seen c \<longleftrightarrow> (\<exists>ks n committed m p result sid cb d.
     signature_share_of (keccak256 L) (frost L) ks n committed m = Inr result \<and>
     c = Action (SignShare sid (ssh_selection result) (ssh_share result) (ssh_proof result) cb d) \<and>
     m = packet_hash L T p \<and> fm_has committed (tr_account T) \<and>
     pred_option (\<lambda>oracle. oracle |\<in>| cfg_oracles (tr_config T) \<and>
       (\<exists>log proposer data. Event log \<in> seen \<and> log_address log = oracle \<and>
          log_data log = OracleEvent (OracleResult m proposer data True))) (packet_oracle p))"

lemma approval_event:
  "approval_of msg m = Some oracle \<Longrightarrow> \<exists>log proposer data. msg = Event log \<and> log_address log = oracle \<and>
     log_data log = OracleEvent (OracleResult m proposer data True)"
  by (cases "(msg, m)" rule: approval_of.cases) (auto split: event.splits oracle_event.splits if_splits)

lemma approved_in_heard:
  assumes "approved_in h m oracle" "heard h \<subseteq> seen"
  shows "\<exists>log proposer data. Event log \<in> seen \<and> log_address log = oracle \<and> log_data log = OracleEvent (OracleResult m proposer data True)"
proof -
  obtain msg where "msg \<in> set h" "approval_of msg m = Some oracle" using assms(1) by (auto simp: approved_in_def list_ex_iff)
  then show ?thesis using approval_event assms(2) by (fastforce simp: heard_def)
qed

lemma transition_share_approved:
  assumes "c \<in> set (snd (apply_transition L T (run L T h) msg))" "is_share c" "heard (h @ [msg]) \<subseteq> seen"
  shows "approved_share L T seen c"
proof -
  have "\<exists>r. msg = Resume r" using only_nonces_make_shares [of msg L T "run L T h"] assms(1,2) by (auto simp: list_all_iff)
  then obtain r where r: "msg = Resume r" by blast
  have c: "c \<in> set (filter is_share (snd (apply_transition L T (run L T h) (Resume r))))" using assms(1,2) r by simp
  then have "filter is_share (snd (apply_transition L T (run L T h) (Resume r))) \<noteq> []" by (metis empty_iff list.set(1))
  then obtain n where n: "nonces_of r = [n]" using resume_shares [of L T "run L T h" r] by blast
  then obtain m where m: "r = Nonces m n" by (cases r) auto
  then obtain ks gid sid committed sel p sg d result
    where x: "fmlookup (signing (run L T h)) m = Some (CollectSigningShares ks gid sid committed sel p sg d)"
      and s: "signature_share_of (keccak256 L) (frost L) ks n committed m = Inr result"
      and eq: "c = Action (SignShare sid (ssh_selection result) (ssh_share result) (ssh_proof result)
        (attestation_callback L p (cfg_consensus (tr_config T))) d)"
    using c by (auto simp: handle_nonces_def split: option.splits signing_state.splits sum.splits)
  have "m = packet_hash L T p" "fm_has committed (tr_account T)"
    and "pred_option (\<lambda>oracle. oracle |\<in>| cfg_oracles (tr_config T) \<and> approved_in h m oracle) (packet_oracle p)"
    using run_session [OF x] run_gated [OF x] by (auto simp: session_sound_def option.pred_set fm_has_iff)
  moreover have "heard h \<subseteq> seen" using assms(3) by simp
  ultimately have "pred_option (\<lambda>oracle. oracle |\<in>| cfg_oracles (tr_config T) \<and>
      (\<exists>log proposer data. Event log \<in> seen \<and> log_address log = oracle \<and>
        log_data log = OracleEvent (OracleResult m proposer data True))) (packet_oracle p)"
    using approved_in_heard by (fastforce simp: option.pred_set)
  then show ?thesis using s eq \<open>m = packet_hash L T p\<close> \<open>fm_has committed (tr_account T)\<close>
    unfolding approved_share_def by blast
qed

text \<open>
  C1: a signature share is an approval of the chain.  In any run of the validator, through reorgs and the effects
  they replay, failed calls, panicked tasks, prunings and reboots, every signature share that is sent signs the hash
  of a packet, in a round to which this validator has committed nonces, and if the packet is a transaction, then one
  of the allowed oracles has emitted an event, seen by this validator, that approves exactly this hash.
\<close>

theorem shares_sign_approved_packets:
  assumes "c \<in> set (sy_sent (validator_service L T ops))" "is_share c"
  shows "approved_share L T (set (sy_heard (validator_service L T ops))) c"
proof -
  from sent_by_history [OF assms(1)] obtain h msg where "c \<in> set (snd (apply_transition L T (run L T h) msg))"
    "heard (h @ [msg]) \<subseteq> set (sy_heard (validator_service L T ops))"
    unfolding history_command_def by (auto simp: run_def exec_def)
  then show ?thesis using transition_share_approved assms(2) by blast
qed

section \<open>A sample run\<close>

definition vs_log :: "u64 \<Rightarrow> u64 \<Rightarrow> address \<Rightarrow> event \<Rightarrow> event event_log" where
  "vs_log block idx emitter ev = \<lparr>log_block = block, log_timestamp = 0, log_index = idx, log_address = emitter, log_data = ev\<rparr>"

definition vs_collecting :: "secrets option \<Rightarrow> state" where
  "vs_collecting secrets = initial_state\<lparr>rollover :=
     CollectingCommitments Genesis demo_group (CommitParticipating demo_poap secrets) fmempty None\<rparr>"

lemma vs_new_block_1:
  "\<exists>groups. apply_transition demo_L demo_T initial_state (NewBlock 1) = (initial_state, [Effect (ReconcileGroupSecrets 1 groups)])"
  by (simp add: apply_new_block_def handle_rollover_new_block_def handle_key_gen_timeouts_def handle_signing_timeouts_def handle_group_reconciliation_def initial_state_def fm_keys_def)
    (rule fmap_ext, simp)

lemma vs_genesis:
  "apply_transition demo_L demo_T initial_state (Event (vs_log 1 0 9 (CoordinatorEvent (KeyGen demo_gid 0 2 2 0)))) =
     (vs_collecting None, [Effect (KeyGenSetup demo_gid 2 2)])"
  by (simp add: vs_log_def vs_collecting_def handle_genesis_key_gen_def start_key_gen_def demo_participate initial_state_def group_size_def)

lemma vs_new_block_2:
  "\<exists>groups. apply_transition demo_L demo_T (vs_collecting None) (NewBlock 2) = (vs_collecting None, [Effect (ReconcileGroupSecrets 2 groups)])"
  by (simp add: apply_new_block_def handle_rollover_new_block_def handle_key_gen_timeouts_def handle_signing_timeouts_def handle_group_reconciliation_def vs_collecting_def initial_state_def fm_keys_def)
    (rule fmap_ext, simp)

lemma vs_setup:
  "\<exists>a. apply_transition demo_L demo_T (vs_collecting None) (Resume (Setup demo_gid demo_secrets)) = (vs_collecting (Some demo_secrets), [Action a])"
  by (simp add: vs_collecting_def handle_key_gen_setup_def initial_state_def group_size_def as_u16_def fm_len_def fcard_finsert_if Let_def fm_has_def split: prod.split)

lemma vs_keygen_setup: "keygen_setup demo_frost e 1 2 2 = Inr demo_secrets"
  by (simp add: keygen_setup_def demo_frost_def demo_secrets_def err_unexpected_def split_def)

definition vs_keygen :: "event list" where
  "vs_keygen = map CoordinatorEvent
     [KeyGenCommitted demo_gid 1 demo_kc False, KeyGenCommitted demo_gid 2 demo_kc True,
      KeyGenSecretShared demo_gid 1 demo_kss False, KeyGenSecretShared demo_gid 2 demo_kss True,
      KeyGenConfirmed demo_gid 1 False, KeyGenConfirmed demo_gid 2 True]"

lemma vs_keygen_fed:
  "\<exists>cs. feed (apply_transition demo_L demo_T) (vs_collecting (Some demo_secrets), [])
     (map (\<lambda>(i, ev). Event (vs_log 2 i 9 ev)) (zip [0, 1, 2, 3, 4, 5] vs_keygen)) = (demo_ready, cs) \<and> spawned_effects cs = []"
  unfolding vs_keygen_def vs_collecting_def vs_log_def
  apply (simp add: accumulate_transition_def handle_key_gen_committed_def group_size_def as_u16_def fm_len_def
      fcard_finsert_if Let_def finalize_key_gen_commitments_def initial_state_def)
  apply (simp add: handle_key_gen_secret_shared_def register_share_def group_size_def as_u16_def fm_len_def
      fcard_finsert_if Let_def confirm_key_gen_def)
  apply (simp add: handle_key_gen_confirmed_def group_size_def as_u16_def fcard_finsert_if Let_def demo_no_fresh
      next_number_def sat_add_def finalize_key_gen_def demo_ready_def demo_epochs_def initial_state_def spawned_effects_def)
  done

definition vs_share_round :: signing_state where
  "vs_share_round = CollectSigningShares demo_share demo_gid 77
     (fmupd 2 demo_committed (fmupd 1 demo_committed fmempty)) fmempty demo_packet {|1, 2|} 7"

lemma vs_signing_fed:
  "\<exists>cs. feed (apply_transition demo_L demo_T) (demo_ready, [])
     [Event (vs_log 2 6 9 (ConsensusEvent (TransactionProposed 2 0 8 0 [] demo_tx))),
      Event (vs_log 2 7 9 (CoordinatorEvent (Sign 2 demo_gid demo_message 77 0))),
      Event (vs_log 2 8 8 (OracleEvent (OracleResult demo_message 2 [] True))),
      Event (vs_log 2 9 9 (CoordinatorEvent (SignCommittedNonces 77 1 demo_nonces))),
      Event (vs_log 2 10 9 (CoordinatorEvent (SignCommittedNonces 77 2 demo_nonces)))] = (demo_with vs_share_round, cs) \<and>
     spawned_effects cs = [GenerateNonces demo_gid 77 demo_share, UseNonces demo_message 77]"
  unfolding vs_log_def
  apply (simp add: accumulate_transition_def handle_transaction_proposed_def demo_ready_def demo_epochs_def
      initial_state_def demo_message_eq demo_packet_def sat_add_def)
  apply (simp add: handle_sign_def demo_packet_def sat_add_def handle_oracle_result_def)
  apply (simp add: handle_sign_committed_nonces_def register_commitment_def fm_len_def fcard_finsert_if sat_add_def
     demo_with_def demo_ready_def demo_epochs_def initial_state_def vs_share_round_def demo_packet_def spawned_effects_def)
  done

lemma vs_new_block_3:
  "\<exists>groups. apply_transition demo_L demo_T (demo_with vs_share_round) (NewBlock 3) =
     (demo_with vs_share_round, [Effect (ReconcileGroupSecrets 3 groups)])"
proof -
  let ?s = "demo_with vs_share_round"
  have 1: "handle_rollover_new_block demo_L demo_T ?s 3 = (?s, [])"
    by (simp add: handle_rollover_new_block_def next_number_def sat_add_def)
  have 2: "handle_key_gen_timeouts demo_L demo_T ?s 3 = (?s, [])" by (simp add: handle_key_gen_timeouts_def)
  have 3: "handle_signing_timeouts demo_L demo_T ?s 3 = (?s, [])"
    by (simp add: handle_signing_timeouts_def fin_simps demo_with_def demo_ready_def initial_state_def retain_session_def
        timeout_session_def vs_share_round_def)
  have "fmfilter (\<lambda>e. oldest_epoch ?s \<le> e) (epochs ?s) = demo_epochs"
    using oldest_epoch_le(1) [of ?s] by (intro fmap_ext) (simp add: demo_epochs_def)
  moreover have "?s\<lparr>epochs := demo_epochs\<rparr> = ?s" by (simp add: demo_with_def demo_ready_def)
  ultimately have 4: "\<exists>groups. handle_group_reconciliation ?s 3 = (?s, [Effect (ReconcileGroupSecrets 3 groups)])"
    unfolding handle_group_reconciliation_def Let_def by metis
  from 1 2 3 4 show ?thesis by (auto simp: apply_new_block_def)
qed

definition vs_rnd :: randomness where
  "vs_rnd = \<lparr>rnd_setup = ([], [], []), rnd_nonces = []\<rparr>"

definition vs_update :: "event update \<Rightarrow> validator_op" where
  "vs_update u = SysUpdate u True 0 True"

definition vs_logs :: "u64 \<Rightarrow> event event_log list \<Rightarrow> validator_op" where
  "vs_logs b logs = vs_update (Logs \<lparr>eu_first = b, eu_last = b, eu_logs = logs\<rparr>)"

text \<open>The validator sets up the genesis key in the first block.\<close>

definition vs_setup_ops :: "validator_op list" where
  "vs_setup_ops =
     [vs_update (BlockUpdate (New 1 0 0 0)),
      vs_logs 1 [vs_log 1 0 9 (CoordinatorEvent (KeyGen demo_gid 0 2 2 0))],
      SysWork 1 (vs_rnd, True), SysResume [1], vs_update (BlockUpdate (New 2 0 0 0))]"

definition vs_signing :: "event event_log list" where
  "vs_signing =
     [vs_log 2 6 9 (ConsensusEvent (TransactionProposed 2 0 8 0 [] demo_tx)),
      vs_log 2 7 9 (CoordinatorEvent (Sign 2 demo_gid demo_message 77 0)),
      vs_log 2 8 8 (OracleEvent (OracleResult demo_message 2 [] True)),
      vs_log 2 9 9 (CoordinatorEvent (SignCommittedNonces 77 1 demo_nonces)),
      vs_log 2 10 9 (CoordinatorEvent (SignCommittedNonces 77 2 demo_nonces))]"

text \<open>In the second block the key is generated and a transaction is proposed, approved and signed.\<close>

definition vs_sign_ops :: "validator_op list" where
  "vs_sign_ops =
     [vs_logs 2 (map (\<lambda>(i, ev). vs_log 2 i 9 ev) (zip [0, 1, 2, 3, 4, 5] vs_keygen) @ vs_signing),
      SysWork 2 (vs_rnd, True), SysWork 3 (vs_rnd, True), SysResume [3]]"

lemma vs_setup_performed:
  "\<exists>st. perform_effect demo_frost 1 vs_rnd True empty_store (KeyGenSetup demo_gid 2 2) = (st, Setup demo_gid demo_secrets) \<and>
     nonce_rows st = fmempty"
  by (simp add: perform_effect_def try_perform_effect_def vs_keygen_setup store_keygen_secrets_def empty_store_def)

lemma vs_nonces_performed:
  assumes "nonce_rows st = fmempty"
  shows "\<exists>st' r. perform_effect demo_frost 1 vs_rnd True st (GenerateNonces demo_gid 77 demo_share) = (st', r) \<and>
    (\<exists>n st''. perform_effect demo_frost 1 vs_rnd True st' (UseNonces demo_message 77) = (st'', Nonces demo_message n))"
  using assms by (simp add: perform_effect_def try_perform_effect_def store_signing_nonces_def take_signing_nonces_def Let_def)

lemma vs_share_made:
  "\<exists>result. signature_share_of (keccak256 demo_L) demo_frost demo_share n
     (fmupd 2 demo_committed (fmupd 1 demo_committed fmempty)) demo_message = Inr result"
  unfolding signature_share_of_def demo_rekey Let_def
  by (simp add: demo_frost_def demo_share_def Let_def err_unexpected_def)

lemma vs_share_sent:
  "\<exists>c. is_share c \<and> c \<in> set (snd (apply_transition demo_L demo_T (demo_with vs_share_round) (Resume (Nonces demo_message n))))"
proof -
  obtain result where "signature_share_of (keccak256 demo_L) demo_frost demo_share n
     (fmupd 2 demo_committed (fmupd 1 demo_committed fmempty)) demo_message = Inr result" using vs_share_made by blast
  then show ?thesis by (simp add: handle_nonces_def vs_share_round_def demo_with_def)
qed

definition vs_set_up :: "validator_system \<Rightarrow> bool" where
  "vs_set_up sy \<longleftrightarrow> sy_machine sy = \<lparr>inner = Some (vs_collecting (Some demo_secrets), BlockEvents 2),
     snapshots = fmupd 1 (vs_collecting None) fmempty\<rparr> \<and>
     length (sy_tasks sy) = 2 \<and> nonce_rows (sy_world sy) = fmempty"

lemma vs_setup_run: "vs_set_up (run_from (validator_step demo_L demo_T) validator_start vs_setup_ops)"
proof -
  obtain g1 g2 a st where g: "apply_transition demo_L demo_T initial_state (NewBlock 1) = (initial_state, [Effect (ReconcileGroupSecrets 1 g1)])"
    "apply_transition demo_L demo_T (vs_collecting None) (NewBlock (1 + 1)) = (vs_collecting None, [Effect (ReconcileGroupSecrets 2 g2)])"
    "apply_transition demo_L demo_T (vs_collecting None) (Resume (Setup demo_gid demo_secrets)) = (vs_collecting (Some demo_secrets), [Action a])"
    and st: "perform_effect demo_frost 1 vs_rnd True empty_store (KeyGenSetup demo_gid 2 2) = (st, Setup demo_gid demo_secrets)"
    "nonce_rows st = fmempty"
    using vs_new_block_1 vs_new_block_2 vs_setup vs_setup_performed by auto
  have e: "feed (apply_transition demo_L demo_T) (initial_state, [])
      (map Event [vs_log 1 0 9 (CoordinatorEvent (KeyGen demo_gid 0 2 2 0))]) =
      (vs_collecting None, [Effect (KeyGenSetup demo_gid 2 2)])"
    using vs_genesis by (simp add: accumulate_transition_def)
  define sy1 where "sy1 = send_commands (validator_handler demo_frost 1)
     (validator_start\<lparr>sy_machine := \<lparr>inner = Some (initial_state, BlockEvents 1), snapshots = fmempty\<rparr>\<rparr>) [Effect (ReconcileGroupSecrets 1 g1)]"
  have 1: "validator_step demo_L demo_T validator_start (vs_update (BlockUpdate (New 1 0 0 0))) = sy1"
    unfolding vs_update_def sy1_def demo_L_simps demo_T_simps
    by (rule first_block_step [where T = "apply_transition demo_L demo_T", OF _ _ g(1)]) (simp_all add: new_system_def new_machine_def)
  define sy2 where "sy2 = send_commands (validator_handler demo_frost 1)
     (sy1\<lparr>sy_heard := sy_heard sy1 @ map Event [vs_log 1 0 9 (CoordinatorEvent (KeyGen demo_gid 0 2 2 0))],
       sy_machine := \<lparr>inner = Some (vs_collecting None, BlockApplied (1 + 1)), snapshots = fmupd (uint (1 :: u64)) (vs_collecting None) fmempty\<rparr>\<rparr>)
     ([Effect (KeyGenSetup demo_gid 2 2)] @ [Effect (ReconcileGroupSecrets 2 g2)])"
  have 2: "validator_step demo_L demo_T sy1 (vs_logs 1 [vs_log 1 0 9 (CoordinatorEvent (KeyGen demo_gid 0 2 2 0))]) = sy2"
    unfolding vs_logs_def vs_update_def sy2_def demo_L_simps demo_T_simps
    by (rule block_logs_step [where T = "apply_transition demo_L demo_T", OF _ _ _ _ _ e g(2)]) (simp_all add: sy1_def send_commands_def vs_log_def fits_i64_def)
  define sy4 where "sy4 = run_from (validator_step demo_L demo_T) sy2 [SysWork 1 (vs_rnd, True), SysResume [1]]"
  have 4: "sy_machine sy4 = \<lparr>inner = Some (vs_collecting (Some demo_secrets), BlockApplied 2), snapshots = fmupd 1 (vs_collecting None) fmempty\<rparr>"
    "length (sy_tasks sy4) = 2" "nonce_rows (sy_world sy4) = fmempty"
    using st g(3) by (simp_all add: sy4_def sy2_def sy1_def send_commands_def spawned_effects_def spawn_task_def
        new_system_def work_task_def without_def handle_resume_def)
  have "run_from (validator_step demo_L demo_T) validator_start vs_setup_ops =
      sy4\<lparr>sy_machine := \<lparr>inner = Some (vs_collecting (Some demo_secrets), BlockEvents 2), snapshots = fmupd 1 (vs_collecting None) fmempty\<rparr>\<rparr>"
    unfolding vs_setup_ops_def run_from.simps 1 2 sy4_def [unfolded run_from.simps, symmetric] unfolding vs_update_def
    by (rule applied_block_step [OF 4(1)]) simp
  then show ?thesis using 4 by (simp add: vs_set_up_def)
qed

lemma vs_blocks_fed:
  "\<exists>cs. feed (apply_transition demo_L demo_T) (vs_collecting (Some demo_secrets), [])
     (map Event (map (\<lambda>(i, ev). vs_log 2 i 9 ev) (zip [0, 1, 2, 3, 4, 5] vs_keygen) @ vs_signing)) = (demo_with vs_share_round, cs) \<and>
     spawned_effects cs = [GenerateNonces demo_gid 77 demo_share, UseNonces demo_message 77]"
proof -
  let ?T = "apply_transition demo_L demo_T"
  let ?keygen = "map (\<lambda>(i, ev). Event (vs_log 2 i 9 ev)) (zip [0, 1, 2, 3, 4, 5] vs_keygen) :: msg list"
  have split: "map Event (map (\<lambda>(i, ev). vs_log 2 i 9 ev) (zip [0, 1, 2, 3, 4, 5] vs_keygen) @ vs_signing) = ?keygen @ map Event vs_signing"
    by (simp add: vs_keygen_def)
  obtain c1 where 1: "feed ?T (vs_collecting (Some demo_secrets), []) ?keygen = (demo_ready, c1)" "spawned_effects c1 = []"
    using vs_keygen_fed by blast
  obtain c2 where 2: "feed ?T (demo_ready, []) (map Event vs_signing) = (demo_with vs_share_round, c2)"
    "spawned_effects c2 = [GenerateNonces demo_gid 77 demo_share, UseNonces demo_message 77]"
    using vs_signing_fed unfolding vs_signing_def list.map by blast
  show ?thesis unfolding split feed_append 1(1) using 2 1(2) feed_acc [of ?T demo_ready c1]
    by (intro exI [of _ "c1 @ c2"]) (simp add: spawned_effects_def)
qed

lemma vs_sign_run:
  assumes "vs_set_up sy"
  shows "\<exists>c. is_share c \<and> c \<in> set (sy_sent (run_from (validator_step demo_L demo_T) sy vs_sign_ops))"
proof -
  let ?s = "demo_with vs_share_round"
  let ?logs = "map (\<lambda>(i, ev). vs_log 2 i 9 ev) (zip [0, 1, 2, 3, 4, 5] vs_keygen) @ vs_signing"
  obtain g where g: "apply_transition demo_L demo_T ?s (NewBlock (2 + 1)) = (?s, [Effect (ReconcileGroupSecrets 3 g)])"
    using vs_new_block_3 by auto
  obtain cs where cs: "feed (apply_transition demo_L demo_T) (vs_collecting (Some demo_secrets), []) (map Event ?logs) = (?s, cs)"
    "spawned_effects cs = [GenerateNonces demo_gid 77 demo_share, UseNonces demo_message 77]"
    using vs_blocks_fed by metis
  obtain st r n st' c where p: "perform_effect demo_frost 1 vs_rnd True (sy_world sy) (GenerateNonces demo_gid 77 demo_share) = (st, r)"
    "perform_effect demo_frost 1 vs_rnd True st (UseNonces demo_message 77) = (st', Nonces demo_message n)"
    and c: "is_share c" "c \<in> set (snd (apply_transition demo_L demo_T ?s (Resume (Nonces demo_message n))))"
    using vs_nonces_performed [of "sy_world sy"] vs_share_sent assms unfolding vs_set_up_def by metis
  obtain t0 t1 where t: "sy_tasks sy = [t0, t1]" using assms unfolding vs_set_up_def by (auto simp: numeral_2_eq_2 length_Suc_conv)
  define sy1 where "sy1 = send_commands (validator_handler demo_frost 1)
     (sy\<lparr>sy_heard := sy_heard sy @ map Event ?logs, sy_machine := \<lparr>inner = Some (?s, BlockApplied (2 + 1)),
       snapshots = fmupd (uint (2 :: u64)) ?s (fmupd 1 (vs_collecting None) fmempty)\<rparr>\<rparr>)
     (cs @ [Effect (ReconcileGroupSecrets 3 g)])"
  have m: "sy_machine sy = \<lparr>inner = Some (vs_collecting (Some demo_secrets), BlockEvents 2),
     snapshots = fmupd 1 (vs_collecting None) fmempty\<rparr>" using assms by (simp add: vs_set_up_def)
  have "validator_step demo_L demo_T sy (vs_logs 2 ?logs) = sy1"
    unfolding vs_logs_def vs_update_def sy1_def demo_L_simps demo_T_simps
    by (rule block_logs_step [where T = "apply_transition demo_L demo_T", OF m _ _ _ _ cs(1) g])
      (simp_all add: vs_keygen_def vs_signing_def vs_log_def log_before_def fits_i64_def)
  moreover have "sy_tasks sy1 = [t0, t1, Running (GenerateNonces demo_gid 77 demo_share) (), Running (UseNonces demo_message 77) (),
      Running (ReconcileGroupSecrets 3 g) ()]" "sy_world sy1 = sy_world sy" "inner (sy_machine sy1) = Some (?s, BlockApplied (2 + 1))"
    using t cs(2) by (simp_all add: sy1_def send_commands_def spawned_effects_def spawn_task_def validator_handler_def)
  ultimately show ?thesis using p c
    by (auto simp: vs_sign_ops_def work_task_def without_def handle_resume_def send_commands_def split_def Let_def
        simp del: apply_transition.simps)
qed

text \<open>In the sample run a share is sent.\<close>

theorem shares_sign_approved_packets_witness:
  "\<exists>c. is_share c \<and> c \<in> set (sy_sent (validator_service demo_L demo_T (vs_setup_ops @ vs_sign_ops))) \<and>
     approved_share demo_L demo_T (set (sy_heard (validator_service demo_L demo_T (vs_setup_ops @ vs_sign_ops)))) c"
proof -
  have "validator_service demo_L demo_T (vs_setup_ops @ vs_sign_ops) =
      run_from (validator_step demo_L demo_T) (run_from (validator_step demo_L demo_T) validator_start vs_setup_ops) vs_sign_ops"
    by (simp add: system_run_def run_from_append)
  then obtain c where c: "is_share c" "c \<in> set (sy_sent (validator_service demo_L demo_T (vs_setup_ops @ vs_sign_ops)))"
    using vs_sign_run [OF vs_setup_run] by auto
  from shares_sign_approved_packets [OF c(2,1)] c show ?thesis by blast
qed

end
