(* ===== verification/Retention.thy ===== *)
theory Retention
  imports Validator_Service
begin

text \<open>
  What the reconciliation of group secrets keeps (\<^verbatim>\<open>crates/validator/src/state/secrets.rs\<close> and
  \<^verbatim>\<open>crates/validator/src/secrets/store.rs\<close>).  Every new block announces the groups whose secrets are to be
  retained, and the secret store schedules the others for deletion and collects what is due.  Together they keep the
  secrets that the resulting state still needs, and no others.
\<close>

section \<open>What a validator needs\<close>

text \<open>
  Of the key generation in progress, this validator needs something if it takes part or already has its key share.
  While it has no key share it needs the secrets of the key generation.
\<close>

fun takes_part :: "rollover_state \<Rightarrow> bool" where
  "takes_part (CollectingCommitments e g secrets c d) = commits secrets"
| "takes_part (CollectingShares e g p shd shs cs d) = participates p"
| "takes_part (CollectingConfirmations e g p st cf cs dl) = participates p"
| "takes_part _ = False"

fun round_share :: "rollover_state \<Rightarrow> key_share option" where
  "round_share (CollectingConfirmations e g p (Confirmed ks) cf cs dl) = Some ks"
| "round_share (SigningRollover n g ks m) = ks"
| "round_share _ = None"

fun round_group :: "rollover_state \<Rightarrow> group option" where
  "round_group (CollectingCommitments e g secrets c d) = Some g"
| "round_group (CollectingShares e g p shd shs cs d) = Some g"
| "round_group (CollectingConfirmations e g p st cf cs dl) = Some g"
| "round_group (SigningRollover n g ks m) = Some g"
| "round_group _ = None"

definition own_round :: "rollover_state \<Rightarrow> group option" where
  "own_round r = (if takes_part r \<or> round_share r \<noteq> None then round_group r else None)"

lemma dkg_retention_eq:
  "dkg_retention r = map_option (\<lambda>g. (grp_id g, if round_share r = None then RetainAll else RetainNonces)) (own_round r)"
  by (cases r rule: dkg_retention.cases) (auto simp: own_round_def)

lemma epoch_groups_fold:
  "fmlookup (fold (\<lambda>ep m. fmupd (grp_id (ep_group ep)) RetainNonces m) eps M) gid =
     (if gid \<in> (\<lambda>ep. grp_id (ep_group ep)) ` set eps then Some RetainNonces else fmlookup M gid)"
  by (induction eps arbitrary: M) auto

lemma retained_groups_lookup:
  "fmlookup (retained_groups E r) gid =
     (if \<exists>g. own_round r = Some g \<and> gid = grp_id g then Some (if round_share r = None then RetainAll else RetainNonces)
      else if \<exists>e ep. fmlookup E e = Some ep \<and> gid = grp_id (ep_group ep) then Some RetainNonces
      else None)"
  by (cases "own_round r") (auto simp: retained_groups_def dkg_retention_eq epoch_groups_fold set_fm_values Let_def)

lemma retained_epoch_group:
  "fmlookup E e = Some ep \<Longrightarrow> fm_has (retained_groups E r) (grp_id (ep_group ep))"
  by (auto simp: fm_has_iff fmlookup_dom_iff retained_groups_lookup)

section \<open>What a reconciliation does to the store\<close>

text \<open>Rows of key generation secrets and nonces under a reconciliation that the store accepts.\<close>

lemma absent_deadline_eq:
  "absent_deadline block retained gid d =
     (if gid |\<in>| retained then None else case d of None \<Rightarrow> Some block | Some d \<Rightarrow> Some d)"
  by (auto simp: absent_deadline_def Let_def split: option.splits)

lemma accepted_keygen_rows:
  assumes "schedule_group_secrets_deletion st b groups = Inr (st', True)" "fmlookup (keygen_rows st) (gid, a) = Some row"
  shows "fmlookup (keygen_rows st') (gid, a) =
    Some (row\<lparr>kr_delete_at := if fmlookup groups gid = Some RetainAll then None
                else case kr_delete_at row of None \<Rightarrow> Some (uint b) | Some d \<Rightarrow> Some d\<rparr>)"
proof -
  have "gid |\<in>| ffilter (\<lambda>gid. fmlookup groups gid = Some RetainAll) (fmdom groups) \<longleftrightarrow> fmlookup groups gid = Some RetainAll"
    by (auto intro: fmdomI)
  moreover have "st' = st\<lparr>reconciled := Some (uint b),
      keygen_rows := schedule_absent_keygen (uint b) (ffilter (\<lambda>gid. fmlookup groups gid = Some RetainAll) (fmdom groups)) (keygen_rows st),
      nonce_rows := schedule_absent_nonces (uint b) (fmdom groups) (nonce_rows st)\<rparr>"
    using assms(1) by (auto simp: schedule_group_secrets_deletion_def i64_of_def Let_def split: sum.splits if_splits)
  ultimately show ?thesis using assms(2)
    by (simp add: schedule_absent_keygen_def absent_deadline_eq del: ffmember_filter)
qed

lemma accepted_nonce_row:
  assumes "schedule_group_secrets_deletion st b groups = Inr (st', True)" "fm_has groups gid"
    and "\<And>row. fmlookup (nonce_rows st) sid = Some row \<Longrightarrow> nr_group row = gid"
  shows "nonce_row_kept gid sid st'" "nonce_value st' sid = nonce_value st sid"
  using assms
  by (cases "fmlookup (nonce_rows st) sid";
      auto simp: schedule_group_secrets_deletion_def schedule_absent_nonces_def nonce_row_kept_def nonce_value_def
        fm_has_iff absent_deadline_retained Let_def split: sum.splits if_splits)+

section \<open>The announcement\<close>

fun ceremony :: "signing_state \<Rightarrow> (b256 \<times> b256) option" where
  "ceremony (WaitingForOracle ks oracle gid sid p sg d) = Some (gid, sid)"
| "ceremony (CollectNonceCommitments ks gid sid c p sg d) = Some (gid, sid)"
| "ceremony (CollectSigningShares ks gid sid c sel p sg d) = Some (gid, sid)"
| "ceremony _ = None"

fun reconciles :: "cmd \<Rightarrow> bool" where
  "reconciles (Effect (ReconcileGroupSecrets b groups)) = True"
| "reconciles _ = False"

lemma start_reconciles: "start_key_gen L T s e ps d = (s', cs) \<Longrightarrow> c \<in> set cs \<Longrightarrow> \<not> reconciles c"
  by (auto simp: start_key_gen_def split: option.splits)

lemma restart_reconciles: "restart_key_gen_excluding L T s e ex d = (s', cs) \<Longrightarrow> c \<in> set cs \<Longrightarrow> \<not> reconciles c"
  by (auto simp: restart_key_gen_excluding_def Let_def dest: start_reconciles split: option.splits)

lemma clock_reconciles: "handle_rollover_new_block L T s b = (s', cs) \<Longrightarrow> x \<in> set cs \<Longrightarrow> \<not> reconciles x"
  by (auto simp: handle_rollover_new_block_def Let_def dest: start_reconciles split: option.splits if_splits)

lemma timeout_reconciles: "handle_key_gen_timeouts L T s b = (s', cs) \<Longrightarrow> x \<in> set cs \<Longrightarrow> \<not> reconciles x"
  by (auto simp: handle_key_gen_timeouts_def dest: restart_reconciles split: option.splits)

lemma session_reconciles: "c \<in> set (fst (snd (timeout_session L T block m x))) \<Longrightarrow> \<not> reconciles c"
  by (cases x) (auto simp: timeout_session_def Let_def split: if_splits option.splits packet.splits prod.splits)

lemma signing_reconciles:
  assumes "handle_signing_timeouts L T s b = (s', cs)" "c \<in> set cs"
  shows "\<not> reconciles c"
proof -
  have "cs = concat (map (pushed L T b (signing s)) (fm_keys (signing s)))"
    using signing_timeouts_commands [of L T s b] by (simp add: assms(1))
  with assms(2) obtain m x where "c \<in> set (fst (snd (timeout_session L T b m x)))"
    by (auto simp: pushed_def fmlookup_dom_iff)
  then show ?thesis by (rule session_reconciles)
qed

text \<open>The only reconciliation that a new block asks for retains the groups of the resulting state.\<close>

lemma new_block_reconciliation:
  assumes "apply_new_block L T s b = (s', cs)" "Effect (ReconcileGroupSecrets b' groups) \<in> set cs"
  shows "b' = b \<and> groups = retained_groups (epochs s') (rollover s')"
proof -
  obtain s1 c1 s2 c2 s3 c3 s4 c4 where ph: "handle_rollover_new_block L T s b = (s1, c1)"
    "handle_key_gen_timeouts L T s1 b = (s2, c2)" "handle_signing_timeouts L T s2 b = (s3, c3)"
    "handle_group_reconciliation s3 b = (s4, c4)" "apply_new_block L T s b = (s4, c1 @ c2 @ c3 @ c4)"
    by (rule new_block_phases)
  let ?c = "Effect (ReconcileGroupSecrets b' groups) :: cmd"
  have "?c \<notin> set c1" "?c \<notin> set c2" "?c \<notin> set c3"
    using clock_reconciles [OF ph(1)] timeout_reconciles [OF ph(2)] signing_reconciles [OF ph(3)] by fastforce+
  then have "?c \<in> set c4" using assms ph(5) by auto
  then show ?thesis using reconciliation_frame(6) [OF ph(4)] assms(1) ph(5) by simp
qed

lemma ceremony_group:
  assumes "session_keyed T E x" "ceremony x = Some (gid, sid)"
  shows "\<exists>ep. fmlookup E (packet_epoch (sgn_packet x)) = Some ep \<and> gid = grp_id (ep_group ep)"
  using assms by (cases x) (auto split: option.splits)

text \<open>
  C13: reconciliation retains what is needed and nothing else.  Every new block of a run announces the groups whose
  secrets to retain.  These are exactly the groups of the epochs on record and the group of the key generation in
  progress if this validator takes part in it or has its share.  The epoch of every open signing session is on record,
  and so is the active epoch if it was before.  And in a store that accepts the reconciliation, the secrets of a key
  generation in which this validator takes part and has no share yet are kept, unscheduled, through a collection at
  any safe block, whereas those of every other key generation are scheduled for deletion.
\<close>

theorem reconciliation_retains_what_is_needed:
  assumes "apply_transition L T (run L T ms) (NewBlock b) = (s', cs)"
  shows "\<exists>groups. Effect (ReconcileGroupSecrets b groups) \<in> set cs \<and>
    (\<forall>gid. fm_has groups gid \<longleftrightarrow>
       (\<exists>e ep. fmlookup (epochs s') e = Some ep \<and> gid = grp_id (ep_group ep)) \<or>
       (\<exists>g. own_round (rollover s') = Some g \<and> gid = grp_id g)) \<and>
    (\<forall>m x. fmlookup (signing s') m = Some x \<longrightarrow> fm_has (epochs s') (packet_epoch (sgn_packet x))) \<and>
    (fm_has (epochs (run L T ms)) (active_epoch s') \<longrightarrow> fm_has (epochs s') (active_epoch s')) \<and>
    (\<forall>st st' gid a row db status.
       schedule_group_secrets_deletion st b groups = Inr (st', True) \<longrightarrow> fmlookup (keygen_rows st) (gid, a) = Some row \<longrightarrow>
       (if \<exists>g. own_round (rollover s') = Some g \<and> gid = grp_id g \<and> round_share (rollover s') = None
        then fmlookup (keygen_rows (housekeeping db st' status)) (gid, a) = Some (row\<lparr>kr_delete_at := None\<rparr>)
        else \<exists>row'. fmlookup (keygen_rows st') (gid, a) = Some row' \<and> kr_delete_at row' \<noteq> None))"
proof -
  let ?groups = "retained_groups (epochs s') (rollover s')"
  obtain s1 c1 s2 c2 s3 c3 s4 c4 where ph: "handle_rollover_new_block L T (run L T ms) b = (s1, c1)"
    "handle_key_gen_timeouts L T s1 b = (s2, c2)" "handle_signing_timeouts L T s2 b = (s3, c3)"
    "handle_group_reconciliation s3 b = (s4, c4)" "apply_new_block L T (run L T ms) b = (s4, c1 @ c2 @ c3 @ c4)"
    by (rule new_block_phases)
  have s': "s' = s4" "cs = c1 @ c2 @ c3 @ c4" using assms ph(5) by auto
  note rf = reconciliation_frame [OF ph(4)]
  have "Effect (ReconcileGroupSecrets b ?groups) \<in> set cs" using rf(6) s' by simp
  moreover have "fm_has ?groups gid \<longleftrightarrow> (\<exists>e ep. fmlookup (epochs s') e = Some ep \<and> gid = grp_id (ep_group ep)) \<or>
      (\<exists>g. own_round (rollover s') = Some g \<and> gid = grp_id g)" for gid
    by (auto simp: fm_has_iff fmlookup_dom_iff retained_groups_lookup)
  moreover have "fm_has (epochs s') (packet_epoch (sgn_packet x))" if "fmlookup (signing s') m = Some x" for m x
  proof -
    have "s' = run L T (ms @ [NewBlock b])" using assms by (simp add: run_snoc)
    then show ?thesis using session_keyed_epoch run_session(2) that by blast
  qed
  moreover have "fm_has (epochs (run L T ms)) (active_epoch s') \<longrightarrow> fm_has (epochs s') (active_epoch s')"
  proof -
    have "epochs s3 = epochs (run L T ms)"
      using rollover_new_block_frame(2) [OF ph(1)] key_gen_timeouts_frame(2) [OF ph(2)]
        signing_timeouts_frame(3) [where L = L and T = T and block = b and s = s2] ph(3) by simp
    then show ?thesis using rf(4,5) s' oldest_epoch_le(1) [of s3] by (auto simp: fm_has_def)
  qed
  moreover have "if \<exists>g. own_round (rollover s') = Some g \<and> gid = grp_id g \<and> round_share (rollover s') = None
      then fmlookup (keygen_rows (housekeeping db st' status)) (gid, a) = Some (row\<lparr>kr_delete_at := None\<rparr>)
      else \<exists>row'. fmlookup (keygen_rows st') (gid, a) = Some row' \<and> kr_delete_at row' \<noteq> None"
    if "schedule_group_secrets_deletion st b ?groups = Inr (st', True)" "fmlookup (keygen_rows st) (gid, a) = Some row"
    for st st' gid a row db status
  proof -
    have "fmlookup ?groups gid = Some RetainAll \<longleftrightarrow>
        (\<exists>g. own_round (rollover s') = Some g \<and> gid = grp_id g \<and> round_share (rollover s') = None)"
      by (auto simp: retained_groups_lookup)
    then show ?thesis using accepted_keygen_rows [OF that] housekeeping_keygen_rows [of "(gid, a)" st' db status]
      by (auto simp: keygen_row_kept_def split: option.split)
  qed
  ultimately show ?thesis by (intro exI [of _ ?groups]) blast
qed

text \<open>
  The validator of the sample run in the commitment round of the genesis key, with a store that had scheduled its
  secrets for deletion.
\<close>

definition scheduled_secrets :: secret_store where
  "scheduled_secrets = empty_store\<lparr>keygen_rows := fmupd (demo_gid, 1) \<lparr>kr_secrets = demo_secrets, kr_delete_at = Some 1\<rparr> fmempty\<rparr>"

lemma scheduled_accepts: "\<exists>st. schedule_group_secrets_deletion scheduled_secrets 2 groups = Inr (st, True)"
  by (simp add: schedule_group_secrets_deletion_def scheduled_secrets_def empty_store_def i64_of_def)

theorem reconciliation_retains_what_is_needed_witness:
  "\<exists>ms groups st. Effect (ReconcileGroupSecrets 2 groups) \<in> set (snd (apply_transition demo_L demo_T (run demo_L demo_T ms) (NewBlock 2))) \<and>
     schedule_group_secrets_deletion scheduled_secrets 2 groups = Inr (st, True) \<and>
     keygen_secret (housekeeping True st \<lparr>bs_latest = 9, bs_safe = 8\<rparr>) (demo_gid, 1) = Some demo_secrets"
proof -
  let ?ms = "[Event (vs_log 1 0 9 (CoordinatorEvent (KeyGen demo_gid 0 2 2 0)))]"
  have run: "run demo_L demo_T ?ms = vs_collecting None" using vs_genesis by (simp add: run_def)
  obtain cs where cs: "apply_transition demo_L demo_T (run demo_L demo_T ?ms) (NewBlock 2) = (vs_collecting None, cs)"
    using vs_new_block_2 unfolding run by blast
  have own: "own_round (rollover (vs_collecting None)) = Some demo_group" "round_share (rollover (vs_collecting None)) = None"
    by (simp_all add: vs_collecting_def own_round_def)
  let ?row = "\<lparr>kr_secrets = demo_secrets, kr_delete_at = Some 1\<rparr>"
  have row: "fmlookup (keygen_rows scheduled_secrets) (demo_gid, 1) = Some ?row" by (simp add: scheduled_secrets_def)
  from reconciliation_retains_what_is_needed [OF cs] obtain groups
    where g: "Effect (ReconcileGroupSecrets 2 groups) \<in> set cs"
      "\<And>st db status. schedule_group_secrets_deletion scheduled_secrets 2 groups = Inr (st, True) \<Longrightarrow>
         fmlookup (keygen_rows (housekeeping db st status)) (demo_gid, 1) = Some (?row\<lparr>kr_delete_at := None\<rparr>)"
    using row own by (auto split: if_splits)
  obtain st where "schedule_group_secrets_deletion scheduled_secrets 2 groups = Inr (st, True)" using scheduled_accepts by blast
  then show ?thesis using g cs by (intro exI [of _ ?ms] exI [of _ groups] exI [of _ st]) (simp add: keygen_secret_def)
qed

section \<open>The nonces of open ceremonies\<close>

text \<open>
  C26: a reconciliation does not cost an open ceremony its nonces.  When a new block is applied to any state that a
  run reaches and its reconciliation is performed on the secret store, followed by a collection at any safe block,
  then for every signing session that is open after the block the nonces on record for its signature id (fresh or
  already used) are as before and not scheduled for deletion.  This supposes that they are on record for the
  group of the session and that either the store carries out the reconciliation, which takes back a deletion that an
  earlier one had scheduled, or they were not scheduled before; a store that fails to carry it out does not protect
  nonces that are already due.
\<close>

theorem open_ceremonies_keep_their_nonces:
  assumes "apply_transition L T (run L T ms) (NewBlock b) = (s', cs)" "Effect (ReconcileGroupSecrets b' groups) \<in> set cs"
    and "fmlookup (signing s') m = Some x" "ceremony x = Some (gid, sid)"
    and "\<And>row. fmlookup (nonce_rows st) sid = Some row \<Longrightarrow> nr_group row = gid"
    and "db \<and> (\<exists>st'. schedule_group_secrets_deletion st b' groups = Inr (st', True)) \<or>
      (\<forall>row. fmlookup (nonce_rows st) sid = Some row \<longrightarrow> nr_delete_at row = None)"
  shows "let st' = housekeeping db' (fst (perform_effect F me rnd db st (ReconcileGroupSecrets b' groups))) status
    in nonce_value st' sid = nonce_value st sid \<and> nonce_row_kept gid sid st'"
proof -
  have s': "s' = run L T (ms @ [NewBlock b])" using assms(1) by (simp add: run_snoc)
  have "session_keyed T (epochs s') x" using run_session(2) assms(3) unfolding s' .
  from ceremony_group [OF this assms(4)] obtain ep
    where ep: "fmlookup (epochs s') (packet_epoch (sgn_packet x)) = Some ep" "gid = grp_id (ep_group ep)" by blast
  have "groups = retained_groups (epochs s') (rollover s')"
    using new_block_reconciliation assms(1,2) by simp
  then have keep: "fm_has groups gid" using retained_epoch_group ep by simp
  let ?st1 = "fst (perform_effect F me rnd db st (ReconcileGroupSecrets b' groups))"
  have "nonce_row_kept gid sid ?st1 \<and> nonce_value ?st1 sid = nonce_value st sid"
    using assms(6)
  proof
    assume "db \<and> (\<exists>st'. schedule_group_secrets_deletion st b' groups = Inr (st', True))"
    then obtain st' where st': "schedule_group_secrets_deletion st b' groups = Inr (st', True)" "?st1 = st'"
      by (auto simp: perform_effect_def try_perform_effect_def)
    show ?thesis unfolding st'(2) using accepted_nonce_row [OF st'(1) keep assms(5)] by simp
  next
    assume "\<forall>row. fmlookup (nonce_rows st) sid = Some row \<longrightarrow> nr_delete_at row = None"
    then have kept: "nonce_row_kept gid sid st" using assms(5) by (auto simp: nonce_row_kept_def split: option.splits)
    have "?st1 = st \<or> (\<exists>a. schedule_group_secrets_deletion st b' groups = Inr (?st1, a))"
      by (auto simp: perform_effect_def try_perform_effect_def split: sum.splits prod.splits if_splits)
    then show ?thesis using reconcile_nonce_rows [OF _ keep kept] kept by metis
  qed
  then show ?thesis
    using housekeeping_nonce_rows [of gid sid ?st1 db' status] by (simp add: nonce_value_def nonce_row_kept_def)
qed

text \<open>
  The store of a validator that has used its nonces for the open ceremony, and in which a reconciliation of an
  uncled block had scheduled them for deletion.
\<close>

definition used_nonces :: secret_store where
  "used_nonces = empty_store\<lparr>nonce_rows :=
     fmupd 77 \<lparr>nr_group = demo_gid, nr_address = 1, nr_nonces = None, nr_delete_at = Some 3\<rparr> fmempty\<rparr>"

theorem open_ceremonies_keep_their_nonces_witness:
  "\<exists>groups. Effect (ReconcileGroupSecrets 8 groups) \<in>
      set (snd (apply_transition demo_L demo_T (run demo_L demo_T (demo_keygen @ demo_signing)) (NewBlock 8))) \<and>
    nonce_value (housekeeping True (fst (perform_effect demo_frost 1 (replay_rnd 0) True used_nonces
      (ReconcileGroupSecrets 8 groups))) \<lparr>bs_latest = 20, bs_safe = 19\<rparr>) 77 = Some None"
proof -
  let ?s = "run demo_L demo_T (demo_keygen @ demo_signing)"
  obtain s' cs where h: "apply_transition demo_L demo_T ?s (NewBlock 8) = (s', cs)" by (cases rule: prod.exhaust)
  obtain s1 c1 s2 c2 s3 c3 s4 c4 where ph: "handle_rollover_new_block demo_L demo_T ?s 8 = (s1, c1)"
    "handle_key_gen_timeouts demo_L demo_T s1 8 = (s2, c2)" "handle_signing_timeouts demo_L demo_T s2 8 = (s3, c3)"
    "handle_group_reconciliation s3 8 = (s4, c4)" "apply_new_block demo_L demo_T ?s 8 = (s4, c1 @ c2 @ c3 @ c4)"
    by (rule new_block_phases)
  define groups where "groups = retained_groups (epochs s') (rollover s')"
  have e: "Effect (ReconcileGroupSecrets 8 groups) \<in> set cs"
    using h ph(5) reconciliation_frame(6) [OF ph(4)] by (simp add: groups_def)
  have "fmlookup (signing (fst (apply_new_block demo_L demo_T ?s 8))) demo_message = Some demo_share_round"
    by (simp add: new_block_signing swept_def demo_share_round_def timeout_session_def)
  then have x: "fmlookup (signing s') demo_message = Some demo_share_round" using h by simp
  have c: "ceremony demo_share_round = Some (demo_gid, 77)" by (simp add: demo_share_round_def)
  have own: "\<And>row. fmlookup (nonce_rows used_nonces) 77 = Some row \<Longrightarrow> nr_group row = demo_gid" by (auto simp: used_nonces_def)
  have "\<exists>st'. schedule_group_secrets_deletion used_nonces 8 groups = Inr (st', True)"
    by (simp add: schedule_group_secrets_deletion_def used_nonces_def empty_store_def i64_of_def)
  then have "nonce_value (housekeeping True (fst (perform_effect demo_frost 1 (replay_rnd 0) True used_nonces
      (ReconcileGroupSecrets 8 groups))) \<lparr>bs_latest = 20, bs_safe = 19\<rparr>) 77 = nonce_value used_nonces 77"
    using open_ceremonies_keep_their_nonces [OF h e x c own, where st = used_nonces and db = True and db' = True and F = demo_frost and me = 1
        and rnd = "replay_rnd 0" and status = "\<lparr>bs_latest = 20, bs_safe = 19\<rparr>"]
    by (simp add: Let_def)
  also have "\<dots> = Some None" by (simp add: nonce_value_def used_nonces_def)
  finally show ?thesis using e h by auto
qed

end
