(* ===== verification/Share_Exchange.thy ===== *)
theory Share_Exchange
  imports Demo
begin

text \<open>
  Correctness of the exchange of secret shares and of the marshalling around it
  (\<^verbatim>\<open>crates/validator/src/frost/\<close>).  The two library facts that the exchange rests on are hypotheses of
  the theorems that need them: Diffie-Hellman agreement of the curve and distinct identifiers for the
  participants at hand.
\<close>

section \<open>Collected results\<close>

lemma collect_map:
  "collect (map g xs) = Inr ys \<longleftrightarrow> length ys = length xs \<and> (\<forall>i<length xs. g (xs ! i) = Inr (ys ! i))"
proof (induction xs arbitrary: ys)
  case (Cons x xs)
  show ?case
  proof (cases "g x")
    case (Inl e)
    then show ?thesis by (auto simp: nth_Cons' split: if_splits)
  next
    case (Inr y)
    have "collect (map g (x # xs)) = Inr ys \<longleftrightarrow> (\<exists>zs. ys = y # zs \<and> collect (map g xs) = Inr zs)"
      using Inr by (auto split: sum.splits)
    also have "\<dots> \<longleftrightarrow> length ys = length (x # xs) \<and> (\<forall>i<length (x # xs). g ((x # xs) ! i) = Inr (ys ! i))"
      using Inr by (cases ys) (auto simp: Cons.IH All_less_Suc2)
    finally show ?thesis .
  qed
qed auto

lemma position_Some: "position P xs = Some i \<Longrightarrow> i < length xs \<and> P (xs ! i)"
  by (induction xs arbitrary: i) (auto split: if_splits)

lemma position_exists: "x \<in> set xs \<Longrightarrow> P x \<Longrightarrow> \<exists>i. position P xs = Some i"
  by (induction xs) auto

section \<open>Delivery of shares\<close>

text \<open>
  The sender's list of encrypted shares holds, at the receiver's position among the sender's peers in
  ascending address order, the receiver's share under their shared key.
\<close>

lemma encrypted_at_position:
  assumes enc: "encrypt_shares F ka (derive F a) commitments packages = Inr encrypted"
    and inj: "inj_on (derive F) (fset (fmdom commitments))" and a: "a |\<in>| fmdom commitments"
    and b: "fmlookup commitments b = Some cb" "b \<noteq> a"
  obtains i package where "fmlookup packages (derive F b) = Some package" "position (\<lambda>x. derive F x = derive F b) (filter (\<lambda>x. x \<noteq> a) (fm_keys commitments)) = Some i"
    "i < length encrypted" "encrypted ! i = ecdh F ka (vc_encryption_public_key cb) (r2_signing_share package)"
proof -
  let ?peers = "filter (\<lambda>x. x \<noteq> a) (fm_keys commitments)"
  let ?h = "\<lambda>x. (derive F x, vc_encryption_public_key (the (fmlookup commitments x)))"
  have b_in: "b \<in> set ?peers" using b by (simp add: fmdomI)
  then obtain i where i: "position (\<lambda>x. derive F x = derive F b) ?peers = Some i"
    using position_exists [of b ?peers "\<lambda>x. derive F x = derive F b"] by auto
  from position_Some [OF i] have lt: "i < length ?peers" and "derive F (?peers ! i) = derive F b" by auto
  moreover from lt have "?peers ! i \<in> set ?peers" by (rule nth_mem)
  ultimately have nth: "?peers ! i = b"
    using inj b_in by (auto dest!: inj_onD [OF inj])
  have "filter (\<lambda>(peer, _). peer \<noteq> derive F a) (map ?h (fm_keys commitments)) = map ?h ?peers"
    using inj a by (auto simp: filter_map comp_def intro!: arg_cong [of _ _ "map ?h"] filter_cong dest: inj_onD)
  with enc have len: "length encrypted = length ?peers"
    and at: "\<forall>j<length ?peers. (\<lambda>(peer, pk). case fmlookup packages peer of None \<Rightarrow> Inl UnknownIdentifier
        | Some package \<Rightarrow> Inr (ecdh F ka pk (r2_signing_share package))) (map ?h ?peers ! j) = Inr (encrypted ! j)"
    unfolding encrypt_shares_def by (auto simp: collect_map)
  have "(case fmlookup packages (derive F b) of None \<Rightarrow> Inl UnknownIdentifier
      | Some package \<Rightarrow> Inr (ecdh F ka (vc_encryption_public_key cb) (r2_signing_share package))) = Inr (encrypted ! i)"
    using at [rule_format, OF lt] nth b(1) lt by simp
  then show ?thesis using that i lt len by (auto split: option.splits)
qed

lemma ecdh_decrypts:
  assumes "mul_x F (mul_generator F ka) kb = mul_x F (mul_generator F kb) ka"
  shows "ecdh F kb (mul_generator F ka) (ecdh F ka (mul_generator F kb) msg) = msg"
  using assms by (simp add: ecdh_def xor.assoc)

text \<open>
  C27: every share reaches its receiver.  Let a participant generate its secret shares over the group's
  commitments and let another member of the group, whose encryption key fits the public key it committed
  to, verify the shares it published.  Then the receiver finds and decrypts exactly the share that the
  sender's round two package holds for it, and checking it is the same as checking the share that the
  sender would reveal in answer to a complaint.
\<close>

theorem shares_reach_their_receivers:
  assumes gen: "generate_secret_shares F s commitments = Inr (ss, share)"
    and ids: "r2s_identifier (ss_secret_package ss) = derive F a" "r2s_identifier (ss_secret_package ss') = derive F b"
    and inj: "inj_on (derive F) (fset (fmdom commitments))" and ab: "a \<noteq> b"
    and ca: "fmlookup commitments a = Some ca" "vc_encryption_public_key ca = mul_generator F (encryption_key s)"
    and cb: "fmlookup commitments b = Some cb" "vc_encryption_public_key cb = mul_generator F (ss_encryption_key ss')"
    and receiver: "ss_group_commitments ss' = ss_group_commitments ss"
    and dh: "mul_x F (mul_generator F (encryption_key s)) (ss_encryption_key ss') =
      mul_x F (mul_generator F (ss_encryption_key ss')) (encryption_key s)"
  shows "\<exists>secret_share. reveal_secret_share F ss b = Inr secret_share \<and>
    verify_encrypted_secret_share F ss' a (kgs_f share) =
      verify_revealed_secret_share F (ss_group_commitments ss) b a secret_share"
proof -
  have enc: "encrypt_shares F (encryption_key s) (derive F a) commitments (ss_peer_packages ss) = Inr (kgs_f share)"
    and gc: "gc_commitments (ss_group_commitments ss) = commitments"
    using gen ids(1)
    by (auto simp: generate_secret_shares_def err_unexpected_def solidity_secret_share_def Let_def
        split: sum.splits if_splits)
  have da: "derive F a \<noteq> derive F b" using inj ab ca(1) cb(1) by (auto dest: inj_onD intro: fmdomI)
  obtain i package where pkg: "fmlookup (ss_peer_packages ss) (derive F b) = Some package"
    and i: "position (\<lambda>x. derive F x = derive F b) (filter (\<lambda>x. x \<noteq> a) (fm_keys commitments)) = Some i"
    "i < length (kgs_f share)"
    "kgs_f share ! i = ecdh F (encryption_key s) (vc_encryption_public_key cb) (r2_signing_share package)"
    using encrypted_at_position [OF enc inj fmdomI [OF ca(1)] cb(1) ab [symmetric]] by blast
  have "verify_encrypted_secret_share F ss' a (kgs_f share) =
      verified_share_new F (derive F b) a (r1_commitment (vc_package ca)) (r2_signing_share package)"
    using i ids(2) receiver gc ca cb(2) da ecdh_decrypts [OF dh]
    by (simp add: verify_encrypted_secret_share_def err_unexpected_def Let_def)
  moreover have "reveal_secret_share F ss b = Inr (r2_signing_share package)"
    using pkg by (simp add: reveal_secret_share_def)
  ultimately show ?thesis using gc ca(1) by (simp add: verify_revealed_secret_share_def)
qed

text \<open>A toy curve for the witness: multiples of a generator, with the product as the shared secret.\<close>

definition toy_curve :: frost_lib where
  "toy_curve = demo_frost\<lparr>mul_x := (\<lambda>p k. case p of Identity \<Rightarrow> 0 | Affine x y \<Rightarrow> x * k)\<rparr>"

definition toy_commitments :: "(address, verified_commitment) fmap" where
  "toy_commitments = fmupd 2 (demo_vc\<lparr>vc_encryption_public_key := Affine 9 9\<rparr>) (fmupd 1 demo_vc fmempty)"

lemma toy_shares:
  "\<exists>ss share. generate_secret_shares toy_curve demo_secrets toy_commitments = Inr (ss, share) \<and>
     r2s_identifier (ss_secret_package ss) = 1"
  by (simp add: generate_secret_shares_def toy_curve_def demo_frost_def toy_commitments_def demo_secrets_def demo_vc_def
      peer_packages_def rekey_def group_commitment_def encrypt_shares_def err_unexpected_def fin_simps)

theorem shares_reach_their_receivers_witness:
  "\<exists>ss share secret_share. generate_secret_shares toy_curve demo_secrets toy_commitments = Inr (ss, share) \<and>
     reveal_secret_share toy_curve ss 2 = Inr secret_share \<and>
     verify_encrypted_secret_share toy_curve
       (ss\<lparr>ss_encryption_key := 9, ss_secret_package := (ss_secret_package ss)\<lparr>r2s_identifier := 2\<rparr>\<rparr>) 1 (kgs_f share) =
     verify_revealed_secret_share toy_curve (ss_group_commitments ss) 2 1 secret_share"
proof -
  obtain ss share where g: "generate_secret_shares toy_curve demo_secrets toy_commitments = Inr (ss, share)"
    and i: "r2s_identifier (ss_secret_package ss) = 1"
    using toy_shares by blast
  let ?ss' = "ss\<lparr>ss_encryption_key := 9, ss_secret_package := (ss_secret_package ss)\<lparr>r2s_identifier := 2\<rparr>\<rparr>"
  have "r2s_identifier (ss_secret_package ss) = derive toy_curve 1"
    "r2s_identifier (ss_secret_package ?ss') = derive toy_curve 2"
    "inj_on (derive toy_curve) (fset (fmdom toy_commitments))" "(1 :: address) \<noteq> 2"
    "fmlookup toy_commitments 1 = Some demo_vc"
    "vc_encryption_public_key demo_vc = mul_generator toy_curve (encryption_key demo_secrets)"
    "fmlookup toy_commitments 2 = Some (demo_vc\<lparr>vc_encryption_public_key := Affine 9 9\<rparr>)"
    "vc_encryption_public_key (demo_vc\<lparr>vc_encryption_public_key := Affine 9 9\<rparr>) =
      mul_generator toy_curve (ss_encryption_key ?ss')"
    "ss_group_commitments ?ss' = ss_group_commitments ss"
    "mul_x toy_curve (mul_generator toy_curve (encryption_key demo_secrets)) (ss_encryption_key ?ss') =
      mul_x toy_curve (mul_generator toy_curve (ss_encryption_key ?ss')) (encryption_key demo_secrets)"
    by (simp_all add: i toy_curve_def demo_frost_def toy_commitments_def demo_vc_def demo_secrets_def)
  from shares_reach_their_receivers [OF g this] g show ?thesis by blast
qed

section \<open>Marshalling\<close>

text \<open>Points and scalars that the libraries can hold: affine points lie on the curve, scalars are canonical.\<close>

fun curve_point :: "frost_lib \<Rightarrow> element \<Rightarrow> bool" where
  "curve_point F Identity = True"
| "curve_point F (Affine x y) = (on_curve F x y \<and> \<not> (x = 0 \<and> y = 0))"

definition curve_signature :: "frost_lib \<Rightarrow> signature \<Rightarrow> bool" where
  "curve_signature F s \<longleftrightarrow> curve_point F (schnorr_r s) \<and> canonical F (schnorr_z s)"

lemma frost_solidity_point: "curve_point F p \<Longrightarrow> frost_point F (solidity_point p) = Inr p"
  by (cases p) (auto simp: frost_point_def)

lemma solidity_frost_point: "frost_point F p = Inr q \<Longrightarrow> solidity_point q = p"
  by (auto simp: frost_point_def split: if_splits)

lemma frost_solidity_signature:
  "curve_signature F s \<Longrightarrow> frost_signature F (sig_r (solidity_signature s)) (sig_z (solidity_signature s)) = Inr s"
  by (simp add: curve_signature_def solidity_signature_def frost_signature_def frost_scalar_def frost_solidity_point)

lemma solidity_frost_signature:
  "frost_signature F r z = Inr s \<Longrightarrow> solidity_signature s = \<lparr>sig_r = r, sig_z = z\<rparr>"
  by (auto simp: frost_signature_def frost_scalar_def solidity_signature_def split: sum.splits if_splits
      dest: solidity_frost_point)

text \<open>
  Marshalling of key generation commitments is faithful in both directions.  Reading back what was
  written gives the same encryption package and round one package, for any points of the curve and
  canonical scalars; and whatever onchain commitment is accepted is written back unchanged.
\<close>

lemma commitment_marshal_roundtrip:
  "(curve_point F (public_key_point ep) \<and> curve_signature F (proof_of_possession ep) \<and>
    list_all (curve_point F) (r1_commitment p) \<and> curve_signature F (r1_proof_of_knowledge p) \<longrightarrow>
      frost_commitment F (solidity_commitment ep p) = Inr (ep, p)) \<and>
   (frost_commitment F c = Inr (ep, p) \<longrightarrow> solidity_commitment ep p = c)"
proof (intro conjI impI)
  assume v: "curve_point F (public_key_point ep) \<and> curve_signature F (proof_of_possession ep) \<and>
    list_all (curve_point F) (r1_commitment p) \<and> curve_signature F (r1_proof_of_knowledge p)"
  then have "collect (map (frost_point F) (map solidity_point (r1_commitment p))) = Inr (r1_commitment p)"
    unfolding map_map collect_map by (auto simp: list_all_length frost_solidity_point)
  then show "frost_commitment F (solidity_commitment ep p) = Inr (ep, p)"
    using v by (simp add: frost_commitment_def solidity_commitment_def frost_solidity_point frost_solidity_signature)
next
  assume "frost_commitment F c = Inr (ep, p)"
  then obtain q pop cs pok where parts: "frost_point F (kgc_q c) = Inr q"
    "frost_signature F (sig_r (kgc_pop c)) (sig_z (kgc_pop c)) = Inr pop"
    "collect (map (frost_point F) (kgc_c c)) = Inr cs"
    "frost_signature F (sig_r (kgc_pok c)) (sig_z (kgc_pok c)) = Inr pok"
    "ep = \<lparr>public_key_point = q, proof_of_possession = pop\<rparr>" "p = \<lparr>r1_commitment = cs, r1_proof_of_knowledge = pok\<rparr>"
    by (auto simp: frost_commitment_def split: sum.splits)
  have "map solidity_point cs = kgc_c c"
    using parts(3) unfolding collect_map by (auto intro!: nth_equalityI simp: solidity_frost_point)
  then show "solidity_commitment ep p = c"
    using parts(1,2,4-6) by (simp add: solidity_commitment_def solidity_frost_point solidity_frost_signature)
qed

section \<open>The proof of selection\<close>

lemma collect_signers_lookup:
  assumes "collect_signers F commitments factors committed as acc = Inr signers"
    and "inj_on (derive F) (set as)" "distinct as"
  shows "(\<forall>a\<in>set as. \<exists>r l. fmlookup signers (derive F a) = Some (a, r, l)) \<and>
    (\<forall>i. i \<notin> derive F ` set as \<longrightarrow> fmlookup signers i = fmlookup acc i)"
  using assms
proof (induction as arbitrary: acc)
  case (Cons a as)
  then obtain r l where rest: "collect_signers F commitments factors committed as (fmupd (derive F a) (a, r, l) acc) = Inr signers"
    by (auto simp: Let_def split: option.splits sum.splits)
  have "derive F a \<notin> derive F ` set as" using Cons.prems(2,3) by (auto dest: inj_onD)
  then show ?case using Cons.IH [OF rest] Cons.prems(2,3) by (auto simp: inj_on_insert)
qed simp

text \<open>
  A signature share proves that it belongs to the selection it names: for the validator's own entry
  (its address, commitment share and Lagrange coefficient, under the group's commitment) the attached
  inclusion proof verifies against the selection root.
\<close>

lemma selection_proof_verifies:
  assumes "signature_share_of k F ks nonces committed message = Inr sh"
    and "kp_identifier ks = derive F me" "fm_has committed me" "inj_on (derive F) (fset (fmdom committed))"
  shows "verify k (sel_root (ssh_selection sh))
    (signer_leaf k me (shr_r (ssh_share sh)) (shr_l (ssh_share sh)) (sel_r (ssh_selection sh))) (ssh_proof sh)"
proof -
  obtain factors signers gc z where
    col: "collect_signers F (rekey F committed cn_commitments) factors committed (fm_keys committed) fmempty = Inr signers"
    and sh: "(let group_r = solidity_point gc;
             tree = build k (map (\<lambda>(a, r, l). signer_leaf k a r l group_r) (fm_values signers))
         in case fmlookup signers (kp_identifier ks) of None \<Rightarrow> Inl UnknownIdentifier | Some (_, r, l) \<Rightarrow>
            let index = length (filter (\<lambda>i. i < kp_identifier ks) (fm_keys signers))
            in Inr \<lparr>ssh_selection = \<lparr>sel_r = group_r, sel_root = root tree\<rparr>,
                    ssh_share = \<lparr>shr_r = r, shr_z = z, shr_l = l\<rparr>,
                    ssh_proof = inclusion_proof tree index\<rparr>) = Inr sh"
    using assms(1)
    by (auto simp: signature_share_of_def err_unexpected_def Let_def split: sum.splits option.splits prod.splits)
  obtain r l where mine: "fmlookup signers (derive F me) = Some (me, r, l)"
    using collect_signers_lookup [OF col] assms(3,4) by (auto simp: fm_has_iff)
  let ?leaf = "\<lambda>i. (\<lambda>(a, r, l). signer_leaf k a r l (solidity_point gc)) (the (fmlookup signers i))"
  have "map (\<lambda>(a, r, l). signer_leaf k a r l (solidity_point gc)) (fm_values signers) =
      map ?leaf (sorted_list_of_fset (fmdom signers))"
    by (simp add: fm_values_def fm_keys_def)
  then show ?thesis
    using sh mine assms(2) keccak_tree.member_proof [of "derive F me" "fmdom signers" k ?leaf, OF fmdomI [OF mine]]
    by (auto simp: Let_def fm_keys_def)
qed

end
