(* ===== verification/Block_Watcher.thy ===== *)
theory Block_Watcher
  imports Messages Runs
begin

text \<open>
  The block watcher (\<^verbatim>\<open>crates/core/src/index/blocks.rs\<close>), which turns what a node answers into block updates
  and recognises reorgs.  The node may answer every request differently, so it is a function of the number of
  requests made before; waiting for time to pass has no effect on what is requested.  The two loops that
  depend on the node take fuel, and without enough of it nothing is returned.
\<close>

section \<open>Configuration\<close>

datatype 'a timing = Auto | Millis 'a

record timings =
  block_time :: u64
  block_propagation_delay :: u64
  block_retry_delays :: "u64 list"

datatype block_id = Latest | Number u64

datatype watcher_error =
    WatcherRpc
  | UnknownChainTimings u64
  | MissingBlock block_id
  | ExceededMaxReorgDepth u64

definition resolve :: "'a timing \<Rightarrow> u64 \<Rightarrow> 'a option \<Rightarrow> watcher_error + 'a" where
  "resolve t chain_id fallback =
     (case t of
        Millis v \<Rightarrow> Inr v
      | Auto \<Rightarrow> (case fallback of Some v \<Rightarrow> Inr v | None \<Rightarrow> Inl (UnknownChainTimings chain_id)))"

definition timings_for_chain :: "u64 \<Rightarrow> timings option" where
  "timings_for_chain chain_id =
     (if chain_id = 100
      then Some \<lparr>block_time = 5000, block_propagation_delay = 500, block_retry_delays = [500, 500, 500, 1000, 250, 250]\<rparr>
      else if chain_id = 11155111
      then Some \<lparr>block_time = 12000, block_propagation_delay = 1000, block_retry_delays = [1000, 1000, 1000, 500, 500]\<rparr>
      else None)"

record block_config =
  bc_block_time :: "u64 timing"
  bc_propagation_delay :: "u64 timing"
  bc_retry_delays :: "u64 list timing"
  bc_max_reorg_depth :: u64
  bc_start_block :: "u64 option"

definition resolve_timings :: "block_config \<Rightarrow> u64 \<Rightarrow> watcher_error + timings" where
  "resolve_timings cfg chain_id =
     (let ts = timings_for_chain chain_id
      in case resolve (bc_block_time cfg) chain_id (map_option block_time ts) of
           Inl err \<Rightarrow> Inl err
         | Inr time \<Rightarrow>
             (case resolve (bc_propagation_delay cfg) chain_id (map_option block_propagation_delay ts) of
                Inl err \<Rightarrow> Inl err
              | Inr delay \<Rightarrow>
                  (case resolve (bc_retry_delays cfg) chain_id (map_option block_retry_delays ts) of
                     Inl err \<Rightarrow> Inl err
                   | Inr retries \<Rightarrow>
                       Inr \<lparr>block_time = time, block_propagation_delay = delay, block_retry_delays = retries\<rparr>)))"

section \<open>State\<close>

record block_header =
  h_number :: u64
  h_hash :: b256
  h_parent :: b256
  h_timestamp :: u64
  h_bloom :: bloom

record block_watcher =
  w_requests :: nat
  w_pending :: u64
  w_pending_ms :: u64
  w_safe :: u64
  w_safe_hash :: b256
  w_recent :: "block_header list"
  w_queue :: "block_update list"

text \<open>An answer of the node is an error, or the block if it has it.\<close>

type_synonym node = "nat \<Rightarrow> block_id \<Rightarrow> unit + block_header option"

definition get_block :: "node \<Rightarrow> block_watcher \<Rightarrow> block_id \<Rightarrow> block_watcher \<times> (watcher_error + block_header option)" where
  "get_block node w bid =
     (w\<lparr>w_requests := Suc (w_requests w)\<rparr>, case node (w_requests w) bid of Inl _ \<Rightarrow> Inl WatcherRpc | Inr b \<Rightarrow> Inr b)"

definition require_block :: "node \<Rightarrow> block_watcher \<Rightarrow> block_id \<Rightarrow> block_watcher \<times> (watcher_error + block_header)" where
  "require_block node w bid =
     (case get_block node w bid of
        (w, Inl err) \<Rightarrow> (w, Inl err)
      | (w, Inr None) \<Rightarrow> (w, Inl (MissingBlock bid))
      | (w, Inr (Some b)) \<Rightarrow> (w, Inr b))"

definition update_next_pending_block :: "timings \<Rightarrow> block_watcher \<Rightarrow> u64 \<Rightarrow> u64 \<Rightarrow> block_watcher" where
  "update_next_pending_block ts w number timestamp =
     w\<lparr>w_pending := number + 1, w_pending_ms := timestamp * 1000 + block_time ts\<rparr>"

section \<open>Initialization\<close>

text \<open>The updates that undo and catch up, before the recent blocks.\<close>

definition startup_updates :: "block_config \<Rightarrow> block_status option \<Rightarrow> u64 \<Rightarrow> block_update list" where
  "startup_updates cfg indexed safe =
     (case indexed of
        Some ix \<Rightarrow>
          (case checked_add (bs_safe ix) 1 of
             None \<Rightarrow> []
           | Some uncle \<Rightarrow>
               (if uncle \<le> bs_latest ix then [Uncle uncle] else []) @ (if uncle \<le> safe then [Warp uncle safe] else []))
      | None \<Rightarrow>
          (case bc_start_block cfg of
             Some start \<Rightarrow> if start \<le> safe then [Warp start safe] else []
           | None \<Rightarrow> []))"

fun scan_range :: "node \<Rightarrow> u64 \<Rightarrow> u64 \<Rightarrow> nat \<Rightarrow> block_watcher \<Rightarrow> u64 \<Rightarrow> b256 option \<Rightarrow> block_header option \<Rightarrow>
    (block_watcher \<times> (watcher_error + unit)) option" where
  "scan_range node safe latest 0 w number parent canonical = None"
| "scan_range node safe latest (Suc fuel) w number parent canonical =
     (if latest < number then Some (w, Inr ())
      else
        let cached = (if number = latest then canonical else None);
            canonical = (if number = latest then None else canonical);
            (w, r) = (case cached of Some b \<Rightarrow> (w, Inr b) | None \<Rightarrow> require_block node w (Number number))
        in case r of
             Inl err \<Rightarrow> Some (w, Inl err)
           | Inr b \<Rightarrow>
               if parent = None \<or> parent = Some (h_parent b)
               then scan_range node safe latest fuel (w\<lparr>w_recent := w_recent w @ [b]\<rparr>) (number + 1) (Some (h_hash b)) canonical
               else scan_range node safe latest fuel (w\<lparr>w_recent := []\<rparr>) safe None None)"

definition new_update :: "block_header \<Rightarrow> block_update" where
  "new_update b = New (h_number b) (h_hash b) (h_timestamp b) (h_bloom b)"

definition unprocessed :: "block_config \<Rightarrow> block_status option \<Rightarrow> block_header \<Rightarrow> bool" where
  "unprocessed cfg indexed b \<longleftrightarrow>
     (case indexed of
        None \<Rightarrow> (case bc_start_block cfg of None \<Rightarrow> True | Some start \<Rightarrow> start \<le> h_number b)
      | Some ix \<Rightarrow> (case checked_add (bs_safe ix) 1 of None \<Rightarrow> False | Some from \<Rightarrow> from \<le> h_number b))"

definition anchor_safe :: "block_config \<Rightarrow> block_status option \<Rightarrow> block_watcher \<Rightarrow> block_watcher" where
  "anchor_safe cfg indexed w =
     (let anchor = hd (w_recent w); recent = tl (w_recent w)
      in w\<lparr>w_safe := h_number anchor, w_safe_hash := h_hash anchor, w_recent := recent,
           w_queue := w_queue w @ map new_update (filter (unprocessed cfg indexed) recent)\<rparr>)"

definition initialize :: "node \<Rightarrow> block_config \<Rightarrow> timings \<Rightarrow> nat \<Rightarrow> block_status option \<Rightarrow> block_watcher \<Rightarrow>
    (block_watcher \<times> (watcher_error + unit)) option" where
  "initialize node cfg ts fuel indexed w =
     (case require_block node w Latest of
        (w, Inl err) \<Rightarrow> Some (w, Inl err)
      | (w, Inr latest) \<Rightarrow>
          let safe = sat_sub (h_number latest) (bc_max_reorg_depth cfg);
              w = update_next_pending_block ts w (h_number latest) (h_timestamp latest);
              w = w\<lparr>w_queue := w_queue w @ startup_updates cfg indexed safe\<rparr>
          in case scan_range node safe (h_number latest) fuel w safe None (Some latest) of
               None \<Rightarrow> None
             | Some (w, Inl err) \<Rightarrow> Some (w, Inl err)
             | Some (w, Inr _) \<Rightarrow> Some (anchor_safe cfg indexed w, Inr ()))"

definition watcher_new :: "node \<Rightarrow> u64 \<Rightarrow> block_config \<Rightarrow> nat \<Rightarrow> block_status option \<Rightarrow> (watcher_error + block_watcher) option" where
  "watcher_new node chain_id cfg fuel indexed =
     (case resolve_timings cfg chain_id of
        Inl err \<Rightarrow> Some (Inl err)
      | Inr ts \<Rightarrow>
          (case initialize node cfg ts fuel indexed \<lparr>w_requests = 0, w_pending = 0, w_pending_ms = 0, w_safe = 0,
                  w_safe_hash = 0, w_recent = [], w_queue = []\<rparr> of
             None \<Rightarrow> None
           | Some (w, Inl err) \<Rightarrow> Some (Inl err)
           | Some (w, Inr _) \<Rightarrow> Some (Inr w)))"

section \<open>Following the chain\<close>

definition watcher_status :: "block_watcher \<Rightarrow> block_status" where
  "watcher_status w = \<lparr>bs_latest = sat_sub (w_pending w) 1, bs_safe = w_safe w\<rparr>"

definition ready :: "block_watcher \<Rightarrow> block_watcher \<times> block_update list" where
  "ready w = (w\<lparr>w_queue := []\<rparr>, w_queue w)"

fun await_pending :: "node \<Rightarrow> timings \<Rightarrow> nat \<Rightarrow> block_watcher \<Rightarrow> nat \<Rightarrow> (block_watcher \<times> (watcher_error + block_header)) option" where
  "await_pending node ts 0 w retry_count = None"
| "await_pending node ts (Suc fuel) w retry_count =
     (case get_block node w (Number (w_pending w)) of
        (w, Inl err) \<Rightarrow> Some (w, Inl err)
      | (w, Inr (Some b)) \<Rightarrow> Some (w, Inr b)
      | (w, Inr None) \<Rightarrow>
          let index = retry_count mod (length (block_retry_delays ts) + 1)
          in await_pending node ts fuel
               (if index < length (block_retry_delays ts) then w else w\<lparr>w_pending_ms := w_pending_ms w + block_time ts\<rparr>)
               (Suc retry_count))"

definition observe_block :: "block_config \<Rightarrow> timings \<Rightarrow> block_watcher \<Rightarrow> block_header \<Rightarrow>
    block_watcher \<times> (watcher_error + block_update)" where
  "observe_block cfg ts w b =
     (if w_recent w \<noteq> [] \<and> h_hash (last (w_recent w)) \<noteq> h_parent b
      then
        let l = last (w_recent w)
        in (w\<lparr>w_recent := butlast (w_recent w), w_pending := h_number l, w_pending_ms := h_timestamp l * 1000\<rparr>,
            Inr (Uncle (h_number l)))
      else if w_recent w = [] \<and> w_safe_hash w \<noteq> h_parent b
      then (w, Inl (ExceededMaxReorgDepth (bc_max_reorg_depth cfg)))
      else
        let w = update_next_pending_block ts w (h_number b) (h_timestamp b);
            w = w\<lparr>w_recent := w_recent w @ [b]\<rparr>;
            w = (if unat (bc_max_reorg_depth cfg) < length (w_recent w)
                 then w\<lparr>w_recent := tl (w_recent w), w_safe := h_number (hd (w_recent w)), w_safe_hash := h_hash (hd (w_recent w))\<rparr>
                 else w)
        in (w, Inr (new_update b)))"

definition next_block_update :: "node \<Rightarrow> block_config \<Rightarrow> timings \<Rightarrow> nat \<Rightarrow> block_watcher \<Rightarrow>
    (block_watcher \<times> (watcher_error + block_update)) option" where
  "next_block_update node cfg ts fuel w =
     (case w_queue w of
        u # us \<Rightarrow> Some (w\<lparr>w_queue := us\<rparr>, Inr u)
      | [] \<Rightarrow>
          (case await_pending node ts fuel w 0 of
             None \<Rightarrow> None
           | Some (w, Inl err) \<Rightarrow> Some (w, Inl err)
           | Some (w, Inr b) \<Rightarrow> Some (observe_block cfg ts w b)))"

text \<open>The position of the last element that satisfies a predicate.\<close>

definition rposition :: "('a \<Rightarrow> bool) \<Rightarrow> 'a list \<Rightarrow> nat option" where
  "rposition P xs = (case filter (\<lambda>i. P (xs ! i)) [0..<length xs] of [] \<Rightarrow> None | js \<Rightarrow> Some (last js))"

definition last_emitted :: "block_watcher \<Rightarrow> nat option" where
  "last_emitted w =
     (case w_queue w of
        [] \<Rightarrow> rposition (\<lambda>b. True) (w_recent w)
      | New number _ _ _ # _ \<Rightarrow> rposition (\<lambda>b. h_number b < number) (w_recent w)
      | _ \<Rightarrow> None)"

definition revalidate_last_block :: "node \<Rightarrow> block_watcher \<Rightarrow> block_watcher \<times> (watcher_error + (u64 \<times> b256) option)" where
  "revalidate_last_block node w =
     (case last_emitted w of
        None \<Rightarrow> (w, Inr None)
      | Some i \<Rightarrow>
          let l = w_recent w ! i
          in case get_block node w (Number (h_number l)) of
               (w, Inl err) \<Rightarrow> (w, Inl err)
             | (w, Inr current) \<Rightarrow>
                 if map_option h_hash current = Some (h_hash l) then (w, Inr None)
                 else (w\<lparr>w_recent := take i (w_recent w), w_pending := h_number l, w_pending_ms := h_timestamp l * 1000,
                         w_queue := [Uncle (h_number l)]\<rparr>, Inr (Some (h_number l, h_hash l))))"


section \<open>The window of tracked blocks\<close>

text \<open>
  A node answers a request for a number with a block of that number, and block numbers stay within the
  integers of the database.
\<close>

definition node_ok :: "node \<Rightarrow> bool" where
  "node_ok node \<longleftrightarrow>
     (\<forall>t n b. node t (Number n) = Inr (Some b) \<longrightarrow> h_number b = n) \<and>
     (\<forall>t i b. node t i = Inr (Some b) \<longrightarrow> unat (h_number b) + 2 < 2 ^ 63)"

fun linked :: "u64 \<Rightarrow> b256 \<Rightarrow> block_header list \<Rightarrow> bool" where
  "linked n h [] \<longleftrightarrow> True"
| "linked n h (b # bs) \<longleftrightarrow> h_number b = n + 1 \<and> h_parent b = h \<and> linked (n + 1) (h_hash b) bs"

definition window_ok :: "block_watcher \<Rightarrow> bool" where
  "window_ok w \<longleftrightarrow>
     linked (w_safe w) (w_safe_hash w) (w_recent w) \<and>
     w_pending w = w_safe w + of_nat (length (w_recent w)) + 1 \<and>
     unat (w_safe w) + length (w_recent w) + 2 < 2 ^ 63"

lemma linked_append:
  "linked n h (xs @ ys) \<longleftrightarrow> linked n h xs \<and> linked (n + of_nat (length xs)) (if xs = [] then h else h_hash (last xs)) ys"
  by (induction xs arbitrary: n h) (auto simp: add.assoc)

lemma linked_nth: "linked n h xs \<Longrightarrow> i < length xs \<Longrightarrow> h_number (xs ! i) = n + 1 + of_nat i"
  by (induction xs arbitrary: n h i) (auto simp: nth_Cons add.assoc split: nat.splits)

lemma linked_last: "linked n h xs \<Longrightarrow> xs \<noteq> [] \<Longrightarrow> h_number (last xs) = n + of_nat (length xs)"
  using linked_nth [of n h xs "length xs - 1"] by (cases xs rule: rev_cases) (auto simp: algebra_simps)

lemma unat_offset: "unat n + k < 2 ^ 63 \<Longrightarrow> unat (n + of_nat k) = unat n + k" for n :: u64
  by (simp add: unat_word_ariths unat_of_nat)

lemma node_number: "node_ok node \<Longrightarrow> node t (Number n) = Inr (Some b) \<Longrightarrow> h_number b = n"
  unfolding node_ok_def by blast

lemma node_bound: "node_ok node \<Longrightarrow> node t i = Inr (Some b) \<Longrightarrow> unat (h_number b) + 2 < 2 ^ 63"
  unfolding node_ok_def by blast

lemma window_number:
  assumes "window_ok w" "i < length (w_recent w)"
  shows "unat (h_number (w_recent w ! i)) = Suc (unat (w_safe w) + i)"
proof -
  have link: "linked (w_safe w) (w_safe_hash w) (w_recent w)" and b: "unat (w_safe w) + length (w_recent w) + 2 < 2 ^ 63"
    using assms(1) by (simp_all add: window_ok_def)
  show ?thesis using linked_nth [OF link assms(2)] unat_offset [of "w_safe w" "Suc i"] assms(2) b by (simp add: algebra_simps)
qed

lemma pending_bound:
  assumes "window_ok w"
  shows "unat (w_pending w) + 1 < 2 ^ 63" "unat (w_pending w) = Suc (unat (w_safe w) + length (w_recent w))"
proof -
  have p: "w_pending w = w_safe w + of_nat (Suc (length (w_recent w)))" and b: "unat (w_safe w) + length (w_recent w) + 2 < 2 ^ 63"
    using assms by (simp_all add: window_ok_def algebra_simps)
  then show "unat (w_pending w) = Suc (unat (w_safe w) + length (w_recent w))"
    unfolding p using unat_offset [of "w_safe w" "Suc (length (w_recent w))"] by simp
  then show "unat (w_pending w) + 1 < 2 ^ 63" using b by simp
qed

lemma get_block_frame: "get_block node w i = (w', r) \<Longrightarrow> w' = w\<lparr>w_requests := Suc (w_requests w)\<rparr>"
  by (simp add: get_block_def)

lemma require_block_Inr:
  "require_block node w i = (w', Inr b) \<Longrightarrow> w' = w\<lparr>w_requests := Suc (w_requests w)\<rparr> \<and> node (w_requests w) i = Inr (Some b)"
  by (auto simp: require_block_def get_block_def split: sum.splits option.splits)

text \<open>What a scan has collected when it reaches a number.\<close>

definition scanned :: "u64 \<Rightarrow> u64 \<Rightarrow> block_header list \<Rightarrow> u64 \<Rightarrow> b256 option \<Rightarrow> bool" where
  "scanned safe latest bs number parent \<longleftrightarrow>
     number = safe + of_nat (length bs) \<and> unat safe + length bs \<le> Suc (unat latest) \<and>
     (case bs of
        [] \<Rightarrow> parent = None
      | b # cs \<Rightarrow> parent = Some (h_hash (last bs)) \<and> h_number b = safe \<and> linked safe (h_hash b) cs)"

lemma scanned_snoc:
  assumes "scanned safe latest bs number parent" "h_number b = number" "number \<le> latest" "parent = None \<or> parent = Some (h_parent b)"
    and "unat latest + 2 < 2 ^ 63"
  shows "scanned safe latest (bs @ [b]) (number + 1) (Some (h_hash b))"
proof -
  have n: "unat number = unat safe + length bs"
    using assms(1,5) unat_offset [of safe "length bs"] by (simp add: scanned_def)
  then have "unat safe + length bs \<le> unat latest" using assms(3) by (simp add: word_le_nat_alt)
  then show ?thesis using assms(1,2,4)
    by (cases bs) (auto simp: scanned_def linked_append algebra_simps)
qed

lemma scan_range_ok:
  "scan_range node safe latest fuel w number parent canonical = Some (w', Inr ()) \<Longrightarrow>
    scanned safe latest (w_recent w) number parent \<Longrightarrow> (\<And>b. canonical = Some b \<Longrightarrow> h_number b = latest) \<Longrightarrow>
    node_ok node \<Longrightarrow> unat latest + 2 < 2 ^ 63 \<Longrightarrow> safe \<le> latest \<Longrightarrow>
    (\<exists>number' parent'. latest < number' \<and> scanned safe latest (w_recent w') number' parent') \<and>
    w_pending w' = w_pending w \<and> w_queue w' = w_queue w"
proof (induction node safe latest fuel w number parent canonical rule: scan_range.induct)
  case (2 node safe latest fuel w number parent canonical)
  show ?case
  proof (cases "latest < number")
    case True
    then show ?thesis using "2.prems" by auto
  next
    case False
    let ?cached = "if number = latest then canonical else None"
    obtain w1 r where r: "(case ?cached of Some b \<Rightarrow> (w, Inr b) | None \<Rightarrow> require_block node w (Number number)) = (w1, r)"
      by (cases rule: prod.exhaust)
    obtain b where b: "r = Inr b"
      using "2.prems"(1) False r by (cases r) (auto simp: Let_def)
    have num: "h_number b = number" and w1: "w_recent w1 = w_recent w" "w_pending w1 = w_pending w" "w_queue w1 = w_queue w"
      using r b "2.prems"(3) require_block_Inr [of node w "Number number" w1 b] node_number [OF "2.prems"(4)]
      by (auto split: option.splits if_splits)
    note IH = "2.IH" [OF False refl refl r [symmetric] refl b]
    show ?thesis
    proof (cases "parent = None \<or> parent = Some (h_parent b)")
      case True
      then show ?thesis using IH(1) [OF True] "2.prems" False r b num w1 scanned_snoc [OF "2.prems"(2) num]
        by (auto simp: Let_def split: if_splits)
    next
      case no: False
      have "scanned safe latest [] safe None" using "2.prems"(6) by (simp add: scanned_def word_le_nat_alt)
      then show ?thesis using IH(2) [OF no] "2.prems" False r b no w1 by (simp add: Let_def)
    qed
  qed
qed simp


section \<open>Updates follow each other\<close>

text \<open>The block that is awaited after an update; nothing is awaited before the first one.\<close>

fun advance :: "u64 option \<Rightarrow> block_update \<Rightarrow> u64 option option" where
  "advance c (Warp f t) = (if f \<le> t \<and> (c = None \<or> c = Some f) then Some (Some (t + 1)) else None)"
| "advance c (Uncle n) = (case c of None \<Rightarrow> None | Some p \<Rightarrow> if n < p \<and> n \<noteq> 0 then Some (Some n) else None)"
| "advance c (New n hash timestamp logs_bloom) = (if c = None \<or> c = Some n then Some (Some (n + 1)) else None)"

fun advance_all :: "u64 option \<Rightarrow> block_update list \<Rightarrow> u64 option option" where
  "advance_all c [] = Some c"
| "advance_all c (u # us) = (case advance c u of None \<Rightarrow> None | Some c' \<Rightarrow> advance_all c' us)"

text \<open>
  The queue holds at most one reorg, then at most one range that ends at the safe block, then the most
  recent blocks of the window; a range is followed by the whole window.
\<close>

definition queue_shape :: "block_watcher \<Rightarrow> bool" where
  "queue_shape w \<longleftrightarrow>
     (\<exists>uncles warps as bs. w_queue w = uncles @ warps @ map new_update bs \<and> w_recent w = as @ bs \<and>
        (uncles = [] \<or> (\<exists>n. uncles = [Uncle n])) \<and>
        (warps = [] \<or> as = [] \<and> (\<exists>f. warps = [Warp f (w_safe w)])))"

definition leads_on :: "u64 option \<Rightarrow> block_watcher \<Rightarrow> bool" where
  "leads_on c w \<longleftrightarrow>
     advance_all c (w_queue w) = Some (Some (w_pending w)) \<or> c = None \<and> w_queue w = [] \<and> w_recent w = []"

definition watcher_inv :: "u64 option \<Rightarrow> block_watcher \<Rightarrow> bool" where
  "watcher_inv c w \<longleftrightarrow> window_ok w \<and> queue_shape w \<and> leads_on c w"

lemma advance_all_append:
  "advance_all c (us @ vs) = (case advance_all c us of None \<Rightarrow> None | Some c' \<Rightarrow> advance_all c' vs)"
  by (induction us arbitrary: c) (auto split: option.splits)

lemma advance_linked:
  "linked n h bs \<Longrightarrow> c = Some (n + 1) \<or> c = None \<and> bs \<noteq> [] \<Longrightarrow>
   advance_all c (map new_update bs) = Some (Some (n + 1 + of_nat (length bs)))"
proof (induction bs arbitrary: n h c)
  case (Cons b bs)
  then show ?case using Cons.IH [of "n + 1" "h_hash b" "Some (n + 1 + 1)"] by (auto simp: new_update_def algebra_simps)
qed simp

lemma advance_some: "advance_all c (map new_update bs) = Some (Some p) \<Longrightarrow> linked n h bs \<Longrightarrow> bs \<noteq> [] \<Longrightarrow> c = None \<or> c = Some (n + 1)"
  by (cases bs) (auto simp: new_update_def split: if_splits)

lemma window_suffix: "linked n h (as @ bs) \<Longrightarrow> \<exists>h'. linked (n + of_nat (length as)) h' bs"
  by (auto simp: linked_append)

section \<open>Initialization is sound\<close>

text \<open>
  The node must have reached the first block that is to be emitted: the block after the oldest snapshot, or
  the configured start.
\<close>

definition start_reached :: "block_config \<Rightarrow> block_status option \<Rightarrow> u64 \<Rightarrow> bool" where
  "start_reached cfg indexed latest \<longleftrightarrow>
     (case indexed of
        Some ix \<Rightarrow> bs_safe ix \<le> latest \<and> bs_safe ix \<le> bs_latest ix \<and> unat (bs_latest ix) + 2 < 2 ^ 63
      | None \<Rightarrow> (case bc_start_block cfg of None \<Rightarrow> True | Some start \<Rightarrow> start \<le> latest))"

definition resume_cursor :: "block_status option \<Rightarrow> u64 option" where
  "resume_cursor indexed = map_option (\<lambda>ix. bs_latest ix + 1) indexed"

lemma filter_linked:
  assumes "linked n h bs" "unat n + length bs + 2 < 2 ^ 63" "m \<le> n + of_nat (length bs)"
  shows "\<exists>as cs. bs = as @ cs \<and> filter (\<lambda>b. m + 1 \<le> h_number b) bs = cs \<and> (m < n \<or> m = n \<or> n + of_nat (length as) = m) \<and>
    (m \<le> n \<longrightarrow> as = [])"
proof -
  let ?k = "if m \<le> n then 0 else unat m - unat n"
  have len: "unat (n + of_nat (length bs)) = unat n + length bs" using assms(2) by (intro unat_offset) simp
  then have k: "?k \<le> length bs" using assms(3) by (auto simp: word_le_nat_alt)
  have m: "unat (m + 1) = Suc (unat m)" using assms(2,3) len by (simp add: word_le_nat_alt unat_word_ariths)
  have num: "unat (h_number (bs ! i)) = Suc (unat n + i)" if "i < length bs" for i
    using linked_nth [OF assms(1) that] unat_offset [of n "Suc i"] that assms(2) by (simp add: algebra_simps)
  have "filter (\<lambda>b. m + 1 \<le> h_number b) bs = drop ?k bs"
  proof -
    have "filter (\<lambda>b. m + 1 \<le> h_number b) bs = filter (\<lambda>b. m + 1 \<le> h_number b) (take ?k bs @ drop ?k bs)" by simp
    also have "\<dots> = filter (\<lambda>b. m + 1 \<le> h_number b) (take ?k bs) @ filter (\<lambda>b. m + 1 \<le> h_number b) (drop ?k bs)"
      by (rule filter_append)
    also have "filter (\<lambda>b. m + 1 \<le> h_number b) (take ?k bs) = []"
      using k num m by (auto simp: filter_empty_conv in_set_conv_nth word_le_nat_alt split: if_splits)
    also have "filter (\<lambda>b. m + 1 \<le> h_number b) (drop ?k bs) = drop ?k bs"
      using k num m by (auto simp: filter_id_conv in_set_conv_nth word_le_nat_alt split: if_splits)
    finally show ?thesis by simp
  qed
  moreover have "m < n \<or> m = n \<or> n + of_nat (length (take ?k bs)) = m"
  proof (cases "m \<le> n")
    case False
    then have "unat (n + of_nat ?k) = unat m" using k assms(2) unat_offset [of n ?k] by (auto simp: word_le_nat_alt)
    then show ?thesis using False k by (simp add: word_unat_eq_iff min_absorb2)
  qed auto
  ultimately show ?thesis by (intro exI [of _ "take ?k bs"] exI [of _ "drop ?k bs"]) simp
qed


lemma initialize_window:
  assumes "node_ok node" "initialize node cfg ts fuel indexed w0 = Some (w, Inr ())" "w_recent w0 = []" "w_queue w0 = []"
    and "node (w_requests w0) Latest = Inr (Some latest)"
  shows "window_ok w \<and> w_safe w = sat_sub (h_number latest) (bc_max_reorg_depth cfg) \<and> w_pending w = h_number latest + 1 \<and>
    w_queue w = startup_updates cfg indexed (w_safe w) @ map new_update (filter (unprocessed cfg indexed) (w_recent w))"
proof -
  define safe where "safe = sat_sub (h_number latest) (bc_max_reorg_depth cfg)"
  have safe: "safe \<le> h_number latest" by (auto simp: safe_def sat_sub_def word_sub_le_iff)
  have bound: "unat (h_number latest) + 2 < 2 ^ 63" using node_bound [OF assms(1,5)] .
  have req: "require_block node w0 Latest = (w0\<lparr>w_requests := Suc (w_requests w0)\<rparr>, Inr latest)"
    using assms(5) by (simp add: require_block_def get_block_def)
  define w1 where "w1 = (update_next_pending_block ts (w0\<lparr>w_requests := Suc (w_requests w0)\<rparr>) (h_number latest) (h_timestamp latest))
    \<lparr>w_queue := startup_updates cfg indexed safe\<rparr>"
  have w1: "w_recent w1 = []" "w_queue w1 = startup_updates cfg indexed safe" "w_pending w1 = h_number latest + 1"
    using assms(3,4) by (simp_all add: w1_def update_next_pending_block_def)
  obtain w2 where scan: "scan_range node safe (h_number latest) fuel w1 safe None (Some latest) = Some (w2, Inr ())"
    and w: "w = anchor_safe cfg indexed w2"
    using assms(2,4) req
    by (auto simp: initialize_def safe_def Let_def w1_def update_next_pending_block_def split: option.splits sum.splits)
  have "scanned safe (h_number latest) (w_recent w1) safe None" using safe w1 by (simp add: scanned_def word_le_nat_alt)
  from scan_range_ok [OF scan this _ assms(1) bound safe] obtain number parent where
    n: "h_number latest < number" "scanned safe (h_number latest) (w_recent w2) number parent" and
    w2: "w_pending w2 = w_pending w1" "w_queue w2 = w_queue w1" by auto
  have unum: "unat number = unat safe + length (w_recent w2)"
    using n(2) bound unat_offset [of safe "length (w_recent w2)"] by (simp add: scanned_def)
  then have len: "unat safe + length (w_recent w2) = Suc (unat (h_number latest))"
    using n by (simp add: scanned_def word_less_nat_alt)
  obtain a rs where rs: "w_recent w2 = a # rs" "h_number a = safe" "linked safe (h_hash a) rs"
  proof (cases "w_recent w2")
    case Nil
    then show ?thesis using len safe by (simp add: word_le_nat_alt)
  next
    case (Cons a rs)
    then show ?thesis using that n(2) by (simp add: scanned_def)
  qed
  have lat: "h_number latest = safe + of_nat (length rs)"
    using len rs(1) bound unat_offset [of safe "length rs"] by (simp add: word_unat_eq_iff)
  show ?thesis unfolding safe_def [symmetric]
    using w rs w1 w2 lat len bound by (simp add: anchor_safe_def Let_def window_ok_def add.assoc)
qed

lemma unprocessed_Some: "start \<noteq> 0 \<Longrightarrow> start \<le> h_number b \<longleftrightarrow> (start - 1) + 1 \<le> h_number b"
  by simp

lemma advance_suffix:
  assumes "linked n h (as @ bs)" "c = Some (n + of_nat (length as) + 1) \<or> c = None \<and> bs \<noteq> []"
  shows "advance_all c (map new_update bs) = Some (Some (n + of_nat (length (as @ bs)) + 1))"
proof -
  obtain h' where "linked (n + of_nat (length as)) h' bs" using window_suffix [OF assms(1)] by blast
  from advance_linked [OF this, of c] assms(2) show ?thesis by (auto simp: algebra_simps)
qed

text \<open>The recent blocks after a given one, as they are queued.\<close>

lemma window_after:
  assumes "window_ok w" "m < w_pending w"
  shows "\<exists>as bs. w_recent w = as @ bs \<and> filter (\<lambda>b. m + 1 \<le> h_number b) (w_recent w) = bs \<and>
    (m \<le> w_safe w \<longrightarrow> as = []) \<and> (w_safe w \<le> m \<longrightarrow> w_safe w + of_nat (length as) = m)"
proof -
  have l: "linked (w_safe w) (w_safe_hash w) (w_recent w)" "unat (w_safe w) + length (w_recent w) + 2 < 2 ^ 63"
    using assms(1) by (simp_all add: window_ok_def)
  have u: "unat (w_safe w + of_nat (length (w_recent w))) = unat (w_safe w) + length (w_recent w)"
    using l(2) by (intro unat_offset) simp
  have "m \<le> w_safe w + of_nat (length (w_recent w))" using assms(2) u by (simp add: word_le_nat_alt word_less_nat_alt pending_bound(2) [OF assms(1)])
  from filter_linked [OF l this] show ?thesis by (fastforce dest: word_le_less_eq [THEN iffD1])
qed

text \<open>A queue that starts with a warp to the safe block, or is a suffix of the window, leads a fresh index on.\<close>

lemma fresh_queue_inv:
  assumes "window_ok w" "w_queue w = warps @ map new_update bs" "w_recent w = as @ bs"
    and "warps = [] \<and> (bs \<noteq> [] \<or> as = []) \<or> as = [] \<and> (\<exists>f. f \<le> w_safe w \<and> warps = [Warp f (w_safe w)])"
  shows "watcher_inv None w"
proof -
  have link: "linked (w_safe w) (w_safe_hash w) (w_recent w)" and p: "w_pending w = w_safe w + of_nat (length (w_recent w)) + 1"
    using assms(1) by (simp_all add: window_ok_def)
  have "warps = [] \<or> as = [] \<and> (\<exists>f. warps = [Warp f (w_safe w)])" using assms(4) by blast
  then have "queue_shape w" unfolding queue_shape_def using assms(2,3)
    by - (rule exI [of _ "[]"], rule exI [of _ warps], rule exI [of _ as], rule exI [of _ bs], simp)
  moreover have "leads_on None w"
  proof -
    have go: "c = Some (w_safe w + of_nat (length as) + 1) \<or> c = None \<and> bs \<noteq> [] \<Longrightarrow>
        advance_all c (map new_update bs) = Some (Some (w_pending w))" for c
      using advance_suffix [of "w_safe w" "w_safe_hash w" as bs c] link unfolding assms(3) p by blast
    consider "warps = []" "bs \<noteq> []" | "warps = []" "bs = []" "as = []"
      | f where "as = []" "f \<le> w_safe w" "warps = [Warp f (w_safe w)]" using assms(4) by blast
    then show ?thesis
    proof cases
      case 1
      then show ?thesis using go [of None] assms(2) by (simp add: leads_on_def)
    next
      case 2
      then show ?thesis using assms(2,3) by (simp add: leads_on_def)
    next
      case 3
      then show ?thesis using go [of "Some (w_safe w + 1)"] assms(2) by (simp add: leads_on_def)
    qed
  qed
  ultimately show ?thesis using assms(1) by (simp add: watcher_inv_def)
qed

text \<open>The invariant after the start-up of an index that resumes, and of one that starts fresh.\<close>

lemma resumed_inv:
  assumes ok: "window_ok w" and lt: "\<And>m. m < w_pending w \<longleftrightarrow> m \<le> head" and "start_reached cfg (Some ix) head"
    and queue: "w_queue w = startup_updates cfg (Some ix) (w_safe w) @ map new_update (filter (unprocessed cfg (Some ix)) (w_recent w))"
  shows "watcher_inv (resume_cursor (Some ix)) w \<and> (\<forall>k. Uncle k \<in> set (w_queue w) \<longrightarrow> k = bs_safe ix + 1)"
proof -
  let ?s = "bs_safe ix"
  have link: "linked (w_safe w) (w_safe_hash w) (w_recent w)" and p: "w_pending w = w_safe w + of_nat (length (w_recent w)) + 1"
    using ok by (simp_all add: window_ok_def)
  have s: "?s \<le> head" "?s \<le> bs_latest ix" "unat (bs_latest ix) + 2 < 2 ^ 63"
    using assms(3) by (simp_all add: start_reached_def)
  have add: "checked_add ?s 1 = Some (?s + 1)" and succ: "?s + 1 \<le> x \<longleftrightarrow> ?s < x" "?s + 1 \<noteq> 0" "?s < bs_latest ix + 1"
    "?s + 1 < bs_latest ix + 1 \<longleftrightarrow> ?s < bs_latest ix" for x
    using s(2,3) by (auto simp: checked_add_def word_le_nat_alt word_less_nat_alt unat_word_ariths simp flip: unat_gt_0)
  obtain as bs where ab: "w_recent w = as @ bs" "filter (\<lambda>b. ?s + 1 \<le> h_number b) (w_recent w) = bs"
    "?s \<le> w_safe w \<longrightarrow> as = []" "w_safe w \<le> ?s \<longrightarrow> w_safe w + of_nat (length as) = ?s"
    using window_after [OF ok, of ?s] s(1) lt by blast
  have un: "unprocessed cfg (Some ix) = (\<lambda>b. ?s + 1 \<le> h_number b)" using add by (simp add: unprocessed_def fun_eq_iff)
  have q: "w_queue w = (if ?s < bs_latest ix then [Uncle (?s + 1)] else []) @
      (if ?s < w_safe w then [Warp (?s + 1) (w_safe w)] else []) @ map new_update bs"
    using queue add ab(2) un succ(1) by (simp add: startup_updates_def)
  have "queue_shape w" unfolding queue_shape_def q using ab(1,3)
    by (intro exI [of _ "if ?s < bs_latest ix then [Uncle (?s + 1)] else []"]
        exI [of _ "if ?s < w_safe w then [Warp (?s + 1) (w_safe w)] else []"] exI [of _ as] exI [of _ bs]) auto
  moreover have "advance_all (Some (bs_latest ix + 1)) (if ?s < bs_latest ix then [Uncle (?s + 1)] else []) = Some (Some (?s + 1))"
    using succ antisym [OF s(2)] by (cases "?s < bs_latest ix") (simp_all add: not_less)
  moreover have "advance_all (Some (?s + 1)) ((if ?s < w_safe w then [Warp (?s + 1) (w_safe w)] else []) @ map new_update bs) =
      Some (Some (w_pending w))"
    using advance_suffix [of "w_safe w" "w_safe_hash w" as bs] link ab succ(1) p by (auto simp: not_less)
  ultimately have "watcher_inv (resume_cursor (Some ix)) w"
    using ok unfolding watcher_inv_def leads_on_def resume_cursor_def q by (simp only: advance_all_append) simp
  moreover have "\<forall>k. Uncle k \<in> set (w_queue w) \<longrightarrow> k = ?s + 1" unfolding q by (auto simp: new_update_def)
  ultimately show ?thesis by blast
qed

lemma fresh_inv:
  assumes ok: "window_ok w" and lt: "\<And>m. m < w_pending w \<longleftrightarrow> m \<le> head" and "start_reached cfg None head"
    and pend: "w_pending w = head + 1"
    and queue: "w_queue w = startup_updates cfg None (w_safe w) @ map new_update (filter (unprocessed cfg None) (w_recent w))"
  shows "watcher_inv None w"
proof (cases "bc_start_block cfg")
  case None
  then have "filter (unprocessed cfg None) (w_recent w) = w_recent w" by (simp add: unprocessed_def)
  then show ?thesis using queue None fresh_queue_inv [OF ok, of "[]" "w_recent w" "[]"] by (simp add: startup_updates_def)
next
  case (Some start)
  show ?thesis
  proof (cases "start \<le> w_safe w")
    case True
    have "start \<le> h_number b" if b: "b \<in> set (w_recent w)" for b
    proof -
      obtain i where i: "i < length (w_recent w)" "b = w_recent w ! i" using b by (auto simp: in_set_conv_nth)
      then have "unat (h_number b) = Suc (unat (w_safe w) + i)" using window_number [OF ok i(1)] by simp
      then show ?thesis using True by (simp add: word_le_nat_alt)
    qed
    then have "filter (unprocessed cfg None) (w_recent w) = w_recent w" using Some by (simp add: unprocessed_def filter_id_conv)
    then show ?thesis using queue Some True fresh_queue_inv [OF ok, of "[Warp start (w_safe w)]" "w_recent w" "[]"]
      by (auto simp: startup_updates_def)
  next
    case False
    then have s: "start \<noteq> 0" "start \<le> head" using assms(3) Some by (auto simp: start_reached_def)
    have s': "w_safe w \<le> start - 1" using False s(1) by (simp add: word_le_nat_alt unat_minus_one)
    have "start - 1 \<le> head" using s by (simp add: word_le_nat_alt unat_minus_one)
    then have "start - 1 < w_pending w" using lt by blast
    then obtain as bs where ab: "w_recent w = as @ bs" "filter (\<lambda>b. (start - 1) + 1 \<le> h_number b) (w_recent w) = bs"
      "w_safe w + of_nat (length as) = start - 1"
      using window_after [OF ok] s' by blast
    have "bs \<noteq> []"
    proof
      assume "bs = []"
      then have "head = start - 1" using ab ok pend by (simp add: window_ok_def eq_diff_eq)
      then show False using s unat_gt_0 [of start] by (simp add: word_le_nat_alt unat_minus_one)
    qed
    moreover have "filter (unprocessed cfg None) (w_recent w) = bs"
      using ab(2) Some s(1) by (simp add: unprocessed_def [abs_def])
    ultimately show ?thesis using queue Some False fresh_queue_inv [OF ok, of "[]" bs as] ab(1)
      by (simp add: startup_updates_def)
  qed
qed

lemma initialize_inv:
  assumes "node_ok node" "initialize node cfg ts fuel indexed w0 = Some (w, Inr ())" "w_recent w0 = []" "w_queue w0 = []"
    and "node (w_requests w0) Latest = Inr (Some latest)" "start_reached cfg indexed (h_number latest)"
  shows "watcher_inv (resume_cursor indexed) w \<and>
    (\<forall>k. Uncle k \<in> set (w_queue w) \<longrightarrow> (\<exists>ix. indexed = Some ix \<and> k = bs_safe ix + 1))"
proof -
  have ok: "window_ok w" and pend: "w_pending w = h_number latest + 1"
    and queue: "w_queue w = startup_updates cfg indexed (w_safe w) @ map new_update (filter (unprocessed cfg indexed) (w_recent w))"
    using initialize_window [OF assms(1-5)] by simp_all
  have lt: "m < w_pending w \<longleftrightarrow> m \<le> h_number latest" for m
    using node_bound [OF assms(1,5)] pend by (simp add: word_le_nat_alt word_less_nat_alt unat_word_ariths less_Suc_eq_le)
  show ?thesis
  proof (cases indexed)
    case (Some ix)
    then show ?thesis using resumed_inv [OF ok lt] assms(6) queue by simp
  next
    case None
    have "\<forall>k. Uncle k \<notin> set (w_queue w)"
      unfolding queue None startup_updates_def by (auto simp: new_update_def split: option.splits if_splits)
    then show ?thesis using fresh_inv [OF ok lt _ pend] assms(6) queue None by (simp add: resume_cursor_def)
  qed
qed


section \<open>Every step keeps the invariant\<close>

lemma window_cong:
  "window_ok w \<Longrightarrow> w_safe w' = w_safe w \<Longrightarrow> w_safe_hash w' = w_safe_hash w \<Longrightarrow> w_recent w' = w_recent w \<Longrightarrow> w_pending w' = w_pending w \<Longrightarrow>
   window_ok w'"
  by (simp add: window_ok_def)

lemma watcher_inv_cong:
  "watcher_inv c w \<Longrightarrow> w_safe w' = w_safe w \<Longrightarrow> w_safe_hash w' = w_safe_hash w \<Longrightarrow> w_recent w' = w_recent w \<Longrightarrow>
   w_pending w' = w_pending w \<Longrightarrow> w_queue w' = w_queue w \<Longrightarrow> watcher_inv c w'"
  using window_cong [of w w'] by (simp add: watcher_inv_def queue_shape_def leads_on_def)

lemma await_pending_frame:
  assumes "await_pending node ts fuel w n = Some (w', r)"
  shows "w_safe w' = w_safe w \<and> w_safe_hash w' = w_safe_hash w \<and> w_recent w' = w_recent w \<and> w_pending w' = w_pending w \<and>
    w_queue w' = w_queue w \<and> (\<forall>b. r = Inr b \<longrightarrow> (\<exists>t. node t (Number (w_pending w)) = Inr (Some b)))"
  using assms
proof (induction node ts fuel w n arbitrary: w' r rule: await_pending.induct)
  case (2 node ts fuel w n)
  let ?w = "w\<lparr>w_requests := Suc (w_requests w)\<rparr>"
  show ?case
  proof (cases "node (w_requests w) (Number (w_pending w))")
    case (Inl e)
    then show ?thesis using "2.prems" by (auto simp: get_block_def)
  next
    case (Inr x)
    show ?thesis
    proof (cases x)
      case None
      let ?i = "n mod (length (block_retry_delays ts) + 1)"
      let ?w' = "if ?i < length (block_retry_delays ts) then ?w else ?w\<lparr>w_pending_ms := w_pending_ms ?w + block_time ts\<rparr>"
      have "await_pending node ts fuel ?w' (Suc n) = Some (w', r)" using "2.prems" Inr None by (simp add: get_block_def Let_def)
      then show ?thesis using "2.IH" [of ?w "Inr None" None ?i w' r] Inr None by (auto simp: get_block_def split: if_splits)
    next
      case (Some b)
      then show ?thesis using "2.prems" Inr by (auto simp: get_block_def)
    qed
  qed
qed simp

lemma linked_evict:
  assumes "linked n h (b # bs)"
  shows "linked (h_number b) (h_hash b) bs"
  using assms by simp

lemma window_push:
  assumes "window_ok w" "h_number b = w_pending w" "unat (h_number b) + 2 < 2 ^ 63"
    and "w_recent w = [] \<longrightarrow> w_safe_hash w = h_parent b" "w_recent w \<noteq> [] \<longrightarrow> h_hash (last (w_recent w)) = h_parent b"
  shows "linked (w_safe w) (w_safe_hash w) (w_recent w @ [b]) \<and> unat (h_number b) = Suc (unat (w_safe w) + length (w_recent w))"
  using assms unat_offset [of "w_safe w" "Suc (length (w_recent w))"]
  by (auto simp: window_ok_def linked_append algebra_simps)

text \<open>A new block extends the chain, and the window moves on by at most one block.\<close>

lemma observe_new:
  assumes "window_ok w" "h_number b = w_pending w" "unat (h_number b) + 2 < 2 ^ 63" "w_queue w = []"
    and "observe_block cfg ts w b = (w', Inr (New n hash timestamp logs_bloom))"
  shows "window_ok w' \<and> w_queue w' = [] \<and> n = w_pending w \<and> w_pending w' = n + 1 \<and> w_safe w \<le> w_safe w' \<and>
    (\<forall>a\<in>set (w_recent w'). h_number a = n \<longrightarrow> h_hash a = hash)"
proof -
  have keep: "w_recent w = [] \<longrightarrow> w_safe_hash w = h_parent b" "w_recent w \<noteq> [] \<longrightarrow> h_hash (last (w_recent w)) = h_parent b"
    and u: "n = h_number b" "hash = h_hash b"
    using assms(5) by (auto simp: observe_block_def new_update_def Let_def split: if_splits)
  note push = window_push [OF assms(1-3) keep]
  let ?rs = "w_recent w @ [b]"
  have num: "unat (h_number (?rs ! i)) = Suc (unat (w_safe w) + i)" if "i < length ?rs" for i
    using linked_nth [of "w_safe w" "w_safe_hash w" ?rs i] push that assms(3) unat_offset [of "w_safe w" "Suc i"] by (simp add: algebra_simps)
  have uniq: "a = b" if "a \<in> set ?rs" "h_number a = n" for a
  proof -
    obtain i where i: "i < length ?rs" "a = ?rs ! i" using \<open>a \<in> set ?rs\<close> unfolding in_set_conv_nth by blast
    then have "i = length (w_recent w)" using num [OF i(1)] push u(1) that(2) by simp
    then show ?thesis using i(2) by simp
  qed
  then have same: "\<forall>a\<in>set ?rs. h_number a = n \<longrightarrow> h_hash a = hash" using u(2) by blast
  show ?thesis
  proof (cases "unat (bc_max_reorg_depth cfg) < length ?rs")
    case False
    then have w': "w' = (update_next_pending_block ts w (h_number b) (h_timestamp b))\<lparr>w_recent := ?rs\<rparr>"
      using assms(5) keep by (auto simp: observe_block_def Let_def update_next_pending_block_def split: if_splits)
    have "w_pending w = w_safe w + of_nat (length ?rs)" using assms(1) by (simp add: window_ok_def algebra_simps)
    then show ?thesis using w' push assms(2-4) u(1) same by (simp add: window_ok_def update_next_pending_block_def)
  next
    case True
    have w': "w' = (update_next_pending_block ts w (h_number b) (h_timestamp b))
        \<lparr>w_recent := tl ?rs, w_safe := h_number (hd ?rs), w_safe_hash := h_hash (hd ?rs)\<rparr>"
      using assms(5) keep True by (auto simp: observe_block_def Let_def update_next_pending_block_def split: if_splits)
    have hd: "unat (h_number (hd ?rs)) = Suc (unat (w_safe w))" using num [of 0] by (cases "w_recent w") simp_all
    have rs: "?rs = hd ?rs # tl ?rs" by (cases "w_recent w") simp_all
    have "linked (h_number (hd ?rs)) (h_hash (hd ?rs)) (tl ?rs)"
      using push linked_evict [of "w_safe w" "w_safe_hash w" "hd ?rs" "tl ?rs"] rs by simp
    moreover have "h_number b = h_number (hd ?rs) + of_nat (length (tl ?rs))"
      using push hd unat_offset [of "h_number (hd ?rs)" "length (w_recent w)"] assms(3) by (simp add: word_unat_eq_iff)
    moreover have "\<forall>a\<in>set (tl ?rs). h_number a = n \<longrightarrow> h_hash a = hash" using same by (cases "w_recent w") auto
    ultimately show ?thesis using w' hd push assms(2-4) u(1)
      by (simp add: window_ok_def update_next_pending_block_def word_le_nat_alt)
  qed
qed

lemma observe_uncle:
  assumes "window_ok w" "observe_block cfg ts w b = (w', Inr (Uncle n))" "w_queue w = []"
  shows "window_ok w' \<and> w_queue w' = [] \<and> w_recent w \<noteq> [] \<and> w_safe w' = w_safe w \<and> w_pending w' = n \<and> n < w_pending w \<and> w_safe w < n"
proof -
  obtain as l where rs: "w_recent w = as @ [l]"
    using assms(2) by (cases "w_recent w" rule: rev_cases) (auto simp: observe_block_def new_update_def Let_def split: if_splits)
  have w': "w' = w\<lparr>w_recent := as, w_pending := h_number l, w_pending_ms := h_timestamp l * 1000\<rparr>" "n = h_number l"
    using assms(2) rs by (auto simp: observe_block_def new_update_def Let_def split: if_splits)
  have link: "linked (w_safe w) (w_safe_hash w) (as @ [l])" and b: "unat (w_safe w) + length as + 3 < 2 ^ 63"
    and p: "w_pending w = w_safe w + of_nat (Suc (length as)) + 1"
    using assms(1) rs by (simp_all add: window_ok_def)
  have l: "h_number l = w_safe w + of_nat (length as) + 1" using link by (simp add: linked_append)
  have "unat (h_number l) = Suc (unat (w_safe w) + length as)" "unat (w_pending w) = Suc (Suc (unat (w_safe w) + length as))"
    using b l p unat_offset [of "w_safe w" "Suc (length as)"] unat_offset [of "w_safe w" "Suc (Suc (length as))"] by (simp_all add: algebra_simps)
  then show ?thesis using w' rs link l b assms(3) by (simp add: window_ok_def linked_append word_less_nat_alt)
qed


text \<open>Taking an update from the queue.\<close>

lemma pop_inv:
  assumes "watcher_inv c w" "w_queue w = u # us"
  shows "\<exists>c'. advance c u = Some c' \<and> watcher_inv c' (w\<lparr>w_queue := us\<rparr>)"
proof -
  from assms obtain uncles warps as bs where q: "u # us = uncles @ warps @ map new_update bs" "w_recent w = as @ bs"
    "uncles = [] \<or> (\<exists>n. uncles = [Uncle n])" "warps = [] \<or> as = [] \<and> (\<exists>f. warps = [Warp f (w_safe w)])"
    unfolding watcher_inv_def queue_shape_def by metis
  have "\<exists>uncles warps as bs. us = uncles @ warps @ map new_update bs \<and> w_recent w = as @ bs \<and>
      (uncles = [] \<or> (\<exists>n. uncles = [Uncle n])) \<and> (warps = [] \<or> as = [] \<and> (\<exists>f. warps = [Warp f (w_safe w)]))"
  proof -
    consider "uncles \<noteq> []" | "uncles = []" "warps \<noteq> []" | "uncles = []" "warps = []" by blast
    then show ?thesis
    proof cases
      case 1
      then have "us = [] @ warps @ map new_update bs" using q(1,3) by auto
      then show ?thesis using q(2,4) by blast
    next
      case 2
      then have "us = [] @ [] @ map new_update bs" using q(1,4) by auto
      then show ?thesis using q(2) by blast
    next
      case 3
      then obtain b cs where "bs = b # cs" "us = [] @ [] @ map new_update cs" using q(1) by (cases bs) auto
      moreover have "w_recent w = (as @ [b]) @ cs" using q(2) \<open>bs = b # cs\<close> by simp
      ultimately show ?thesis by blast
    qed
  qed
  then have "queue_shape (w\<lparr>w_queue := us\<rparr>)" by (simp add: queue_shape_def)
  moreover have "advance_all c (u # us) = Some (Some (w_pending w))" "window_ok w"
    using assms by (auto simp: watcher_inv_def leads_on_def)
  moreover have "window_ok (w\<lparr>w_queue := us\<rparr>)" using \<open>window_ok w\<close> by (rule window_cong) simp_all
  ultimately show ?thesis by (auto simp: watcher_inv_def leads_on_def split: option.splits)
qed

text \<open>
  One call of the watcher: what it emits follows what was emitted before, and a reorg that it recognises
  concerns a block above the safe one.
\<close>

lemma next_inv:
  assumes "watcher_inv c w" "node_ok node" "next_block_update node cfg ts fuel w = Some (w', r)"
  shows "case r of
      Inl err \<Rightarrow> watcher_inv c w' \<and> w_queue w' = w_queue w \<and> w_safe w' = w_safe w
    | Inr u \<Rightarrow> \<exists>c'. advance c u = Some c' \<and> watcher_inv c' w' \<and> w_safe w \<le> w_safe w' \<and>
        (if w_queue w = [] then w_queue w' = [] \<and> (\<forall>n. u = Uncle n \<longrightarrow> w_safe w' < n) \<and> (\<forall>f t. u \<noteq> Warp f t) \<and>
             (\<forall>n hash timestamp logs_bloom. u = New n hash timestamp logs_bloom \<longrightarrow>
               (\<forall>a\<in>set (w_recent w'). h_number a = n \<longrightarrow> h_hash a = hash))
         else w_queue w = u # w_queue w' \<and> w_safe w' = w_safe w \<and> w_recent w' = w_recent w)"
proof (cases "w_queue w")
  case (Cons u us)
  then show ?thesis using assms(3) pop_inv [OF assms(1) Cons] by (auto simp: next_block_update_def)
next
  case Nil
  obtain w1 r1 where a: "await_pending node ts fuel w 0 = Some (w1, r1)"
    using assms(3) Nil by (cases "await_pending node ts fuel w 0") (auto simp: next_block_update_def)
  note frame = await_pending_frame [OF a]
  have inv1: "watcher_inv c w1" using watcher_inv_cong [OF assms(1), of w1] frame by simp
  show ?thesis
  proof (cases r1)
    case (Inl err)
    then show ?thesis using assms(3) Nil a inv1 frame by (auto simp: next_block_update_def)
  next
    case (Inr b)
    then obtain t where b: "node t (Number (w_pending w1)) = Inr (Some b)" using frame by auto
    have num: "h_number b = w_pending w1" "unat (h_number b) + 2 < 2 ^ 63"
      using node_number [OF assms(2) b] node_bound [OF assms(2) b] by simp_all
    have win: "window_ok w1" and q1: "w_queue w1 = []" and lead: "c = Some (w_pending w1) \<or> c = None \<and> w_recent w1 = []"
      using inv1 frame Nil by (auto simp: watcher_inv_def leads_on_def)
    have r: "observe_block cfg ts w1 b = (w', r)" using assms(3) Nil a Inr by (auto simp: next_block_update_def)
    have shape: "w_queue x = [] \<Longrightarrow> window_ok x \<Longrightarrow> c' = w_pending x \<Longrightarrow> watcher_inv (Some c') x" for x c'
      by (auto simp: watcher_inv_def queue_shape_def leads_on_def)
    show ?thesis
    proof (cases r)
      case (Inl err)
      then have "w' = w1" using r by (auto simp: observe_block_def Let_def split: if_splits)
      then show ?thesis using Inl inv1 frame by simp
    next
      case (Inr u)
      show ?thesis
      proof (cases u)
        case (Warp f t)
        then show ?thesis using r Inr by (auto simp: observe_block_def new_update_def Let_def split: if_splits)
      next
        case (Uncle n)
        from observe_uncle [OF win r [unfolded Inr Uncle] q1] lead
        show ?thesis using Inr Uncle frame Nil shape [of w' n] by (auto simp: word_less_nat_alt)
      next
        case (New n hash timestamp logs_bloom)
        from observe_new [OF win num q1 r [unfolded Inr New]] lead
        show ?thesis using Inr New frame Nil shape [of w' "n + 1"] by auto
      qed
    qed
  qed
qed


lemma rposition_Some:
  assumes "rposition P xs = Some i"
  shows "i < length xs \<and> P (xs ! i) \<and> (\<forall>j. i < j \<longrightarrow> j < length xs \<longrightarrow> \<not> P (xs ! j))"
proof -
  let ?js = "filter (\<lambda>i. P (xs ! i)) [0..<length xs]"
  have i: "?js \<noteq> []" "i = last ?js" using assms by (auto simp: rposition_def split: list.splits)
  then have "i \<in> set ?js" using last_in_set by blast
  moreover have "j \<le> i" if "j \<in> set ?js" for j
  proof -
    have "?js = butlast ?js @ [i]" using i by (metis append_butlast_last_id)
    moreover have "sorted ?js" by (simp add: sorted_wrt_filter)
    ultimately show ?thesis using that by (metis UnE empty_iff list.set(1) order_refl set_ConsD set_append sorted_append list.set_intros(1))
  qed
  ultimately show ?thesis by force
qed

lemma queue_of_new:
  assumes "queue_shape w" "w_queue w = New m h ts bl # us"
  shows "\<exists>bs as. w_queue w = map new_update bs \<and> w_recent w = as @ bs \<and> bs \<noteq> []"
proof -
  obtain uncles warps as bs where q: "w_queue w = uncles @ warps @ map new_update bs" "w_recent w = as @ bs"
    "uncles = [] \<or> (\<exists>n. uncles = [Uncle n])" "warps = [] \<or> as = [] \<and> (\<exists>f. warps = [Warp f (w_safe w)])"
    using assms(1) unfolding queue_shape_def by metis
  then have "uncles = []" "warps = []" using assms(2) by auto
  then show ?thesis using q assms(2) by (intro exI [of _ bs] exI [of _ as]) auto
qed

text \<open>The last block that was emitted is the one before the cursor.\<close>

lemma last_emitted_number:
  assumes inv: "watcher_inv (Some c) w" and Some: "last_emitted w = Some i"
  shows "i < length (w_recent w)" "Suc (unat (h_number (w_recent w ! i))) = unat c"
proof -
  let ?l = "w_recent w ! i"
  have win: "window_ok w" and lead: "advance_all (Some c) (w_queue w) = Some (Some (w_pending w))"
    using inv by (simp_all add: watcher_inv_def leads_on_def)
  note num = window_number [OF win]
  consider "w_queue w = []" "rposition (\<lambda>b. True) (w_recent w) = Some i"
    | m h ts bl us where "w_queue w = New m h ts bl # us" "rposition (\<lambda>b. h_number b < m) (w_recent w) = Some i"
    using Some by (auto simp: last_emitted_def split: list.splits block_update.splits)
  then have "i < length (w_recent w) \<and> Suc (unat (h_number ?l)) = unat c"
  proof cases
    case 1
    then have "c = w_pending w" "i < length (w_recent w)" "\<not> Suc i < length (w_recent w)"
      using lead rposition_Some [OF 1(2)] by auto
    then show ?thesis using num [of i] pending_bound(2) [OF win] by simp
  next
    case 2
    then have c: "c = m" using lead by (auto split: if_splits)
    have i: "i < length (w_recent w)" "h_number ?l < m" "\<And>j. i < j \<Longrightarrow> j < length (w_recent w) \<Longrightarrow> \<not> h_number (w_recent w ! j) < m"
      using rposition_Some [OF 2(2)] by simp_all
    have "Suc (unat (h_number ?l)) = unat m"
    proof (cases "Suc i < length (w_recent w)")
      case True
      then show ?thesis using i(2) i(3) [of "Suc i"] num [OF i(1)] num [OF True] by (simp add: word_less_nat_alt)
    next
      case False
      obtain bs as' where "w_queue w = map new_update bs" "w_recent w = as' @ bs" "bs \<noteq> []"
        using queue_of_new [OF _ 2(1)] inv unfolding watcher_inv_def by blast
      then have "m = h_number (hd bs)" "hd bs = w_recent w ! length as'" "length as' < length (w_recent w)"
        using 2(1) by (auto simp: new_update_def nth_append hd_conv_nth)
      then have "unat m = Suc (unat (w_safe w) + length as')" "length as' \<le> i" using num False i(1) by auto
      then show ?thesis using i(2) num [OF i(1)] by (simp add: word_less_nat_alt)
    qed
    then show ?thesis using i(1) c by simp
  qed
  then show "i < length (w_recent w)" "Suc (unat (h_number ?l)) = unat c" by simp_all
qed

lemma revalidate_inv:
  assumes "watcher_inv (Some c) w" "revalidate_last_block node w = (w', r)"
  shows "case r of
      Inr (Some (n, h)) \<Rightarrow> n + 1 = c \<and> n < c \<and> w_safe w < n \<and> w_safe w' = w_safe w \<and> watcher_inv (Some c) w' \<and> w_queue w' = [Uncle n] \<and>
        (\<exists>a\<in>set (w_recent w). h_number a = n \<and> h_hash a = h)
    | _ \<Rightarrow> watcher_inv (Some c) w' \<and> w_queue w' = w_queue w \<and> w_safe w' = w_safe w \<and> w_recent w' = w_recent w"
proof (cases "last_emitted w")
  case None
  then show ?thesis using assms by (auto simp: revalidate_last_block_def)
next
  case (Some i)
  let ?l = "w_recent w ! i"
  have win: "window_ok w" using assms(1) by (simp add: watcher_inv_def)
  have link: "linked (w_safe w) (w_safe_hash w) (w_recent w)" and b: "unat (w_safe w) + length (w_recent w) + 2 < 2 ^ 63"
    using win by (simp_all add: window_ok_def)
  note num = window_number [OF win]
  note i = last_emitted_number [OF assms(1) Some]
  show ?thesis
  proof (cases "node (w_requests w) (Number (h_number ?l))")
    case (Inl e)
    then show ?thesis using assms Some watcher_inv_cong [OF assms(1), of "w\<lparr>w_requests := Suc (w_requests w)\<rparr>"]
      by (auto simp: revalidate_last_block_def get_block_def Let_def)
  next
    case (Inr current)
    show ?thesis
    proof (cases "map_option h_hash current = Some (h_hash ?l)")
      case True
      then show ?thesis using assms Some Inr watcher_inv_cong [OF assms(1), of "w\<lparr>w_requests := Suc (w_requests w)\<rparr>"]
        by (auto simp: revalidate_last_block_def get_block_def Let_def)
    next
      case False
      then have w': "r = Inr (Some (h_number ?l, h_hash ?l))" "w_recent w' = take i (w_recent w)" "w_pending w' = h_number ?l"
        "w_queue w' = [Uncle (h_number ?l)]" "w_safe w' = w_safe w" "w_safe_hash w' = w_safe_hash w"
        using assms(2) Some Inr by (auto simp: revalidate_last_block_def get_block_def Let_def split: if_splits)
      have "linked (w_safe w) (w_safe_hash w) (take i (w_recent w))"
        using link by (subst (asm) append_take_drop_id [of i, symmetric]) (simp add: linked_append del: append_take_drop_id)
      moreover have "h_number ?l = w_safe w + of_nat i + 1" using linked_nth [OF link i(1)] by (simp add: algebra_simps)
      ultimately have "window_ok w'" using w' i(1) b by (simp add: window_ok_def min_absorb2)
      moreover have "h_number ?l < c" "h_number ?l + 1 = c" "h_number ?l \<noteq> 0" "w_safe w < h_number ?l"
        using i num [OF i(1)] b by (auto simp: word_less_nat_alt word_unat_eq_iff unat_word_ariths)
      moreover have "queue_shape w'" unfolding queue_shape_def w'(4)
        by (rule exI [of _ "[Uncle (h_number ?l)]"], rule exI [of _ "[]"], rule exI [of _ "w_recent w'"], rule exI [of _ "[]"]) simp
      ultimately show ?thesis using w' i(1) by (auto simp: watcher_inv_def leads_on_def intro!: bexI [of _ ?l])
    qed
  qed
qed

lemma window_unique:
  assumes "window_ok w" "a \<in> set (w_recent w)" "b \<in> set (w_recent w)" "h_number a = h_number b"
  shows "a = b"
proof -
  obtain i j where i: "i < length (w_recent w)" "a = w_recent w ! i" and j: "j < length (w_recent w)" "b = w_recent w ! j"
    using assms(2,3) by (auto simp: in_set_conv_nth)
  have "h_number (w_recent w ! i) = h_number (w_recent w ! j)" using assms(4) i(2) j(2) by simp
  then have "Suc (unat (w_safe w) + i) = Suc (unat (w_safe w) + j)"
    using window_number [OF assms(1) i(1)] window_number [OF assms(1) j(1)] by metis
  then show ?thesis using i(2) j(2) by simp
qed

lemma window_bound:
  assumes "window_ok w" "a \<in> set (w_recent w)"
  shows "unat (h_number a) + 2 < 2 ^ 63"
proof -
  obtain i where i: "i < length (w_recent w)" "a = w_recent w ! i" using assms(2) by (auto simp: in_set_conv_nth)
  have "unat (w_safe w) + length (w_recent w) + 2 < 2 ^ 63" using assms(1) by (simp add: window_ok_def)
  then show ?thesis using window_number [OF assms(1) i(1)] i by simp
qed

section \<open>Initialization ends\<close>

text \<open>A chain with head \<open>n\<close> that does not change while the watcher starts.\<close>

definition stable_chain :: "node \<Rightarrow> (nat \<Rightarrow> block_header) \<Rightarrow> nat \<Rightarrow> bool" where
  "stable_chain node chain n \<longleftrightarrow>
     n + 2 < 2 ^ 63 \<and> (\<forall>t. node t Latest = Inr (Some (chain n))) \<and>
     (\<forall>t k. k \<le> n \<longrightarrow> node t (Number (of_nat k)) = Inr (Some (chain k))) \<and>
     (\<forall>k\<le>n. h_number (chain k) = of_nat k) \<and> (\<forall>k<n. h_parent (chain (Suc k)) = h_hash (chain k))"

lemma block_less: "k \<le> n + 1 \<Longrightarrow> n + 2 < 2 ^ 63 \<Longrightarrow> (of_nat n :: u64) < of_nat k \<longleftrightarrow> n < k"
  by (simp add: word_less_nat_alt unat_of_nat)

lemma scan_completes:
  assumes "stable_chain node chain n" "k \<le> Suc n" "Suc n - k < fuel" "canonical = Some (chain n)"
    and "parent = None \<or> 0 < k \<and> parent = Some (h_hash (chain (k - 1)))"
  shows "\<exists>w' t. scan_range node safe (of_nat n) fuel w (of_nat k) parent canonical = Some (w', Inr ()) \<and>
    w' = w\<lparr>w_requests := t, w_recent := w_recent w @ map chain [k..<Suc n]\<rparr>"
  using assms(2-5)
proof (induction fuel arbitrary: w k parent)
  case (Suc fuel)
  have n: "n + 2 < 2 ^ 63" using assms(1) by (simp add: stable_chain_def)
  show ?case
  proof (cases "k = Suc n")
    case True
    then show ?thesis using block_less [of k n] n by (simp add: exI [of _ "w_requests w"])
  next
    case False
    then have k: "k \<le> n" using Suc.prems by simp
    have head: "(of_nat k :: u64) = of_nat n \<longleftrightarrow> k = n"
    proof
      assume "(of_nat k :: u64) = of_nat n"
      then have "unat (of_nat k :: u64) = unat (of_nat n :: u64)" by simp
      then show "k = n" using k n by (simp add: unat_of_nat)
    qed simp
    have b: "node (w_requests w) (Number (of_nat k)) = Inr (Some (chain k))" using assms(1) k by (simp add: stable_chain_def)
    have link: "parent = None \<or> parent = Some (h_parent (chain k))"
      using Suc.prems(4) assms(1) k by (cases k) (auto simp: stable_chain_def)
    define w1 where "w1 = (if k = n then w else w\<lparr>w_requests := Suc (w_requests w)\<rparr>)\<lparr>w_recent := w_recent w @ [chain k]\<rparr>"
    have step: "scan_range node safe (of_nat n) (Suc fuel) w (of_nat k) parent canonical =
        scan_range node safe (of_nat n) fuel w1 (of_nat (Suc k)) (Some (h_hash (chain k))) (if k = n then None else canonical)"
      using block_less [of k n] k n head b link Suc.prems(3)
      by (auto simp: w1_def require_block_def get_block_def Let_def algebra_simps)
    have up: "[k..<Suc n] = k # [Suc k..<Suc n]" using k by (simp add: upt_conv_Cons)
    show ?thesis
    proof (cases "k = n")
      case True
      have "scan_range node safe (of_nat n) fuel w1 (of_nat (Suc n)) parent' canonical' = Some (w1, Inr ())" for parent' canonical'
        using Suc.prems(2) True block_less [of "Suc n" n] n by (cases fuel) auto
      then show ?thesis unfolding step using True up by (auto simp: w1_def intro: exI [of _ "w_requests w"])
    next
      case False
      have "\<exists>w' t. scan_range node safe (of_nat n) fuel w1 (of_nat (Suc k)) (Some (h_hash (chain k))) canonical = Some (w', Inr ()) \<and>
          w' = w1\<lparr>w_requests := t, w_recent := w_recent w1 @ map chain [Suc k..<Suc n]\<rparr>"
        using Suc.prems False k by (intro Suc.IH) auto
      then show ?thesis unfolding step using False up by (auto simp: w1_def)
    qed
  qed
qed simp

text \<open>
  C35: initialization ends.  On a node whose chain does not change meanwhile, the scan over the blocks that
  may still be reorganized needs no more than the reorg depth and two rounds, and leaves the watcher with the
  safe block as its anchor and exactly the blocks above it as the recent ones.
\<close>

theorem initialization_completes:
  assumes "stable_chain node chain n" "unat (bc_max_reorg_depth cfg) + 1 < fuel" "w_recent w0 = []"
  shows "\<exists>w. initialize node cfg ts fuel indexed w0 = Some (w, Inr ()) \<and>
    w_safe w = of_nat (n - unat (bc_max_reorg_depth cfg)) \<and>
    w_recent w = map chain [Suc (n - unat (bc_max_reorg_depth cfg))..<Suc n] \<and> w_pending w = of_nat n + 1"
proof -
  let ?d = "unat (bc_max_reorg_depth cfg)"
  have n: "n + 2 < 2 ^ 63" "h_number (chain n) = of_nat n" "h_number (chain (n - ?d)) = of_nat (n - ?d)"
    using assms(1) by (simp_all add: stable_chain_def)
  have un: "unat (of_nat n :: u64) = n" using n(1) by (simp add: unat_of_nat)
  have safe: "sat_sub (h_number (chain n)) (bc_max_reorg_depth cfg) = of_nat (n - ?d)"
    using un n(2) by (cases "?d \<le> n") (simp_all add: sat_sub_def word_le_nat_alt of_nat_diff)
  have req: "require_block node w0 Latest = (w0\<lparr>w_requests := Suc (w_requests w0)\<rparr>, Inr (chain n))"
    using assms(1) by (simp add: stable_chain_def require_block_def get_block_def)
  define w1 where "w1 = (update_next_pending_block ts (w0\<lparr>w_requests := Suc (w_requests w0)\<rparr>) (of_nat n) (h_timestamp (chain n)))
    \<lparr>w_queue := w_queue w0 @ startup_updates cfg indexed (of_nat (n - ?d))\<rparr>"
  have w1: "w_recent w1 = []" "w_pending w1 = of_nat n + 1" using assms(3) by (simp_all add: w1_def update_next_pending_block_def)
  have enough: "n - ?d \<le> Suc n" "Suc n - (n - ?d) < fuel" using assms(2) by auto
  obtain t where scan: "scan_range node (of_nat (n - ?d)) (of_nat n) fuel w1 (of_nat (n - ?d)) None (Some (chain n)) =
      Some (w1\<lparr>w_requests := t, w_recent := map chain [n - ?d..<Suc n]\<rparr>, Inr ())"
    using scan_completes [OF assms(1) enough, of "Some (chain n)" None "of_nat (n - ?d)" w1] w1(1) by auto
  have up: "[n - ?d..<Suc n] = (n - ?d) # [Suc (n - ?d)..<Suc n]" by (rule upt_conv_Cons) simp
  have "initialize node cfg ts fuel indexed w0 =
      Some (anchor_safe cfg indexed (w1\<lparr>w_requests := t, w_recent := map chain [n - ?d..<Suc n]\<rparr>), Inr ())"
    using scan safe req n(2) by (simp add: initialize_def Let_def w1_def update_next_pending_block_def)
  then show ?thesis unfolding up using n(3) w1(2) by (simp add: anchor_safe_def Let_def del: upt_Suc)
qed

text \<open>A chain of blocks without content.\<close>

definition plain_chain :: "nat \<Rightarrow> block_header" where
  "plain_chain k = \<lparr>h_number = of_nat k, h_hash = of_nat k + 1, h_parent = of_nat k, h_timestamp = 0, h_bloom = 0\<rparr>"

definition plain_node :: "nat \<Rightarrow> node" where
  "plain_node n t bid = Inr (case bid of
     Latest \<Rightarrow> Some (plain_chain n)
   | Number k \<Rightarrow> if unat k \<le> n then Some (plain_chain (unat k)) else None)"

lemma plain_stable: "stable_chain (plain_node 9) plain_chain 9"
  by (auto simp: stable_chain_def plain_node_def plain_chain_def unat_of_nat)

theorem initialization_completes_witness:
  "\<exists>w. initialize (plain_node 9) \<lparr>bc_block_time = Auto, bc_propagation_delay = Auto, bc_retry_delays = Auto,
       bc_max_reorg_depth = 2, bc_start_block = None\<rparr> \<lparr>block_time = 1, block_propagation_delay = 1, block_retry_delays = []\<rparr>
       4 None \<lparr>w_requests = 0, w_pending = 0, w_pending_ms = 0, w_safe = 0, w_safe_hash = 0, w_recent = [], w_queue = []\<rparr> =
       Some (w, Inr ()) \<and> w_safe w = 7 \<and> w_recent w = [plain_chain 8, plain_chain 9]"
  using initialization_completes [OF plain_stable, of "\<lparr>bc_block_time = Auto, bc_propagation_delay = Auto, bc_retry_delays = Auto,
       bc_max_reorg_depth = 2, bc_start_block = None\<rparr>" 4
     "\<lparr>w_requests = 0, w_pending = 0, w_pending_ms = 0, w_safe = 0, w_safe_hash = 0, w_recent = [], w_queue = []\<rparr>"
     "\<lparr>block_time = 1, block_propagation_delay = 1, block_retry_delays = []\<rparr>" None]
  by (auto simp: upt_rec [of 8] upt_rec [of 9])

end
