(* ===== verification/Event_Watcher.thy ===== *)
theory Event_Watcher
  imports Block_Watcher
begin

text \<open>
  The event watcher (\<^verbatim>\<open>crates/core/src/index/events.rs\<close>): it fetches the logs of the blocks it is told
  about, page by page over a range or block by block, and decodes and orders them.  What the node answers to
  a query at a given time, the decoding of a log and the bloom filter of a list of logs are parameters.
  Queries that run at the same time see the same time; of several failures the one of the first is reported.
\<close>

section \<open>Configuration and state\<close>

record event_config =
  block_page_size :: nonzero_u64
  block_single_query_retry_count :: nonzero_u64
  use_client_filtering :: bool
  max_logs_per_query :: "nat option"
  fallible_events :: "b256 fset"

record raw_log =
  rl_address :: address
  rl_topics :: "b256 list"
  rl_data :: bytes
  rl_block :: "u64 option"
  rl_hash :: "b256 option"
  rl_timestamp :: "u64 option"
  rl_index :: "u64 option"

datatype event_error =
    EventRpc "int option"
  | DecodeLog b256 u64
  | TooManyLogs
  | IncompleteLogs b256
  | MissingLogBlock u64
  | UnexpectedBlockUpdate
  | UnexpectedBlockInvalidation

datatype block_filter = ByHash b256 | ByRange u64 u64

datatype fetch =
    SingleQuery block_filter
  | MultipleQueries block_filter
  | ClientFiltered b256 bloom

record fetched_page =
  fp_to :: u64
  fp_logs :: "raw_log list"
  fp_timestamps :: "(u64, u64) fmap"

datatype event_step =
    Idle
  | Warping u64 u64 nonzero_u64 "fetched_page option"
  | FetchBlock u64 b256 u64 bloom u64

text \<open>
  What is fixed for a watcher: the addresses and topics it looks for, the decoding of the events, and the
  bloom filter of logs.
\<close>

record 'e event_source =
  es_config :: event_config
  es_addresses :: "address list"
  es_topics :: "b256 list"
  es_decode :: "b256 list \<Rightarrow> bytes \<Rightarrow> 'e option"
  es_bloom :: "raw_log list \<Rightarrow> bloom"

text \<open>
  The node's answers during one operation: the logs for a filter, with or without restriction to addresses
  and topics, and the headers of blocks.  A failed request carries the code of the node's error, if any.
\<close>

record log_node =
  ln_logs :: "block_filter \<Rightarrow> (address list \<times> b256 list) option \<Rightarrow> int option + raw_log list"
  ln_header :: "u64 \<Rightarrow> int option + u64 option"

section \<open>Fetching\<close>

definition check_logs_limit :: "event_config \<Rightarrow> raw_log list \<Rightarrow> event_error + raw_log list" where
  "check_logs_limit cfg logs =
     (case max_logs_per_query cfg of
        Some m \<Rightarrow> if m \<le> length logs then Inl TooManyLogs else Inr logs
      | None \<Rightarrow> Inr logs)"

definition get_logs :: "log_node \<Rightarrow> block_filter \<Rightarrow> (address list \<times> b256 list) option \<Rightarrow> event_error + raw_log list" where
  "get_logs node blocks restrict = (case ln_logs node blocks restrict of Inl code \<Rightarrow> Inl (EventRpc code) | Inr logs \<Rightarrow> Inr logs)"

definition query_topic :: "'e event_source \<Rightarrow> log_node \<Rightarrow> block_filter \<Rightarrow> b256 \<Rightarrow> event_error + raw_log list" where
  "query_topic es node blocks topic =
     (let result = (case get_logs node blocks (Some (es_addresses es, [topic])) of
                      Inl err \<Rightarrow> Inl err
                    | Inr logs \<Rightarrow> check_logs_limit (es_config es) logs)
      in case result of
           Inl err \<Rightarrow> if topic |\<in>| fallible_events (es_config es) then Inr [] else Inl err
         | Inr logs \<Rightarrow> Inr logs)"

fun try_join_all :: "('err + 'a) list \<Rightarrow> 'err + 'a list" where
  "try_join_all [] = Inr []"
| "try_join_all (r # rs) =
     (case r of
        Inl err \<Rightarrow> Inl err
      | Inr x \<Rightarrow> (case try_join_all rs of Inl err \<Rightarrow> Inl err | Inr xs \<Rightarrow> Inr (x # xs)))"

definition fetch_logs :: "'e event_source \<Rightarrow> log_node \<Rightarrow> fetch \<Rightarrow> event_error + raw_log list" where
  "fetch_logs es node f =
     (case f of
        SingleQuery blocks \<Rightarrow>
          (case get_logs node blocks (Some (es_addresses es, es_topics es)) of
             Inl err \<Rightarrow> Inl err
           | Inr logs \<Rightarrow> check_logs_limit (es_config es) logs)
      | MultipleQueries blocks \<Rightarrow>
          (case try_join_all (map (query_topic es node blocks) (es_topics es)) of
             Inl err \<Rightarrow> Inl err
           | Inr logs \<Rightarrow> Inr (concat logs))
      | ClientFiltered hash logs_bloom \<Rightarrow>
          (case get_logs node (ByHash hash) None of
             Inl err \<Rightarrow> Inl err
           | Inr logs \<Rightarrow>
               if es_bloom es logs \<noteq> logs_bloom then Inl (IncompleteLogs hash)
               else Inr (filter (\<lambda>l. rl_address l \<in> set (es_addresses es) \<and>
                      (case rl_topics l of [] \<Rightarrow> False | t # _ \<Rightarrow> t \<in> set (es_topics es))) logs)))"

definition missing_timestamps :: "raw_log list \<Rightarrow> (u64, u64) fmap \<Rightarrow> u64 fset" where
  "missing_timestamps logs known =
     fset_of_list (filter (\<lambda>n. fmlookup known n = None) (List.map_filter rl_block (filter (\<lambda>l. rl_timestamp l = None) logs)))"

definition header_timestamp :: "log_node \<Rightarrow> u64 \<Rightarrow> event_error + u64" where
  "header_timestamp node n =
     (case ln_header node n of
        Inl code \<Rightarrow> Inl (EventRpc code)
      | Inr None \<Rightarrow> Inl (MissingLogBlock n)
      | Inr (Some ts) \<Rightarrow> Inr ts)"

fun add_timestamps :: "log_node \<Rightarrow> u64 list \<Rightarrow> (u64, u64) fmap \<Rightarrow> event_error option \<Rightarrow> (u64, u64) fmap \<times> event_error option" where
  "add_timestamps node [] known first_err = (known, first_err)"
| "add_timestamps node (n # ns) known first_err =
     (case header_timestamp node n of
        Inr ts \<Rightarrow> add_timestamps node ns (fmupd n ts known) first_err
      | Inl err \<Rightarrow> add_timestamps node ns known (case first_err of None \<Rightarrow> Some err | Some e \<Rightarrow> Some e))"

definition fetch_missing_block_timestamps :: "log_node \<Rightarrow> raw_log list \<Rightarrow> (u64, u64) fmap \<Rightarrow> (u64, u64) fmap \<times> event_error option" where
  "fetch_missing_block_timestamps node logs known =
     add_timestamps node (sorted_list_of_fset (missing_timestamps logs known)) known None"

section \<open>Decoding\<close>

definition decode_raw :: "'e event_source \<Rightarrow> (u64, u64) fmap \<Rightarrow> raw_log \<Rightarrow> event_error + 'e event_log" where
  "decode_raw es timestamps l =
     (let decoded =
        Option.bind (es_decode es (rl_topics l) (rl_data l)) (\<lambda>data.
        Option.bind (rl_block l) (\<lambda>number.
        Option.bind (case rl_timestamp l of Some ts \<Rightarrow> Some ts | None \<Rightarrow> fmlookup timestamps number) (\<lambda>timestamp.
        Option.bind (rl_index l) (\<lambda>index.
          Some \<lparr>log_block = number, log_timestamp = timestamp, log_index = index, log_address = rl_address l, log_data = data\<rparr>))))
      in case decoded of
           Some log \<Rightarrow> Inr log
         | None \<Rightarrow> Inl (DecodeLog (case rl_hash l of Some h \<Rightarrow> h | None \<Rightarrow> - 1) (case rl_index l of Some i \<Rightarrow> i | None \<Rightarrow> - 1)))"

text \<open>The order by block and then index, as an order of numbers.\<close>

definition log_key :: "'e event_log \<Rightarrow> nat" where
  "log_key l = unat (log_block l) * 2 ^ 64 + unat (log_index l)"

definition decode_and_sort :: "'e event_source \<Rightarrow> raw_log list \<Rightarrow> (u64, u64) fmap \<Rightarrow> event_error + 'e event_log list" where
  "decode_and_sort es logs timestamps =
     (case try_join_all (map (decode_raw es timestamps) logs) of
        Inl err \<Rightarrow> Inl err
      | Inr logs \<Rightarrow> Inr (sort_key log_key logs))"

section \<open>Steps\<close>

definition halve :: "nonzero_u64 \<Rightarrow> nonzero_u64" where
  "halve p = nz_of (let n = nz_get p in if n mod 2 \<noteq> 0 then n div 2 + 1 else n div 2)"

definition narrowed_warp :: "u64 \<Rightarrow> u64 \<Rightarrow> nonzero_u64 \<Rightarrow> event_step" where
  "narrowed_warp from to page_size = Warping from to (halve page_size) None"

definition on_block_update :: "'e event_source \<Rightarrow> event_step \<Rightarrow> block_update \<Rightarrow> event_step \<times> (event_error + unit)" where
  "on_block_update es step u =
     (if step \<noteq> Idle then (step, Inl UnexpectedBlockUpdate)
      else (case u of
              Warp from to \<Rightarrow> Warping from to (block_page_size (es_config es)) None
            | Uncle _ \<Rightarrow> Idle
            | New number hash timestamp logs_bloom \<Rightarrow> FetchBlock number hash timestamp logs_bloom 0, Inr ()))"

definition on_block_invalidated :: "event_step \<Rightarrow> b256 \<Rightarrow> event_step \<times> (event_error + unit)" where
  "on_block_invalidated step hash =
     (case step of
        FetchBlock _ current _ _ _ \<Rightarrow> if current = hash then (Idle, Inr ()) else (step, Inl UnexpectedBlockInvalidation)
      | _ \<Rightarrow> (step, Inl UnexpectedBlockInvalidation))"

definition page_end :: "u64 \<Rightarrow> u64 \<Rightarrow> nonzero_u64 \<Rightarrow> u64" where
  "page_end from to page_size = min to (sat_add from (nz_get page_size - 1))"

definition finish_page :: "'e event_source \<Rightarrow> log_node \<Rightarrow> u64 \<Rightarrow> u64 \<Rightarrow> nonzero_u64 \<Rightarrow> fetched_page \<Rightarrow>
    event_step \<times> (event_error + 'e event_update)" where
  "finish_page es node from to page_size page =
     (case fetch_missing_block_timestamps node (fp_logs page) (fp_timestamps page) of
        (known, Some err) \<Rightarrow> (Warping from to page_size (Some (page\<lparr>fp_timestamps := known\<rparr>)), Inl err)
      | (known, None) \<Rightarrow>
          (case decode_and_sort es (fp_logs page) known of
             Inl err \<Rightarrow> (narrowed_warp from to page_size, Inl err)
           | Inr logs \<Rightarrow>
               (if fp_to page = to then Idle else Warping (fp_to page + 1) to (block_page_size (es_config es)) None,
                Inr \<lparr>eu_first = from, eu_last = fp_to page, eu_logs = logs\<rparr>)))"

definition warp :: "'e event_source \<Rightarrow> log_node \<Rightarrow> u64 \<Rightarrow> u64 \<Rightarrow> nonzero_u64 \<Rightarrow> fetched_page option \<Rightarrow>
    event_step \<times> (event_error + 'e event_update)" where
  "warp es node from to page_size fetched =
     (case fetched of
        Some page \<Rightarrow> finish_page es node from to page_size page
      | None \<Rightarrow>
          let query_to = page_end from to page_size;
              blocks = ByRange from query_to;
              f = (if 1 < nz_get page_size then SingleQuery blocks else MultipleQueries blocks)
          in case fetch_logs es node f of
               Inl err \<Rightarrow> (narrowed_warp from to page_size, Inl err)
             | Inr logs \<Rightarrow> finish_page es node from to page_size \<lparr>fp_to = query_to, fp_logs = logs, fp_timestamps = fmempty\<rparr>)"

definition fetch_block :: "'e event_source \<Rightarrow> log_node \<Rightarrow> u64 \<Rightarrow> b256 \<Rightarrow> u64 \<Rightarrow> bloom \<Rightarrow> u64 \<Rightarrow>
    event_step \<times> (event_error + 'e event_update)" where
  "fetch_block es node number hash timestamp logs_bloom retries =
     (let f = (if retries < nz_get (block_single_query_retry_count (es_config es))
               then if use_client_filtering (es_config es) then ClientFiltered hash logs_bloom else SingleQuery (ByHash hash)
               else MultipleQueries (ByHash hash));
          result = (case fetch_logs es node f of
                      Inl err \<Rightarrow> Inl err
                    | Inr logs \<Rightarrow> decode_and_sort es logs (fmupd number timestamp fmempty))
      in case result of
           Inl err \<Rightarrow> (FetchBlock number hash timestamp logs_bloom (retries + 1), Inl err)
         | Inr logs \<Rightarrow> (Idle, Inr \<lparr>eu_first = number, eu_last = number, eu_logs = logs\<rparr>))"

definition next_events :: "'e event_source \<Rightarrow> log_node \<Rightarrow> event_step \<Rightarrow> event_step \<times> (event_error + 'e event_update option)" where
  "next_events es node step =
     (let some = (\<lambda>(step, r). (step, case r of Inl err \<Rightarrow> Inl err | Inr u \<Rightarrow> Inr (Some u)))
      in case step of
           Idle \<Rightarrow> (Idle, Inr None)
         | Warping from to page_size fetched \<Rightarrow> some (warp es node from to page_size fetched)
         | FetchBlock number hash timestamp logs_bloom retries \<Rightarrow> some (fetch_block es node number hash timestamp logs_bloom retries))"


section \<open>Order and range of what is fetched\<close>

text \<open>
  What is asked of the node: the logs it returns for a range lie in that range, those for a block in that
  block, and no two of them have the same position.
\<close>

definition placed :: "u64 \<Rightarrow> u64 \<Rightarrow> raw_log list \<Rightarrow> bool" where
  "placed lo hi logs \<longleftrightarrow>
     distinct (map (\<lambda>l. (rl_block l, rl_index l)) logs) \<and> (\<forall>l\<in>set logs. \<forall>b. rl_block l = Some b \<longrightarrow> lo \<le> b \<and> b \<le> hi)"

fun fetched_blocks :: "fetch \<Rightarrow> block_filter" where
  "fetched_blocks (SingleQuery blocks) = blocks"
| "fetched_blocks (MultipleQueries blocks) = blocks"
| "fetched_blocks (ClientFiltered hash logs_bloom) = ByHash hash"

definition honest :: "'e event_source \<Rightarrow> log_node \<Rightarrow> event_step \<Rightarrow> bool" where
  "honest es node step \<longleftrightarrow>
     (\<forall>f logs. fetch_logs es node f = Inr logs \<longrightarrow>
        (case step of
           Idle \<Rightarrow> True
         | Warping from to page_size fetched \<Rightarrow> (\<forall>lo hi. fetched_blocks f = ByRange lo hi \<longrightarrow> placed lo hi logs)
         | FetchBlock number hash timestamp logs_bloom retries \<Rightarrow> fetched_blocks f = ByHash hash \<longrightarrow> placed number number logs))"

lemma try_join_all_map: "try_join_all (map Inr xs) = Inr xs"
  by (induction xs) simp_all

lemma try_join_all_Inr: "try_join_all rs = Inr xs \<longleftrightarrow> rs = map Inr xs"
proof
  show "try_join_all rs = Inr xs \<Longrightarrow> rs = map Inr xs"
    by (induction rs arbitrary: xs) (auto split: sum.splits)
qed (simp add: try_join_all_map)

lemma decode_raw_Inr:
  "decode_raw es timestamps l = Inr log \<Longrightarrow>
   rl_block l = Some (log_block log) \<and> rl_index l = Some (log_index log) \<and> log_address log = rl_address l \<and>
   es_decode es (rl_topics l) (rl_data l) = Some (log_data log)"
  by (auto simp: decode_raw_def Let_def bind_eq_Some_conv split: option.splits Option.bind_splits)

lemma log_key_inject: "log_key a = log_key b \<longleftrightarrow> log_block a = log_block b \<and> log_index a = log_index b"
proof
  assume eq: "log_key a = log_key b"
  have "unat (log_index a) < 2 ^ 64" "unat (log_index b) < 2 ^ 64" using unat_less_exp [where ?'a = 64] by simp_all
  then have "log_key a div 2 ^ 64 = unat (log_block a)" "log_key b div 2 ^ 64 = unat (log_block b)"
    "log_key a mod 2 ^ 64 = unat (log_index a)" "log_key b mod 2 ^ 64 = unat (log_index b)"
    by (simp_all add: log_key_def)
  then show "log_block a = log_block b \<and> log_index a = log_index b" using eq by (simp add: word_unat_eq_iff)
qed (simp add: log_key_def)

lemma log_key_less: "log_key a < log_key b \<Longrightarrow> log_block a < log_block b \<or> log_block a = log_block b \<and> log_index a < log_index b"
proof -
  assume less: "log_key a < log_key b"
  have i: "unat (log_index a) < 2 ^ 64" "unat (log_index b) < 2 ^ 64" using unat_less_exp [where ?'a = 64] by simp_all
  have "\<not> unat (log_block b) < unat (log_block a)"
  proof
    assume "unat (log_block b) < unat (log_block a)"
    then have "Suc (unat (log_block b)) * 2 ^ 64 \<le> unat (log_block a) * 2 ^ 64" by (intro mult_le_mono1) simp
    then show False using less i unfolding log_key_def by simp
  qed
  then show ?thesis using less by (auto simp: log_key_def word_less_nat_alt word_unat_eq_iff)
qed

lemma sorted_keys_strict:
  "sorted (map log_key xs) \<Longrightarrow> distinct (map log_key xs) \<Longrightarrow>
   sorted_wrt (\<lambda>a b. log_block a < log_block b \<or> log_block a = log_block b \<and> log_index a < log_index b) xs"
proof (induction xs)
  case (Cons x xs)
  have "log_key x < log_key y" if "y \<in> set xs" for y
    using Cons.prems that by (auto simp: order.strict_iff_order)
  then show ?case using Cons log_key_less by auto
qed simp

lemma decode_and_sort_ok:
  assumes "decode_and_sort es logs timestamps = Inr ls" "placed lo hi logs"
  shows "sorted_wrt (\<lambda>a b. log_block a < log_block b \<or> log_block a = log_block b \<and> log_index a < log_index b) ls \<and>
    (\<forall>l\<in>set ls. lo \<le> log_block l \<and> log_block l \<le> hi)"
proof -
  obtain ds where ds: "map (decode_raw es timestamps) logs = map Inr ds" "ls = sort_key log_key ds"
    using assms(1) by (auto simp: decode_and_sort_def try_join_all_Inr split: sum.splits)
  have len: "length ds = length logs" using ds(1) by (metis length_map)
  have at: "decode_raw es timestamps (logs ! i) = Inr (ds ! i)" if "i < length logs" for i
    using ds(1) len that by (metis nth_map)
  have key: "map (\<lambda>l. (rl_block l, rl_index l)) logs = map (\<lambda>d. (Some (log_block d), Some (log_index d))) ds"
    using len decode_raw_Inr [OF at] by (intro nth_equalityI) simp_all
  then have "distinct (map (\<lambda>d. (Some (log_block d), Some (log_index d))) ds)" using assms(2) by (simp add: placed_def)
  then have "distinct (map log_key ds)" by (auto simp: distinct_map inj_on_def log_key_inject)
  then have "distinct (map log_key ls)" unfolding ds(2) by (simp add: distinct_map)
  moreover have "sorted (map log_key ls)" unfolding ds(2) by simp
  moreover have "lo \<le> log_block d \<and> log_block d \<le> hi" if d: "d \<in> set ls" for d
  proof -
    have "d \<in> set ds" using d ds(2) by simp
    then obtain i where "i < length logs" "d = ds ! i" using len by (auto simp: in_set_conv_nth)
    then show ?thesis using assms(2) decode_raw_Inr [OF at, of i] nth_mem unfolding placed_def by fastforce
  qed
  ultimately show ?thesis using sorted_keys_strict by blast
qed

section \<open>Steps keep their place\<close>

text \<open>A page that was kept is a part of the range from its start, with logs of that part.\<close>

definition page_ok :: "u64 \<Rightarrow> u64 \<Rightarrow> fetched_page option \<Rightarrow> bool" where
  "page_ok from to fetched =
     (case fetched of None \<Rightarrow> True | Some page \<Rightarrow> from \<le> fp_to page \<and> fp_to page \<le> to \<and> placed from (fp_to page) (fp_logs page))"

definition in_order :: "'e event_update \<Rightarrow> bool" where
  "in_order eu \<longleftrightarrow>
     sorted_wrt (\<lambda>a b. log_block a < log_block b \<or> log_block a = log_block b \<and> log_index a < log_index b) (eu_logs eu) \<and>
     (\<forall>l\<in>set (eu_logs eu). eu_first eu \<le> log_block l \<and> log_block l \<le> eu_last eu)"

lemma page_end_range: "from \<le> to \<Longrightarrow> from \<le> page_end from to page_size \<and> page_end from to page_size \<le> to"
  by (simp add: page_end_def)

definition warp_outcome :: "'e event_source \<Rightarrow> u64 \<Rightarrow> u64 \<Rightarrow> event_step \<Rightarrow> event_error + 'e event_update \<Rightarrow> bool" where
  "warp_outcome es from to step r \<longleftrightarrow>
     (case r of
        Inl err \<Rightarrow> (\<exists>p pg. step = Warping from to p pg \<and> page_ok from to pg)
      | Inr eu \<Rightarrow> eu_first eu = from \<and> from \<le> eu_last eu \<and> eu_last eu \<le> to \<and> in_order eu \<and>
          step = (if eu_last eu = to then Idle else Warping (eu_last eu + 1) to (block_page_size (es_config es)) None))"

lemma finish_page_ok:
  assumes "finish_page es node from to page_size page = (step, r)" "page_ok from to (Some page)"
  shows "warp_outcome es from to step r"
proof -
  obtain known err where f: "fetch_missing_block_timestamps node (fp_logs page) (fp_timestamps page) = (known, err)"
    by (cases rule: prod.exhaust)
  show ?thesis
  proof (cases err)
    case (Some e)
    then show ?thesis using assms f by (auto simp: finish_page_def warp_outcome_def page_ok_def)
  next
    case None
    show ?thesis
    proof (cases "decode_and_sort es (fp_logs page) known")
      case (Inl e)
      then show ?thesis using assms(1) f None by (auto simp: finish_page_def warp_outcome_def page_ok_def narrowed_warp_def)
    next
      case (Inr logs)
      have "in_order \<lparr>eu_first = from, eu_last = fp_to page, eu_logs = logs\<rparr>"
        using decode_and_sort_ok [OF Inr, of "from" "fp_to page"] assms(2) by (simp add: in_order_def page_ok_def)
      then show ?thesis using assms f None Inr by (auto simp: finish_page_def warp_outcome_def page_ok_def)
    qed
  qed
qed

lemma warp_ok:
  assumes "warp es node from to page_size fetched = (step, r)" "honest es node (Warping from to page_size fetched)"
    and "from \<le> to" "page_ok from to fetched"
  shows "warp_outcome es from to step r"
proof (cases fetched)
  case (Some page)
  then show ?thesis using assms finish_page_ok [of es node "from" to page_size page] by (simp add: warp_def)
next
  case None
  let ?to = "page_end from to page_size"
  define f where "f = (if 1 < nz_get page_size then SingleQuery (ByRange from ?to) else MultipleQueries (ByRange from ?to))"
  have w: "warp es node from to page_size None = (case fetch_logs es node f of
      Inl err \<Rightarrow> (narrowed_warp from to page_size, Inl err)
    | Inr logs \<Rightarrow> finish_page es node from to page_size \<lparr>fp_to = ?to, fp_logs = logs, fp_timestamps = fmempty\<rparr>)"
    by (simp add: warp_def Let_def f_def)
  show ?thesis
  proof (cases "fetch_logs es node f")
    case (Inl err)
    then show ?thesis using assms(1) None w by (auto simp: narrowed_warp_def page_ok_def warp_outcome_def)
  next
    case (Inr logs)
    have "fetched_blocks f = ByRange from ?to" by (simp add: f_def)
    then have "placed from ?to logs" using assms(2) Inr by (simp add: honest_def)
    then have "page_ok from to (Some \<lparr>fp_to = ?to, fp_logs = logs, fp_timestamps = fmempty\<rparr>)"
      using page_end_range [OF assms(3)] by (simp add: page_ok_def)
    from finish_page_ok [OF _ this] show ?thesis using assms(1) None Inr w by simp
  qed
qed

lemma fetch_block_ok:
  assumes "fetch_block es node number hash timestamp logs_bloom retries = (step, r)"
    and "honest es node (FetchBlock number hash timestamp logs_bloom retries)"
  shows "case r of
      Inl err \<Rightarrow> (\<exists>n. step = FetchBlock number hash timestamp logs_bloom n)
    | Inr eu \<Rightarrow> eu_first eu = number \<and> eu_last eu = number \<and> in_order eu \<and> step = Idle"
proof -
  define f where "f = (if retries < nz_get (block_single_query_retry_count (es_config es))
     then if use_client_filtering (es_config es) then ClientFiltered hash logs_bloom else SingleQuery (ByHash hash)
     else MultipleQueries (ByHash hash))"
  define result where "result = (case fetch_logs es node f of Inl err \<Rightarrow> Inl err
    | Inr logs \<Rightarrow> decode_and_sort es logs (fmupd number timestamp fmempty))"
  have w: "(step, r) = (case result of
      Inl err \<Rightarrow> (FetchBlock number hash timestamp logs_bloom (retries + 1), Inl err)
    | Inr logs \<Rightarrow> (Idle, Inr \<lparr>eu_first = number, eu_last = number, eu_logs = logs\<rparr>))"
    using assms(1) unfolding fetch_block_def Let_def f_def [symmetric] result_def [symmetric] by simp
  have "fetched_blocks f = ByHash hash" by (simp add: f_def)
  then have placed: "placed number number logs" if "fetch_logs es node f = Inr logs" for logs
    using assms(2) that by (simp add: honest_def)
  show ?thesis
  proof (cases result)
    case (Inl err)
    then show ?thesis using w by auto
  next
    case (Inr ls)
    then obtain logs where "fetch_logs es node f = Inr logs" "decode_and_sort es logs (fmupd number timestamp fmempty) = Inr ls"
      by (auto simp: result_def split: sum.splits)
    from decode_and_sort_ok [OF this(2) placed [OF this(1)]] show ?thesis using w Inr by (simp add: in_order_def)
  qed
qed

end
