(* ===== verification/Indexer.thy ===== *)
theory Indexer
  imports Event_Watcher Reorg
begin

text \<open>
  The indexer (\<^verbatim>\<open>crates/core/src/index/mod.rs\<close>) joins the block watcher and the event watcher into one stream
  of updates.  The stream is shown to fit the state machine that consumes it: as long as the database works
  and the node is consistent, no update is refused, except that a reorg cannot undo the oldest block on
  record.
\<close>

section \<open>The stream of updates\<close>

record indexer =
  ix_blocks :: block_watcher
  ix_events :: event_step

datatype index_error =
    BlocksError watcher_error
  | EventsError event_error

definition is_resource_not_found :: "event_error \<Rightarrow> bool" where
  "is_resource_not_found err \<longleftrightarrow> err = EventRpc (Some (- 32001))"

definition next_logs :: "node \<Rightarrow> 'e event_source \<Rightarrow> log_node \<Rightarrow> indexer \<Rightarrow> indexer \<times> (index_error + 'e event_update option)" where
  "next_logs node es ln ix =
     (case next_events es ln (ix_events ix) of
        (step, Inr logs) \<Rightarrow> (ix\<lparr>ix_events := step\<rparr>, Inr logs)
      | (step, Inl err) \<Rightarrow>
          let ix = ix\<lparr>ix_events := step\<rparr>
          in if is_resource_not_found err
             then (case revalidate_last_block node (ix_blocks ix) of
                     (w, Inl e) \<Rightarrow> (ix\<lparr>ix_blocks := w\<rparr>, Inl (BlocksError e))
                   | (w, Inr (Some (number, hash))) \<Rightarrow>
                       (case on_block_invalidated step hash of
                          (step, Inl e) \<Rightarrow> (\<lparr>ix_blocks = w, ix_events = step\<rparr>, Inl (EventsError e))
                        | (step, Inr _) \<Rightarrow> (\<lparr>ix_blocks = w, ix_events = step\<rparr>, Inr None))
                   | (w, Inr None) \<Rightarrow> (ix\<lparr>ix_blocks := w\<rparr>, Inl (EventsError err)))
             else (ix, Inl (EventsError err)))"

definition index_next :: "node \<Rightarrow> block_config \<Rightarrow> timings \<Rightarrow> 'e event_source \<Rightarrow> log_node \<Rightarrow> nat \<Rightarrow> indexer \<Rightarrow>
    (indexer \<times> (index_error + 'e update)) option" where
  "index_next node cfg ts es ln fuel ix =
     (case next_logs node es ln ix of
        (ix, Inl err) \<Rightarrow> Some (ix, Inl err)
      | (ix, Inr (Some events)) \<Rightarrow> Some (ix, Inr (Logs events))
      | (ix, Inr None) \<Rightarrow>
          (case next_block_update node cfg ts fuel (ix_blocks ix) of
             None \<Rightarrow> None
           | Some (w, Inl err) \<Rightarrow> Some (ix\<lparr>ix_blocks := w\<rparr>, Inl (BlocksError err))
           | Some (w, Inr u) \<Rightarrow>
               (case on_block_update es (ix_events ix) u of
                  (step, Inl err) \<Rightarrow> Some (\<lparr>ix_blocks = w, ix_events = step\<rparr>, Inl (EventsError err))
                | (step, Inr _) \<Rightarrow> Some (\<lparr>ix_blocks = w, ix_events = step\<rparr>, Inr (BlockUpdate u)))))"

definition index_status :: "indexer \<Rightarrow> block_status" where
  "index_status ix = watcher_status (ix_blocks ix)"

section \<open>What the machine does with an update\<close>

lemma run_tip:
  assumes "inner (machine_run T init ops) = Some (s, st)"
  shows "tip_ok st (snapshots (machine_run T init ops)) \<and> keys_fit (snapshots (machine_run T init ops))"
proof -
  let ?H = "machine_run record_history [] ops"
  obtain h where "inner ?H = Some (h, st)" using assms unfolding run_is_image [of T] by auto
  then have "tip_ok st (snapshots ?H)" "keys_fit (snapshots ?H)"
    using history_run [of ops] by (auto simp: history_inv_def snapshots_placed_def)
  moreover have "fmdom (snapshots (machine_run T init ops)) = fmdom (snapshots ?H)" unfolding run_is_image [of T] by simp
  ultimately show ?thesis by (cases st) (auto simp: tip_below_def keys_fit_def)
qed

lemma log_before_eq:
  "log_before = (\<lambda>a b. log_block a < log_block b \<or> log_block a = log_block b \<and> log_index a < log_index b)"
  by (simp add: log_before_def fun_eq_iff)

lemma in_order_accepted:
  "in_order eu \<Longrightarrow> successively log_before (eu_logs eu) \<and>
   list_all (\<lambda>log. eu_first eu \<le> log_block log \<and> log_block log \<le> eu_last eu) (eu_logs eu)"
  by (simp add: in_order_def log_before_eq [symmetric] successively_conv_sorted_wrt [OF log_before_trans] list_all_iff)

lemma uint_small: "unat n + k < 2 ^ 63 \<Longrightarrow> uint n + int k < 2 ^ 63" for n :: u64
proof -
  assume "unat n + k < 2 ^ 63"
  then have "int (unat n + k) < int (2 ^ 63)" by (simp only: of_nat_less_iff)
  then show "uint n + int k < 2 ^ 63" by simp
qed

lemma machine_new:
  assumes "inner m = Some (s, st)" "st = Initialized \<or> st = BlockPending n \<or> st = BlockApplied n"
  shows "\<exists>s' cs. handle_update T True m (BlockUpdate (New n hash timestamp logs_bloom)) =
    (\<lparr>inner = Some (s', BlockEvents n), snapshots = snapshots m\<rparr>, Inr cs)"
  using assms by (cases "T s (NewBlock n)") (auto simp: handle_update_def)

lemma machine_warp:
  assumes "inner m = Some (s, st)" "st = Initialized \<or> st = BlockPending f" "f \<le> t"
  shows "handle_update T True m (BlockUpdate (Warp f t)) = (\<lparr>inner = Some (s, WarpEvents f t), snapshots = snapshots m\<rparr>, Inr [])"
  using assms by (auto simp: handle_update_def block_range_def)

lemma machine_uncle:
  assumes "inner m = Some (s, st)" "accepts_uncle st n" "n \<noteq> 0" "unat n < 2 ^ 63"
  shows "if uint n - 1 |\<in>| fmdom (snapshots m)
    then \<exists>s'. handle_update T True m (BlockUpdate (Uncle n)) =
      (\<lparr>inner = Some (s', BlockPending n), snapshots = fmfilter (\<lambda>k. k < uint n) (snapshots m)\<rparr>, Inr [])
    else handle_update T True m (BlockUpdate (Uncle n)) = (m\<lparr>inner := None\<rparr>, Inl (Storage (MissingSnapshot (n - 1))))"
proof -
  have n: "checked_sub n 1 = Some (n - 1)" "uint (n - 1) = uint n - 1" "uint n < 2 ^ 63"
    using assms(3) uint_small [of n 0] assms(4) uint_predecessor [of n] by (simp_all add: checked_sub_def one_le_iff)
  then have "uint n - 1 < 2 ^ 63" by linarith
  then have parent: "to_i64 n = Inr (uint n)" "to_i64 (n - 1) = Inr (uint n - 1)" using n by (simp_all add: to_i64_def)
  have kept: "fmfilter (\<lambda>k. \<not> uint n \<le> k) x = fmfilter (\<lambda>k. k < uint n) x" for x :: "'a snapshots" by (rule fmap_ext) auto
  have look: "fmlookup (fmfilter (\<lambda>k. k < uint n) (snapshots m)) (uint n - 1) = fmlookup (snapshots m) (uint n - 1)" by simp
  have "reorg True (snapshots m) n = (case fmlookup (snapshots m) (uint n - 1) of
      None \<Rightarrow> Inl (MissingSnapshot (n - 1)) | Some s \<Rightarrow> Inr (fmfilter (\<lambda>k. k < uint n) (snapshots m), n - 1, s))"
    unfolding reorg_def n(1) option.case Let_def parent sum.case kept look by simp
  then show ?thesis using assms(1,2)
    by (cases "fmlookup (snapshots m) (uint n - 1)") (auto simp: handle_update_def fmlookup_dom_iff)
qed

lemma machine_logs:
  assumes "inner m = Some (s, st)" "accepts_logs st (eu_first eu, eu_last eu)" "in_order eu" "unat (eu_last eu) + 1 < 2 ^ 63"
  shows "\<exists>s' s1 cs. handle_update T True m (Logs eu) =
    (\<lparr>inner = Some (s', case st of WarpEvents f t \<Rightarrow> if eu_last eu < t then WarpEvents (eu_last eu + 1) t else BlockApplied (eu_last eu + 1)
        | _ \<Rightarrow> BlockApplied (eu_last eu + 1)),
      snapshots = fmupd (uint (eu_last eu)) s1 (snapshots m)\<rparr>, Inr cs)"
proof -
  have b: "uint (eu_last eu) < 2 ^ 63" "uint (eu_last eu) + 1 < 2 ^ 63" using uint_small [of "eu_last eu" 1] assms(4) by simp_all
  have n: "next_block (eu_last eu) = Inr (eu_last eu + 1)" using block_successor [OF b(2)] by (simp add: next_block_eq)
  have le: "eu_last eu + 1 \<le> t" if "eu_last eu < t" for t
    using that assms(4) by (simp add: word_le_nat_alt word_less_nat_alt unat_word_ariths)
  show ?thesis using assms(1,2) in_order_accepted [OF assms(3)] b n le
    by (cases st) (auto simp: handle_update_def handle_logs_def accepts_logs_def status_after_logs_def commit_def to_i64_def block_range_def
        split_def Let_def)
qed


section \<open>Watcher and machine in step\<close>

text \<open>
  Between the safe block and the awaited one, no block above the oldest snapshot lacks a snapshot.
\<close>

definition gap_free :: "block_watcher \<Rightarrow> u64 option \<Rightarrow> 's snapshots \<Rightarrow> bool" where
  "gap_free w c snaps \<longleftrightarrow>
     (\<forall>p j k. c = Some p \<longrightarrow> j |\<in>| fmdom snaps \<longrightarrow> j \<le> k \<longrightarrow> uint (w_safe w) \<le> k \<longrightarrow> k < uint p \<longrightarrow> k |\<in>| fmdom snaps)"

text \<open>
  What can be undone.  At the start a reorg may be queued that returns to the oldest snapshot; later a queued
  reorg concerns a block above the safe one.  While a range is queued nothing is undone.
\<close>

definition undo_ok :: "bool \<Rightarrow> block_watcher \<Rightarrow> u64 option \<Rightarrow> 's snapshots \<Rightarrow> bool" where
  "undo_ok start w c snaps =
     (case w_queue w of
        Uncle k # us \<Rightarrow>
          start \<and> uint k - 1 |\<in>| fmdom snaps \<and> (\<forall>j. j |\<in>| fmdom snaps \<longrightarrow> uint k - 1 \<le> j) \<or>
          w_safe w < k \<and> us = [] \<and> gap_free w c snaps
      | Warp f t # us \<Rightarrow> True
      | _ \<Rightarrow> gap_free w c snaps)"

fun idle_cursor :: "status \<Rightarrow> u64 option option" where
  "idle_cursor Initialized = Some None"
| "idle_cursor (BlockPending p) = Some (Some p)"
| "idle_cursor (BlockApplied p) = Some (Some p)"
| "idle_cursor st = None"

definition warp_ready :: "block_watcher \<Rightarrow> status \<Rightarrow> bool" where
  "warp_ready w st \<longleftrightarrow> (\<forall>f t p. Warp f t \<in> set (w_queue w) \<longrightarrow> st \<noteq> BlockApplied p)"

definition in_step :: "bool \<Rightarrow> indexer \<Rightarrow> status \<Rightarrow> 's snapshots \<Rightarrow> bool" where
  "in_step start ix st snaps =
     (let w = ix_blocks ix
      in case ix_events ix of
           Idle \<Rightarrow> (\<exists>c. idle_cursor st = Some c \<and> watcher_inv c w \<and> undo_ok start w c snaps \<and> warp_ready w st)
         | FetchBlock n hash timestamp logs_bloom retries \<Rightarrow>
             st = BlockEvents n \<and> watcher_inv (Some (n + 1)) w \<and> (\<forall>u\<in>set (w_queue w). \<exists>b. u = new_update b) \<and>
             gap_free w (Some n) snaps \<and> (\<forall>a\<in>set (w_recent w). h_number a = n \<longrightarrow> h_hash a = hash) \<and> unat n + 2 < 2 ^ 63
         | Warping f t page_size fetched \<Rightarrow>
             st = WarpEvents f t \<and> f \<le> t \<and> t = w_safe w \<and> watcher_inv (Some (t + 1)) w \<and>
             w_queue w = map new_update (w_recent w) \<and> page_ok f t fetched)"

lemma gap_freeD:
  "gap_free w (Some p) snaps \<Longrightarrow> j |\<in>| fmdom snaps \<Longrightarrow> j \<le> k \<Longrightarrow> uint (w_safe w) \<le> k \<Longrightarrow> k < uint p \<Longrightarrow> k |\<in>| fmdom snaps"
  by (simp add: gap_free_def)

lemma gap_freeI:
  "(\<And>p j k. c = Some p \<Longrightarrow> j |\<in>| fmdom snaps \<Longrightarrow> j \<le> k \<Longrightarrow> uint (w_safe w) \<le> k \<Longrightarrow> k < uint p \<Longrightarrow> k |\<in>| fmdom snaps) \<Longrightarrow>
   gap_free w c snaps"
  unfolding gap_free_def by blast

lemma gap_free_uncle:
  assumes "gap_free w (Some p) snaps" "w_safe w' = w_safe w" "k \<le> p"
  shows "gap_free w' (Some k) (fmfilter (\<lambda>j. j < uint k) snaps)"
proof (rule gap_freeI)
  fix q j x
  assume "Some k = Some q" "j |\<in>| fmdom (fmfilter (\<lambda>j. j < uint k) snaps)" "j \<le> x" "uint (w_safe w') \<le> x" "x < uint q"
  then show "x |\<in>| fmdom (fmfilter (\<lambda>j. j < uint k) snaps)"
    using gap_freeD [OF assms(1), of j x] assms(2,3) by (simp add: word_le_def)
qed

lemma gap_free_commit:
  assumes "gap_free w (Some n) snaps" "unat n + 2 < 2 ^ 63"
  shows "gap_free w (Some (n + 1)) (fmupd (uint n) s snaps)"
proof (rule gap_freeI)
  fix q j k
  assume a: "Some (n + 1) = Some q" "j |\<in>| fmdom (fmupd (uint n) s snaps)" "j \<le> k" "uint (w_safe w) \<le> k" "k < uint q"
  have "uint (n + 1) = uint n + 1" using uint_small [OF assms(2)] by (simp add: uint_word_ariths)
  then have "k < uint n \<or> k = uint n" using a(1,5) by auto
  then show "k |\<in>| fmdom (fmupd (uint n) s snaps)"
    using gap_freeD [OF assms(1), of j k] a by auto
qed

lemma gap_free_safe: "gap_free w c snaps \<Longrightarrow> w_safe w \<le> w_safe w' \<Longrightarrow> gap_free w' c snaps"
proof (rule gap_freeI)
  fix p j k
  assume "gap_free w c snaps" "w_safe w \<le> w_safe w'" "c = Some p" "j |\<in>| fmdom snaps" "j \<le> k" "uint (w_safe w') \<le> k" "k < uint p"
  then show "k |\<in>| fmdom snaps" using gap_freeD [of w p snaps j k] by (simp add: word_le_def)
qed

lemma news_after_new: "watcher_inv c w \<Longrightarrow> w_queue w = New n h ts bl # us \<Longrightarrow> \<forall>u\<in>set us. \<exists>b. u = new_update b"
proof -
  assume "watcher_inv c w" "w_queue w = New n h ts bl # us"
  then obtain bs as where "w_queue w = map new_update bs" using queue_of_new unfolding watcher_inv_def by blast
  then show "\<forall>u\<in>set us. \<exists>b. u = new_update b" using \<open>w_queue w = New n h ts bl # us\<close> by auto
qed

lemma news_after_warp:
  assumes "watcher_inv c w" "w_queue w = Warp f t # us"
  shows "us = map new_update (w_recent w) \<and> t = w_safe w"
proof -
  obtain uncles warps as bs where q: "w_queue w = uncles @ warps @ map new_update bs" "w_recent w = as @ bs"
    "uncles = [] \<or> (\<exists>n. uncles = [Uncle n])" "warps = [] \<or> as = [] \<and> (\<exists>f. warps = [Warp f (w_safe w)])"
    using assms(1) unfolding watcher_inv_def queue_shape_def by metis
  then have "uncles = []" using assms(2) by auto
  moreover have "warps \<noteq> []" using q(1) calculation assms(2) by (cases bs) (auto simp: new_update_def)
  ultimately show ?thesis using q assms(2) by auto
qed

lemma undo_ok_news:
  "\<forall>u\<in>set (w_queue w). \<exists>b. u = new_update b \<Longrightarrow> undo_ok start w c snaps \<longleftrightarrow> gap_free w c snaps"
  by (cases "w_queue w") (auto simp: undo_ok_def new_update_def)


lemma after_uncle:
  assumes "watcher_inv c w" "w_queue w = Uncle k # us"
  shows "(\<exists>f t vs. us = Warp f t # vs) \<or> (\<forall>u\<in>set us. \<exists>b. u = new_update b)"
proof -
  obtain uncles warps as bs where q: "w_queue w = uncles @ warps @ map new_update bs" "w_recent w = as @ bs"
    "uncles = [] \<or> (\<exists>n. uncles = [Uncle n])" "warps = [] \<or> as = [] \<and> (\<exists>f. warps = [Warp f (w_safe w)])"
    using assms(1) unfolding watcher_inv_def queue_shape_def by metis
  have "uncles \<noteq> []" using q(1,4) assms(2) by (cases bs) (auto simp: new_update_def)
  then have "us = warps @ map new_update bs" using q(1,3) assms(2) by auto
  then show ?thesis using q(4) by auto
qed

lemma queued_new:
  assumes "watcher_inv c w" "w_queue w = New n h ts bl # us"
  shows "\<exists>b\<in>set (w_recent w). h_number b = n \<and> h_hash b = h"
proof -
  obtain bs as where bs: "w_queue w = map new_update bs" "w_recent w = as @ bs" "bs \<noteq> []"
    using queue_of_new [OF _ assms(2)] assms(1) unfolding watcher_inv_def by blast
  then have "New n h ts bl = new_update (hd bs)" using assms(2) by (cases bs) auto
  then show ?thesis using bs by (intro bexI [of _ "hd bs"]) (auto simp: new_update_def)
qed

section \<open>Every update is accepted\<close>

text \<open>
  What happens when an update is fed to the machine: it is accepted and watcher and machine stay in step, or
  it uncles a block at or below the oldest snapshot.
\<close>

definition fed :: "('s, 'e, 'r, 'c) service \<Rightarrow> indexer \<Rightarrow> 's machine \<Rightarrow> 'e update \<Rightarrow> bool" where
  "fed T ix m u \<longleftrightarrow>
     (\<exists>s st snaps cs. handle_update T True m u = (\<lparr>inner = Some (s, st), snapshots = snaps\<rparr>, Inr cs) \<and> in_step False ix st snaps) \<or>
     (\<exists>k. u = BlockUpdate (Uncle k) \<and> k \<noteq> 0 \<and> (\<forall>j. j |\<in>| fmdom (snapshots m) \<longrightarrow> uint k \<le> j) \<and>
        handle_update T True m u = (m\<lparr>inner := None\<rparr>, Inl (Storage (MissingSnapshot (k - 1)))))"

lemma uncle_fed:
  assumes "inner m = Some (s, st)" "accepts_uncle st k" "k \<noteq> 0" "unat k < 2 ^ 63" "watcher_inv (Some k) w"
    and "\<And>j. j |\<in>| fmdom (snapshots m) \<Longrightarrow> j < uint k \<Longrightarrow> uint k - 1 |\<in>| fmdom (snapshots m)"
    and "undo_ok False w (Some k) (fmfilter (\<lambda>j. j < uint k) (snapshots m))"
  shows "fed T \<lparr>ix_blocks = w, ix_events = Idle\<rparr> m (BlockUpdate (Uncle k))"
proof (cases "uint k - 1 |\<in>| fmdom (snapshots m)")
  case True
  have "in_step False \<lparr>ix_blocks = w, ix_events = Idle\<rparr> (BlockPending k) (fmfilter (\<lambda>j. j < uint k) (snapshots m))"
    using assms(5,7) by (simp add: in_step_def warp_ready_def)
  then show ?thesis using machine_uncle [OF assms(1-4), of T] True unfolding fed_def by auto
next
  case False
  then have "\<forall>j. j |\<in>| fmdom (snapshots m) \<longrightarrow> uint k \<le> j" using assms(6) by force
  then show ?thesis using machine_uncle [OF assms(1-4), of T] False assms(3) unfolding fed_def by auto
qed

lemma new_fed:
  assumes "inner m = Some (s, st)" "idle_cursor st = Some c" "c = None \<or> c = Some n"
    and "watcher_inv (Some (n + 1)) w" "\<forall>u\<in>set (w_queue w). \<exists>b. u = new_update b"
    and "gap_free w (Some n) (snapshots m)" "\<forall>a\<in>set (w_recent w). h_number a = n \<longrightarrow> h_hash a = hash" "unat n + 2 < 2 ^ 63"
  shows "fed T \<lparr>ix_blocks = w, ix_events = FetchBlock n hash timestamp logs_bloom 0\<rparr> m (BlockUpdate (New n hash timestamp logs_bloom))"
proof -
  have "st = Initialized \<or> st = BlockPending n \<or> st = BlockApplied n" using assms(2,3) by (cases st) auto
  from machine_new [OF assms(1) this, of T hash timestamp logs_bloom] show ?thesis
    unfolding fed_def in_step_def using assms(4-8) by auto
qed

lemma warp_fed:
  assumes "inner m = Some (s, st)" "idle_cursor st = Some c" "c = None \<or> c = Some f" "\<And>p. st \<noteq> BlockApplied p" "f \<le> t"
    and "watcher_inv (Some (t + 1)) w" "w_queue w = map new_update (w_recent w)" "t = w_safe w"
  shows "fed T \<lparr>ix_blocks = w, ix_events = Warping f t p None\<rparr> m (BlockUpdate (Warp f t))"
proof -
  have "st = Initialized \<or> st = BlockPending f" using assms(2-4) by (cases st) auto
  from machine_warp [OF assms(1) this assms(5), of T] show ?thesis
    unfolding fed_def in_step_def using assms(5-8) by (auto simp: page_ok_def)
qed

lemma gap_free_undo:
  assumes "gap_free w (Some p) snaps" "w_safe w < k" "k < p" "k \<noteq> 0" "j |\<in>| fmdom snaps" "j < uint k"
  shows "uint k - 1 |\<in>| fmdom snaps"
proof (rule gap_freeD [OF assms(1,5)])
  show "j \<le> uint k - 1" "uint (w_safe w) \<le> uint k - 1" "uint k - 1 < uint p" using assms(2,3,6) by (auto simp: word_less_def)
qed

text \<open>A new block, and an uncled one, that the block watcher emits are updates that the machine is ready for.\<close>

lemma new_block_fed:
  assumes m: "inner m = Some (s, st)" "tip_ok st (snapshots m)" "keys_fit (snapshots m)"
    and inv: "idle_cursor st = Some c" "watcher_inv c w" "undo_ok start w c (snapshots m)"
    and adv: "advance c u = Some c'" "watcher_inv c' w'" "w_safe w \<le> w_safe w'"
    and full: "w_queue w \<noteq> [] \<Longrightarrow> w_queue w = u # w_queue w' \<and> w_safe w' = w_safe w \<and> w_recent w' = w_recent w"
    and empty: "w_queue w = [] \<Longrightarrow> w_queue w' = [] \<and> (\<forall>a\<in>set (w_recent w'). h_number a = n \<longrightarrow> h_hash a = hash)"
    and New: "u = New n hash timestamp logs_bloom"
  shows "fed T \<lparr>ix_blocks = w', ix_events = FetchBlock n hash timestamp logs_bloom 0\<rparr> m (BlockUpdate u)"
proof -
  have c: "c = None \<or> c = Some n" "c' = Some (n + 1)" using adv(1) New by (auto split: if_splits)
  have "undo_ok start w c (snapshots m) \<longleftrightarrow> gap_free w c (snapshots m)"
    using New full by (cases "w_queue w") (auto simp: undo_ok_def)
  then have "gap_free w c (snapshots m)" using inv(3) by simp
  moreover have "c = None \<Longrightarrow> fmdom (snapshots m) = {||}" using inv(1) m(2) by (cases st) auto
  ultimately have "gap_free w (Some n) (snapshots m)" using c(1) by (auto simp: gap_free_def)
  then have gap: "gap_free w' (Some n) (snapshots m)" using adv(3) by (rule gap_free_safe)
  have win: "window_ok w" "window_ok w'" using inv(2) adv(2) by (simp_all add: watcher_inv_def)
  have rest: "(\<forall>v\<in>set (w_queue w'). \<exists>b. v = new_update b) \<and> (\<forall>a\<in>set (w_recent w'). h_number a = n \<longrightarrow> h_hash a = hash) \<and> unat n + 2 < 2 ^ 63"
  proof (cases "w_queue w")
    case Nil
    have "w_pending w' = n + 1" using adv(2) c(2) empty [OF Nil] by (auto simp: watcher_inv_def leads_on_def)
    then have "n = w_safe w' + of_nat (length (w_recent w'))" "unat (w_safe w') + length (w_recent w') + 2 < 2 ^ 63"
      using win(2) by (simp_all add: window_ok_def)
    then have "unat n + 2 < 2 ^ 63" using unat_offset [of "w_safe w'" "length (w_recent w')"] by simp
    then show ?thesis using empty [OF Nil] New by simp
  next
    case (Cons v vs)
    have q: "w_queue w = New n hash timestamp logs_bloom # w_queue w'" "w_recent w' = w_recent w" using full Cons New by simp_all
    obtain b where b: "b \<in> set (w_recent w)" "h_number b = n" "h_hash b = hash" using queued_new [OF inv(2) q(1)] by blast
    have "\<forall>a\<in>set (w_recent w'). h_number a = n \<longrightarrow> h_hash a = hash" using window_unique [OF win(1) _ b(1)] b q(2) by metis
    moreover have "unat n + 2 < 2 ^ 63" using window_bound [OF win(1) b(1)] b(2) by simp
    ultimately show ?thesis using news_after_new [OF inv(2) q(1)] by blast
  qed
  show ?thesis using new_fed [OF m(1) inv(1) c(1) adv(2) [unfolded c(2)] _ gap] rest New by blast
qed

lemma uncled_block_fed:
  assumes m: "inner m = Some (s, st)" "tip_ok st (snapshots m)" "keys_fit (snapshots m)"
    and inv: "idle_cursor st = Some c" "watcher_inv c w" "undo_ok start w c (snapshots m)"
    and adv: "advance c u = Some c'" "watcher_inv c' w'" "w_safe w \<le> w_safe w'"
    and full: "w_queue w \<noteq> [] \<Longrightarrow> w_queue w = u # w_queue w' \<and> w_safe w' = w_safe w \<and> w_recent w' = w_recent w"
    and empty: "w_queue w = [] \<Longrightarrow> w_queue w' = [] \<and> w_safe w' < k"
    and Uncle: "u = Uncle k"
  shows "fed T \<lparr>ix_blocks = w', ix_events = Idle\<rparr> m (BlockUpdate u)"
proof -
  obtain p where c: "c = Some p" "k < p" "k \<noteq> 0" "c' = Some k" using adv(1) Uncle by (auto split: option.splits if_splits)
  have st: "st = BlockPending p \<or> st = BlockApplied p" using inv(1) c(1) by (cases st) auto
  then have acc: "accepts_uncle st k" using c(2) by (auto simp: accepts_uncle_def)
  have "uint p - 1 |\<in>| fmdom (snapshots m)" using m(2) st by (auto simp: tip_below_def)
  then have "uint p - 1 < 2 ^ 63" using m(3) by (auto simp: keys_fit_def)
  moreover have "uint k < uint p" using c(2) by (simp add: word_less_def)
  ultimately have "uint k < 2 ^ 63" by linarith
  then have "int (unat k) < int (2 ^ 63)" by simp
  then have bound: "unat k < 2 ^ 63" by (simp only: of_nat_less_iff)
  note inv' = adv(2) [unfolded c(4)]
  show ?thesis
  proof (cases "w_queue w = [] \<or> w_queue w' = [] \<and> w_safe w < k \<and> gap_free w c (snapshots m)")
    case True
    have gap: "gap_free w' (Some p) (snapshots m)" "w_safe w' < k" "w_queue w' = []"
      using True empty full Uncle inv(3) c(1) gap_free_safe [OF _ adv(3), of "Some p"]
      by (cases "w_queue w"; auto simp: undo_ok_def)+
    have "undo_ok False w' (Some k) (fmfilter (\<lambda>j. j < uint k) (snapshots m))"
      using gap_free_uncle [OF gap(1) refl order.strict_implies_order [OF c(2)]] gap(3) by (simp add: undo_ok_def)
    from uncle_fed [OF m(1) acc c(3) bound inv' _ this] gap_free_undo [OF gap(1,2) c(2,3)] show ?thesis
      using Uncle by blast
  next
    case False
    then have q: "w_queue w = Uncle k # w_queue w'" using full Uncle by simp
    have start: "uint k - 1 |\<in>| fmdom (snapshots m)" "\<forall>j. j |\<in>| fmdom (snapshots m) \<longrightarrow> uint k - 1 \<le> j"
      using False inv(3) q by (auto simp: undo_ok_def)
    have "gap_free w' (Some k) (fmfilter (\<lambda>j. j < uint k) (snapshots m))"
    proof (rule gap_freeI)
      fix q j x
      assume a: "Some k = Some q" "j |\<in>| fmdom (fmfilter (\<lambda>j. j < uint k) (snapshots m))" "j \<le> x" "x < uint q"
      then have "j |\<in>| fmdom (snapshots m)" "x < uint k" by auto
      then have "x = uint k - 1" using start(2) a(3) by fastforce
      then show "x |\<in>| fmdom (fmfilter (\<lambda>j. j < uint k) (snapshots m))" using start(1) by simp
    qed
    then have "undo_ok False w' (Some k) (fmfilter (\<lambda>j. j < uint k) (snapshots m))"
      using after_uncle [OF inv(2) q] undo_ok_news by (auto simp: undo_ok_def)
    from uncle_fed [OF m(1) acc c(3) bound inv' _ this] start(1) show ?thesis using Uncle by blast
  qed
qed

lemma block_fed:
  assumes m: "inner m = Some (s, st)" "tip_ok st (snapshots m)" "keys_fit (snapshots m)"
    and inv: "idle_cursor st = Some c" "watcher_inv c w" "undo_ok start w c (snapshots m)" "warp_ready w st"
    and step: "node_ok node" "next_block_update node cfg ts fuel w = Some (w', Inr u)" "on_block_update es Idle u = (ev, Inr ())"
  shows "fed T \<lparr>ix_blocks = w', ix_events = ev\<rparr> m (BlockUpdate u)"
proof -
  from next_inv [OF inv(2) step(1,2)] obtain c' where adv: "advance c u = Some c'" "watcher_inv c' w'" "w_safe w \<le> w_safe w'"
    and empty: "w_queue w = [] \<Longrightarrow> w_queue w' = [] \<and> (\<forall>n. u = Uncle n \<longrightarrow> w_safe w' < n) \<and> (\<forall>f t. u \<noteq> Warp f t) \<and>
      (\<forall>n hash timestamp logs_bloom. u = New n hash timestamp logs_bloom \<longrightarrow> (\<forall>a\<in>set (w_recent w'). h_number a = n \<longrightarrow> h_hash a = hash))"
    and full: "w_queue w \<noteq> [] \<Longrightarrow> w_queue w = u # w_queue w' \<and> w_safe w' = w_safe w \<and> w_recent w' = w_recent w"
    by (auto split: if_splits)
  show ?thesis
  proof (cases u)
    case (New n hash timestamp logs_bloom)
    have ev: "ev = FetchBlock n hash timestamp logs_bloom 0" using step(3) New by (simp add: on_block_update_def)
    show ?thesis unfolding ev using empty New by (intro new_block_fed [OF m inv(1-3) adv full]) auto
  next
    case (Warp f t)
    have q: "w_queue w = Warp f t # w_queue w'" "w_safe w' = w_safe w" "w_recent w' = w_recent w"
      using empty full Warp by (cases "w_queue w"; auto)+
    have c: "c = None \<or> c = Some f" "f \<le> t" "c' = Some (t + 1)" using adv(1) Warp by (auto split: if_splits)
    have ev: "ev = Warping f t (block_page_size (es_config es)) None" using step(3) Warp by (simp add: on_block_update_def)
    have "\<And>p. st \<noteq> BlockApplied p" using inv(4) q(1) by (auto simp: warp_ready_def)
    from warp_fed [OF m(1) inv(1) c(1) this c(2) adv(2) [unfolded c(3)]] show ?thesis
      using news_after_warp [OF inv(2) q(1)] q(2,3) Warp ev by simp
  next
    case (Uncle k)
    have ev: "ev = Idle" using step(3) Uncle by (simp add: on_block_update_def)
    show ?thesis unfolding ev using empty Uncle by (intro uncled_block_fed [OF m inv(1-3) adv full]) auto
  qed
qed


lemma logs_fed:
  assumes m: "inner m = Some (s, st)" and order: "in_order eu" and last: "unat (eu_last eu) + 1 < 2 ^ 63"
    and acc: "accepts_logs st (eu_first eu, eu_last eu)"
    and next_ok: "\<And>s1. in_step False ix (case st of
        WarpEvents f t \<Rightarrow> if eu_last eu < t then WarpEvents (eu_last eu + 1) t else BlockApplied (eu_last eu + 1)
      | _ \<Rightarrow> BlockApplied (eu_last eu + 1)) (fmupd (uint (eu_last eu)) s1 (snapshots m))"
  shows "fed T ix m (Logs eu)"
proof -
  from machine_logs [OF m acc order last, of T] obtain s' s1 cs where
    "handle_update T True m (Logs eu) = (\<lparr>inner = Some (s', case st of
        WarpEvents f t \<Rightarrow> if eu_last eu < t then WarpEvents (eu_last eu + 1) t else BlockApplied (eu_last eu + 1)
      | _ \<Rightarrow> BlockApplied (eu_last eu + 1)), snapshots = fmupd (uint (eu_last eu)) s1 (snapshots m)\<rparr>, Inr cs)" by blast
  then show ?thesis using next_ok [of s1] unfolding fed_def by blast
qed

text \<open>While a range is fetched the last emitted block is not revalidated: it is beyond any reorg.\<close>

lemma warp_revalidate:
  assumes "window_ok w" "w_queue w = map new_update (w_recent w)"
  shows "revalidate_last_block node w = (w, Inr None)"
proof -
  have "rposition (\<lambda>b. h_number b < h_number (hd (w_recent w))) (w_recent w) = None" if "w_recent w \<noteq> []"
  proof (rule ccontr)
    assume "rposition (\<lambda>b. h_number b < h_number (hd (w_recent w))) (w_recent w) \<noteq> None"
    then obtain i where i: "i < length (w_recent w)" "h_number (w_recent w ! i) < h_number (hd (w_recent w))"
      using rposition_Some by fastforce
    then have "unat (h_number (w_recent w ! i)) < unat (h_number (w_recent w ! 0))"
      using that by (simp add: word_less_nat_alt hd_conv_nth)
    then show False using window_number [OF assms(1) i(1)] window_number [OF assms(1), of 0] that by simp
  qed
  then have "last_emitted w = None"
    using assms(2) by (cases "w_recent w") (auto simp: last_emitted_def new_update_def rposition_def)
  then show ?thesis by (simp add: revalidate_last_block_def)
qed

definition index_outcome :: "('s, 'e, 'r, 'c) service \<Rightarrow> bool \<Rightarrow> 's machine \<Rightarrow> status \<Rightarrow> indexer \<Rightarrow> index_error + 'e update \<Rightarrow> bool" where
  "index_outcome T start m st ix r =
     (case r of Inl err \<Rightarrow> in_step start ix st (snapshots m) \<or> in_step False ix st (snapshots m) | Inr u \<Rightarrow> fed T ix m u)"

lemma idle_next:
  assumes m: "inner m = Some (s, st)" "tip_ok st (snapshots m)" "keys_fit (snapshots m)" "node_ok node"
    and idle: "ix_events ix = Idle" "in_step start ix st (snapshots m)"
    and nxt: "index_next node cfg ts es ln fuel ix = Some (ix', r)"
  shows "index_outcome T start m st ix' r"
proof -
  obtain c where c: "idle_cursor st = Some c" "watcher_inv c (ix_blocks ix)" "undo_ok start (ix_blocks ix) c (snapshots m)"
    "warp_ready (ix_blocks ix) st" using idle by (auto simp: in_step_def Let_def)
  have ix: "ix\<lparr>ix_events := Idle\<rparr> = ix" using idle(1) by simp
  obtain w rw where w: "next_block_update node cfg ts fuel (ix_blocks ix) = Some (w, rw)"
    using nxt idle(1) by (cases "next_block_update node cfg ts fuel (ix_blocks ix)")
      (auto simp: index_next_def next_logs_def next_events_def Let_def)
  show ?thesis
  proof (cases rw)
    case (Inl err)
    then have "r = Inl (BlocksError err)" "ix' = ix\<lparr>ix_blocks := w\<rparr>"
      using nxt idle(1) w by (auto simp: index_next_def next_logs_def next_events_def Let_def)
    moreover have "in_step start (ix\<lparr>ix_blocks := w\<rparr>) st (snapshots m)"
      using next_inv [OF c(2) m(4) w] Inl c idle(1) by (auto simp: in_step_def Let_def undo_ok_def warp_ready_def gap_free_def split: list.splits block_update.splits)
    ultimately show ?thesis by (simp add: index_outcome_def)
  next
    case (Inr u)
    obtain ev where ev: "on_block_update es Idle u = (ev, Inr ())" by (simp add: on_block_update_def)
    then have "r = Inr (BlockUpdate u)" "ix' = \<lparr>ix_blocks = w, ix_events = ev\<rparr>"
      using nxt idle(1) w Inr by (auto simp: index_next_def next_logs_def next_events_def Let_def)
    then show ?thesis using block_fed [OF m(1-3) c m(4) w [unfolded Inr] ev, of T] by (simp add: index_outcome_def)
  qed
qed


lemma indexer_fields: "ix\<lparr>ix_events := e, ix_blocks := w\<rparr> = \<lparr>ix_blocks = w, ix_events = e\<rparr>" for ix :: indexer
  by (cases ix) simp

text \<open>The logs of a fetched block, and its invalidation by the node, are updates that the machine is ready for.\<close>

lemma fetched_block_fed:
  assumes m: "inner m = Some (s, BlockEvents n)" and inv: "watcher_inv (Some (n + 1)) (ix_blocks ix)"
    and news: "\<forall>u\<in>set (w_queue (ix_blocks ix)). \<exists>b. u = new_update b"
    and gap: "gap_free (ix_blocks ix) (Some n) (snapshots m)" and bound: "unat n + 2 < 2 ^ 63"
    and eu: "eu_first eu = n" "eu_last eu = n" "in_order eu"
  shows "fed T (ix\<lparr>ix_events := Idle\<rparr>) m (Logs eu)"
proof (rule logs_fed [OF m eu(3)])
  show "in_step False (ix\<lparr>ix_events := Idle\<rparr>) (case BlockEvents n of
      WarpEvents f t \<Rightarrow> if eu_last eu < t then WarpEvents (eu_last eu + 1) t else BlockApplied (eu_last eu + 1)
    | _ \<Rightarrow> BlockApplied (eu_last eu + 1)) (fmupd (uint (eu_last eu)) s1 (snapshots m))" for s1
    using inv gap_free_commit [OF gap bound] undo_ok_news [OF news] news eu
    by (auto simp: in_step_def Let_def warp_ready_def new_update_def)
qed (use eu bound in \<open>simp_all add: accepts_logs_def is_next_in_range_def\<close>)

lemma invalidated_block_fed:
  assumes m: "inner m = Some (s, BlockEvents n)" and gap: "gap_free w0 (Some n) (snapshots m)" and bound: "unat n + 2 < 2 ^ 63"
    and w: "watcher_inv (Some (n + 1)) w" "w_queue w = [Uncle n]" "w_safe w = w_safe w0" "w_safe w0 < n"
  shows "fed T \<lparr>ix_blocks = w\<lparr>w_queue := []\<rparr>, ix_events = Idle\<rparr> m (BlockUpdate (Uncle n))"
proof -
  obtain c' where c': "advance (Some (n + 1)) (Uncle n) = Some c'" "watcher_inv c' (w\<lparr>w_queue := []\<rparr>)"
    using pop_inv [OF w(1,2)] by auto
  then have k: "n \<noteq> 0" "c' = Some n" by (auto split: if_splits)
  show ?thesis
  proof (rule uncle_fed [OF m])
    show "uint n - 1 |\<in>| fmdom (snapshots m)" if "j |\<in>| fmdom (snapshots m)" "j < uint n" for j
      using gap_freeD [OF gap that(1), of "uint n - 1"] that(2) w(4) by (simp add: word_less_def)
    show "undo_ok False (w\<lparr>w_queue := []\<rparr>) (Some n) (fmfilter (\<lambda>j. j < uint n) (snapshots m))"
      using gap_free_uncle [OF gap, of "w\<lparr>w_queue := []\<rparr>" n] w(3) by (simp add: undo_ok_def)
  qed (use k c'(2) bound in \<open>simp_all add: accepts_uncle_def\<close>)
qed

lemma fetch_next:
  assumes m: "inner m = Some (s, st)" "node_ok node"
    and ev: "ix_events ix = FetchBlock n hash timestamp logs_bloom retries" "in_step start ix st (snapshots m)"
    and node: "honest es ln (ix_events ix)"
    and nxt: "index_next node cfg ts es ln fuel ix = Some (ix', r)"
  shows "index_outcome T start m st ix' r"
proof -
  let ?w = "ix_blocks ix"
  have st: "st = BlockEvents n" and inv: "watcher_inv (Some (n + 1)) ?w" and news: "\<forall>u\<in>set (w_queue ?w). \<exists>b. u = new_update b"
    and gap: "gap_free ?w (Some n) (snapshots m)" and same: "\<forall>a\<in>set (w_recent ?w). h_number a = n \<longrightarrow> h_hash a = hash"
    and bound: "unat n + 2 < 2 ^ 63" using ev by (auto simp: in_step_def Let_def)
  obtain step re where f: "fetch_block es ln n hash timestamp logs_bloom retries = (step, re)" by (cases rule: prod.exhaust)
  note ok = fetch_block_ok [OF f node [unfolded ev(1)]]
  show ?thesis
  proof (cases re)
    case (Inr eu)
    then have r: "r = Inr (Logs eu)" "ix' = ix\<lparr>ix_events := Idle\<rparr>" and eu: "eu_first eu = n" "eu_last eu = n" "in_order eu"
      using nxt ok f ev(1) by (auto simp: index_next_def next_logs_def next_events_def Let_def)
    have "fed T (ix\<lparr>ix_events := Idle\<rparr>) m (Logs eu)"
      by (rule fetched_block_fed [OF m(1) [unfolded st] inv news gap bound eu])
    then show ?thesis using r by (simp add: index_outcome_def)
  next
    case (Inl err)
    then obtain k where step: "step = FetchBlock n hash timestamp logs_bloom k" using ok by auto
    have still: "in_step start \<lparr>ix_blocks = w, ix_events = step\<rparr> st (snapshots m)"
      if "watcher_inv (Some (n + 1)) w" "w_queue w = w_queue ?w" "w_safe w = w_safe ?w" "w_recent w = w_recent ?w" for w
      using that st news gap same bound step by (simp add: in_step_def Let_def gap_free_def)
    show ?thesis
    proof (cases "is_resource_not_found err")
      case False
      then have "r = Inl (EventsError err)" "ix' = \<lparr>ix_blocks = ?w, ix_events = step\<rparr>"
        using nxt f Inl ev(1) by (auto simp: index_next_def next_logs_def next_events_def Let_def)
      then show ?thesis using still [of ?w] inv by (simp add: index_outcome_def)
    next
      case True
      obtain w rr where rv: "revalidate_last_block node ?w = (w, rr)" by (cases rule: prod.exhaust)
      note rok = revalidate_inv [OF inv rv]
      consider e where "rr = Inl e" | "rr = Inr None" | n' h' where "rr = Inr (Some (n', h'))"
        by (cases rr; cases "projr rr") auto
      then show ?thesis
      proof cases
        case 3
        then have u: "n' + 1 = n + 1" "w_safe ?w < n'" "w_safe w = w_safe ?w" "watcher_inv (Some (n + 1)) w" "w_queue w = [Uncle n']"
          and "h' = hash" using rok same by auto
        then have n': "n' = n" by simp
        have w: "next_block_update node cfg ts fuel w = Some (w\<lparr>w_queue := []\<rparr>, Inr (Uncle n))"
          using u(5) n' by (simp add: next_block_update_def)
        have r: "r = Inr (BlockUpdate (Uncle n))" "ix' = \<lparr>ix_blocks = w\<lparr>w_queue := []\<rparr>, ix_events = Idle\<rparr>"
          using nxt f Inl ev(1) True rv 3 step n' \<open>h' = hash\<close> w
          by (auto simp: index_next_def next_logs_def next_events_def Let_def on_block_invalidated_def on_block_update_def)
        have "fed T \<lparr>ix_blocks = w\<lparr>w_queue := []\<rparr>, ix_events = Idle\<rparr> m (BlockUpdate (Uncle n))"
          using u(2,5) n' by (intro invalidated_block_fed [OF m(1) [unfolded st] gap bound u(4) _ u(3)]) simp_all
        then show ?thesis using r by (simp add: index_outcome_def)
      qed (use nxt f Inl ev(1) True rv rok still [of w] in
          \<open>auto simp: index_next_def next_logs_def next_events_def Let_def index_outcome_def indexer_fields\<close>)
    qed
  qed
qed


lemma warp_next:
  assumes m: "inner m = Some (s, st)" "node_ok node"
    and ev: "ix_events ix = Warping f t page_size fetched" "in_step start ix st (snapshots m)"
    and node: "honest es ln (ix_events ix)"
    and nxt: "index_next node cfg ts es ln fuel ix = Some (ix', r)"
  shows "index_outcome T start m st ix' r"
proof -
  let ?w = "ix_blocks ix"
  have st: "st = WarpEvents f t" and ft: "f \<le> t" and t: "t = w_safe ?w" and inv: "watcher_inv (Some (t + 1)) ?w"
    and news: "w_queue ?w = map new_update (w_recent ?w)" and page: "page_ok f t fetched"
    using ev by (auto simp: in_step_def Let_def)
  have win: "window_ok ?w" using inv by (simp add: watcher_inv_def)
  then have bound: "unat t + 2 < 2 ^ 63" using t by (simp add: window_ok_def)
  obtain step re where w: "warp es ln f t page_size fetched = (step, re)" by (cases rule: prod.exhaust)
  have ok: "warp_outcome es f t step re" using warp_ok [OF w node [unfolded ev(1)] ft page] .
  show ?thesis
  proof (cases re)
    case (Inl err)
    then obtain p pg where step: "step = Warping f t p pg" "page_ok f t pg" using ok by (auto simp: warp_outcome_def)
    have "in_step start (ix\<lparr>ix_events := step\<rparr>) st (snapshots m)"
      using step st ft t inv news by (simp add: in_step_def Let_def)
    moreover have "ix\<lparr>ix_events := step, ix_blocks := ?w\<rparr> = ix\<lparr>ix_events := step\<rparr>" by simp
    moreover have "ix' = ix\<lparr>ix_events := step\<rparr> \<and> r = Inl (EventsError err)"
      using nxt w Inl ev(1) warp_revalidate [OF win news, of node]
      by (auto simp: index_next_def next_logs_def next_events_def Let_def split: if_splits)
    ultimately show ?thesis by (simp add: index_outcome_def)
  next
    case (Inr eu)
    then have eu: "eu_first eu = f" "f \<le> eu_last eu" "eu_last eu \<le> t" "in_order eu"
      and step: "step = (if eu_last eu = t then Idle else Warping (eu_last eu + 1) t (block_page_size (es_config es)) None)"
      using ok by (auto simp: warp_outcome_def)
    have r: "r = Inr (Logs eu)" "ix' = ix\<lparr>ix_events := step\<rparr>"
      using nxt w Inr ev(1) by (auto simp: index_next_def next_logs_def next_events_def Let_def)
    have last: "unat (eu_last eu) + 1 < 2 ^ 63" using eu(3) bound by (simp add: word_le_nat_alt)
    have "fed T (ix\<lparr>ix_events := step\<rparr>) m (Logs eu)"
    proof (rule logs_fed [OF m(1) eu(4) last])
      show "accepts_logs st (eu_first eu, eu_last eu)" using st eu by (simp add: accepts_logs_def is_next_in_range_def)
      fix s1
      show "in_step False (ix\<lparr>ix_events := step\<rparr>) (case st of
          WarpEvents f t \<Rightarrow> if eu_last eu < t then WarpEvents (eu_last eu + 1) t else BlockApplied (eu_last eu + 1)
        | _ \<Rightarrow> BlockApplied (eu_last eu + 1)) (fmupd (uint (eu_last eu)) s1 (snapshots m))"
      proof (cases "eu_last eu = t")
        case True
        have "uint (t + 1) = uint t + 1" using uint_small [OF bound] by (simp add: uint_word_ariths)
        then have "gap_free ?w (Some (t + 1)) (fmupd (uint t) s1 (snapshots m))" using t by (intro gap_freeI) auto
        then show ?thesis using True st inv step news undo_ok_news [of ?w False "Some (t + 1)" "fmupd (uint t) s1 (snapshots m)"]
          by (auto simp: in_step_def Let_def warp_ready_def new_update_def)
      next
        case False
        then have lt: "eu_last eu < t" using eu(3) by simp
        then have "eu_last eu + 1 \<le> t" using last by (simp add: word_le_nat_alt word_less_nat_alt unat_word_ariths)
        then show ?thesis using False lt st inv step news t by (simp add: in_step_def Let_def page_ok_def)
      qed
    qed
    then show ?thesis using r by (simp add: index_outcome_def)
  qed
qed

lemma index_step:
  assumes "inner m = Some (s, st)" "tip_ok st (snapshots m)" "keys_fit (snapshots m)" "node_ok node"
    and "in_step start ix st (snapshots m)" "honest es ln (ix_events ix)"
    and "index_next node cfg ts es ln fuel ix = Some (ix', r)"
  shows "index_outcome T start m st ix' r"
proof (cases "ix_events ix")
  case Idle
  show ?thesis using idle_next [OF assms(1-4) Idle assms(5,7)] .
next
  case (Warping f t page_size fetched)
  show ?thesis using warp_next [OF assms(1,4) Warping assms(5-7)] .
next
  case (FetchBlock n hash timestamp logs_bloom retries)
  show ?thesis using fetch_next [OF assms(1,4) FetchBlock assms(5-7)] .
qed

end
