(* ===== verification/Tx_Bundle.thy ===== *)
theory Tx_Bundle
  imports Prelude
begin

text \<open>
  The values of the transaction queue (\<^verbatim>\<open>crates/core/src/tx/types.rs\<close>, \<^verbatim>\<open>fees.rs\<close>, \<^verbatim>\<open>config.rs\<close>) and the
  bundling of queued transactions into the one that is sent (\<^verbatim>\<open>bundle.rs\<close>).  The hash function and the ABI
  encoding of the executor call come from libraries and are parameters.  The floating point percentage of
  the priority fee cap is represented by the integer in parts per million that the code rounds it to.
\<close>

section \<open>Types\<close>

record transaction =
  t_to :: address
  t_value :: u256
  t_data :: bytes
  t_gas :: u64

definition transaction_default :: transaction where
  "transaction_default = \<lparr>t_to = 0, t_value = 0, t_data = [], t_gas = 21000\<rparr>"

record authorization =
  auth_address :: address

definition code_hash :: "(bytes \<Rightarrow> b256) \<Rightarrow> authorization \<Rightarrow> b256" where
  "code_hash keccak a =
     (if auth_address a = 0 then keccak [] else keccak ([0xef, 0x01, 0x00] @ be_bytes 20 (auth_address a)))"

record account_status =
  as_nonce :: u64
  as_code_hash :: b256

definition account_status_new :: "(bytes \<Rightarrow> b256) \<Rightarrow> u64 \<Rightarrow> b256 \<Rightarrow> account_status" where
  "account_status_new keccak nonce hash = \<lparr>as_nonce = nonce, as_code_hash = (if hash = 0 then keccak [] else hash)\<rparr>"

definition is_delegated :: "(bytes \<Rightarrow> b256) \<Rightarrow> account_status \<Rightarrow> bool" where
  "is_delegated keccak a \<longleftrightarrow> as_code_hash a \<noteq> keccak []"

record fee_estimate =
  fe_max_fee :: u128
  fe_priority :: u128

record allocated_transaction =
  at_nonce :: u64
  at_transaction :: transaction
  at_authorization :: "authorization option"
  at_max_fee :: "u128 option"
  at_priority :: "u128 option"

record unsigned_transaction =
  ut_chain_id :: u64
  ut_nonce :: u64
  ut_gas_limit :: u64
  ut_max_fee :: u128
  ut_priority :: u128
  ut_to :: address
  ut_value :: u256
  ut_input :: bytes
  ut_authorization :: "authorization option"

section \<open>Fees\<close>

text \<open>\<open>div_ceil\<close> of the standard library.\<close>

definition div_ceil :: "'a::len word \<Rightarrow> 'a word \<Rightarrow> 'a word" where
  "div_ceil a b = (if a mod b \<noteq> 0 then a div b + 1 else a div b)"

abbreviation fee_precision :: u128 where
  "fee_precision \<equiv> 1000000"

definition cap_priority_fee :: "fee_estimate \<Rightarrow> u128 \<Rightarrow> fee_estimate" where
  "cap_priority_fee fees scaled_percent =
     (if fee_precision \<le> scaled_percent then fees
      else
        let base_fee = sat_sub (fe_max_fee fees) (fe_priority fees);
            capped = sat_mul base_fee scaled_percent div (fee_precision - scaled_percent);
            priority = min (fe_priority fees) capped
        in \<lparr>fe_max_fee = base_fee + priority, fe_priority = priority\<rparr>)"

definition bump_fee :: "u128 \<Rightarrow> u128 \<Rightarrow> u128" where
  "bump_fee fresh previous = max fresh (sat_add previous (div_ceil previous 10))"

definition bump :: "fee_estimate \<Rightarrow> fee_estimate option \<Rightarrow> fee_estimate" where
  "bump fresh previous =
     (case previous of
        None \<Rightarrow> fresh
      | Some p \<Rightarrow> \<lparr>fe_max_fee = bump_fee (fe_max_fee fresh) (fe_max_fee p),
                   fe_priority = bump_fee (fe_priority fresh) (fe_priority p)\<rparr>)"

definition at_fees :: "allocated_transaction \<Rightarrow> fee_estimate option" where
  "at_fees t =
     Option.bind (at_max_fee t) (\<lambda>m. Option.bind (at_priority t) (\<lambda>p. Some \<lparr>fe_max_fee = m, fe_priority = p\<rparr>))"

definition build_transaction :: "allocated_transaction \<Rightarrow> u64 \<Rightarrow> fee_estimate \<Rightarrow> unsigned_transaction" where
  "build_transaction t chain_id estimate =
     (let fees = bump estimate (at_fees t)
      in \<lparr>ut_chain_id = chain_id, ut_nonce = at_nonce t, ut_gas_limit = t_gas (at_transaction t),
          ut_max_fee = fe_max_fee fees, ut_priority = fe_priority fees, ut_to = t_to (at_transaction t),
          ut_value = t_value (at_transaction t), ut_input = t_data (at_transaction t),
          ut_authorization = at_authorization t\<rparr>)"

section \<open>Configuration\<close>

datatype submission_mode =
    DirectMode nat
  | BatchedMode address u64

definition max_in_flight_transactions :: "submission_mode \<Rightarrow> nat" where
  "max_in_flight_transactions mode = (case mode of DirectMode n \<Rightarrow> n | BatchedMode _ _ \<Rightarrow> 1)"

record tx_config =
  mode :: submission_mode
  blocks_before_resubmit :: u64
  priority_fee_cap :: "u128 option"

datatype config_error = MaxBatchGasRequiresExecutor | InFlightWithExecutor | ZeroExecutor

definition submission_mode_of :: "nat option \<Rightarrow> address option \<Rightarrow> u64 option \<Rightarrow> config_error + submission_mode" where
  "submission_mode_of max_in_flight executor max_batch_gas =
     (case (max_in_flight, executor, max_batch_gas) of
        (_, None, None) \<Rightarrow> Inr (DirectMode (case max_in_flight of Some n \<Rightarrow> n | None \<Rightarrow> 16))
      | (_, None, Some _) \<Rightarrow> Inl MaxBatchGasRequiresExecutor
      | (Some _, Some _, _) \<Rightarrow> Inl InFlightWithExecutor
      | (None, Some e, _) \<Rightarrow>
          if e = 0 then Inl ZeroExecutor
          else Inr (BatchedMode e (case max_batch_gas of Some g \<Rightarrow> g | None \<Rightarrow> 2000000)))"

section \<open>Bundling\<close>

record call =
  call_to :: address
  call_value :: u256
  call_gas_limit :: u256
  call_data :: bytes

datatype bundler_inner =
    Direct "transaction option"
  | Batched address u64 "call list" u64 bool

record bundler =
  bu_inner :: bundler_inner
  bu_authorization :: "authorization option"

abbreviation batch_gas :: u64 where
  "batch_gas \<equiv> 26000 + 16 * (4 + 32 + 32)"

definition bundler_direct :: "authorization option \<Rightarrow> bundler" where
  "bundler_direct auth = \<lparr>bu_inner = Direct None, bu_authorization = auth\<rparr>"

definition bundler_batched :: "address \<Rightarrow> u64 \<Rightarrow> authorization option \<Rightarrow> bundler" where
  "bundler_batched account max_batch_gas auth =
     \<lparr>bu_inner = Batched account max_batch_gas [] batch_gas False, bu_authorization = auth\<rparr>"

definition padded_len :: "bytes \<Rightarrow> nat" where
  "padded_len data = (length data + 31) div 32 * 32"

definition call_gas :: "transaction \<Rightarrow> u64" where
  "call_gas t =
     (let data_len = (if padded_len (t_data t) < 2 ^ 64 then of_nat (padded_len (t_data t)) else - 1);
          calldata = sat_mul 16 (32 + 4 * 32 + 32 + data_len);
          val = (if t_value t = 0 then 0 else 34000)
      in sat_add (sat_add (sat_add (sat_add calldata (t_gas t)) (div_ceil (t_gas t) 63)) 5000) val)"

definition push :: "bundler \<Rightarrow> transaction \<Rightarrow> bundler \<times> bool" where
  "push b t =
     (case bu_inner b of
        Direct None \<Rightarrow> (b\<lparr>bu_inner := Direct (Some t)\<rparr>, True)
      | Direct (Some _) \<Rightarrow> (b, False)
      | Batched account max_batch_gas calls gas full \<Rightarrow>
          let total = sat_add gas (call_gas t)
          in if full \<or> calls \<noteq> [] \<and> max_batch_gas < total
             then (b\<lparr>bu_inner := Batched account max_batch_gas calls gas True\<rparr>, False)
             else (b\<lparr>bu_inner := Batched account max_batch_gas
                       (calls @ [\<lparr>call_to = t_to t, call_value = t_value t, call_gas_limit = ucast (t_gas t),
                                  call_data = t_data t\<rparr>]) total full\<rparr>, True))"

definition finish :: "(call list \<Rightarrow> bytes) \<Rightarrow> bundler \<Rightarrow> u64 \<Rightarrow> allocated_transaction option" where
  "finish encode b nonce =
     map_option (\<lambda>t. \<lparr>at_nonce = nonce,
         at_transaction = (if bu_authorization b \<noteq> None then t\<lparr>t_gas := sat_add (t_gas t) 25000\<rparr> else t),
         at_authorization = bu_authorization b, at_max_fee = None, at_priority = None\<rparr>)
       (case bu_inner b of
          Direct t \<Rightarrow> t
        | Batched account max_batch_gas calls gas full \<Rightarrow>
            if calls = [] then None else Some \<lparr>t_to = account, t_value = 0, t_data = encode calls, t_gas = gas\<rparr>)"

text \<open>
  The loop of the storage that fills a bundler: transactions are pushed in order until one is refused, and
  the key of the last one taken is kept.
\<close>

fun fill_with :: "('b \<Rightarrow> 't \<Rightarrow> 'b \<times> bool) \<Rightarrow> 'b \<Rightarrow> ('i \<times> 't) list \<Rightarrow> 'b \<times> 'i option" where
  "fill_with add b [] = (b, None)"
| "fill_with add b (x # xs) =
     (case add b (snd x) of
        (b', False) \<Rightarrow> (b', None)
      | (b', True) \<Rightarrow>
          (case fill_with add b' xs of (b'', None) \<Rightarrow> (b'', Some (fst x)) | (b'', Some j) \<Rightarrow> (b'', Some j)))"

section \<open>Fee bounds\<close>

lemma unat_sat_sub: "unat (sat_sub a b) = unat a - unat b" for a b :: "'a::len word"
  by (auto simp: sat_sub_def word_le_nat_alt unat_sub)

lemma ceil_div: "(a + (b - 1)) div b = (if a mod b = 0 then a div b else a div b + 1)" if "0 < b" for a b :: nat
proof -
  have a: "a = a div b * b + a mod b" by simp
  show ?thesis
  proof (cases "a mod b = 0")
    case True
    then have "(a + (b - 1)) div b = (a div b * b + (b - 1)) div b" using a by simp
    also have "\<dots> = a div b" using that by (subst div_mult_self3) simp_all
    finally show ?thesis using True by simp
  next
    case False
    then have "0 < a" by (cases a) auto
    then have "a + (b - 1) = (a div b + 1) * b + (a mod b - 1)" using False that by (simp add: algebra_simps)
    then have "(a + (b - 1)) div b = ((a div b + 1) * b + (a mod b - 1)) div b" by (rule arg_cong)
    also have "\<dots> = a div b + 1" using that by (subst div_mult_self3) (simp_all add: less_imp_diff_less)
    finally show ?thesis using False by simp
  qed
qed

lemma unat_div_ceil: "unat (div_ceil a b) = (unat a + (unat b - 1)) div unat b" if "1 < b" for a b :: "'a::len word"
proof -
  have b: "1 < unat b" using that by (simp add: word_less_nat_alt)
  have m: "a mod b = 0 \<longleftrightarrow> unat a mod unat b = 0" by (simp add: unat_mod flip: unat_eq_zero)
  have "unat a div unat b + 1 < 2 ^ LENGTH('a)" if "unat a mod unat b \<noteq> 0"
  proof -
    have "0 < unat a" using that by (cases "unat a") auto
    then have "unat a div unat b < unat a" using b by simp
    then show ?thesis using unat_less_exp [of a] by linarith
  qed
  then show ?thesis using b m by (subst ceil_div) (auto simp: div_ceil_def unat_div unat_word_ariths)
qed

text \<open>
  The priority fee cap holds.  Below one hundred percent, the capped estimate never raises the priority
  fee, leaves the base fee as it was, and its priority fee is at most the given share of the total fee.
\<close>

lemma priority_fee_cap_holds:
  assumes "scaled_percent < 1000000"
  shows "let capped = cap_priority_fee fees scaled_percent; base = unat (fe_max_fee fees) - unat (fe_priority fees)
    in unat (fe_priority capped) \<le> unat (fe_priority fees) \<and>
       unat (fe_max_fee capped) = base + unat (fe_priority capped) \<and>
       unat (fe_priority capped) * 1000000 \<le> unat scaled_percent * unat (fe_max_fee capped)"
proof -
  let ?base = "sat_sub (fe_max_fee fees) (fe_priority fees)"
  define cap where "cap = sat_mul ?base scaled_percent div (fee_precision - scaled_percent)"
  define p where "p = min (fe_priority fees) cap"
  have capped: "cap_priority_fee fees scaled_percent = \<lparr>fe_max_fee = ?base + p, fe_priority = p\<rparr>"
    using assms by (simp add: cap_priority_fee_def p_def cap_def Let_def not_le)
  have s: "unat scaled_percent < 1000000" using assms by (simp add: word_less_nat_alt)
  have d: "unat (fee_precision - scaled_percent) = 1000000 - unat scaled_percent"
    using assms by (simp add: unat_sub word_le_nat_alt word_less_nat_alt)
  have "unat cap \<le> unat ?base * unat scaled_percent div (1000000 - unat scaled_percent)"
    unfolding cap_def unat_div d unat_sat_mul by (rule div_le_mono) simp
  then have "unat cap * (1000000 - unat scaled_percent) \<le> unat ?base * unat scaled_percent"
    by (meson div_times_less_eq_dividend dual_order.trans mult_le_mono1)
  then have share: "unat p * (1000000 - unat scaled_percent) \<le> unat ?base * unat scaled_percent"
    by (rule order_trans [rotated]) (simp add: p_def min_def word_le_nat_alt)
  have low: "unat p \<le> unat (fe_priority fees)" by (simp add: p_def word_le_nat_alt [symmetric])
  have sum: "unat (?base + p) = unat ?base + unat p"
  proof (rule unat_add_lem [THEN iffD1])
    show "unat ?base + unat p < 2 ^ LENGTH(128)"
      using low unat_less_exp [of "fe_max_fee fees"] unat_less_exp [of "fe_priority fees"] by (simp add: unat_sat_sub)
  qed
  have "unat p * 1000000 \<le> unat scaled_percent * (unat ?base + unat p)"
    using share s by (simp add: algebra_simps diff_mult_distrib2)
  then show ?thesis using sum low by (simp add: capped Let_def unat_sat_sub)
qed

lemma bump_fee_bounds:
  "fresh \<le> bump_fee fresh previous \<and>
   (bump_fee fresh previous = - 1 \<or> 11 * unat previous \<le> 10 * unat (bump_fee fresh previous))"
proof -
  let ?d = "div_ceil previous (10 :: u128)"
  have "unat ?d = (unat previous + 9) div 10" by (subst unat_div_ceil) simp_all
  then have d: "unat previous \<le> 10 * unat ?d" by linarith
  show ?thesis
  proof (cases "unat previous + unat ?d < 2 ^ 128")
    case True
    then have "unat (sat_add previous ?d) = unat previous + unat ?d" by (simp add: unat_sat_add)
    moreover have "unat (sat_add previous ?d) \<le> unat (bump_fee fresh previous)"
      by (simp add: bump_fee_def word_le_nat_alt [symmetric])
    ultimately show ?thesis using d by (simp add: bump_fee_def)
  next
    case False
    then have "sat_add previous ?d = - 1" by (simp add: sat_add_def)
    then show ?thesis by (simp add: bump_fee_def max_def)
  qed
qed

text \<open>
  A resubmission always replaces.  A transaction that was submitted before is rebuilt with the same
  nonce, call and authorization, with both fees at least the fresh estimate and at least ten percent above
  the ones last recorded (unless they have reached the largest value there is).
\<close>

lemma resubmission_raises_fees:
  assumes "at_fees t = Some previous"
  shows "let u = build_transaction t chain_id estimate
    in ut_nonce u = at_nonce t \<and> ut_to u = t_to (at_transaction t) \<and> ut_input u = t_data (at_transaction t) \<and>
       ut_authorization u = at_authorization t \<and>
       fe_max_fee estimate \<le> ut_max_fee u \<and> fe_priority estimate \<le> ut_priority u \<and>
       (ut_max_fee u = - 1 \<or> 11 * unat (fe_max_fee previous) \<le> 10 * unat (ut_max_fee u)) \<and>
       (ut_priority u = - 1 \<or> 11 * unat (fe_priority previous) \<le> 10 * unat (ut_priority u))"
  using bump_fee_bounds assms by (simp add: build_transaction_def bump_def Let_def)

section \<open>Bundles are prefixes\<close>

text \<open>What a storage relies on: a bundler takes what it is given in order, until it refuses.\<close>

locale ordered_bundler =
  fixes add :: "'b \<Rightarrow> 't \<Rightarrow> 'b \<times> bool" and contents :: "'b \<Rightarrow> 'c list" and item :: "'t \<Rightarrow> 'c"
  assumes taken: "add b t = (b', True) \<Longrightarrow> contents b' = contents b @ [item t]"
    and refused: "add b t = (b', False) \<Longrightarrow> contents b' = contents b"
begin

lemma fill_prefix:
  "fill_with add b xs = (b', j) \<Longrightarrow>
   \<exists>n\<le>length xs. contents b' = contents b @ map (item \<circ> snd) (take n xs) \<and>
     j = (if n = 0 then None else Some (fst (xs ! (n - 1))))"
proof (induction xs arbitrary: b b' j)
  case (Cons x xs)
  obtain b1 r where a: "add b (snd x) = (b1, r)" by (cases rule: prod.exhaust)
  show ?case
  proof (cases r)
    case True
    obtain b2 j2 where f: "fill_with add b1 xs = (b2, j2)" by (cases rule: prod.exhaust)
    from Cons.IH [OF f] obtain n where "n \<le> length xs" "contents b2 = contents b1 @ map (item \<circ> snd) (take n xs)"
      "j2 = (if n = 0 then None else Some (fst (xs ! (n - 1))))" by blast
    then show ?thesis using Cons.prems a f True taken [of b "snd x" b1]
      by (intro exI [of _ "Suc n"]) (auto simp: nth_Cons' split: option.splits)
  next
    case False
    then show ?thesis using Cons.prems a refused [of b "snd x" b1] by (intro exI [of _ 0]) auto
  qed
qed simp

end

definition call_of :: "transaction \<Rightarrow> call" where
  "call_of t = \<lparr>call_to = t_to t, call_value = t_value t, call_gas_limit = ucast (t_gas t), call_data = t_data t\<rparr>"

definition bundled :: "bundler \<Rightarrow> call list" where
  "bundled b = (case bu_inner b of Direct None \<Rightarrow> [] | Direct (Some t) \<Rightarrow> [call_of t] | Batched _ _ calls _ _ \<Rightarrow> calls)"

interpretation bundling: ordered_bundler push bundled call_of
  by unfold_locales
    (auto simp: push_def bundled_def call_of_def Let_def split: bundler_inner.splits option.splits if_splits)

section \<open>Gas of a batch\<close>

definition call_cost :: "transaction \<Rightarrow> nat" where
  "call_cost t = unat (t_gas t) + (unat (t_gas t) + 62) div 63 + 5000 + (if t_value t = 0 then 0 else 34000)"

abbreviation max_u64 :: nat where
  "max_u64 \<equiv> 2 ^ 64 - 1"

lemma min_sum: "min m (min m a + b) = min m (a + b)" for m a b :: nat
  by simp

lemma sat_u64:
  "unat (sat_add a b) = min max_u64 (unat a + unat b)" "unat (sat_mul a b) = min max_u64 (unat a * unat b)" for a b :: u64
  by (simp_all add: unat_sat_add unat_sat_mul min.commute)

lemma unat_call_gas:
  assumes "padded_len (t_data t) < 2 ^ 63"
  shows "unat (call_gas t) = min max_u64 (16 * (192 + padded_len (t_data t)) + call_cost t)"
proof -
  let ?len = "of_nat (padded_len (t_data t)) :: u64"
  have l: "unat (192 + ?len) = 192 + padded_len (t_data t)"
    using assms by (simp add: unat_word_ariths unat_of_nat)
  have c: "unat (div_ceil (t_gas t) 63) = (unat (t_gas t) + 62) div 63" by (subst unat_div_ceil) simp_all
  have "call_gas t = sat_add (sat_add (sat_add (sat_add (sat_mul 16 (192 + ?len)) (t_gas t)) (div_ceil (t_gas t) 63)) 5000)
      (if t_value t = 0 then 0 else 34000)"
    using assms by (simp add: call_gas_def Let_def)
  then have "unat (call_gas t) = min max_u64 (16 * (192 + padded_len (t_data t)) + unat (t_gas t) +
      (unat (t_gas t) + 62) div 63 + 5000 + unat (if t_value t = 0 then 0 else 34000 :: u64))"
    by (simp only: sat_u64 min_sum l c) simp
  then show ?thesis by (simp add: call_cost_def add.assoc)
qed

definition batch_of :: "address \<Rightarrow> u64 \<Rightarrow> transaction list \<Rightarrow> bundler \<Rightarrow> bool" where
  "batch_of account limit ts b \<longleftrightarrow>
     (\<exists>gas full. bu_inner b = Batched account limit (map call_of ts) gas full \<and>
       unat gas = min max_u64 (27088 + (\<Sum>t\<leftarrow>ts. 16 * (192 + padded_len (t_data t)) + call_cost t)) \<and>
       (length ts \<le> 1 \<or> gas \<le> limit) \<and> (full \<longrightarrow> ts \<noteq> []))"

lemma push_batch:
  assumes "batch_of account limit ts b" "padded_len (t_data t) < 2 ^ 63" "push b t = (b', taken)"
  shows "batch_of account limit (if taken then ts @ [t] else ts) b' \<and> (ts = [] \<longrightarrow> taken) \<and>
    bu_authorization b' = bu_authorization b"
proof -
  obtain gas full where b: "bu_inner b = Batched account limit (map call_of ts) gas full"
    and g: "unat gas = min max_u64 (27088 + (\<Sum>t\<leftarrow>ts. 16 * (192 + padded_len (t_data t)) + call_cost t))"
    and l: "length ts \<le> 1 \<or> gas \<le> limit" "full \<longrightarrow> ts \<noteq> []"
    using assms(1) by (auto simp: batch_of_def)
  have total: "unat (sat_add gas (call_gas t)) =
      min max_u64 (27088 + (\<Sum>t\<leftarrow>ts @ [t]. 16 * (192 + padded_len (t_data t)) + call_cost t))"
    unfolding sat_u64 g unat_call_gas [OF assms(2)] by (simp add: add.assoc)
  show ?thesis
  proof (cases "full \<or> ts \<noteq> [] \<and> limit < sat_add gas (call_gas t)")
    case True
    then show ?thesis using assms(3) b g l by (auto simp: push_def Let_def batch_of_def)
  next
    case False
    then have "b' = b\<lparr>bu_inner := Batched account limit (map call_of (ts @ [t])) (sat_add gas (call_gas t)) full\<rparr>" "taken"
      using assms(3) b by (auto simp: push_def Let_def call_of_def)
    then show ?thesis using total False by (auto simp: batch_of_def not_less)
  qed
qed

lemma fill_batch:
  "batch_of account limit ts b \<Longrightarrow> \<forall>x\<in>set xs. padded_len (t_data (snd x)) < 2 ^ 63 \<Longrightarrow> fill_with push b xs = (b', j) \<Longrightarrow>
   \<exists>n\<le>length xs. batch_of account limit (ts @ map snd (take n xs)) b' \<and> (ts = [] \<longrightarrow> xs \<noteq> [] \<longrightarrow> 0 < n) \<and>
     bu_authorization b' = bu_authorization b"
proof (induction xs arbitrary: ts b j)
  case (Cons x xs)
  obtain b1 r where a: "push b (snd x) = (b1, r)" by (cases rule: prod.exhaust)
  note p = push_batch [OF Cons.prems(1) _ a]
  show ?case
  proof (cases r)
    case True
    obtain b2 j2 where f: "fill_with push b1 xs = (b2, j2)" by (cases rule: prod.exhaust)
    have "b' = b2" using Cons.prems(3) a f True by (simp split: option.splits)
    moreover have "batch_of account limit (ts @ [snd x]) b1" "bu_authorization b1 = bu_authorization b"
      using p True Cons.prems(2) by simp_all
    ultimately obtain n where "n \<le> length xs" "batch_of account limit ((ts @ [snd x]) @ map snd (take n xs)) b'"
      "bu_authorization b' = bu_authorization b"
      using Cons.IH [of "ts @ [snd x]" b1 j2] f Cons.prems(2) by auto
    then show ?thesis by (intro exI [of _ "Suc n"]) simp
  next
    case False
    then show ?thesis using p Cons.prems a by (intro exI [of _ 0]) auto
  qed
qed simp

text \<open>
  C34: a batch pays for all of its calls.  Let the encoder produce the length that the ABI prescribes for a
  call of the executor.  Then whatever is queued, a finished batch carries a non-empty prefix of it, in
  order, its gas is the intrinsic cost, sixteen per byte of the actual calldata, for every call its own
  gas with the 63/64 headroom and overheads, and the cost of the authorization (up to the largest gas value
  there is), and without the authorization it stays within the limit unless it is a single call.
\<close>

theorem batches_pay_for_their_calls:
  assumes "fill_with push (bundler_batched account limit auth) xs = (b, last_id)"
    and "finish encode b nonce = Some a"
    and "\<forall>x\<in>set xs. padded_len (t_data (snd x)) < 2 ^ 63"
    and "\<forall>cs. length (encode cs) = 4 + 32 + 32 + (\<Sum>c\<leftarrow>cs. 32 + 4 * 32 + 32 + padded_len (call_data c))"
  shows "\<exists>n ts. 0 < n \<and> n \<le> length xs \<and> ts = map snd (take n xs) \<and>
    t_to (at_transaction a) = account \<and> t_data (at_transaction a) = encode (map call_of ts) \<and>
    unat (t_gas (at_transaction a)) =
      min max_u64 (26000 + 16 * length (t_data (at_transaction a)) + (\<Sum>t\<leftarrow>ts. call_cost t) +
        (if auth = None then 0 else 25000)) \<and>
    (n = 1 \<or> 26000 + 16 * length (t_data (at_transaction a)) + (\<Sum>t\<leftarrow>ts. call_cost t) \<le> unat limit \<or> limit = - 1)"
proof -
  have "batch_of account limit [] (bundler_batched account limit auth)"
    by (auto simp: batch_of_def bundler_batched_def)
  from fill_batch [OF this assms(3,1)] obtain n where n: "n \<le> length xs"
    and batch: "batch_of account limit (map snd (take n xs)) b" and pos: "xs \<noteq> [] \<longrightarrow> 0 < n"
    and auth: "bu_authorization b = auth"
    by (auto simp: bundler_batched_def)
  let ?ts = "map snd (take n xs)"
  have len: "length (encode (map call_of ?ts)) = 68 + (\<Sum>t\<leftarrow>?ts. 192 + padded_len (t_data t))"
    using assms(4) by (simp add: call_of_def comp_def)
  have sum: "(\<Sum>t\<leftarrow>ts. 16 * (192 + padded_len (t_data t)) + call_cost t) =
      16 * (\<Sum>t\<leftarrow>ts. 192 + padded_len (t_data t)) + (\<Sum>t\<leftarrow>ts. call_cost t)" for ts
    by (induction ts) simp_all
  obtain gas full where b: "bu_inner b = Batched account limit (map call_of ?ts) gas full"
    and g: "unat gas = min max_u64 (26000 + 16 * length (encode (map call_of ?ts)) + (\<Sum>t\<leftarrow>?ts. call_cost t))"
    and l: "length ?ts \<le> 1 \<or> gas \<le> limit"
    using batch unfolding batch_of_def sum len by auto
  have a: "at_transaction a = \<lparr>t_to = account, t_value = 0, t_data = encode (map call_of ?ts),
      t_gas = (if auth = None then gas else sat_add gas 25000)\<rparr>" and ne: "?ts \<noteq> []"
    using assms(2) b auth by (auto simp: finish_def split: if_splits)
  have "0 < n" using ne by (cases n) auto
  moreover have "n = 1 \<or> gas \<le> limit" using l \<open>0 < n\<close> n by auto
  moreover have "gas \<le> limit \<Longrightarrow> limit \<noteq> - 1 \<Longrightarrow>
      26000 + 16 * length (encode (map call_of ?ts)) + (\<Sum>t\<leftarrow>?ts. call_cost t) \<le> unat limit"
    using g unat_less_max [of limit] by (simp add: word_le_nat_alt)
  ultimately show ?thesis using n a g
    by (intro exI [of _ n] exI [of _ ?ts]) (auto simp: unat_sat_add)
qed

text \<open>Two plain transfers, batched by an encoder that pads with zeros.\<close>

definition zero_encoder :: "call list \<Rightarrow> bytes" where
  "zero_encoder cs = replicate (4 + 32 + 32 + (\<Sum>c\<leftarrow>cs. 32 + 4 * 32 + 32 + padded_len (call_data c))) 0"

theorem batches_pay_for_their_calls_witness:
  "\<exists>b last_id a. fill_with push (bundler_batched 7 2000000 None) [(1 :: int, transaction_default), (2, transaction_default)] =
      (b, last_id) \<and> finish zero_encoder b 5 = Some a \<and>
    (\<exists>n ts. 0 < n \<and> ts = map snd (take n [(1 :: int, transaction_default), (2, transaction_default)]) \<and>
      t_data (at_transaction a) = zero_encoder (map call_of ts))"
proof -
  let ?xs = "[(1 :: int, transaction_default), (2, transaction_default)]"
  obtain b last_id where f: "fill_with push (bundler_batched 7 2000000 None) ?xs = (b, last_id)"
    by (cases rule: prod.exhaust)
  have small: "\<forall>x\<in>set ?xs. padded_len (t_data (snd x)) < 2 ^ 63"
    by (simp add: transaction_default_def padded_len_def)
  have enc: "\<forall>cs. length (zero_encoder cs) = 4 + 32 + 32 + (\<Sum>c\<leftarrow>cs. 32 + 4 * 32 + 32 + padded_len (call_data c))"
    by (simp add: zero_encoder_def)
  have "bundled b \<noteq> []"
    using f by (auto simp: push_def bundler_batched_def bundled_def Let_def split: if_splits option.splits prod.splits bool.splits)
  then obtain a where a: "finish zero_encoder b 5 = Some a"
    by (auto simp: finish_def bundled_def split: bundler_inner.splits option.splits)
  from batches_pay_for_their_calls [OF f a small enc] f a show ?thesis by blast
qed

end
