(* ===== verification/Tx_Storage.thy ===== *)
theory Tx_Storage
  imports Tx_Bundle Runs
begin

text \<open>
  The persistent storage of the transaction queue (\<^verbatim>\<open>crates/core/src/tx/storage.rs\<close>).  The two SQLite tables
  are finite maps over their integer keys; integers of the database are signed 64-bit, and every operation
  is one transaction that the database carries out or not.  The JSON columns hold the values they encode.
\<close>

section \<open>Tables\<close>

record sent_request =
  sr_transaction :: transaction
  sr_max_fee :: "u128 option"
  sr_priority :: "u128 option"

record allocation =
  al_request :: "sent_request option"
  al_delegate :: "address option"
  al_submitted_at :: "int option"
  al_executed_at :: "int option"

record queued_row =
  q_request :: transaction
  q_expires_at :: "int option"
  q_nonce :: "int option"

record tx_storage =
  allocated_nonces :: "(int, allocation) fmap"
  transactions :: "(int, queued_row) fmap"

datatype storage_error =
    StorageDatabase
  | StorageSerialization
  | StorageOverflow
  | NonceNotFound u64

record submission =
  sub_block :: "u64 option"
  sub_nonce :: u64
  sub_fees :: fee_estimate

record account_at =
  aa_block :: u64
  aa_nonce :: u64

definition empty_tx_storage :: tx_storage where
  "empty_tx_storage = \<lparr>allocated_nonces = fmempty, transactions = fmempty\<rparr>"

definition db_int :: "u64 \<Rightarrow> storage_error + int" where
  "db_int w = (if uint w < 2 ^ 63 then Inr (uint w) else Inl StorageOverflow)"

definition db_int_opt :: "u64 option \<Rightarrow> storage_error + int option" where
  "db_int_opt w = (case w of None \<Rightarrow> Inr None | Some w \<Rightarrow> (case db_int w of Inl err \<Rightarrow> Inl err | Inr i \<Rightarrow> Inr (Some i)))"

section \<open>Queueing and allocating\<close>

text \<open>A new row gets the key after the largest one.\<close>

definition next_row_id :: "(int, 'a) fmap \<Rightarrow> int" where
  "next_row_id rows = (if fmdom rows = {||} then 1 else fMax (fmdom rows) + 1)"

fun enqueue_rows :: "(int, queued_row) fmap \<Rightarrow> (transaction \<times> u64 option) list \<Rightarrow> storage_error + (int, queued_row) fmap" where
  "enqueue_rows rows [] = Inr rows"
| "enqueue_rows rows (x # xs) =
     (case db_int_opt (snd x) of
        Inl err \<Rightarrow> Inl err
      | Inr expires_at \<Rightarrow>
          enqueue_rows (fmupd (next_row_id rows) \<lparr>q_request = fst x, q_expires_at = expires_at, q_nonce = None\<rparr> rows) xs)"

definition enqueue :: "bool \<Rightarrow> tx_storage \<Rightarrow> (transaction \<times> u64 option) list \<Rightarrow> storage_error + tx_storage" where
  "enqueue db st txs =
     (if \<not> db then Inl StorageDatabase
      else case enqueue_rows (transactions st) txs of
             Inl err \<Rightarrow> Inl err
           | Inr rows \<Rightarrow> Inr (st\<lparr>transactions := rows\<rparr>))"

definition in_flight :: "allocation \<Rightarrow> bool" where
  "in_flight row \<longleftrightarrow> al_request row \<noteq> None \<and> al_executed_at row = None"

definition fm_count :: "('v \<Rightarrow> bool) \<Rightarrow> ('k, 'v) fmap \<Rightarrow> nat" where
  "fm_count P m = fcard (ffilter (\<lambda>k. P (the (fmlookup m k))) (fmdom m))"

definition count_in_flight :: "bool \<Rightarrow> tx_storage \<Rightarrow> storage_error + nat" where
  "count_in_flight db st = (if \<not> db then Inl StorageDatabase else Inr (fm_count in_flight (allocated_nonces st)))"

definition eligible :: "int \<Rightarrow> queued_row \<Rightarrow> bool" where
  "eligible block row \<longleftrightarrow>
     q_nonce row = None \<and> (case q_expires_at row of None \<Rightarrow> True | Some e \<Rightarrow> block < e)"

definition eligible_rows :: "int \<Rightarrow> (int, queued_row) fmap \<Rightarrow> (int \<times> transaction) list" where
  "eligible_rows block rows =
     map (\<lambda>i. (i, q_request (the (fmlookup rows i))))
       (filter (\<lambda>i. eligible block (the (fmlookup rows i))) (fm_keys rows))"

text \<open>
  The nonce that is free: the account's, or the one after the largest that is allocated.  A sum beyond the
  integers of the database does not decode as one.
\<close>

definition free_nonce :: "int \<Rightarrow> (int, allocation) fmap \<Rightarrow> storage_error + int" where
  "free_nonce account rows =
     (let n = max account (if fmdom rows = {||} then 0 else fMax (fmdom rows) + 1)
      in if n < 2 ^ 63 then Inr n else Inl StorageDatabase)"

definition new_allocation :: "transaction \<Rightarrow> allocation" where
  "new_allocation t = \<lparr>al_request = Some \<lparr>sr_transaction = t, sr_max_fee = None, sr_priority = None\<rparr>, al_delegate = None,
     al_submitted_at = None, al_executed_at = None\<rparr>"

definition new_delegation :: "address \<Rightarrow> allocation" where
  "new_delegation a = \<lparr>al_request = None, al_delegate = Some a, al_submitted_at = None, al_executed_at = None\<rparr>"

definition insert_allocation :: "(int, allocation) fmap \<Rightarrow> int \<Rightarrow> allocated_transaction \<Rightarrow>
    storage_error + (int, allocation) fmap" where
  "insert_allocation rows nonce a =
     (let rows = fmupd nonce (new_allocation (at_transaction a)) rows
      in case at_authorization a of
           None \<Rightarrow> Inr rows
         | Some auth \<Rightarrow>
             if nonce + 1 < 2 ^ 63 then Inr (fmupd (nonce + 1) (new_delegation (auth_address auth)) rows)
             else Inl StorageOverflow)"

definition next_transaction :: "(call list \<Rightarrow> bytes) \<Rightarrow> bool \<Rightarrow> tx_storage \<Rightarrow> account_at \<Rightarrow> bundler \<Rightarrow>
    storage_error + (tx_storage \<times> allocated_transaction option)" where
  "next_transaction encode db st account b =
     (if \<not> db then Inl StorageDatabase
      else case db_int (aa_block account) of
        Inl err \<Rightarrow> Inl err
      | Inr block \<Rightarrow>
          (case fill_with push b (eligible_rows block (transactions st)) of
             (b, None) \<Rightarrow> Inr (st, None)
           | (b, Some last_id) \<Rightarrow>
               (case db_int (aa_nonce account) of
                  Inl err \<Rightarrow> Inl err
                | Inr account_nonce \<Rightarrow>
                    (case free_nonce account_nonce (allocated_nonces st) of
                       Inl err \<Rightarrow> Inl err
                     | Inr nonce \<Rightarrow>
                         (case finish encode b (word_of_int nonce) of
                            None \<Rightarrow> Inr (st, None)
                          | Some a \<Rightarrow>
                              (case insert_allocation (allocated_nonces st) nonce a of
                                 Inl err \<Rightarrow> Inl err
                               | Inr rows \<Rightarrow>
                                   Inr (st\<lparr>allocated_nonces := rows,
                                           transactions := fmmap_keys (\<lambda>i row.
                                             if eligible block row \<and> i \<le> last_id then row\<lparr>q_nonce := Some nonce\<rparr> else row)
                                             (transactions st)\<rparr>, Some a))))))) "

section \<open>Bookkeeping\<close>

definition record_submission :: "bool \<Rightarrow> tx_storage \<Rightarrow> submission \<Rightarrow> storage_error + tx_storage" where
  "record_submission db st sub =
     (case db_int_opt (sub_block sub) of
        Inl err \<Rightarrow> Inl err
      | Inr block \<Rightarrow>
          (case db_int (sub_nonce sub) of
             Inl err \<Rightarrow> Inl err
           | Inr nonce \<Rightarrow>
               if \<not> db then Inl StorageDatabase
               else case fmlookup (allocated_nonces st) nonce of
                      None \<Rightarrow> Inl (NonceNotFound (sub_nonce sub))
                    | Some row \<Rightarrow>
                        (case al_request row of
                           None \<Rightarrow> Inl (NonceNotFound (sub_nonce sub))
                         | Some req \<Rightarrow>
                             Inr (st\<lparr>allocated_nonces := fmupd nonce
                               (row\<lparr>al_submitted_at := block,
                                    al_request := Some (req\<lparr>sr_max_fee := Some (fe_max_fee (sub_fees sub)),
                                      sr_priority := Some (fe_priority (sub_fees sub))\<rparr>)\<rparr>) (allocated_nonces st)\<rparr>))))"

definition count_outstanding :: "bool \<Rightarrow> tx_storage \<Rightarrow> u64 \<Rightarrow> storage_error + nat" where
  "count_outstanding db st block =
     (case db_int block of
        Inl err \<Rightarrow> Inl err
      | Inr block \<Rightarrow>
          if \<not> db then Inl StorageDatabase
          else Inr (fm_count (\<lambda>row. al_executed_at row = None) (allocated_nonces st) +
                    fm_count (eligible block) (transactions st)))"

definition mark_executed :: "bool \<Rightarrow> tx_storage \<Rightarrow> account_at \<Rightarrow> storage_error + tx_storage" where
  "mark_executed db st account =
     (case db_int (aa_block account) of
        Inl err \<Rightarrow> Inl err
      | Inr block \<Rightarrow>
          (case db_int (aa_nonce account) of
             Inl err \<Rightarrow> Inl err
           | Inr nonce \<Rightarrow>
               if \<not> db then Inl StorageDatabase
               else Inr (st\<lparr>allocated_nonces := fmmap_keys (\<lambda>n row.
                      if n < nonce \<and> al_executed_at row = None then row\<lparr>al_executed_at := Some block\<rparr> else row)
                      (allocated_nonces st)\<rparr>)))"

definition recover_authorization_gap :: "bool \<Rightarrow> tx_storage \<Rightarrow> u64 \<Rightarrow> storage_error + (tx_storage \<times> bool)" where
  "recover_authorization_gap db st nonce =
     (case db_int nonce of
        Inl err \<Rightarrow> Inl err
      | Inr n \<Rightarrow>
          if \<not> db then Inl StorageDatabase
          else case fmlookup (allocated_nonces st) n of
                 None \<Rightarrow> Inr (st, False)
               | Some row \<Rightarrow>
                   if al_delegate row \<noteq> None \<and> al_request row = None
                   then Inr (st\<lparr>allocated_nonces := fmupd n (row\<lparr>al_request :=
                          Some \<lparr>sr_transaction = transaction_default, sr_max_fee = None, sr_priority = None\<rparr>\<rparr>)
                          (allocated_nonces st)\<rparr>, True)
                   else Inr (st, False))"

definition executed_by :: "int \<Rightarrow> allocation \<Rightarrow> bool" where
  "executed_by safe row \<longleftrightarrow> (case al_executed_at row of None \<Rightarrow> False | Some b \<Rightarrow> b \<le> safe)"

definition expired_by :: "int \<Rightarrow> queued_row \<Rightarrow> bool" where
  "expired_by safe row \<longleftrightarrow> q_nonce row = None \<and> (case q_expires_at row of None \<Rightarrow> False | Some e \<Rightarrow> e \<le> safe)"

definition settled :: "int \<Rightarrow> (int, allocation) fmap \<Rightarrow> queued_row \<Rightarrow> bool" where
  "settled safe rows row \<longleftrightarrow>
     (case Option.bind (q_nonce row) (fmlookup rows) of None \<Rightarrow> False | Some a \<Rightarrow> executed_by safe a)"

text \<open>The three deletions, in their order.\<close>

definition prune_storage :: "bool \<Rightarrow> tx_storage \<Rightarrow> u64 \<Rightarrow> storage_error + tx_storage" where
  "prune_storage db st safe =
     (case db_int safe of
        Inl err \<Rightarrow> Inl err
      | Inr safe \<Rightarrow>
          if \<not> db then Inl StorageDatabase
          else
            let txs = fmfilter (\<lambda>i. \<not> settled safe (allocated_nonces st) (the (fmlookup (transactions st) i))) (transactions st);
                rows = fmfilter (\<lambda>n. \<not> executed_by safe (the (fmlookup (allocated_nonces st) n))) (allocated_nonces st);
                txs = fmfilter (\<lambda>i. \<not> expired_by safe (the (fmlookup txs i))) txs
            in Inr (st\<lparr>allocated_nonces := rows, transactions := txs\<rparr>))"

definition unmark_executed :: "bool \<Rightarrow> tx_storage \<Rightarrow> u64 \<Rightarrow> storage_error + tx_storage" where
  "unmark_executed db st block =
     (case db_int block of
        Inl err \<Rightarrow> Inl err
      | Inr block \<Rightarrow>
          if \<not> db then Inl StorageDatabase
          else Inr (st\<lparr>allocated_nonces := fmmap (\<lambda>row.
                 case al_executed_at row of Some e \<Rightarrow> if block \<le> e then row\<lparr>al_executed_at := None\<rparr> else row | None \<Rightarrow> row)
                 (allocated_nonces st)\<rparr>))"

definition stale :: "int \<Rightarrow> allocation \<Rightarrow> bool" where
  "stale submitted_before row \<longleftrightarrow>
     in_flight row \<and> (case al_submitted_at row of None \<Rightarrow> True | Some b \<Rightarrow> b \<le> submitted_before)"

definition stale_transaction :: "(int, allocation) fmap \<Rightarrow> int \<Rightarrow> allocated_transaction" where
  "stale_transaction rows n =
     (let req = the (al_request (the (fmlookup rows n)));
          delegate = Option.bind (fmlookup rows (n + 1)) al_delegate
      in \<lparr>at_nonce = word_of_int n, at_transaction = sr_transaction req,
          at_authorization = map_option (\<lambda>a. \<lparr>auth_address = a\<rparr>) delegate,
          at_max_fee = sr_max_fee req, at_priority = sr_priority req\<rparr>)"

definition stale_submissions :: "bool \<Rightarrow> tx_storage \<Rightarrow> u64 option \<Rightarrow> storage_error + allocated_transaction list" where
  "stale_submissions db st submitted_before =
     (case db_int_opt submitted_before of
        Inl err \<Rightarrow> Inl err
      | Inr before \<Rightarrow>
          let before = (case before of None \<Rightarrow> - 1 | Some b \<Rightarrow> b)
          in if \<not> db then Inl StorageDatabase
             else Inr (map (stale_transaction (allocated_nonces st))
                    (filter (\<lambda>n. stale before (the (fmlookup (allocated_nonces st) n))) (fm_keys (allocated_nonces st)))))"

section \<open>Invariant\<close>

definition row_ok :: "allocation \<Rightarrow> bool" where
  "row_ok row \<longleftrightarrow> al_request row \<noteq> None \<or> al_delegate row \<noteq> None"

definition storage_ok :: "tx_storage \<Rightarrow> bool" where
  "storage_ok st \<longleftrightarrow>
     (\<forall>n row. fmlookup (allocated_nonces st) n = Some row \<longrightarrow> 0 \<le> n \<and> n < 2 ^ 63 \<and> row_ok row) \<and>
     (\<forall>i row n. fmlookup (transactions st) i = Some row \<longrightarrow> q_nonce row = Some n \<longrightarrow>
        (\<exists>a. fmlookup (allocated_nonces st) n = Some a \<and> al_request a \<noteq> None))"

datatype storage_op =
    Enqueue "(transaction \<times> u64 option) list"
  | NextTransaction account_at bundler
  | RecordSubmission submission
  | MarkExecuted account_at
  | RecoverGap u64
  | PruneStorage u64
  | UnmarkExecuted u64

fun storage_step :: "(call list \<Rightarrow> bytes) \<Rightarrow> tx_storage \<Rightarrow> storage_op \<times> bool \<Rightarrow> tx_storage" where
  "storage_step encode st (Enqueue txs, db) = (case enqueue db st txs of Inl _ \<Rightarrow> st | Inr st' \<Rightarrow> st')"
| "storage_step encode st (NextTransaction account b, db) =
     (case next_transaction encode db st account b of Inl _ \<Rightarrow> st | Inr (st', _) \<Rightarrow> st')"
| "storage_step encode st (RecordSubmission sub, db) = (case record_submission db st sub of Inl _ \<Rightarrow> st | Inr st' \<Rightarrow> st')"
| "storage_step encode st (MarkExecuted account, db) = (case mark_executed db st account of Inl _ \<Rightarrow> st | Inr st' \<Rightarrow> st')"
| "storage_step encode st (RecoverGap n, db) = (case recover_authorization_gap db st n of Inl _ \<Rightarrow> st | Inr (st', _) \<Rightarrow> st')"
| "storage_step encode st (PruneStorage safe, db) = (case prune_storage db st safe of Inl _ \<Rightarrow> st | Inr st' \<Rightarrow> st')"
| "storage_step encode st (UnmarkExecuted b, db) = (case unmark_executed db st b of Inl _ \<Rightarrow> st | Inr st' \<Rightarrow> st')"

section \<open>Allocation\<close>

lemma db_int_Inr: "db_int w = Inr i \<longleftrightarrow> i = uint w \<and> uint w < 2 ^ 63"
  by (auto simp: db_int_def)

lemma uint_db: "0 \<le> n \<Longrightarrow> n < 2 ^ 63 \<Longrightarrow> uint (word_of_int n :: u64) = n"
  by (simp add: uint_word_of_int take_bit_int_eq_self)

lemma free_nonce_Inr:
  "free_nonce account rows = Inr n \<Longrightarrow> account \<le> n \<and> n < 2 ^ 63 \<and> (\<forall>k. k |\<in>| fmdom rows \<longrightarrow> k < n)"
proof -
  assume "free_nonce account rows = Inr n"
  then have n: "n = max account (if fmdom rows = {||} then 0 else fMax (fmdom rows) + 1)" "n < 2 ^ 63"
    by (auto simp: free_nonce_def Let_def split: if_splits)
  have "k < n" if "k |\<in>| fmdom rows" for k
  proof -
    have "k \<le> fMax (fmdom rows)" using that by simp
    moreover have "fMax (fmdom rows) + 1 \<le> n" using that n(1) by auto
    ultimately show ?thesis by linarith
  qed
  then show ?thesis using n by auto
qed

lemma eligible_rows_sorted: "sorted (map fst (eligible_rows block rows)) \<and> distinct (map fst (eligible_rows block rows))"
  by (simp add: eligible_rows_def comp_def fm_keys_def sorted_wrt_filter sorted_sorted_list_of_fset)

lemma eligible_rows_ids: "set (map fst (eligible_rows block rows)) = {i. \<exists>row. fmlookup rows i = Some row \<and> eligible block row}"
  by (auto simp: eligible_rows_def fmlookup_dom_iff)

lemma prefix_ids:
  assumes "sorted (xs :: int list)" "distinct xs" "0 < n" "n \<le> length xs"
  shows "set (take n xs) = {i \<in> set xs. i \<le> xs ! (n - 1)}"
proof -
  have "i \<in> set (take n xs) \<longleftrightarrow> i \<in> set xs \<and> i \<le> xs ! (n - 1)" for i
  proof
    assume "i \<in> set (take n xs)"
    then obtain j where j: "j < n" "j < length xs" "i = xs ! j" by (auto simp: in_set_conv_nth)
    then have "xs ! j \<le> xs ! (n - 1)" using assms by (intro sorted_nth_mono) auto
    then show "i \<in> set xs \<and> i \<le> xs ! (n - 1)" using j by simp
  next
    assume i: "i \<in> set xs \<and> i \<le> xs ! (n - 1)"
    then obtain j where j: "j < length xs" "i = xs ! j" by (auto simp: in_set_conv_nth)
    have "j \<le> n - 1"
    proof (rule ccontr)
      assume "\<not> j \<le> n - 1"
      then have "xs ! (n - 1) \<le> xs ! j" using assms j by (intro sorted_nth_mono) auto
      then have "xs ! (n - 1) = xs ! j" using i j by simp
      then show False using assms(2,4) j \<open>\<not> j \<le> n - 1\<close> by (simp add: nth_eq_iff_index_eq)
    qed
    then show "i \<in> set (take n xs)" using j assms(3) by (auto simp: in_set_conv_nth intro!: exI [of _ j])
  qed
  then show ?thesis by blast
qed

lemma next_transaction_cases:
  assumes "next_transaction encode db st account b = Inr (st', Some a)"
  obtains block nonce b' n rows where "block = uint (aa_block account)" "0 \<le> nonce" "nonce < 2 ^ 63"
    "uint (aa_nonce account) \<le> nonce" "\<forall>k. k |\<in>| fmdom (allocated_nonces st) \<longrightarrow> k < nonce"
    "0 < n" "n \<le> length (eligible_rows block (transactions st))"
    "bundled b' = bundled b @ map (call_of \<circ> snd) (take n (eligible_rows block (transactions st)))"
    "finish encode b' (word_of_int nonce) = Some a" "insert_allocation (allocated_nonces st) nonce a = Inr rows"
    "st' = st\<lparr>allocated_nonces := rows, transactions := fmmap_keys (\<lambda>i row.
       if i \<in> set (map fst (take n (eligible_rows block (transactions st)))) then row\<lparr>q_nonce := Some nonce\<rparr> else row)
       (transactions st)\<rparr>"
proof -
  let ?block = "uint (aa_block account)"
  let ?xs = "eligible_rows ?block (transactions st)"
  obtain b' last_id nonce rows where
    f: "fill_with push b ?xs = (b', Some last_id)"
    and nonce: "free_nonce (uint (aa_nonce account)) (allocated_nonces st) = Inr nonce"
    and a: "finish encode b' (word_of_int nonce) = Some a" "insert_allocation (allocated_nonces st) nonce a = Inr rows"
    and st': "st' = st\<lparr>allocated_nonces := rows, transactions := fmmap_keys (\<lambda>i row.
       if eligible ?block row \<and> i \<le> last_id then row\<lparr>q_nonce := Some nonce\<rparr> else row) (transactions st)\<rparr>"
    using assms
    by (auto simp: next_transaction_def db_int_Inr split: if_splits sum.splits prod.splits option.splits)
  from bundling.fill_prefix [OF f] obtain n where n: "0 < n" "n \<le> length ?xs" "last_id = fst (?xs ! (n - 1))"
    "bundled b' = bundled b @ map (call_of \<circ> snd) (take n ?xs)"
    by (auto split: if_splits)
  have "set (take n (map fst ?xs)) = {i \<in> set (map fst ?xs). i \<le> map fst ?xs ! (n - 1)}"
    using eligible_rows_sorted n(1,2) by (intro prefix_ids) auto
  then have ids: "set (map fst (take n ?xs)) = {i. (\<exists>row. fmlookup (transactions st) i = Some row \<and> eligible ?block row) \<and> i \<le> last_id}"
    using n(1-3) eligible_rows_ids [of ?block "transactions st"] by (simp add: take_map)
  have "fmmap_keys (\<lambda>i row. if eligible ?block row \<and> i \<le> last_id then row\<lparr>q_nonce := Some nonce\<rparr> else row) (transactions st) =
    fmmap_keys (\<lambda>i row. if i \<in> set (map fst (take n ?xs)) then row\<lparr>q_nonce := Some nonce\<rparr> else row) (transactions st)"
    unfolding ids by (rule fmap_ext) (auto split: option.splits intro!: option.map_cong)
  moreover have "0 \<le> nonce" using free_nonce_Inr [OF nonce] uint_ge_0 [of "aa_nonce account"] by linarith
  ultimately show ?thesis
    using that [OF refl _ _ _ _ n(1,2,4) a] free_nonce_Inr [OF nonce] st' by simp
qed

text \<open>
  Allocation is fresh, ordered and exact.  When a transaction is allocated, its nonce is at least the
  account's and above every nonce on record; it takes the longest-waiting transactions that have not
  expired, in order and without skipping one, and assigns the nonce to exactly these; and every allocation
  that was on record stays as it was.
\<close>

lemma allocation_is_fresh_and_ordered:
  assumes "next_transaction encode db st account b = Inr (st', Some a)"
  shows "aa_nonce account \<le> at_nonce a \<and>
    (\<forall>k. k |\<in>| fmdom (allocated_nonces st) \<longrightarrow> k < uint (at_nonce a) \<and>
       fmlookup (allocated_nonces st') k = fmlookup (allocated_nonces st) k) \<and>
    (\<exists>n>0. let taken = map fst (take n (eligible_rows (uint (aa_block account)) (transactions st)))
       in n \<le> length (eligible_rows (uint (aa_block account)) (transactions st)) \<and>
          (\<forall>i. fmlookup (transactions st') i = map_option (\<lambda>row.
             if i \<in> set taken then row\<lparr>q_nonce := Some (uint (at_nonce a))\<rparr> else row) (fmlookup (transactions st) i)))"
proof -
  from assms obtain block nonce b' n rows where n: "block = uint (aa_block account)" "0 \<le> nonce" "nonce < 2 ^ 63"
    "uint (aa_nonce account) \<le> nonce" "\<forall>k. k |\<in>| fmdom (allocated_nonces st) \<longrightarrow> k < nonce"
    "0 < n" "n \<le> length (eligible_rows block (transactions st))"
    "finish encode b' (word_of_int nonce) = Some a" "insert_allocation (allocated_nonces st) nonce a = Inr rows"
    "st' = st\<lparr>allocated_nonces := rows, transactions := fmmap_keys (\<lambda>i row.
       if i \<in> set (map fst (take n (eligible_rows block (transactions st)))) then row\<lparr>q_nonce := Some nonce\<rparr> else row)
       (transactions st)\<rparr>"
    by (rule next_transaction_cases)
  have nonce: "uint (at_nonce a) = nonce" using n(2,3,8) uint_db by (auto simp: finish_def)
  have "aa_nonce account \<le> at_nonce a" using n(4) nonce by (simp add: word_le_def)
  moreover have "fmlookup rows k = fmlookup (allocated_nonces st) k" if "k |\<in>| fmdom (allocated_nonces st)" for k
  proof -
    have "k \<noteq> nonce" "k \<noteq> nonce + 1" using n(5) that by fastforce+
    then show ?thesis using n(9) by (auto simp: insert_allocation_def Let_def split: option.splits if_splits)
  qed
  ultimately show ?thesis using n nonce by (intro conjI exI [of _ n]) (auto simp: Let_def)
qed

text \<open>A queue with an expired transaction and two that wait, and an allocation that was executed.\<close>

definition sample_queue :: tx_storage where
  "sample_queue = \<lparr>
     allocated_nonces = fmap_of_list [(5, (new_allocation transaction_default)\<lparr>al_executed_at := Some 8\<rparr>)],
     transactions = fmap_of_list [
       (1, \<lparr>q_request = transaction_default, q_expires_at = Some 9, q_nonce = None\<rparr>),
       (2, \<lparr>q_request = transaction_default, q_expires_at = Some 20, q_nonce = None\<rparr>),
       (3, \<lparr>q_request = transaction_default, q_expires_at = None, q_nonce = None\<rparr>)]\<rparr>"

lemma eligible_rows_sample:
  "eligible_rows 10 (transactions sample_queue) = [(2, transaction_default), (3, transaction_default)]"
  by (simp add: sample_queue_def eligible_rows_def eligible_def fin_simps)

lemma next_transaction_sample:
  "\<exists>st' a. next_transaction encode True sample_queue \<lparr>aa_block = 10, aa_nonce = 3\<rparr> (bundler_direct None) = Inr (st', Some a) \<and>
     at_nonce a = 6"
proof -
  have n: "free_nonce 3 (allocated_nonces sample_queue) = Inr 6"
    by (simp add: free_nonce_def sample_queue_def)
  show ?thesis
    by (simp add: next_transaction_def db_int_def eligible_rows_sample push_def bundler_direct_def n finish_def
        insert_allocation_def Let_def)
qed

section \<open>References stay intact\<close>

lemma enqueue_rows_keeps:
  "enqueue_rows rows xs = Inr rows' \<Longrightarrow> fmlookup rows' i = Some row \<Longrightarrow> fmlookup rows i = Some row \<or> q_nonce row = None"
proof (induction rows xs arbitrary: rows' rule: enqueue_rows.induct)
  case (2 rows x xs)
  obtain e where e: "db_int_opt (snd x) = Inr e" using "2.prems"(1) by (cases "db_int_opt (snd x)") auto
  from "2.IH" [OF e _ "2.prems"(2)] "2.prems"(1) show ?case by (auto simp: e split: if_splits)
qed simp

lemma fresh_row_id: "next_row_id rows \<notin> fset (fmdom rows)"
proof
  assume "next_row_id rows \<in> fset (fmdom rows)"
  then have i: "next_row_id rows |\<in>| fmdom rows" by simp
  then have "next_row_id rows \<le> fMax (fmdom rows)" by simp
  moreover have "next_row_id rows = fMax (fmdom rows) + 1" using i by (auto simp: next_row_id_def)
  ultimately show False by simp
qed

lemma fresh_row: "fmlookup rows (next_row_id rows) = None"
  using fresh_row_id [of rows] by (simp add: fmdom_notD)

lemma enqueue_rows_extends:
  "enqueue_rows rows xs = Inr rows' \<Longrightarrow> fmlookup rows i = Some row \<Longrightarrow> fmlookup rows' i = Some row"
proof (induction rows xs arbitrary: rows' rule: enqueue_rows.induct)
  case (2 rows x xs)
  obtain e where e: "db_int_opt (snd x) = Inr e" using "2.prems"(1) by (cases "db_int_opt (snd x)") auto
  have "i \<noteq> next_row_id rows" using fresh_row [of rows] "2.prems"(2) by auto
  with "2.IH" [OF e] "2.prems" show ?case by (simp add: e)
qed simp

lemma enqueue_ok: "storage_ok st \<Longrightarrow> enqueue db st txs = Inr st' \<Longrightarrow> storage_ok st'"
  using enqueue_rows_keeps
  by (fastforce simp: enqueue_def storage_ok_def split: if_splits sum.splits)

lemma insert_allocation_lookup:
  assumes "insert_allocation rows nonce a = Inr rows'" "fmlookup rows' n = Some row"
  shows "fmlookup rows n = Some row \<or> (n = nonce \<or> n = nonce + 1 \<and> nonce + 1 < 2 ^ 63) \<and> row_ok row"
  using assms
  by (auto simp: insert_allocation_def Let_def new_allocation_def new_delegation_def row_ok_def
      split: option.splits if_splits)

lemma insert_allocation_own:
  "insert_allocation rows nonce a = Inr rows' \<Longrightarrow> fmlookup rows' nonce = Some (new_allocation (at_transaction a))"
  by (auto simp: insert_allocation_def Let_def split: option.splits if_splits)

lemma insert_allocation_other:
  "insert_allocation rows nonce a = Inr rows' \<Longrightarrow> k < nonce \<Longrightarrow> fmlookup rows' k = fmlookup rows k"
  by (auto simp: insert_allocation_def Let_def split: option.splits if_splits)

lemma next_transaction_none: "next_transaction encode db st account b = Inr (st', None) \<Longrightarrow> st' = st"
  by (auto simp: next_transaction_def split: if_splits sum.splits prod.splits option.splits)

lemma storage_ok_allocated:
  "storage_ok st \<Longrightarrow> fmlookup (allocated_nonces st) n = Some row \<Longrightarrow> 0 \<le> n \<and> n < 2 ^ 63 \<and> row_ok row"
  by (simp add: storage_ok_def)

lemma storage_ok_reference:
  "storage_ok st \<Longrightarrow> fmlookup (transactions st) i = Some row \<Longrightarrow> q_nonce row = Some n \<Longrightarrow>
   \<exists>a. fmlookup (allocated_nonces st) n = Some a \<and> al_request a \<noteq> None"
  by (simp add: storage_ok_def)

lemma next_transaction_ok:
  assumes "storage_ok st" "next_transaction encode db st account b = Inr (st', r)"
  shows "storage_ok st'"
proof (cases r)
  case None
  then show ?thesis using assms next_transaction_none by blast
next
  case (Some a)
  from assms(2) [unfolded Some] obtain block nonce b' n rows where n: "0 \<le> nonce" "nonce < 2 ^ 63"
    "\<forall>k. k |\<in>| fmdom (allocated_nonces st) \<longrightarrow> k < nonce"
    "insert_allocation (allocated_nonces st) nonce a = Inr rows"
    "st' = st\<lparr>allocated_nonces := rows, transactions := fmmap_keys (\<lambda>i row.
       if i \<in> set (map fst (take n (eligible_rows block (transactions st)))) then row\<lparr>q_nonce := Some nonce\<rparr> else row)
       (transactions st)\<rparr>"
    by (rule next_transaction_cases)
  have "0 \<le> k \<and> k < 2 ^ 63 \<and> row_ok row" if "fmlookup rows k = Some row" for k row
    using insert_allocation_lookup [OF n(4) that] storage_ok_allocated [OF assms(1)] n(1,2) by fastforce
  moreover have "\<exists>a. fmlookup rows k = Some a \<and> al_request a \<noteq> None"
    if i: "fmlookup (transactions st') i = Some row" "q_nonce row = Some k" for i row k
  proof (cases "k = nonce")
    case True
    then show ?thesis using insert_allocation_own [OF n(4)] by (simp add: new_allocation_def)
  next
    case False
    then have "fmlookup (transactions st) i = Some row" using i n(5) by (auto split: if_splits)
    from storage_ok_reference [OF assms(1) this i(2)] obtain a' where
      a: "fmlookup (allocated_nonces st) k = Some a'" "al_request a' \<noteq> None" by blast
    then have "k < nonce" using n(3) by (auto intro: fmdomI)
    then show ?thesis using a insert_allocation_other [OF n(4)] by simp
  qed
  ultimately show ?thesis using n(5) by (simp add: storage_ok_def)
qed

text \<open>An update of the allocations that loses no row and no transaction keeps the invariant.\<close>

lemma update_allocations_ok:
  assumes "storage_ok st" "fmdom rows = fmdom (allocated_nonces st)"
    "\<And>n row row'. fmlookup (allocated_nonces st) n = Some row \<Longrightarrow> fmlookup rows n = Some row' \<Longrightarrow>
       (al_request row \<noteq> None \<longrightarrow> al_request row' \<noteq> None) \<and> (row_ok row \<longrightarrow> row_ok row')"
  shows "storage_ok (st\<lparr>allocated_nonces := rows\<rparr>)"
proof -
  have d: "fmlookup rows n = None \<longleftrightarrow> fmlookup (allocated_nonces st) n = None" for n
    using assms(2) by (metis fmdom_notD fmdom_notI)
  have "0 \<le> n \<and> n < 2 ^ 63 \<and> row_ok row" if "fmlookup rows n = Some row" for n row
    using that d assms(3) storage_ok_allocated [OF assms(1)] by (metis option.exhaust option.distinct(1))
  moreover have "\<exists>a. fmlookup rows n = Some a \<and> al_request a \<noteq> None"
    if "fmlookup (transactions st) i = Some row" "q_nonce row = Some n" for i row n
    using storage_ok_reference [OF assms(1) that] d assms(3) by (metis option.exhaust option.distinct(1))
  ultimately show ?thesis by (simp add: storage_ok_def)
qed

lemma finsert_known: "fmlookup m k = Some v \<Longrightarrow> finsert k (fmdom m) = fmdom m"
  by (simp add: finsert_absorb fmdomI)

lemma record_submission_ok: "storage_ok st \<Longrightarrow> record_submission db st sub = Inr st' \<Longrightarrow> storage_ok st'"
  by (auto simp: record_submission_def row_ok_def finsert_known split: sum.splits if_splits option.splits
      intro!: update_allocations_ok)

lemma mark_executed_ok: "storage_ok st \<Longrightarrow> mark_executed db st account = Inr st' \<Longrightarrow> storage_ok st'"
  by (auto simp: mark_executed_def row_ok_def split: sum.splits if_splits intro!: update_allocations_ok)

lemma unmark_executed_ok: "storage_ok st \<Longrightarrow> unmark_executed db st b = Inr st' \<Longrightarrow> storage_ok st'"
  by (auto simp: unmark_executed_def row_ok_def split: sum.splits if_splits option.splits intro!: update_allocations_ok)

lemma recover_ok: "storage_ok st \<Longrightarrow> recover_authorization_gap db st n = Inr (st', r) \<Longrightarrow> storage_ok st'"
  by (auto simp: recover_authorization_gap_def row_ok_def finsert_known split: sum.splits if_splits option.splits
      intro!: update_allocations_ok)

lemma prune_storage_lookup:
  assumes "prune_storage db st safe = Inr st'"
  shows "fmlookup (allocated_nonces st') n = (case fmlookup (allocated_nonces st) n of None \<Rightarrow> None
      | Some row \<Rightarrow> if executed_by (uint safe) row then None else Some row)"
    "fmlookup (transactions st') i = (case fmlookup (transactions st) i of None \<Rightarrow> None
      | Some row \<Rightarrow> if settled (uint safe) (allocated_nonces st) row \<or> expired_by (uint safe) row then None else Some row)"
  using assms by (auto simp: prune_storage_def db_int_Inr Let_def split: sum.splits if_splits option.splits)

lemma prune_storage_ok:
  assumes "storage_ok st" "prune_storage db st safe = Inr st'"
  shows "storage_ok st'"
proof -
  note look = prune_storage_lookup [OF assms(2)]
  have "0 \<le> n \<and> n < 2 ^ 63 \<and> row_ok row" if "fmlookup (allocated_nonces st') n = Some row" for n row
    using that storage_ok_allocated [OF assms(1)] by (simp add: look split: option.splits if_splits)
  moreover have "\<exists>a. fmlookup (allocated_nonces st') n = Some a \<and> al_request a \<noteq> None"
    if i: "fmlookup (transactions st') i = Some row" "q_nonce row = Some n" for i row n
  proof -
    have r: "fmlookup (transactions st) i = Some row" "\<not> settled (uint safe) (allocated_nonces st) row"
      using i(1) by (auto simp: look split: option.splits if_splits)
    with storage_ok_reference [OF assms(1) r(1) i(2)] i(2) show ?thesis
      by (auto simp: look settled_def split: option.splits)
  qed
  ultimately show ?thesis by (simp add: storage_ok_def)
qed

lemmas operations_ok = enqueue_ok next_transaction_ok record_submission_ok mark_executed_ok unmark_executed_ok recover_ok
  prune_storage_ok

lemma storage_step_ok: "storage_ok st \<Longrightarrow> storage_ok (storage_step encode st op)"
  by (cases "(encode, st, op)" rule: storage_step.cases) (auto split: sum.splits prod.splits intro: operations_ok)

interpretation queue_runs: closed_system "storage_step encode" storage_ok empty_tx_storage
  by unfold_locales (simp_all add: storage_step_ok, simp add: storage_ok_def empty_tx_storage_def)


text \<open>
  References stay intact.  From an empty database, whatever operations run and whichever of them fail,
  every nonce on record is a database integer and carries a request or a delegation, and every queued
  transaction that has a nonce refers to a recorded transaction.
\<close>

lemma storage_references_intact: "storage_ok (run_from (storage_step encode) empty_tx_storage ops)"
  by (rule queue_runs.run_inv)

section \<open>Nothing is lost\<close>

lemma settled_iff:
  "settled safe rows row \<longleftrightarrow>
   (\<exists>n a b. q_nonce row = Some n \<and> fmlookup rows n = Some a \<and> al_executed_at a = Some b \<and> b \<le> safe)"
  by (cases "q_nonce row") (auto simp: settled_def executed_by_def split: option.splits)

definition same_order :: "queued_row \<Rightarrow> queued_row \<Rightarrow> bool" where
  "same_order row row' \<longleftrightarrow> q_request row' = q_request row \<and> q_expires_at row' = q_expires_at row \<and>
     (q_nonce row \<noteq> None \<longrightarrow> q_nonce row' = q_nonce row)"

lemma next_transaction_row:
  assumes "next_transaction encode db st account b = Inr (st', r)" "fmlookup (transactions st) i = Some row"
  shows "\<exists>row'. fmlookup (transactions st') i = Some row' \<and> same_order row row'"
  using assms
  by (auto simp: next_transaction_def same_order_def eligible_def split: if_splits sum.splits prod.splits option.splits)

lemma storage_step_row:
  assumes "fmlookup (transactions st) i = Some row"
  shows "case fmlookup (transactions (storage_step encode st (op, db))) i of
      Some row' \<Rightarrow> same_order row row'
    | None \<Rightarrow> (\<exists>safe. op = PruneStorage safe \<and> (expired_by (uint safe) row \<or> settled (uint safe) (allocated_nonces st) row))"
proof (cases op)
  case (Enqueue txs)
  then show ?thesis using assms
    by (auto simp: enqueue_def same_order_def split: sum.splits if_splits dest: enqueue_rows_extends)
next
  case (NextTransaction account b)
  then show ?thesis using assms
    by (auto simp: same_order_def split: sum.splits prod.splits option.splits dest!: next_transaction_row)
next
  case (PruneStorage safe)
  show ?thesis
  proof (cases "prune_storage db st safe")
    case (Inl err)
    then show ?thesis using assms PruneStorage by (simp add: same_order_def)
  next
    case (Inr st')
    then show ?thesis using assms PruneStorage prune_storage_lookup(2) [OF Inr, of i] by (auto simp: same_order_def)
  qed
qed (use assms in \<open>auto simp: record_submission_def mark_executed_def recover_authorization_gap_def unmark_executed_def
    same_order_def split: sum.splits if_splits option.splits\<close>)

text \<open>
  C24: nothing that was queued is lost.  After any operation a queued transaction is still there with its
  request and its expiry, and with its nonce once it has one; the only exception is pruning, which removes
  it when it expired without a nonce, or its nonce was executed, no later than the safe block.
\<close>

theorem queued_transactions_are_not_lost:
  assumes "fmlookup (transactions st) i = Some row"
  shows "case fmlookup (transactions (storage_step encode st (op, db))) i of
      Some row' \<Rightarrow> q_request row' = q_request row \<and> q_expires_at row' = q_expires_at row \<and>
        (q_nonce row = None \<or> q_nonce row' = q_nonce row)
    | None \<Rightarrow> (\<exists>safe. op = PruneStorage safe \<and>
        (expired_by (uint safe) row \<or>
         (\<exists>n a b. q_nonce row = Some n \<and> fmlookup (allocated_nonces st) n = Some a \<and> al_executed_at a = Some b \<and>
            b \<le> uint safe)))"
  using storage_step_row [OF assms, of op encode db]
  by (auto simp: same_order_def settled_iff split: option.splits)

theorem queued_transactions_are_not_lost_witness:
  "case fmlookup (transactions (storage_step zero_encoder sample_queue (PruneStorage 9, True))) 2 of
      Some row' \<Rightarrow> q_request row' = transaction_default | None \<Rightarrow> False"
proof -
  have row: "fmlookup (transactions sample_queue) 2 =
      Some \<lparr>q_request = transaction_default, q_expires_at = Some 20, q_nonce = None\<rparr>"
    by (simp add: sample_queue_def)
  from queued_transactions_are_not_lost [OF row, of "PruneStorage 9" zero_encoder True]
  show ?thesis by (auto simp: expired_by_def split: option.splits)
qed

section \<open>Reorgs\<close>

text \<open>
  A reorg undoes what its blocks executed.  Let no marker be as recent as a block.  Marking the
  transactions executed by that block and clearing the markers from it on gives back the same storage.
\<close>

lemma unmark_reverts_mark:
  assumes "mark_executed db st \<lparr>aa_block = block, aa_nonce = nonce\<rparr> = Inr st'"
    and "\<forall>n row e. fmlookup (allocated_nonces st) n = Some row \<longrightarrow> al_executed_at row = Some e \<longrightarrow> e < uint block"
  shows "unmark_executed True st' block = Inr st"
proof -
  have st': "uint block < 2 ^ 63" "allocated_nonces st' = fmmap_keys (\<lambda>n row.
      if n < uint nonce \<and> al_executed_at row = None then row\<lparr>al_executed_at := Some (uint block)\<rparr> else row) (allocated_nonces st)"
    "transactions st' = transactions st"
    using assms(1) by (auto simp: mark_executed_def db_int_Inr split: sum.splits if_splits)
  have "fmmap (\<lambda>row. case al_executed_at row of
        Some e \<Rightarrow> if uint block \<le> e then row\<lparr>al_executed_at := None\<rparr> else row | None \<Rightarrow> row) (allocated_nonces st') =
      allocated_nonces st"
  proof (rule fmap_ext)
    fix n
    show "fmlookup (fmmap (\<lambda>row. case al_executed_at row of
        Some e \<Rightarrow> if uint block \<le> e then row\<lparr>al_executed_at := None\<rparr> else row | None \<Rightarrow> row) (allocated_nonces st')) n =
      fmlookup (allocated_nonces st) n"
      using assms(2) by (cases "fmlookup (allocated_nonces st) n")
        (fastforce simp: st'(2) split: option.splits)+
  qed
  then show ?thesis using st'(1,3) by (simp add: unmark_executed_def db_int_def)
qed

end
