(* ===== verification/Tx_Queue.thy ===== *)
theory Tx_Queue
  imports Tx_Storage Messages
begin

text \<open>
  The transaction queue (\<^verbatim>\<open>crates/core/src/tx/mod.rs\<close>): allocation, submission and resubmission of
  transactions over the storage of \<open>Tx_Storage\<close>.  An operation may fail half way and keeps what it did
  until then, so it returns the new queue beside its result.  The node and the database answer from outside:
  their answers during one operation are a record.  A call of the database is named by what is asked, since
  no operation asks the same twice.  The trace of what is handed to the node is part of the state.
\<close>

section \<open>State and surroundings\<close>

datatype transport_error = ErrorResp string | TransportFailure

datatype queue_error =
    QStorage storage_error
  | QRpc
  | QSigning
  | ExecutorWithoutCode address
  | BatchGasExceedsBlockGasLimit u64 u64

definition is_intermittent :: "queue_error \<Rightarrow> bool" where
  "is_intermittent err \<longleftrightarrow> err = QRpc"

definition lift_intermittent_error :: "queue_error + 'a \<Rightarrow> queue_error + (queue_error + 'a)" where
  "lift_intermittent_error result =
     (case result of
        Inr x \<Rightarrow> Inr (Inr x)
      | Inl err \<Rightarrow> if is_intermittent err then Inr (Inl err) else Inl err)"

record tx_queue =
  tq_storage :: tx_storage
  tq_block_status :: "block_status option"
  tq_account_cache :: "account_status option"
  tq_fee_cache :: "fee_estimate option"
  tq_sent :: "unsigned_transaction list"

text \<open>What is fixed when the queue is created: the two library functions, the chain, the signer and the configuration.\<close>

record queue_context =
  qc_keccak :: "bytes \<Rightarrow> b256"
  qc_encode :: "call list \<Rightarrow> bytes"
  qc_chain_id :: u64
  qc_signer :: address
  qc_config :: tx_config

datatype db_call =
    DbEnqueue
  | DbCountInFlight
  | DbNext nat
  | DbRecord u64
  | DbPrune
  | DbUnmark
  | DbCountOutstanding
  | DbMark
  | DbRecover
  | DbStale

record queue_env =
  env_db :: "db_call \<Rightarrow> bool"
  env_proof :: "u64 option \<Rightarrow> (u64 \<times> b256) option"
  env_fees :: "fee_estimate option"
  env_sign :: "unsigned_transaction \<Rightarrow> bool"
  env_send :: "unsigned_transaction \<Rightarrow> transport_error option"

type_synonym 'a queue_result = "tx_queue \<times> (queue_error + 'a)"

definition and_then :: "'a queue_result \<Rightarrow> (tx_queue \<Rightarrow> 'a \<Rightarrow> 'b queue_result) \<Rightarrow> 'b queue_result" where
  "and_then r f = (case r of (q, Inl err) \<Rightarrow> (q, Inl err) | (q, Inr x) \<Rightarrow> f q x)"

definition storing :: "tx_queue \<Rightarrow> storage_error + tx_storage \<Rightarrow> unit queue_result" where
  "storing q r = (case r of Inl err \<Rightarrow> (q, Inl (QStorage err)) | Inr st \<Rightarrow> (q\<lparr>tq_storage := st\<rparr>, Inr ()))"

definition asking :: "tx_queue \<Rightarrow> storage_error + 'a \<Rightarrow> 'a queue_result" where
  "asking q r = (q, case r of Inl err \<Rightarrow> Inl (QStorage err) | Inr x \<Rightarrow> Inr x)"

definition storing_with :: "tx_queue \<Rightarrow> storage_error + (tx_storage \<times> 'a) \<Rightarrow> 'a queue_result" where
  "storing_with q r = (case r of Inl err \<Rightarrow> (q, Inl (QStorage err)) | Inr (st, x) \<Rightarrow> (q\<lparr>tq_storage := st\<rparr>, Inr x))"

section \<open>Operations\<close>

text \<open>The tables are created over what the database already holds.\<close>

definition queue_new :: "queue_context \<Rightarrow> u64 option option \<Rightarrow> (address \<Rightarrow> bytes option) \<Rightarrow> bool \<Rightarrow> tx_storage \<Rightarrow>
    queue_error + tx_queue" where
  "queue_new cx latest_gas_limit code db st =
     (let opened = (if db then Inr \<lparr>tq_storage = st, tq_block_status = None, tq_account_cache = None, tq_fee_cache = None,
                         tq_sent = []\<rparr> else Inl (QStorage StorageDatabase))
      in case mode (qc_config cx) of
           DirectMode _ \<Rightarrow> opened
         | BatchedMode executor max_batch_gas \<Rightarrow>
             (case latest_gas_limit of
                None \<Rightarrow> Inl QRpc
              | Some header \<Rightarrow>
                  let gas_limit = (case header of None \<Rightarrow> 0 | Some g \<Rightarrow> g)
                  in if gas_limit div 2 < max_batch_gas then Inl (BatchGasExceedsBlockGasLimit max_batch_gas gas_limit)
                     else case code executor of
                            None \<Rightarrow> Inl QRpc
                          | Some c \<Rightarrow> if c = [] then Inl (ExecutorWithoutCode executor) else opened))"

definition account :: "queue_context \<Rightarrow> queue_env \<Rightarrow> tx_queue \<Rightarrow> account_status queue_result" where
  "account cx env q =
     (case tq_account_cache q of
        Some a \<Rightarrow> (q, Inr a)
      | None \<Rightarrow>
          (case env_proof env (map_option bs_latest (tq_block_status q)) of
             None \<Rightarrow> (q, Inl QRpc)
           | Some (nonce, hash) \<Rightarrow>
               let a = account_status_new (qc_keccak cx) nonce hash
               in (q\<lparr>tq_account_cache := Some a\<rparr>, Inr a)))"

definition fees :: "queue_context \<Rightarrow> queue_env \<Rightarrow> tx_queue \<Rightarrow> fee_estimate queue_result" where
  "fees cx env q =
     (case tq_fee_cache q of
        Some f \<Rightarrow> (q, Inr f)
      | None \<Rightarrow>
          (case env_fees env of
             None \<Rightarrow> (q, Inl QRpc)
           | Some f \<Rightarrow>
               let f = (case priority_fee_cap (qc_config cx) of Some cap \<Rightarrow> cap_priority_fee f cap | None \<Rightarrow> f)
               in (q\<lparr>tq_fee_cache := Some f\<rparr>, Inr f)))"

text \<open>
  A case-insensitive match of a pattern without special characters is the occurrence of the pattern up to
  the case of its letters; messages are taken to be ASCII.
\<close>

definition lower :: "char \<Rightarrow> char" where
  "lower c = (if 65 \<le> (of_char c :: nat) \<and> (of_char c :: nat) \<le> 90 then char_of ((of_char c :: nat) + 32) else c)"

fun iregex_match :: "string \<Rightarrow> string \<Rightarrow> bool" where
  "iregex_match pat [] \<longleftrightarrow> pat = []"
| "iregex_match pat (c # cs) \<longleftrightarrow> take (length pat) (map lower (c # cs)) = map lower pat \<or> iregex_match pat cs"

definition is_transaction_underpriced :: "transport_error \<Rightarrow> bool" where
  "is_transaction_underpriced err =
     (case err of
        TransportFailure \<Rightarrow> False
      | ErrorResp message \<Rightarrow>
          iregex_match ''replacement transaction'' message \<and> iregex_match ''underpriced'' message \<or>
          iregex_match ''INTERNAL_ERROR: could not replace existing tx'' message)"

definition broadcast :: "queue_env \<Rightarrow> tx_queue \<Rightarrow> unsigned_transaction \<Rightarrow> u64 \<Rightarrow> unit queue_result" where
  "broadcast env q u block =
     (let sub = \<lparr>sub_block = Some block, sub_nonce = ut_nonce u,
                 sub_fees = \<lparr>fe_max_fee = ut_max_fee u, fe_priority = ut_priority u\<rparr>\<rparr>;
          db = env_db env (DbRecord (ut_nonce u))
      in if \<not> env_sign env u then (q, Inl QSigning)
         else
           let q = q\<lparr>tq_sent := tq_sent q @ [u]\<rparr>
           in case env_send env u of
                None \<Rightarrow> storing q (record_submission db (tq_storage q) sub)
              | Some err \<Rightarrow>
                  if is_transaction_underpriced err
                  then storing q (record_submission db (tq_storage q) (sub\<lparr>sub_block := None\<rparr>))
                  else (q, Inr ()))"

definition submit_transaction :: "queue_context \<Rightarrow> queue_env \<Rightarrow> tx_queue \<Rightarrow> allocated_transaction \<Rightarrow> u64 \<Rightarrow> unit queue_result" where
  "submit_transaction cx env q t block =
     and_then (fees cx env q) (\<lambda>q f. broadcast env q (build_transaction t (qc_chain_id cx) f) block)"

definition bundler_for :: "queue_context \<Rightarrow> account_status \<Rightarrow> bundler" where
  "bundler_for cx a =
     (let authorize = (\<lambda>addr. let wanted = \<lparr>auth_address = addr\<rparr>
                              in if as_code_hash a \<noteq> code_hash (qc_keccak cx) wanted then Some wanted else None)
      in case mode (qc_config cx) of
           DirectMode _ \<Rightarrow> bundler_direct (authorize 0)
         | BatchedMode executor max_batch_gas \<Rightarrow> bundler_batched (qc_signer cx) max_batch_gas (authorize executor))"

function submit_loop :: "queue_context \<Rightarrow> queue_env \<Rightarrow> u64 \<Rightarrow> nat \<Rightarrow> tx_queue \<Rightarrow> unit queue_result" where
  "submit_loop cx env block n q =
     (if n < max_in_flight_transactions (mode (qc_config cx))
      then and_then (account cx env q) (\<lambda>q a.
        if is_delegated (qc_keccak cx) a \<and> 0 < n then (q, Inr ())
        else and_then (storing_with q (next_transaction (qc_encode cx) (env_db env (DbNext n)) (tq_storage q)
               \<lparr>aa_block = block, aa_nonce = as_nonce a\<rparr> (bundler_for cx a))) (\<lambda>q next.
          case next of
            None \<Rightarrow> (q, Inr ())
          | Some t \<Rightarrow> and_then (submit_transaction cx env q t block) (\<lambda>q _. submit_loop cx env block (n + 1) q)))
      else (q, Inr ()))"
  by auto
termination by (relation "measure (\<lambda>(cx, env, block, n, q). max_in_flight_transactions (mode (qc_config cx)) - n)") auto

declare submit_loop.simps [simp del]

definition submit_pending :: "queue_context \<Rightarrow> queue_env \<Rightarrow> tx_queue \<Rightarrow> u64 \<Rightarrow> unit queue_result" where
  "submit_pending cx env q block =
     and_then (asking q (count_in_flight (env_db env DbCountInFlight) (tq_storage q))) (\<lambda>q n. submit_loop cx env block n q)"

fun resubmit_all :: "queue_context \<Rightarrow> queue_env \<Rightarrow> u64 \<Rightarrow> allocated_transaction list \<Rightarrow> tx_queue \<Rightarrow> unit queue_result" where
  "resubmit_all cx env block [] q = (q, Inr ())"
| "resubmit_all cx env block (t # ts) q =
     and_then (submit_transaction cx env q t block) (\<lambda>q _. resubmit_all cx env block ts q)"

definition resubmit_stale :: "queue_context \<Rightarrow> queue_env \<Rightarrow> tx_queue \<Rightarrow> u64 \<Rightarrow> unit queue_result" where
  "resubmit_stale cx env q block =
     and_then (asking q (stale_submissions (env_db env DbStale) (tq_storage q)
         (checked_sub block (blocks_before_resubmit (qc_config cx))))) (\<lambda>q ts. resubmit_all cx env block ts q)"

definition queue :: "queue_context \<Rightarrow> queue_env \<Rightarrow> tx_queue \<Rightarrow> (transaction \<times> u64 option) list \<Rightarrow> unit queue_result" where
  "queue cx env q txs =
     and_then (storing q (enqueue (env_db env DbEnqueue) (tq_storage q) txs)) (\<lambda>q _.
       case tq_block_status q of
         None \<Rightarrow> (q, Inr ())
       | Some status \<Rightarrow> submit_pending cx env q (bs_latest status))"

text \<open>What has to be unmarked when the status moves from one to the next.\<close>

definition unmark_from :: "block_status option \<Rightarrow> block_status \<Rightarrow> u64 option" where
  "unmark_from previous status =
     (case previous of
        None \<Rightarrow> checked_add (bs_safe status) 1
      | Some p \<Rightarrow> if bs_latest status < bs_latest p then checked_add (bs_latest status) 1 else None)"

definition reconcile :: "queue_context \<Rightarrow> queue_env \<Rightarrow> tx_queue \<Rightarrow> block_status \<Rightarrow> unit queue_result" where
  "reconcile cx env q status =
     and_then (account cx env q) (\<lambda>q a.
     and_then (storing q (mark_executed (env_db env DbMark) (tq_storage q)
       \<lparr>aa_block = bs_latest status, aa_nonce = as_nonce a\<rparr>)) (\<lambda>q _.
     and_then (storing_with q (recover_authorization_gap (env_db env DbRecover) (tq_storage q) (as_nonce a))) (\<lambda>q _.
     and_then (resubmit_stale cx env q (bs_latest status)) (\<lambda>q _.
     submit_pending cx env q (bs_latest status)))))"

text \<open>The new status and the caches it invalidates.\<close>

definition observe_status :: "tx_queue \<Rightarrow> block_status \<Rightarrow> tx_queue" where
  "observe_status q status =
     (let moved = (case tq_block_status q of None \<Rightarrow> True | Some p \<Rightarrow> bs_latest p \<noteq> bs_latest status);
          q = q\<lparr>tq_block_status := Some status\<rparr>
      in if moved then q\<lparr>tq_account_cache := None, tq_fee_cache := None\<rparr> else q)"

definition update_block_status :: "queue_context \<Rightarrow> queue_env \<Rightarrow> tx_queue \<Rightarrow> block_status \<Rightarrow> unit queue_result" where
  "update_block_status cx env q status =
     (let previous = tq_block_status q
      in if previous = Some status then (q, Inr ())
         else
           let q = observe_status q status
           in and_then (if (case previous of None \<Rightarrow> True | Some p \<Rightarrow> bs_safe p \<noteq> bs_safe status)
                        then storing q (prune_storage (env_db env DbPrune) (tq_storage q) (bs_safe status)) else (q, Inr ())) (\<lambda>q _.
              and_then (case unmark_from previous status of
                          None \<Rightarrow> (q, Inr ())
                        | Some b \<Rightarrow> storing q (unmark_executed (env_db env DbUnmark) (tq_storage q) b)) (\<lambda>q _.
              if (case previous of None \<Rightarrow> True | Some p \<Rightarrow> bs_latest p < bs_latest status)
              then and_then (asking q (count_outstanding (env_db env DbCountOutstanding) (tq_storage q) (bs_latest status)))
                     (\<lambda>q n. if 0 < n then reconcile cx env q status else (q, Inr ()))
              else (q, Inr ()))))"


section \<open>Composition\<close>

lemma and_then_simps [simp]: "and_then (q, Inl err) f = (q, Inl err)" "and_then (q, Inr x) f = f q x"
  by (simp_all add: and_then_def)

text \<open>Whatever holds of a queue and passes through both parts of a sequence passes through the sequence.\<close>

lemma and_then_keeps:
  assumes "P (fst r)" "\<And>q x. r = (q, Inr x) \<Longrightarrow> P q \<Longrightarrow> P (fst (f q x))"
  shows "P (fst (and_then r f))"
  using assms by (cases r; cases "snd r") auto

lemma storing_keeps:
  assumes "P q" "\<And>st. r = Inr st \<Longrightarrow> P (q\<lparr>tq_storage := st\<rparr>)"
  shows "P (fst (storing q r))"
  using assms by (cases r) (simp_all add: storing_def)

lemma storing_with_keeps:
  assumes "P q" "\<And>st x. r = Inr (st, x) \<Longrightarrow> P (q\<lparr>tq_storage := st\<rparr>)"
  shows "P (fst (storing_with q r))"
  using assms by (cases r) (auto simp: storing_with_def)

lemma fst_asking [simp]: "fst (asking q r) = q"
  by (simp add: asking_def)

lemma asking_Inr: "asking q r = (q', Inr x) \<longleftrightarrow> q' = q \<and> r = Inr x"
  by (cases r) (auto simp: asking_def)

lemma storing_Inr: "storing q r = (q', Inr x) \<longleftrightarrow> (\<exists>st. r = Inr st \<and> q' = q\<lparr>tq_storage := st\<rparr>)"
  by (cases r) (auto simp: storing_def)

lemma storing_with_Inr: "storing_with q r = (q', Inr x) \<longleftrightarrow> (\<exists>st. r = Inr (st, x) \<and> q' = q\<lparr>tq_storage := st\<rparr>)"
  by (cases r) (auto simp: storing_with_def)

section \<open>How the storage grows\<close>

text \<open>Transactions on record keep their nonce, and new nonces are at or above a bound.\<close>

definition on_record :: "tx_storage \<Rightarrow> int \<Rightarrow> transaction \<Rightarrow> bool" where
  "on_record st k t \<longleftrightarrow> (\<exists>row req. fmlookup (allocated_nonces st) k = Some row \<and> al_request row = Some req \<and> sr_transaction req = t)"

definition grows :: "int \<Rightarrow> tx_storage \<Rightarrow> tx_storage \<Rightarrow> bool" where
  "grows bound st st' \<longleftrightarrow>
     (\<forall>k t. on_record st k t \<longrightarrow> on_record st' k t) \<and>
     (\<forall>k. (fmlookup (allocated_nonces st') k = None) = (fmlookup (allocated_nonces st) k = None) \<or>
          fmlookup (allocated_nonces st) k = None \<and> bound \<le> k)"

lemma grows_refl [simp]: "grows bound st st"
  by (simp add: grows_def)

lemma grows_trans: "grows bound st st' \<Longrightarrow> grows bound st' st'' \<Longrightarrow> grows bound st st''"
  unfolding grows_def by metis

lemma enqueue_grows: "enqueue db st txs = Inr st' \<Longrightarrow> grows bound st st'"
  by (auto simp: enqueue_def grows_def on_record_def split: if_splits sum.splits)

lemma record_submission_grows: "record_submission db st sub = Inr st' \<Longrightarrow> grows bound st st'"
  by (auto simp: record_submission_def grows_def on_record_def split: if_splits sum.splits option.splits)

lemma mark_executed_grows: "mark_executed db st a = Inr st' \<Longrightarrow> grows bound st st'"
  by (auto simp: mark_executed_def grows_def on_record_def split: if_splits sum.splits)

lemma unmark_executed_grows: "unmark_executed db st b = Inr st' \<Longrightarrow> grows bound st st'"
  by (fastforce simp: unmark_executed_def grows_def on_record_def split: if_splits sum.splits option.splits)

lemma recover_grows: "recover_authorization_gap db st n = Inr (st', r) \<Longrightarrow> grows bound st st'"
  by (auto simp: recover_authorization_gap_def grows_def on_record_def split: if_splits sum.splits option.splits)

lemma next_transaction_grows:
  assumes "next_transaction encode db st a b = Inr (st', r)"
  shows "grows (uint (aa_nonce a)) st st' \<and> (\<forall>t. r = Some t \<longrightarrow> on_record st' (uint (at_nonce t)) (at_transaction t))"
proof (cases r)
  case None
  then show ?thesis using assms next_transaction_none by fastforce
next
  case (Some t)
  from assms [unfolded Some] obtain nonce b' rows where n: "0 \<le> nonce" "nonce < 2 ^ 63" "uint (aa_nonce a) \<le> nonce"
    "\<forall>k. k |\<in>| fmdom (allocated_nonces st) \<longrightarrow> k < nonce" "finish encode b' (word_of_int nonce) = Some t"
    "insert_allocation (allocated_nonces st) nonce t = Inr rows" "allocated_nonces st' = rows"
    by (rule next_transaction_cases) auto
  have nonce: "uint (at_nonce t) = nonce" using n(1,2,5) uint_db by (auto simp: finish_def)
  have new: "fmlookup rows k = None \<or> nonce \<le> k" if "fmlookup (allocated_nonces st) k = None" for k
    using that n(6) by (auto simp: insert_allocation_def Let_def split: option.splits if_splits)
  have old: "fmlookup rows k = fmlookup (allocated_nonces st) k" if "fmlookup (allocated_nonces st) k \<noteq> None" for k
    using that n(4) by (intro insert_allocation_other [OF n(6)]) (auto intro: fmdomI)
  have "grows (uint (aa_nonce a)) st st'"
    unfolding grows_def on_record_def n(7) using new old n(3) by (metis option.distinct(1) order_trans)
  moreover have "on_record st' nonce (at_transaction t)"
    using insert_allocation_own [OF n(6)] n(7) by (simp add: on_record_def new_allocation_def)
  ultimately show ?thesis using Some nonce by simp
qed

lemma stale_on_record:
  assumes "storage_ok st" "stale_submissions db st before = Inr ts" "t \<in> set ts"
  shows "on_record st (uint (at_nonce t)) (at_transaction t)"
proof -
  obtain b n where n: "n |\<in>| fmdom (allocated_nonces st)" "stale b (the (fmlookup (allocated_nonces st) n))"
    "t = stale_transaction (allocated_nonces st) n"
    using assms(2,3) by (auto simp: stale_submissions_def Let_def split: sum.splits if_splits option.splits)
  then obtain row where row: "fmlookup (allocated_nonces st) n = Some row" by (auto simp: fmlookup_dom_iff)
  then have "uint (at_nonce t) = n" "al_request row \<noteq> None"
    using n storage_ok_allocated [OF assms(1) row] uint_db by (auto simp: stale_transaction_def Let_def stale_def in_flight_def)
  then show ?thesis using row n(3) by (auto simp: on_record_def stale_transaction_def Let_def)
qed


section \<open>One call per nonce\<close>

definition same_call :: "unsigned_transaction \<Rightarrow> transaction \<Rightarrow> bool" where
  "same_call u t \<longleftrightarrow> ut_to u = t_to t \<and> ut_value u = t_value t \<and> ut_input u = t_data t \<and> ut_gas_limit u = t_gas t"

definition equal_calls :: "unsigned_transaction \<Rightarrow> unsigned_transaction \<Rightarrow> bool" where
  "equal_calls u v \<longleftrightarrow> ut_to u = ut_to v \<and> ut_value u = ut_value v \<and> ut_input u = ut_input v \<and> ut_gas_limit u = ut_gas_limit v"

definition one_call_per_nonce :: "unsigned_transaction list \<Rightarrow> bool" where
  "one_call_per_nonce us \<longleftrightarrow> (\<forall>u\<in>set us. \<forall>v\<in>set us. ut_nonce u = ut_nonce v \<longrightarrow> equal_calls u v)"

lemma equal_calls: "same_call u t \<Longrightarrow> same_call v t \<Longrightarrow> equal_calls u v"
  by (simp add: same_call_def equal_calls_def)

lemma one_call_append:
  "one_call_per_nonce us \<Longrightarrow> (\<And>v. v \<in> set us \<Longrightarrow> ut_nonce v = ut_nonce u \<Longrightarrow> same_call v t) \<Longrightarrow> same_call u t \<Longrightarrow>
   one_call_per_nonce (us @ [u])"
  unfolding one_call_per_nonce_def by (auto intro: equal_calls)

text \<open>
  Everything sent is on record as it was sent, or its nonce has been settled and removed; and what was sent
  with the same nonce is the same call.
\<close>

definition gone :: "tx_storage \<Rightarrow> unsigned_transaction \<Rightarrow> bool" where
  "gone st u \<longleftrightarrow> fmlookup (allocated_nonces st) (uint (ut_nonce u)) = None"

definition kept :: "tx_storage \<Rightarrow> unsigned_transaction \<Rightarrow> bool" where
  "kept st u \<longleftrightarrow> (\<exists>t. on_record st (uint (ut_nonce u)) t \<and> same_call u t)"

definition sent_ok :: "tx_queue \<Rightarrow> bool" where
  "sent_ok q \<longleftrightarrow>
     storage_ok (tq_storage q) \<and> (\<forall>u\<in>set (tq_sent q). gone (tq_storage q) u \<or> kept (tq_storage q) u) \<and>
     one_call_per_nonce (tq_sent q)"

lemma kept_not_gone: "kept st u \<Longrightarrow> \<not> gone st u"
  by (auto simp: kept_def gone_def on_record_def)

lemma grows_kept: "grows bound st st' \<Longrightarrow> kept st u \<Longrightarrow> kept st' u"
  by (auto simp: grows_def kept_def)

lemma grows_gone: "grows bound st st' \<Longrightarrow> gone st u \<Longrightarrow> uint (ut_nonce u) < bound \<Longrightarrow> gone st' u"
  unfolding grows_def gone_def by (metis not_less)

text \<open>The nonce of the account that an operation works with, when the node tells it.\<close>

definition nonce_seen :: "queue_env \<Rightarrow> tx_queue \<Rightarrow> u64 option" where
  "nonce_seen env q =
     (case tq_account_cache q of
        Some a \<Rightarrow> Some (as_nonce a)
      | None \<Rightarrow> map_option fst (env_proof env (map_option bs_latest (tq_block_status q))))"

definition settled_below :: "queue_env \<Rightarrow> int \<Rightarrow> tx_queue \<Rightarrow> bool" where
  "settled_below env bound q \<longleftrightarrow>
     sent_ok q \<and> (\<forall>n. nonce_seen env q = Some n \<longrightarrow> uint n = bound) \<and>
     (\<forall>u\<in>set (tq_sent q). gone (tq_storage q) u \<longrightarrow> uint (ut_nonce u) < bound)"

lemma nonce_seen_frame [simp]:
  "nonce_seen env (q\<lparr>tq_storage := st\<rparr>) = nonce_seen env q" "nonce_seen env (q\<lparr>tq_sent := us\<rparr>) = nonce_seen env q"
  by (simp_all add: nonce_seen_def split: option.split)

lemma settled_below_storage:
  assumes "settled_below env bound q" "grows bound (tq_storage q) st" "storage_ok st"
  shows "settled_below env bound (q\<lparr>tq_storage := st\<rparr>)"
proof -
  have "gone st u \<and> uint (ut_nonce u) < bound \<or> kept st u" if "u \<in> set (tq_sent q)" for u
    using that assms(1) grows_kept [OF assms(2)] grows_gone [OF assms(2)] by (auto simp: settled_below_def sent_ok_def)
  then have "\<forall>u\<in>set (tq_sent q). gone st u \<or> kept st u" "\<forall>u\<in>set (tq_sent q). gone st u \<longrightarrow> uint (ut_nonce u) < bound"
    using kept_not_gone by blast+
  then show ?thesis using assms(1,3) by (simp add: settled_below_def sent_ok_def)
qed

lemma settled_below_ok: "settled_below env bound q \<Longrightarrow> storage_ok (tq_storage q)"
  by (simp add: settled_below_def sent_ok_def)

lemma settled_below_cong:
  "settled_below env bound q \<Longrightarrow> tq_storage q' = tq_storage q \<Longrightarrow> tq_sent q' = tq_sent q \<Longrightarrow>
   nonce_seen env q' = nonce_seen env q \<Longrightarrow> settled_below env bound q'"
  by (simp add: settled_below_def sent_ok_def)

lemma account_frame [simp]:
  "tq_storage (fst (account cx env q)) = tq_storage q" "tq_sent (fst (account cx env q)) = tq_sent q"
  "nonce_seen env (fst (account cx env q)) = nonce_seen env q"
  by (simp_all add: account_def nonce_seen_def Let_def account_status_new_def split: option.split prod.split)

lemma account_nonce: "account cx env q = (q', Inr a) \<Longrightarrow> nonce_seen env q = Some (as_nonce a)"
  by (auto simp: account_def nonce_seen_def Let_def account_status_new_def split: option.splits prod.splits)

lemma fees_frame [simp]:
  "tq_storage (fst (fees cx env q)) = tq_storage q" "tq_sent (fst (fees cx env q)) = tq_sent q"
  "nonce_seen env (fst (fees cx env q)) = nonce_seen env q"
  "tq_account_cache (fst (fees cx env q)) = tq_account_cache q"
  by (simp_all add: fees_def nonce_seen_def Let_def split: option.split)

lemma settled_below_account:
  assumes "settled_below env bound q"
  shows "settled_below env bound (fst (account cx env q))"
    and "account cx env q = (q', Inr a) \<Longrightarrow> uint (as_nonce a) = bound"
  using settled_below_cong [OF assms] account_nonce assms by (auto simp: settled_below_def)

lemma settled_below_send:
  assumes "settled_below env bound q" "on_record (tq_storage q) (uint (ut_nonce u)) t" "same_call u t"
  shows "settled_below env bound (q\<lparr>tq_sent := tq_sent q @ [u]\<rparr>)"
proof -
  have u: "kept (tq_storage q) u" using assms(2,3) by (auto simp: kept_def)
  have "same_call v t" if "v \<in> set (tq_sent q)" "ut_nonce v = ut_nonce u" for v
  proof -
    have "gone (tq_storage q) v \<or> kept (tq_storage q) v" using that(1) assms(1) by (auto simp: settled_below_def sent_ok_def)
    then show ?thesis using that(2) assms(2) by (auto simp: kept_def gone_def on_record_def)
  qed
  then have "one_call_per_nonce (tq_sent q @ [u])"
    using assms(1,3) by (intro one_call_append) (auto simp: settled_below_def sent_ok_def)
  then show ?thesis using assms(1) u kept_not_gone [OF u] by (simp add: settled_below_def sent_ok_def)
qed

lemma build_same_call: "same_call (build_transaction t chain_id f) (at_transaction t)" "ut_nonce (build_transaction t chain_id f) = at_nonce t"
  by (simp_all add: same_call_def build_transaction_def Let_def)

lemma settled_below_submit:
  assumes "settled_below env bound q" "on_record (tq_storage q) (uint (at_nonce t)) (at_transaction t)"
  shows "settled_below env bound (fst (submit_transaction cx env q t block)) \<and>
    grows bound (tq_storage q) (tq_storage (fst (submit_transaction cx env q t block)))"
proof -
  let ?P = "\<lambda>q'. settled_below env bound q' \<and> grows bound (tq_storage q) (tq_storage q')"
  have stored: "?P (fst (storing q' (record_submission db (tq_storage q') sub)))" if "?P q'" for q' db sub
    using that settled_below_ok [of env bound q']
    by (intro storing_keeps [where P = ?P])
      (auto intro: settled_below_storage record_submission_grows record_submission_ok grows_trans)
  show ?thesis unfolding submit_transaction_def
  proof (rule and_then_keeps [where P = ?P])
    show "?P (fst (fees cx env q))" using settled_below_cong [OF assms(1)] by simp
  next
    fix q1 f
    assume "fees cx env q = (q1, Inr f)" "?P q1"
    then have sb: "settled_below env bound q1" and st: "tq_storage q1 = tq_storage q"
      using fees_frame(1) [of cx env q] by simp_all
    let ?u = "build_transaction t (qc_chain_id cx) f"
    define q2 where "q2 = q1\<lparr>tq_sent := tq_sent q1 @ [?u]\<rparr>"
    have "?P q2" using settled_below_send [OF sb] assms(2) st by (simp add: q2_def build_same_call)
    then show "?P (fst (broadcast env q1 ?u block))"
      using \<open>?P q1\<close> stored [of q2] unfolding broadcast_def Let_def q2_def [symmetric] by (auto split: option.splits)
  qed
qed

text \<open>
  A rule for the submission loop: an invariant of the queue and of the number of transactions in flight that
  reading the account, allocating and submitting respect.
\<close>

lemma account_cached: "account cx env q = (q1, Inr a) \<Longrightarrow> tq_account_cache q1 = Some a"
  by (auto simp: account_def Let_def split: option.splits prod.splits)

lemma submit_loop_rule:
  assumes acc: "\<And>n q. I n q \<Longrightarrow> I n (fst (account cx env q))"
    and none: "\<And>n q a st. I n q \<Longrightarrow> tq_account_cache q = Some a \<Longrightarrow>
      next_transaction (qc_encode cx) (env_db env (DbNext n)) (tq_storage q) \<lparr>aa_block = block, aa_nonce = as_nonce a\<rparr> (bundler_for cx a) =
        Inr (st, None) \<Longrightarrow> I n (q\<lparr>tq_storage := st\<rparr>)"
    and some: "\<And>n q a st t. I n q \<Longrightarrow> tq_account_cache q = Some a \<Longrightarrow> n < max_in_flight_transactions (mode (qc_config cx)) \<Longrightarrow>
      \<not> (is_delegated (qc_keccak cx) a \<and> 0 < n) \<Longrightarrow>
      next_transaction (qc_encode cx) (env_db env (DbNext n)) (tq_storage q) \<lparr>aa_block = block, aa_nonce = as_nonce a\<rparr> (bundler_for cx a) =
        Inr (st, Some t) \<Longrightarrow> I (Suc n) (fst (submit_transaction cx env (q\<lparr>tq_storage := st\<rparr>) t block))"
  shows "I n q \<Longrightarrow> \<exists>m. I m (fst (submit_loop cx env block n q))"
proof (induction "max_in_flight_transactions (mode (qc_config cx)) - n" arbitrary: n q)
  case 0
  then show ?case by (auto simp: submit_loop.simps)
next
  case (Suc k)
  let ?Q = "\<lambda>q. \<exists>m. I m q"
  have lt: "n < max_in_flight_transactions (mode (qc_config cx))" using Suc.hyps(2) by simp
  show ?case unfolding submit_loop.simps [of cx env block n q] if_P [OF lt]
  proof (rule and_then_keeps [where P = ?Q])
    show "?Q (fst (account cx env q))" using acc [OF Suc.prems] by blast
  next
    fix q1 a
    assume a: "account cx env q = (q1, Inr a)"
    have q1: "I n q1" "tq_account_cache q1 = Some a" using acc [OF Suc.prems] a account_cached [OF a] by simp_all
    let ?next = "next_transaction (qc_encode cx) (env_db env (DbNext n)) (tq_storage q1) \<lparr>aa_block = block, aa_nonce = as_nonce a\<rparr> (bundler_for cx a)"
    let ?rest = "\<lambda>q next. case next of None \<Rightarrow> (q, Inr ())
      | Some t \<Rightarrow> and_then (submit_transaction cx env q t block) (\<lambda>q _. submit_loop cx env block (n + 1) q)"
    have "?Q (fst (and_then (storing_with q1 ?next) ?rest))" if nd: "\<not> (is_delegated (qc_keccak cx) a \<and> 0 < n)"
    proof (cases ?next)
      case (Inl err)
      then show ?thesis using q1(1) by (auto simp: storing_with_def)
    next
      case (Inr p)
      obtain st r where r: "?next = Inr (st, r)" using Inr by (cases p) simp
      let ?s = "\<lambda>t. submit_transaction cx env (q1\<lparr>tq_storage := st\<rparr>) t block"
      have "?Q (fst (and_then (?s t) (\<lambda>q _. submit_loop cx env block (n + 1) q)))" if "r = Some t" for t
      proof (rule and_then_keeps [where P = ?Q])
        have s: "I (Suc n) (fst (?s t))" using some [OF q1 lt nd] r that by simp
        then show "?Q (fst (?s t))" by blast
        show "?Q (fst (submit_loop cx env block (n + 1) q3))" if "?s t = (q3, Inr x)" for q3 x
          using Suc.hyps(1) [of "Suc n" q3] Suc.hyps(2) s that by auto
      qed
      moreover have "r = None \<Longrightarrow> I n (q1\<lparr>tq_storage := st\<rparr>)" using none [OF q1] r by simp
      ultimately show ?thesis unfolding r by (cases r) (auto simp: storing_with_def)
    qed
    then show "?Q (fst (if is_delegated (qc_keccak cx) a \<and> 0 < n then (q1, Inr ()) else and_then (storing_with q1 ?next) ?rest))"
      using q1(1) by auto
  qed
qed

lemma settled_below_loop:
  assumes "settled_below env bound q"
  shows "settled_below env bound (fst (submit_loop cx env block n q))"
proof -
  let ?I = "\<lambda>_ :: nat. settled_below env bound"
  have nonce: "uint (as_nonce a) = bound" if "settled_below env bound q" "tq_account_cache q = Some a" for q a
    using that by (auto simp: settled_below_def nonce_seen_def)
  have stored: "settled_below env bound (q\<lparr>tq_storage := st\<rparr>) \<and> (\<forall>t. r = Some t \<longrightarrow> on_record st (uint (at_nonce t)) (at_transaction t))"
    if "settled_below env bound q" "tq_account_cache q = Some a"
      "next_transaction encode db (tq_storage q) \<lparr>aa_block = block, aa_nonce = as_nonce a\<rparr> b = Inr (st, r)" for q a encode db b st r
    using next_transaction_grows [OF that(3)] nonce [OF that(1,2)] settled_below_storage [OF that(1)]
      next_transaction_ok [OF settled_below_ok [OF that(1)] that(3)] by simp
  have "\<exists>m. ?I m (fst (submit_loop cx env block n q))"
  proof (rule submit_loop_rule [of ?I, OF _ _ _ assms])
    show "?I n (fst (account cx env q))" if "?I n q" for n q using settled_below_account(1) [OF that] .
    show "?I n (q\<lparr>tq_storage := st\<rparr>)"
      if "?I n q" "tq_account_cache q = Some a"
        "next_transaction encode db (tq_storage q) \<lparr>aa_block = block, aa_nonce = as_nonce a\<rparr> b = Inr (st, None)" for n q a encode db b st
      using stored [OF that] by simp
    show "?I (Suc n) (fst (submit_transaction cx env (q\<lparr>tq_storage := st\<rparr>) t block))"
      if "?I n q" "tq_account_cache q = Some a"
        "next_transaction encode db (tq_storage q) \<lparr>aa_block = block, aa_nonce = as_nonce a\<rparr> b = Inr (st, Some t)" for n q a encode db b st t
      using stored [OF that] settled_below_submit [of env bound "q\<lparr>tq_storage := st\<rparr>" t cx block] by simp
  qed
  then show ?thesis by simp
qed

lemma settled_below_seq:
  "settled_below env bound (fst r) \<Longrightarrow> (\<And>q x. r = (q, Inr x) \<Longrightarrow> settled_below env bound q \<Longrightarrow> settled_below env bound (fst (f q x))) \<Longrightarrow>
   settled_below env bound (fst (and_then r f))"
  by (rule and_then_keeps)

lemma settled_below_storing:
  "settled_below env bound q \<Longrightarrow> (\<And>st. r = Inr st \<Longrightarrow> grows bound (tq_storage q) st \<and> storage_ok st) \<Longrightarrow>
   settled_below env bound (fst (storing q r))"
  by (rule storing_keeps) (auto intro: settled_below_storage)

lemma settled_below_storing_with:
  "settled_below env bound q \<Longrightarrow> (\<And>st x. r = Inr (st, x) \<Longrightarrow> grows bound (tq_storage q) st \<and> storage_ok st) \<Longrightarrow>
   settled_below env bound (fst (storing_with q r))"
  by (rule storing_with_keeps) (auto intro: settled_below_storage)

lemma settled_below_asking: "settled_below env bound q \<Longrightarrow> settled_below env bound (fst (asking q r))"
  by simp

lemma settled_below_pending: "settled_below env bound q \<Longrightarrow> settled_below env bound (fst (submit_pending cx env q block))"
  unfolding submit_pending_def by (intro settled_below_seq settled_below_asking settled_below_loop)

lemma settled_below_resubmit:
  "settled_below env bound q \<Longrightarrow> \<forall>t\<in>set ts. on_record (tq_storage q) (uint (at_nonce t)) (at_transaction t) \<Longrightarrow>
   settled_below env bound (fst (resubmit_all cx env block ts q))"
proof (induction ts arbitrary: q)
  case (Cons t ts)
  let ?r = "submit_transaction cx env q t block"
  have r: "settled_below env bound (fst ?r)" "grows bound (tq_storage q) (tq_storage (fst ?r))"
    using settled_below_submit [OF Cons.prems(1)] Cons.prems(2) by simp_all
  show ?case unfolding resubmit_all.simps
  proof (rule settled_below_seq)
    fix q1 x
    assume "?r = (q1, Inr x)"
    then show "settled_below env bound (fst (resubmit_all cx env block ts q1))"
      using r Cons.prems(2) by (intro Cons.IH) (auto simp: grows_def)
  qed (rule r)
qed simp

lemma settled_below_stale:
  assumes "settled_below env bound q"
  shows "settled_below env bound (fst (resubmit_stale cx env q block))"
  unfolding resubmit_stale_def
proof (rule settled_below_seq)
  fix q1 ts
  assume "asking q (stale_submissions (env_db env DbStale) (tq_storage q)
      (checked_sub block (blocks_before_resubmit (qc_config cx)))) = (q1, Inr ts)"
  then show "settled_below env bound (fst (resubmit_all cx env block ts q1))"
    using assms stale_on_record [OF settled_below_ok [OF assms]] by (intro settled_below_resubmit) (auto simp: asking_Inr)
qed (simp add: assms)

lemma settled_below_reconcile:
  assumes "settled_below env bound q"
  shows "settled_below env bound (fst (reconcile cx env q status))"
  unfolding reconcile_def using assms
  by (intro settled_below_seq settled_below_storing settled_below_storing_with settled_below_account(1) settled_below_stale
      settled_below_pending conjI)
    (blast intro: mark_executed_grows mark_executed_ok recover_grows recover_ok settled_below_ok)+

lemma settled_below_queue:
  assumes "settled_below env bound q"
  shows "settled_below env bound (fst (queue cx env q txs))"
  unfolding queue_def using assms
  by (intro settled_below_seq settled_below_storing conjI)
    (auto intro: enqueue_grows enqueue_ok settled_below_ok settled_below_pending split: option.split)

lemma prune_keeps_sent:
  assumes "prune_storage db st safe = Inr st'"
  shows "kept st u \<Longrightarrow> gone st' u \<or> kept st' u"
    and "gone st' u \<Longrightarrow> gone st u \<or> (\<exists>row. fmlookup (allocated_nonces st) (uint (ut_nonce u)) = Some row \<and> executed_by (uint safe) row)"
    and "gone st u \<Longrightarrow> gone st' u"
  using prune_storage_lookup(1) [OF assms, of "uint (ut_nonce u)"]
  by (auto simp: kept_def gone_def on_record_def split: option.splits if_splits)

section \<open>Runs of the queue\<close>

datatype queue_op =
    QueueTransactions "(transaction \<times> u64 option) list"
  | UpdateBlockStatus block_status
  | Reopen

text \<open>A restart opens the same database with a fresh queue; the trace of what was sent goes on.\<close>

fun queue_step :: "queue_context \<Rightarrow> tx_queue \<Rightarrow> queue_op \<times> queue_env \<Rightarrow> tx_queue" where
  "queue_step cx q (QueueTransactions txs, env) = fst (queue cx env q txs)"
| "queue_step cx q (UpdateBlockStatus status, env) = fst (update_block_status cx env q status)"
| "queue_step cx q (Reopen, env) = q\<lparr>tq_block_status := None, tq_account_cache := None, tq_fee_cache := None\<rparr>"

definition empty_queue :: tx_queue where
  "empty_queue = \<lparr>tq_storage = empty_tx_storage, tq_block_status = None, tq_account_cache = None, tq_fee_cache = None, tq_sent = []\<rparr>"

text \<open>
  What the queue relies on: execution up to the safe block is final.  When a nonce was used for a transaction
  that is no longer on record, or leaves it now because it was executed by the safe block, the account's
  nonce that the node reports is above it.
\<close>

definition observed :: "tx_queue \<Rightarrow> queue_op \<Rightarrow> tx_queue" where
  "observed q op = (case op of UpdateBlockStatus status \<Rightarrow> observe_status q status | _ \<Rightarrow> q)"

definition leaves :: "queue_op \<Rightarrow> allocation option \<Rightarrow> bool" where
  "leaves op row =
     (case row of
        None \<Rightarrow> True
      | Some row \<Rightarrow> (case op of UpdateBlockStatus status \<Rightarrow> executed_by (uint (bs_safe status)) row | _ \<Rightarrow> False))"

fun execution_final :: "tx_queue \<Rightarrow> queue_op \<times> queue_env \<Rightarrow> bool" where
  "execution_final q (op, env) \<longleftrightarrow>
     (\<forall>u\<in>set (tq_sent q). leaves op (fmlookup (allocated_nonces (tq_storage q)) (uint (ut_nonce u))) \<longrightarrow>
        (case nonce_seen env (observed q op) of None \<Rightarrow> True | Some n \<Rightarrow> ut_nonce u < n))"

definition bound_seen :: "queue_env \<Rightarrow> tx_queue \<Rightarrow> int" where
  "bound_seen env q = (case nonce_seen env q of None \<Rightarrow> 2 ^ 64 | Some n \<Rightarrow> uint n)"

lemma below_bound_seen: "(case nonce_seen env q of None \<Rightarrow> True | Some n \<Rightarrow> w < n) \<Longrightarrow> uint w < bound_seen env q"
  using uint_bounded [of w] by (auto simp: bound_seen_def word_less_def split: option.splits)

lemma bound_seen_eq: "nonce_seen env q = Some n \<Longrightarrow> uint n = bound_seen env q"
  by (simp add: bound_seen_def)

lemma observe_status_frame [simp]:
  "tq_storage (observe_status q status) = tq_storage q" "tq_sent (observe_status q status) = tq_sent q"
  by (simp_all add: observe_status_def Let_def)

lemma queue_op_ok:
  assumes "sent_ok q" "execution_final q (QueueTransactions txs, env)"
  shows "sent_ok (fst (queue cx env q txs))"
proof -
  have "settled_below env (bound_seen env q) q"
    using assms bound_seen_eq
    by (auto simp: settled_below_def gone_def leaves_def observed_def intro!: below_bound_seen)
  from settled_below_queue [OF this] show ?thesis by (simp add: settled_below_def)
qed

lemma update_op_ok:
  assumes "sent_ok q" "execution_final q (UpdateBlockStatus status, env)"
  shows "sent_ok (fst (update_block_status cx env q status))"
proof -
  let ?q = "observe_status q status"
  let ?sb = "settled_below env (bound_seen env ?q)"
  have final: "uint (ut_nonce u) < bound_seen env ?q"
    if "u \<in> set (tq_sent q)"
      "gone (tq_storage q) u \<or>
       (\<exists>row. fmlookup (allocated_nonces (tq_storage q)) (uint (ut_nonce u)) = Some row \<and> executed_by (uint (bs_safe status)) row)" for u
    using assms(2) that by (intro below_bound_seen) (auto simp: gone_def leaves_def observed_def)
  have sb: "?sb ?q" using assms(1) final bound_seen_eq by (auto simp: settled_below_def sent_ok_def)
  have pruned: "?sb (?q\<lparr>tq_storage := st\<rparr>)" if "prune_storage db (tq_storage q) (bs_safe status) = Inr st" for db st
  proof -
    have "gone st u \<or> kept st u" if "u \<in> set (tq_sent q)" for u
      using that assms(1) prune_keeps_sent(1,3) [OF \<open>prune_storage db _ _ = _\<close>] by (auto simp: sent_ok_def)
    moreover have "uint (ut_nonce u) < bound_seen env ?q" if "u \<in> set (tq_sent q)" "gone st u" for u
      using that final prune_keeps_sent(2) [OF \<open>prune_storage db _ _ = _\<close>] by blast
    ultimately show ?thesis
      using assms(1) prune_storage_ok [OF _ that] bound_seen_eq by (auto simp: settled_below_def sent_ok_def)
  qed
  have unmark: "?sb (fst (case b of None \<Rightarrow> (q', Inr ()) | Some b \<Rightarrow> storing q' (unmark_executed db (tq_storage q') b)))"
    if "?sb q'" for q' db b
    using that unmark_executed_grows unmark_executed_ok settled_below_ok [OF that]
    by (auto split: option.split intro!: settled_below_storing)
  have prune: "?sb (fst (if c then storing ?q (prune_storage db (tq_storage ?q) (bs_safe status)) else (?q, Inr ())))" for c db
    using sb storing_keeps [of ?sb, OF sb] pruned by simp
  have reconcile: "?sb (fst (if c then and_then (asking q' r) (\<lambda>q n. if 0 < n then reconcile cx env q status else (q, Inr ()))
      else (q', Inr ())))" if "?sb q'" for q' c and r :: "storage_error + nat"
    using that by (auto intro!: settled_below_seq settled_below_reconcile)
  have "?sb (fst (update_block_status cx env q status)) \<or> fst (update_block_status cx env q status) = q"
  proof (cases "tq_block_status q = Some status")
    case False
    then have "?sb (fst (update_block_status cx env q status))"
      unfolding update_block_status_def Let_def if_not_P [OF False]
      by (intro settled_below_seq prune unmark reconcile)
    then show ?thesis by simp
  qed (simp add: update_block_status_def)
  then show ?thesis using assms(1) by (auto simp: settled_below_def)
qed

lemma sent_ok_cong: "sent_ok q \<Longrightarrow> tq_storage q' = tq_storage q \<Longrightarrow> tq_sent q' = tq_sent q \<Longrightarrow> sent_ok q'"
  by (simp add: sent_ok_def)

interpretation queue_system: guarded_system "queue_step cx" execution_final sent_ok empty_queue
proof
  show "sent_ok empty_queue"
    by (simp add: sent_ok_def empty_queue_def one_call_per_nonce_def storage_ok_def empty_tx_storage_def)
  show "sent_ok (queue_step cx q m)" if "sent_ok q" "execution_final q m" for q m
    using that by (cases "(cx, q, m)" rule: queue_step.cases) (auto intro: queue_op_ok update_op_ok sent_ok_cong simp del: execution_final.simps)
qed

text \<open>
  C22: a nonce is never used for two different transactions.  Over any sequence of queueing, status updates
  and restarts, with the database, the node and the signer failing at any point, whatever is handed to the
  node under the same nonce is the same call with the same gas limit, so at most one of several queued
  transactions can ever be replaced by another.  This rests on execution up to the safe block being final.
\<close>

theorem nonces_carry_one_call:
  assumes "run_ok (queue_step cx) execution_final empty_queue ops"
    and "u \<in> set (tq_sent (run_from (queue_step cx) empty_queue ops))"
    and "v \<in> set (tq_sent (run_from (queue_step cx) empty_queue ops))"
    and "ut_nonce u = ut_nonce v"
  shows "ut_to u = ut_to v \<and> ut_value u = ut_value v \<and> ut_input u = ut_input v \<and> ut_gas_limit u = ut_gas_limit v"
proof -
  have "one_call_per_nonce (tq_sent (run_from (queue_step cx) empty_queue ops))"
    using queue_system.always [OF assms(1)] by (simp add: sent_ok_def)
  then have "equal_calls u v" using assms(2-4) unfolding one_call_per_nonce_def by blast
  then show ?thesis by (simp add: equal_calls_def)
qed

text \<open>A transaction that is sent at block ten and again, with higher fees, at block eleven.\<close>

definition sample_context :: queue_context where
  "sample_context = \<lparr>qc_keccak = (\<lambda>_. 0), qc_encode = zero_encoder, qc_chain_id = 1, qc_signer = 9,
     qc_config = \<lparr>mode = DirectMode 1, blocks_before_resubmit = 1, priority_fee_cap = None\<rparr>\<rparr>"

definition sample_env :: queue_env where
  "sample_env = \<lparr>env_db = (\<lambda>_. True), env_proof = (\<lambda>_. Some (3, 0)), env_fees = Some \<lparr>fe_max_fee = 100, fe_priority = 10\<rparr>,
     env_sign = (\<lambda>_. True), env_send = (\<lambda>_. None)\<rparr>"

definition sample_ops :: "(queue_op \<times> queue_env) list" where
  "sample_ops = [(UpdateBlockStatus \<lparr>bs_latest = 10, bs_safe = 5\<rparr>, sample_env),
     (QueueTransactions [(transaction_default, None)], sample_env),
     (UpdateBlockStatus \<lparr>bs_latest = 11, bs_safe = 5\<rparr>, sample_env)]"

definition sample_account :: account_status where
  "sample_account = \<lparr>as_nonce = 3, as_code_hash = 0\<rparr>"

definition sample_request :: "int \<Rightarrow> u128 \<Rightarrow> u128 \<Rightarrow> allocation" where
  "sample_request block max_fee priority = \<lparr>al_request = Some \<lparr>sr_transaction = transaction_default,
     sr_max_fee = Some max_fee, sr_priority = Some priority\<rparr>, al_delegate = None, al_submitted_at = Some block, al_executed_at = None\<rparr>"

definition sample_storage :: "int \<Rightarrow> u128 \<Rightarrow> u128 \<Rightarrow> tx_storage" where
  "sample_storage block max_fee priority = \<lparr>allocated_nonces = fmap_of_list [(3, sample_request block max_fee priority)],
     transactions = fmap_of_list [(1, \<lparr>q_request = transaction_default, q_expires_at = None, q_nonce = Some 3\<rparr>)]\<rparr>"

definition sample_sent :: "u128 \<Rightarrow> u128 \<Rightarrow> unsigned_transaction" where
  "sample_sent max_fee priority = \<lparr>ut_chain_id = 1, ut_nonce = 3, ut_gas_limit = 21000, ut_max_fee = max_fee,
     ut_priority = priority, ut_to = 0, ut_value = 0, ut_input = [], ut_authorization = None\<rparr>"

lemma fm_count_keys: "fm_count P m = length (filter (\<lambda>k. P (the (fmlookup m k))) (fm_keys m))" for m :: "('k::linorder, 'v) fmap"
proof -
  have "fcard (ffilter Q A) = length (filter Q (sorted_list_of_fset A))" for Q and A :: "'k fset"
    by (simp add: fcard.rep_eq ffilter.rep_eq distinct_card [symmetric] Int_def conj_commute)
  then show ?thesis by (simp add: fm_count_def fm_keys_def)
qed

lemma fmmap_keys_upd: "fmmap_keys f fmempty = fmempty" "fmmap_keys f (fmupd k v m) = fmupd k (f k v) (fmmap_keys f m)"
  by (rule fmap_ext, simp)+

lemma empty_tables: "ffilter Q {||} = {||}" "fmfilter Q fmempty = fmempty" "fmmap f fmempty = fmempty"
  by (auto intro: fmap_ext)

lemmas sample_simps = fmmap_keys_upd fmupd_twice empty_tables empty_queue_def empty_tx_storage_def sample_env_def sample_context_def sample_storage_def sample_request_def
  sample_account_def sample_sent_def transaction_default_def fin_simps fm_count_keys Let_def

lemmas queue_simps = observe_status_def prune_storage_def db_int_def db_int_opt_def unmark_from_def checked_add_def checked_sub_def
  unmark_executed_def storing_def storing_with_def asking_def count_outstanding_def count_in_flight_def in_flight_def enqueue_def
  next_row_id_def max_in_flight_transactions_def account_def account_status_new_def is_delegated_def next_transaction_def
  eligible_rows_def eligible_def bundler_for_def code_hash_def bundler_direct_def push_def free_nonce_def finish_def
  insert_allocation_def submit_transaction_def fees_def broadcast_def build_transaction_def bump_def at_fees_def record_submission_def
  new_allocation_def mark_executed_def recover_authorization_gap_def stale_submissions_def stale_def stale_transaction_def
  bump_fee_def div_ceil_def sat_add_def max_def

lemma sample_step1:
  "queue_step sample_context empty_queue (UpdateBlockStatus \<lparr>bs_latest = 10, bs_safe = 5\<rparr>, sample_env) =
   empty_queue\<lparr>tq_block_status := Some \<lparr>bs_latest = 10, bs_safe = 5\<rparr>\<rparr>"
  by (simp add: update_block_status_def sample_simps queue_simps cong del: fmfilter_cong)

lemma sample_step2:
  "queue_step sample_context (empty_queue\<lparr>tq_block_status := Some \<lparr>bs_latest = 10, bs_safe = 5\<rparr>\<rparr>)
     (QueueTransactions [(transaction_default, None)], sample_env) =
   \<lparr>tq_storage = sample_storage 10 100 10, tq_block_status = Some \<lparr>bs_latest = 10, bs_safe = 5\<rparr>,
    tq_account_cache = Some sample_account, tq_fee_cache = Some \<lparr>fe_max_fee = 100, fe_priority = 10\<rparr>, tq_sent = [sample_sent 100 10]\<rparr>"
  by (simp add: queue_def submit_pending_def submit_loop.simps sample_simps queue_simps)

lemma sample_step3:
  "queue_step sample_context \<lparr>tq_storage = sample_storage 10 100 10, tq_block_status = Some \<lparr>bs_latest = 10, bs_safe = 5\<rparr>,
    tq_account_cache = Some sample_account, tq_fee_cache = Some \<lparr>fe_max_fee = 100, fe_priority = 10\<rparr>, tq_sent = [sample_sent 100 10]\<rparr>
     (UpdateBlockStatus \<lparr>bs_latest = 11, bs_safe = 5\<rparr>, sample_env) =
   \<lparr>tq_storage = sample_storage 11 110 11, tq_block_status = Some \<lparr>bs_latest = 11, bs_safe = 5\<rparr>,
    tq_account_cache = Some sample_account, tq_fee_cache = Some \<lparr>fe_max_fee = 100, fe_priority = 10\<rparr>,
    tq_sent = [sample_sent 100 10, sample_sent 110 11]\<rparr>"
  by (simp add: update_block_status_def reconcile_def resubmit_stale_def submit_pending_def submit_loop.simps sample_simps queue_simps)


lemma sample_sent_twice: "tq_sent (run_from (queue_step sample_context) empty_queue sample_ops) = [sample_sent 100 10, sample_sent 110 11]"
  by (simp add: sample_ops_def sample_step1 sample_step2 sample_step3 del: queue_step.simps)

lemma sample_run_ok: "run_ok (queue_step sample_context) execution_final empty_queue sample_ops"
  by (simp add: sample_ops_def sample_step1 sample_step2 sample_step3 del: queue_step.simps)
    (simp add: empty_queue_def leaves_def sample_storage_def sample_sent_def sample_request_def executed_by_def)

theorem nonces_carry_one_call_witness:
  "\<exists>u v. u \<noteq> v \<and> set (tq_sent (run_from (queue_step sample_context) empty_queue sample_ops)) = {u, v} \<and>
     ut_nonce u = ut_nonce v \<and> ut_input u = ut_input v \<and> ut_max_fee u \<noteq> ut_max_fee v"
proof -
  have "ut_nonce (sample_sent 100 10) = ut_nonce (sample_sent 110 11)" by (simp add: sample_sent_def)
  with nonces_carry_one_call [OF sample_run_ok, of "sample_sent 100 10" "sample_sent 110 11"] show ?thesis
    by (intro exI [of _ "sample_sent 100 10"] exI [of _ "sample_sent 110 11"])
      (simp add: sample_sent_twice, simp add: sample_sent_def)
qed


section \<open>Limits of a submission pass\<close>

definition flying :: "tx_queue \<Rightarrow> nat" where
  "flying q = fm_count in_flight (allocated_nonces (tq_storage q))"

definition rows_where :: "('v \<Rightarrow> bool) \<Rightarrow> ('k, 'v) fmap \<Rightarrow> 'k set" where
  "rows_where P m = {k. \<exists>v. fmlookup m k = Some v \<and> P v}"

lemma rows_where_fset: "rows_where P m = fset (ffilter (\<lambda>k. P (the (fmlookup m k))) (fmdom m))"
  by (auto simp: rows_where_def fmlookup_dom_iff)

lemma fm_count_card: "fm_count P m = card (rows_where P m)" and finite_rows_where: "finite (rows_where P m)"
  unfolding rows_where_fset by (simp_all add: fm_count_def fcard.rep_eq)

lemma record_submission_flying:
  "record_submission db st sub = Inr st' \<Longrightarrow> fm_count in_flight (allocated_nonces st') = fm_count in_flight (allocated_nonces st)"
  unfolding fm_count_card
  by (rule arg_cong [where f = card])
    (auto simp: record_submission_def rows_where_def in_flight_def split: sum.splits if_splits option.splits)

lemma next_transaction_flying:
  assumes "next_transaction encode db st a b = Inr (st', r)"
  shows "fm_count in_flight (allocated_nonces st') = fm_count in_flight (allocated_nonces st) + (if r = None then 0 else 1)"
proof (cases r)
  case None
  then show ?thesis using assms next_transaction_none by fastforce
next
  case (Some t)
  from assms [unfolded Some] obtain nonce rows where n: "\<forall>k. k |\<in>| fmdom (allocated_nonces st) \<longrightarrow> k < nonce"
    "insert_allocation (allocated_nonces st) nonce t = Inr rows" "allocated_nonces st' = rows"
    by (rule next_transaction_cases) auto
  have fresh: "fmlookup (allocated_nonces st) k = None" if "nonce \<le> k" for k
    using n(1) that by (meson fmdom_notD not_less)
  have "rows_where in_flight rows = insert nonce (rows_where in_flight (allocated_nonces st))"
    using n(2) fresh [of "nonce + 1"]
    by (auto simp: rows_where_def insert_allocation_def Let_def new_allocation_def new_delegation_def in_flight_def
        split: option.splits if_splits)
  moreover have "nonce \<notin> rows_where in_flight (allocated_nonces st)" using fresh [of nonce] by (simp add: rows_where_def)
  ultimately show ?thesis using Some n(3) by (simp add: fm_count_card finite_rows_where)
qed

lemma submit_transaction_frame:
  "flying (fst (submit_transaction cx env q t block)) = flying q \<and>
   tq_account_cache (fst (submit_transaction cx env q t block)) = tq_account_cache q"
proof -
  let ?P = "\<lambda>q'. flying q' = flying q \<and> tq_account_cache q' = tq_account_cache q"
  have stored: "?P (fst (storing q' (record_submission db (tq_storage q') sub)))" if "?P q'" for q' db sub
    using that by (intro storing_keeps [where P = ?P]) (auto simp: flying_def record_submission_flying)
  show ?thesis unfolding submit_transaction_def
  proof (rule and_then_keeps [where P = ?P])
    show "?P (fst (fees cx env q))" by (simp add: flying_def)
  next
    fix q1 f
    assume "?P q1"
    let ?u = "build_transaction t (qc_chain_id cx) f"
    define q2 where "q2 = q1\<lparr>tq_sent := tq_sent q1 @ [?u]\<rparr>"
    have "?P q2" using \<open>?P q1\<close> by (simp add: q2_def flying_def)
    then show "?P (fst (broadcast env q1 ?u block))"
      using \<open>?P q1\<close> stored [of q2] unfolding broadcast_def Let_def q2_def [symmetric] by (auto split: option.splits)
  qed
qed

text \<open>The limit that applies once the account is known.\<close>

definition pass_limit :: "queue_context \<Rightarrow> tx_queue \<Rightarrow> nat" where
  "pass_limit cx q =
     (case tq_account_cache q of
        None \<Rightarrow> 0
      | Some a \<Rightarrow> if is_delegated (qc_keccak cx) a then min 1 (max_in_flight_transactions (mode (qc_config cx)))
                 else max_in_flight_transactions (mode (qc_config cx)))"

lemma account_known: "tq_account_cache q = Some a \<Longrightarrow> account cx env q = (q, Inr a)"
  by (simp add: account_def)

lemma submit_loop_limit:
  assumes "flying q = n"
  shows "flying (fst (submit_loop cx env block n q)) \<le> max n (pass_limit cx (fst (submit_loop cx env block n q)))"
proof -
  let ?I = "\<lambda>m q'. flying q' = m \<and> (m = n \<or> tq_account_cache q' \<noteq> None \<and> m \<le> pass_limit cx q')"
  have "\<exists>m. ?I m (fst (submit_loop cx env block n q))"
  proof (rule submit_loop_rule [of ?I])
    show "?I m (fst (account cx env q))" if "?I m q" for m q
      using that by (auto simp: flying_def account_known)
    show "?I m (q\<lparr>tq_storage := st\<rparr>)" if "?I m q" "next_transaction encode db (tq_storage q) a b = Inr (st, None)" for m q encode db a b st
      using that(1) next_transaction_flying [OF that(2)] by (simp add: flying_def pass_limit_def)
    show "?I (Suc m) (fst (submit_transaction cx env (q\<lparr>tq_storage := st\<rparr>) t block))"
      if "?I m q" "tq_account_cache q = Some a" "m < max_in_flight_transactions (mode (qc_config cx))"
        "\<not> (is_delegated (qc_keccak cx) a \<and> 0 < m)"
        "next_transaction encode db (tq_storage q) acc b = Inr (st, Some t)" for m q a encode db acc b st t
    proof -
      let ?s = "fst (submit_transaction cx env (q\<lparr>tq_storage := st\<rparr>) t block)"
      have "flying ?s = Suc m" "tq_account_cache ?s = Some a"
        using submit_transaction_frame [of cx env "q\<lparr>tq_storage := st\<rparr>" t block] next_transaction_flying [OF that(5)] that(1,2)
        by (simp_all add: flying_def)
      then show ?thesis using that(3,4) by (auto simp: pass_limit_def)
    qed
  qed (simp add: assms)
  then show ?thesis by auto
qed

text \<open>
  C23: a submission pass respects its limits.  After a pass, however it ended, the number of transactions in
  flight is what it was before or at most the configured maximum, and at most one when the account is
  delegated; when the account could not be read, nothing was added.
\<close>

theorem submission_pass_respects_limits:
  "let q' = fst (submit_pending cx env q block)
   in fm_count in_flight (allocated_nonces (tq_storage q')) \<le>
      max (fm_count in_flight (allocated_nonces (tq_storage q)))
        (case tq_account_cache q' of
           None \<Rightarrow> 0
         | Some a \<Rightarrow> if is_delegated (qc_keccak cx) a then min 1 (max_in_flight_transactions (mode (qc_config cx)))
                    else max_in_flight_transactions (mode (qc_config cx)))"
proof -
  have "flying (fst (submit_pending cx env q block)) \<le> max (flying q) (pass_limit cx (fst (submit_pending cx env q block)))"
    unfolding submit_pending_def
    by (rule and_then_keeps [where P = "\<lambda>q'. flying q' \<le> max (flying q) (pass_limit cx q')"])
      (auto simp: asking_Inr count_in_flight_def flying_def [symmetric] split: if_splits intro: submit_loop_limit)
  then show ?thesis by (simp add: flying_def pass_limit_def Let_def split: option.splits)
qed


section \<open>Resubmission\<close>

text \<open>Everything answers and the node takes what it is given.\<close>

definition all_well :: "queue_context \<Rightarrow> queue_env \<Rightarrow> bool" where
  "all_well cx env \<longleftrightarrow> (\<forall>c. env_db env c) \<and> env_fees env \<noteq> None \<and> (\<forall>u. env_sign env u) \<and> (\<forall>u. env_send env u = None)"

text \<open>Rows that are stale and were not submitted at the block of the pass.\<close>

definition overdue :: "int \<Rightarrow> int \<Rightarrow> tx_storage \<Rightarrow> int \<Rightarrow> bool" where
  "overdue before block st k \<longleftrightarrow>
     (\<exists>row. fmlookup (allocated_nonces st) k = Some row \<and> stale before row \<and> al_submitted_at row \<noteq> Some block)"

lemma db_int_small: "uint w < 2 ^ 63 \<Longrightarrow> db_int w = Inr (uint w)"
  by (simp add: db_int_def)

lemma fees_well: "all_well cx env \<Longrightarrow> \<exists>q1 f. fees cx env q = (q1, Inr f) \<and> tq_storage q1 = tq_storage q"
  by (cases "tq_fee_cache q") (auto simp: fees_def all_well_def Let_def)

lemma submit_well:
  assumes "all_well cx env" "on_record (tq_storage q) (uint (at_nonce t)) (at_transaction t)"
    "uint (at_nonce t) < 2 ^ 63" "uint block < 2 ^ 63"
  shows "\<exists>q'. submit_transaction cx env q t block = (q', Inr ()) \<and> grows 0 (tq_storage q) (tq_storage q') \<and>
    (\<forall>k. overdue before (uint block) (tq_storage q') k \<longrightarrow> overdue before (uint block) (tq_storage q) k \<and> k \<noteq> uint (at_nonce t))"
proof -
  obtain q1 f where f: "fees cx env q = (q1, Inr f)" "tq_storage q1 = tq_storage q"
    using fees_well [OF assms(1)] by blast
  let ?u = "build_transaction t (qc_chain_id cx) f"
  let ?sub = "\<lparr>sub_block = Some block, sub_nonce = ut_nonce ?u, sub_fees = \<lparr>fe_max_fee = ut_max_fee ?u, fe_priority = ut_priority ?u\<rparr>\<rparr>"
  obtain st where st: "record_submission True (tq_storage q) ?sub = Inr st"
    and low: "\<forall>k. overdue before (uint block) st k \<longrightarrow> overdue before (uint block) (tq_storage q) k \<and> k \<noteq> uint (at_nonce t)"
    using assms(2-4)
    by (auto simp: record_submission_def db_int_opt_def db_int_small on_record_def build_same_call overdue_def stale_def split: option.splits if_splits)
  have "submit_transaction cx env q t block = storing (q1\<lparr>tq_sent := tq_sent q1 @ [?u]\<rparr>) (Inr st)"
    using assms(1) st f by (simp add: submit_transaction_def broadcast_def all_well_def Let_def)
  then show ?thesis using record_submission_grows [OF st] low by (simp add: storing_def)
qed

lemma resubmit_well:
  assumes "all_well cx env" "uint block < 2 ^ 63"
  shows "\<forall>t\<in>set ts. on_record (tq_storage q) (uint (at_nonce t)) (at_transaction t) \<and> uint (at_nonce t) < 2 ^ 63 \<Longrightarrow>
    (\<forall>k. overdue before (uint block) (tq_storage q) k \<longrightarrow> k \<in> (\<lambda>t. uint (at_nonce t)) ` set ts) \<Longrightarrow>
    \<exists>q'. resubmit_all cx env block ts q = (q', Inr ()) \<and> (\<forall>k. \<not> overdue before (uint block) (tq_storage q') k)"
proof (induction ts arbitrary: q)
  case (Cons t ts)
  from submit_well [OF assms(1) _ _ assms(2), of q t before] Cons.prems(1) obtain q1 where
    q1: "submit_transaction cx env q t block = (q1, Inr ())" "grows 0 (tq_storage q) (tq_storage q1)"
      "\<forall>k. overdue before (uint block) (tq_storage q1) k \<longrightarrow> overdue before (uint block) (tq_storage q) k \<and> k \<noteq> uint (at_nonce t)" by auto
  have "\<exists>q'. resubmit_all cx env block ts q1 = (q', Inr ()) \<and> (\<forall>k. \<not> overdue before (uint block) (tq_storage q') k)"
  proof (rule Cons.IH)
    show "\<forall>t\<in>set ts. on_record (tq_storage q1) (uint (at_nonce t)) (at_transaction t) \<and> uint (at_nonce t) < 2 ^ 63"
      using Cons.prems(1) q1(2) by (simp add: grows_def)
    show "\<forall>k. overdue before (uint block) (tq_storage q1) k \<longrightarrow> k \<in> (\<lambda>t. uint (at_nonce t)) ` set ts"
      using Cons.prems(2) q1(3) by auto
  qed
  then show ?case by (simp add: q1(1))
qed simp

lemma stale_submissions_due:
  assumes "storage_ok st" "stale_submissions True st b = Inr ts"
    "before = (case b of None \<Rightarrow> - 1 | Some b \<Rightarrow> uint b)"
  shows "(\<forall>k. overdue before block st k \<longrightarrow> k \<in> (\<lambda>t. uint (at_nonce t)) ` set ts) \<and> (\<forall>t\<in>set ts. uint (at_nonce t) < 2 ^ 63)"
proof -
  let ?rows = "allocated_nonces st"
  let ?stale = "{k. \<exists>row. fmlookup ?rows k = Some row \<and> stale before row}"
  have ts: "set ts = stale_transaction ?rows ` ?stale"
    using assms(2,3)
    by (auto simp: stale_submissions_def db_int_opt_def db_int_Inr Let_def fmlookup_dom_iff split: option.splits sum.splits if_splits)
  have "uint (at_nonce (stale_transaction ?rows k)) = k \<and> k < 2 ^ 63" if "k \<in> ?stale" for k
    using that storage_ok_allocated [OF assms(1), of k] uint_db [of k] by (auto simp: stale_transaction_def Let_def)
  then show ?thesis unfolding ts by (auto simp: overdue_def image_image)
qed

text \<open>
  C33: resubmission leaves nothing stale.  When the database, the fee estimate and the signer answer, and the
  node accepts what it is given, a resubmission pass ends without an error, and every transaction that is in flight
  after it was last submitted at the block of the pass or fewer blocks ago than the configured number after which a
  transaction is resubmitted (whatever that number is, zero included).
\<close>

theorem resubmission_leaves_nothing_stale:
  assumes "storage_ok (tq_storage q)" "all_well cx env" "block < 2 ^ 63"
  shows "\<exists>q'. resubmit_stale cx env q block = (q', Inr ()) \<and>
    (\<forall>k row. fmlookup (allocated_nonces (tq_storage q')) k = Some row \<longrightarrow> in_flight row \<longrightarrow>
       (\<exists>b. al_submitted_at row = Some b \<and> (b = uint block \<or> uint block < b + uint (blocks_before_resubmit (qc_config cx)))))"
proof -
  let ?n = "blocks_before_resubmit (qc_config cx)"
  let ?b = "checked_sub block ?n"
  define before where "before = (case ?b of None \<Rightarrow> - 1 | Some b \<Rightarrow> uint b)"
  have block: "uint block < 2 ^ 63" using assms(3) by (simp add: word_less_def)
  have sub: "uint (block - ?n) = uint block - uint ?n" if "?n \<le> block"
    using that uint_sub_lem [of ?n block] by (simp add: word_le_def)
  have small: "uint (block - ?n) < 2 ^ 63" if "?n \<le> block"
    using sub [OF that] uint_ge_0 [of ?n] block by linarith
  have "\<exists>ts. stale_submissions True (tq_storage q) ?b = Inr ts"
    using small
    by (auto simp: stale_submissions_def db_int_opt_def db_int_def checked_sub_def split: option.splits)
  then obtain ts where ts: "stale_submissions True (tq_storage q) ?b = Inr ts" by blast
  have "\<exists>q'. resubmit_all cx env block ts q = (q', Inr ()) \<and> (\<forall>k. \<not> overdue before (uint block) (tq_storage q') k)"
    using stale_submissions_due [OF assms(1) ts before_def, of "uint block"] stale_on_record [OF assms(1) ts]
    by (intro resubmit_well [OF assms(2) block]) auto
  then obtain q' where q': "resubmit_all cx env block ts q = (q', Inr ())" "\<And>k. \<not> overdue before (uint block) (tq_storage q') k"
    by blast
  have "\<exists>b. al_submitted_at row = Some b \<and> (b = uint block \<or> uint block < b + uint ?n)"
    if "fmlookup (allocated_nonces (tq_storage q')) k = Some row" "in_flight row" for k row
    using q'(2) [of k] that sub
    by (auto simp: overdue_def stale_def before_def checked_sub_def word_le_def split: option.splits if_splits)
  moreover have "resubmit_stale cx env q block = (q', Inr ())"
    using q'(1) ts assms(2) by (auto simp: resubmit_stale_def asking_def all_well_def)
  ultimately show ?thesis by blast
qed

theorem resubmission_leaves_nothing_stale_witness:
  "\<exists>q'. resubmit_stale sample_context sample_env (empty_queue\<lparr>tq_storage := sample_storage 10 100 10\<rparr>) 11 = (q', Inr ()) \<and>
     (\<forall>k row. fmlookup (allocated_nonces (tq_storage q')) k = Some row \<longrightarrow> in_flight row \<longrightarrow> (\<exists>b. al_submitted_at row = Some b \<and> 10 < b))"
proof -
  let ?q = "empty_queue\<lparr>tq_storage := sample_storage 10 100 10\<rparr>"
  have "storage_ok (tq_storage ?q)"
    by (auto simp: storage_ok_def sample_storage_def sample_request_def row_ok_def split: if_splits)
  moreover have "all_well sample_context sample_env" by (simp add: all_well_def sample_env_def)
  moreover have "blocks_before_resubmit (qc_config sample_context) = 1" by (simp add: sample_context_def)
  ultimately show ?thesis
    using resubmission_leaves_nothing_stale [of ?q sample_context sample_env 11] by fastforce
qed

end
