(* ===== verification/Driver.thy ===== *)
theory Driver
  imports Indexer Tx_Queue Effects
begin

text \<open>
  The service driver (\<^verbatim>\<open>crates/core/src/driver.rs\<close>): it polls the indexer, brings the transaction queue up
  to date, feeds the state machine, prunes its snapshots and dispatches the commands it returns.  An input is
  processed to completion before the next.  Every call of the databases, of the node and of the signer may
  fail.  Effects that are handed out and the housekeeping of their handler are recorded in traces.  When an effect completes while the indexer is being polled, the poll
  is dropped at a request; the indexer is then as after a poll in which this request failed.
\<close>

section \<open>The driver\<close>

datatype driver_error =
    DriverIndex index_error
  | DriverState machine_error
  | DriverTransactions queue_error

record ('s, 'f) driver =
  d_index :: indexer
  d_machine :: "'s machine"
  d_queue :: tx_queue
  d_spawned :: "'f list"
  d_housekeeping :: "block_status list"

text \<open>What a service and its configuration provide.\<close>

record ('s, 'e, 'r, 'a, 'f) service_setup =
  ss_transition :: "('s, 'e, 'r, ('a, 'f) command) service"
  ss_init :: 's
  ss_encode :: "'a \<Rightarrow> transaction \<times> u64 option"
  ss_events :: "'e event_source"
  ss_blocks :: block_config
  ss_timings :: timings
  ss_queue :: queue_context

datatype ('e, 'r) input =
    Update "'e update"
  | Completed 'r

definition action_transactions :: "('a \<Rightarrow> transaction \<times> u64 option) \<Rightarrow> ('a, 'f) command list \<Rightarrow> (transaction \<times> u64 option) list" where
  "action_transactions encode cmds = concat (map (\<lambda>c. case c of Action a \<Rightarrow> [encode a] | Effect _ \<Rightarrow> []) cmds)"

definition dispatch :: "('s, 'e, 'r, 'a, 'f) service_setup \<Rightarrow> queue_env \<Rightarrow> ('s, 'f) driver \<Rightarrow> ('a, 'f) command list \<Rightarrow>
    block_status option \<Rightarrow> ('s, 'f) driver \<times> (driver_error + unit)" where
  "dispatch ss env d cmds housekeeping =
     (let d = d\<lparr>d_spawned := d_spawned d @ spawned_effects cmds\<rparr>;
          txs = action_transactions (ss_encode ss) cmds;
          (q, result) = (if txs = [] then (d_queue d, Inr (Inr ()))
            else case queue (ss_queue ss) env (d_queue d) txs of (q, r) \<Rightarrow> (q, lift_intermittent_error r));
          d = d\<lparr>d_queue := q\<rparr>
      in case result of
           Inl err \<Rightarrow> (d, Inl (DriverTransactions err))
         | Inr _ \<Rightarrow>
             (case housekeeping of
                None \<Rightarrow> (d, Inr ())
              | Some status \<Rightarrow> (d\<lparr>d_housekeeping := d_housekeeping d @ [status]\<rparr>, Inr ())))"

definition is_new_block :: "'e update \<Rightarrow> bool" where
  "is_new_block u = (case u of BlockUpdate (New _ _ _ _) \<Rightarrow> True | _ \<Rightarrow> False)"

text \<open>
  What the processing of an input finds outside: the environments of the status update and of the queueing, and
  whether the snapshot database carries out the transactions of the update and of the pruning.
\<close>

record input_env =
  ie_status :: queue_env
  ie_update :: bool
  ie_prune :: bool
  ie_queue :: queue_env

definition driver_update :: "('s, 'e, 'r, 'a, 'f) service_setup \<Rightarrow> input_env \<Rightarrow> ('s, 'f) driver \<Rightarrow> ('e, 'r) input \<Rightarrow>
    ('s, 'f) driver \<times> (driver_error + unit)" where
  "driver_update ss env d inp =
     (case inp of
        Update u \<Rightarrow>
          let status = index_status (d_index d);
              (q, r) = update_block_status (ss_queue ss) (ie_status env) (d_queue d) status;
              d = d\<lparr>d_queue := q\<rparr>
          in (case lift_intermittent_error r of
                Inl err \<Rightarrow> (d, Inl (DriverTransactions err))
              | Inr _ \<Rightarrow>
                  (case handle_update (ss_transition ss) (ie_update env) (d_machine d) u of
                     (m, Inl err) \<Rightarrow> (d\<lparr>d_machine := m\<rparr>, Inl (DriverState err))
                   | (m, Inr cmds) \<Rightarrow>
                       (case prune_machine (ie_prune env) m (bs_safe status) of
                          (m, Inl err) \<Rightarrow> (d\<lparr>d_machine := m\<rparr>, Inl (DriverState err))
                        | (m, Inr _) \<Rightarrow>
                            dispatch ss (ie_queue env) (d\<lparr>d_machine := m\<rparr>) cmds (if is_new_block u then Some status else None))))
      | Completed r \<Rightarrow>
          (case handle_resume (ss_transition ss) (d_machine d) r of
             (m, Inl err) \<Rightarrow> (d\<lparr>d_machine := m\<rparr>, Inl (DriverState err))
           | (m, Inr cmds) \<Rightarrow> dispatch ss (ie_queue env) (d\<lparr>d_machine := m\<rparr>) cmds None))"

text \<open>
  The two flags say whether the snapshot database answers when the machine is opened and when its bounds are read;
  the last argument is what the transaction queue finds when it is opened.
\<close>

fun driver_new :: "('s, 'e, 'r, 'a, 'f) service_setup \<Rightarrow> node \<Rightarrow> nat \<Rightarrow> bool \<times> bool \<Rightarrow> 's snapshots \<Rightarrow>
    u64 option option \<times> (address \<Rightarrow> bytes option) \<times> bool \<times> tx_storage \<Rightarrow> (driver_error + ('s, 'f) driver) option" where
  "driver_new ss node fuel (opens, reads) snaps (gas_limit, code, db, st) =
     (case with_init opens (ss_init ss) snaps of
        Inl err \<Rightarrow> Some (Inl (DriverState err))
      | Inr m \<Rightarrow>
          (case snapshot_status reads snaps of
             Inl err \<Rightarrow> Some (Inl (DriverState (Storage err)))
           | Inr indexed \<Rightarrow>
               (case watcher_new node (qc_chain_id (ss_queue ss)) (ss_blocks ss) fuel indexed of
                  None \<Rightarrow> None
                | Some (Inl err) \<Rightarrow> Some (Inl (DriverIndex (BlocksError err)))
                | Some (Inr w) \<Rightarrow>
                    (case queue_new (ss_queue ss) gas_limit code db st of
                       Inl err \<Rightarrow> Some (Inl (DriverTransactions err))
                     | Inr q \<Rightarrow> Some (Inr \<lparr>d_index = \<lparr>ix_blocks = w, ix_events = Idle\<rparr>, d_machine = m, d_queue = q,
                         d_spawned = [], d_housekeeping = []\<rparr>)))))"

text \<open>An action that is queued at startup, outside of the state machine; here every failure is reported.\<close>

definition queue_action :: "('s, 'e, 'r, 'a, 'f) service_setup \<Rightarrow> queue_env \<Rightarrow> ('s, 'f) driver \<Rightarrow> 'a \<Rightarrow>
    ('s, 'f) driver \<times> (driver_error + unit)" where
  "queue_action ss env d a =
     (case queue (ss_queue ss) env (d_queue d) [ss_encode ss a] of
        (q, Inl err) \<Rightarrow> (d\<lparr>d_queue := q\<rparr>, Inl (DriverTransactions err))
      | (q, Inr _) \<Rightarrow> (d\<lparr>d_queue := q\<rparr>, Inr ()))"

section \<open>The run loop\<close>

text \<open>
  What can happen next: the indexer is polled, which may fail and is retried, or an effect completes.  Once
  the driver has stopped it stays stopped, with the reason.
\<close>

datatype 'r driver_event =
    Poll log_node nat input_env
  | EffectDone 'r input_env

type_synonym ('s, 'f) driver_state = "('s, 'f) driver \<times> driver_error option"

fun driver_step :: "('s, 'e, 'r, 'a, 'f) service_setup \<Rightarrow> node \<Rightarrow> ('s, 'f) driver_state \<Rightarrow> 'r driver_event \<Rightarrow> ('s, 'f) driver_state" where
  "driver_step ss node (d, Some err) ev = (d, Some err)"
| "driver_step ss node (d, None) (EffectDone r env) =
     (case driver_update ss env d (Completed r) of (d, Inl err) \<Rightarrow> (d, Some err) | (d, Inr _) \<Rightarrow> (d, None))"
| "driver_step ss node (d, None) (Poll ln fuel env) =
     (case index_next node (ss_blocks ss) (ss_timings ss) (ss_events ss) ln fuel (d_index d) of
        None \<Rightarrow> (d, None)
      | Some (ix, Inl (BlocksError (ExceededMaxReorgDepth n))) \<Rightarrow>
          (d\<lparr>d_index := ix\<rparr>, Some (DriverIndex (BlocksError (ExceededMaxReorgDepth n))))
      | Some (ix, Inl err) \<Rightarrow> (d\<lparr>d_index := ix\<rparr>, None)
      | Some (ix, Inr u) \<Rightarrow>
          (case driver_update ss env (d\<lparr>d_index := ix\<rparr>) (Update u) of
             (d, Inl err) \<Rightarrow> (d, Some err)
           | (d, Inr _) \<Rightarrow> (d, None)))"


section \<open>The driver and the machine\<close>

lemma dispatch_frame:
  "d_index (fst (dispatch ss env d cmds h)) = d_index d \<and> d_machine (fst (dispatch ss env d cmds h)) = d_machine d \<and>
   (\<forall>err. snd (dispatch ss env d cmds h) = Inl err \<longrightarrow> (\<exists>e. err = DriverTransactions e \<and> \<not> is_intermittent e))"
proof -
  obtain q r where q: "queue (ss_queue ss) env (d_queue d) (action_transactions (ss_encode ss) cmds) = (q, r)" by (cases rule: prod.exhaust)
  show ?thesis
    by (cases r) (auto simp: dispatch_def Let_def q lift_intermittent_error_def split: option.splits)
qed

text \<open>
  The driver is the system of the machine and its tasks: what it does on an update or on a result is the
  corresponding step of the system, with the same machine and the same effects handed out, unless the
  transaction queue fails first.
\<close>

definition corresponds :: "('s, 'f) driver \<Rightarrow> ('s, 'w, 'e, 'f, 'p, 'r, 'a) system \<Rightarrow> bool" where
  "corresponds d sy \<longleftrightarrow> sy_machine sy = d_machine d \<and> spawned_effects (sy_sent sy) = d_spawned d"

lemma dispatch_spawns:
  "d_spawned (fst (dispatch ss env d cmds hk)) = d_spawned d @ spawned_effects cmds"
  by (auto simp: dispatch_def Let_def split: prod.splits sum.splits option.splits)

lemma sent_corresponds:
  assumes "spawned_effects (sy_sent sy) = d_spawned d"
  shows "corresponds (fst (dispatch ss env (d\<lparr>d_machine := m\<rparr>) cmds hk)) (send_commands eh (sy\<lparr>sy_machine := m\<rparr>) cmds)"
  using assms dispatch_frame [of ss env "d\<lparr>d_machine := m\<rparr>" cmds hk] dispatch_spawns [of ss env "d\<lparr>d_machine := m\<rparr>" cmds hk]
  by (simp add: corresponds_def send_commands_def spawned_effects_def)

lemma driver_update_simulated:
  assumes "corresponds d sy" "driver_update ss env d (Update u) = (d', res)"
  shows "corresponds d' sy \<or>
    corresponds d' (system_step (ss_transition ss) (ss_init ss) eh sy (SysUpdate u (ie_update env) (bs_safe (index_status (d_index d))) (ie_prune env)))"
proof -
  let ?status = "index_status (d_index d)"
  obtain q rq where q: "update_block_status (ss_queue ss) (ie_status env) (d_queue d) ?status = (q, rq)" by (cases rule: prod.exhaust)
  obtain m rm where m: "handle_update (ss_transition ss) (ie_update env) (d_machine d) u = (m, rm)" by (cases rule: prod.exhaust)
  obtain m' rp where p: "prune_machine (ie_prune env) m (bs_safe ?status) = (m', rp)" by (cases rule: prod.exhaust)
  have sent: "spawned_effects (sy_sent (sy\<lparr>sy_heard := h\<rparr>)) = d_spawned (d\<lparr>d_queue := q\<rparr>)" "sy_machine sy = d_machine d" for h
    using assms(1) by (simp_all add: corresponds_def)
  consider (queue) err where "lift_intermittent_error rq = Inl err"
    | (machine) x err where "lift_intermittent_error rq = Inr x" "rm = Inl err"
    | (snapshots) x cs err where "lift_intermittent_error rq = Inr x" "rm = Inr cs" "rp = Inl err"
    | (commands) x cs y where "lift_intermittent_error rq = Inr x" "rm = Inr cs" "rp = Inr y"
    by (cases "lift_intermittent_error rq"; cases rm; cases rp) auto
  then show ?thesis
  proof cases
    case commands
    let ?sy = "sy\<lparr>sy_heard := sy_heard sy @ events_of u\<rparr>"
    have "(d', res) = dispatch ss (ie_queue env) (d\<lparr>d_queue := q, d_machine := m'\<rparr>) cs (if is_new_block u then Some ?status else None)"
      using assms(2) q m p commands by (simp add: driver_update_def Let_def)
    then have "d' = fst (dispatch ss (ie_queue env) (d\<lparr>d_queue := q, d_machine := m'\<rparr>) cs (if is_new_block u then Some ?status else None))"
      by (metis fst_conv)
    moreover have "system_step (ss_transition ss) (ss_init ss) eh sy (SysUpdate u (ie_update env) (bs_safe ?status) (ie_prune env)) =
        send_commands eh (?sy\<lparr>sy_machine := m'\<rparr>) cs"
      using m p commands sent(2) by simp
    ultimately show ?thesis using sent_corresponds [OF sent(1)] by metis
  qed (use assms q m p in \<open>auto simp: driver_update_def corresponds_def Let_def\<close>)
qed

lemma driver_resume_simulated:
  assumes "corresponds d sy" "next_resume ks (sy_tasks sy) = (tasks, Some r)" "driver_update ss env d (Completed r) = (d', res)"
  shows "corresponds d' (system_step (ss_transition ss) (ss_init ss) eh sy (SysResume ks))"
proof -
  obtain m rm where m: "handle_resume (ss_transition ss) (d_machine d) r = (m, rm)" by (cases rule: prod.exhaust)
  have sent: "spawned_effects (sy_sent (sy\<lparr>sy_tasks := ts, sy_heard := h\<rparr>)) = d_spawned d" "sy_machine sy = d_machine d" for ts h
    using assms(1) by (simp_all add: corresponds_def)
  show ?thesis
  proof (cases rm)
    case (Inl err)
    then show ?thesis using assms m by (auto simp: driver_update_def corresponds_def Let_def)
  next
    case (Inr cmds)
    then have "(d', res) = dispatch ss (ie_queue env) (d\<lparr>d_machine := m\<rparr>) cmds None"
      using assms(3) m by (simp add: driver_update_def)
    then have "d' = fst (dispatch ss (ie_queue env) (d\<lparr>d_machine := m\<rparr>) cmds None)" by (metis fst_conv)
    moreover have "system_step (ss_transition ss) (ss_init ss) eh sy (SysResume ks) =
        send_commands eh (sy\<lparr>sy_tasks := tasks, sy_heard := sy_heard sy @ [Resume r], sy_machine := m\<rparr>) cmds"
      using assms(2) m Inr sent(2) by simp
    ultimately show ?thesis using sent_corresponds [OF sent(1)] by metis
  qed
qed

lemma queue_action_frame:
  "d_index (fst (queue_action ss env d a)) = d_index d \<and> d_machine (fst (queue_action ss env d a)) = d_machine d"
  by (auto simp: queue_action_def split: prod.splits sum.splits)

lemma machine_run_snoc: "machine_run T init (ops @ [op]) = machine_step T init (machine_run T init ops) op"
  by (simp add: machine_run_def run_from_append)

lemma in_step_prune:
  assumes "in_step False ix st snaps" "prune True snaps (w_safe (ix_blocks ix)) = Inr snaps'"
  shows "in_step False ix st snaps'"
proof -
  have snaps': "snaps' = fmfilter (\<lambda>k. \<not> (k < uint (w_safe (ix_blocks ix)) \<and> k < fMax (fmdom snaps))) snaps"
    using assms(2) by (auto simp: prune_def to_i64_def split: if_splits sum.splits)
  have gap: "gap_free w c snaps'" if "gap_free w c snaps" "w_safe w = w_safe (ix_blocks ix)" for w c
  proof (rule gap_freeI)
    fix p j k
    assume "c = Some p" "j |\<in>| fmdom snaps'" "j \<le> k" "uint (w_safe w) \<le> k" "k < uint p"
    then show "k |\<in>| fmdom snaps'" using gap_freeD [of w p snaps j k] that by (auto simp: snaps')
  qed
  have undo: "undo_ok False (ix_blocks ix) c snaps'" if "undo_ok False (ix_blocks ix) c snaps" for c
  proof (cases "w_queue (ix_blocks ix)")
    case Nil
    then show ?thesis using that gap by (simp add: undo_ok_def)
  next
    case (Cons u us)
    then show ?thesis using that gap by (cases u) (simp_all add: undo_ok_def)
  qed
  show ?thesis using assms(1) gap undo by (cases "ix_events ix") (auto simp: in_step_def Let_def)
qed

lemma window_safe_fits: "window_ok w \<Longrightarrow> \<exists>snaps'. prune True snaps (w_safe w) = Inr snaps'"
proof -
  assume "window_ok w"
  then have "unat (w_safe w) + 0 < 2 ^ 63" by (simp add: window_ok_def)
  from uint_small [OF this] show ?thesis by (simp add: prune_def to_i64_def)
qed

lemma in_step_window: "in_step start ix st snaps \<Longrightarrow> window_ok (ix_blocks ix)"
  by (auto simp: in_step_def Let_def watcher_inv_def split: event_step.splits)

section \<open>What the machine was told\<close>

text \<open>
  The machine of a driver is always a run of the state machine, over operations in which it was told nothing but
  what the driver was told.
\<close>

fun op_told :: "('e, 'r) machine_op \<Rightarrow> ('e, 'r) message set" where
  "op_told (HandleUpdate u db) = set (events_of u)"
| "op_told (HandleResume r) = {Resume r}"
| "op_told _ = {}"

definition told_run :: "('s, 'e, 'r, 'c) service \<Rightarrow> 's \<Rightarrow> ('e, 'r) message set \<Rightarrow> 's machine \<Rightarrow> bool" where
  "told_run T init R m \<longleftrightarrow> (\<exists>ops. m = machine_run T init ops \<and> (\<forall>op\<in>set ops. op_told op \<subseteq> R))"

lemma told_run_start: "told_run T init R (new_machine init)"
  unfolding told_run_def by (rule exI [of _ "[]"]) (simp add: machine_run_def)

lemma told_run_step: "told_run T init R m \<Longrightarrow> op_told op \<subseteq> R \<Longrightarrow> told_run T init R (machine_step T init m op)"
  unfolding told_run_def machine_run_snoc [symmetric] by (force simp: machine_run_snoc intro: exI [of _ "_ @ [op]"])

lemma told_run_mono: "told_run T init R m \<Longrightarrow> R \<subseteq> R' \<Longrightarrow> told_run T init R' m"
  unfolding told_run_def by blast

lemma told_run_tip:
  assumes "told_run T init R m" "inner m = Some (s, st)"
  shows "tip_ok st (snapshots m)" "keys_fit (snapshots m)"
  using assms run_tip [of T init _ s st] unfolding told_run_def by auto

text \<open>So its states are results of histories of which everything was told.\<close>

lemma exec_record: "exec record_history [] = id"
proof
  show "exec record_history [] h = id h" for h :: "('e, 'r) history"
    by (induction h rule: rev_induct) (simp add: exec_def, simp add: record_history_def)
qed

lemma map_exec_record: "map_machine (exec record_history []) H = H"
  by (simp add: map_machine_def exec_record map_prod.id option.map_id fmap.map_id)

lemma recorded_ops_heard:
  "(\<forall>op\<in>set ops. op_told op \<subseteq> R) \<Longrightarrow> machine_heard R (machine_run record_history [] ops)"
proof (induction ops rule: rev_induct)
  case (snoc op ops)
  let ?H = "machine_run record_history [] ops"
  have H: "machine_heard R ?H" "op_told op \<subseteq> R" using snoc by simp_all
  show ?case unfolding machine_run_snoc
  proof (cases op)
    case (HandleUpdate u db)
    then show "machine_heard R (machine_step record_history [] ?H op)"
      using handle_update_heard [OF H(1), of u record_history db "[]"] H(2) by (auto simp: map_exec_record prod_eq_iff)
  next
    case (HandleResume r)
    then show "machine_heard R (machine_step record_history [] ?H op)"
      using handle_resume_heard [OF H(1), of r record_history "[]"] H(2) by (auto simp: map_exec_record prod_eq_iff)
  next
    case (PruneSnapshots safe db)
    then show "machine_heard R (machine_step record_history [] ?H op)"
      using prune_heard [OF H(1), of db "exec record_history []" safe] by (auto simp: map_exec_record prod_eq_iff)
  next
    case (Restart db)
    then show "machine_heard R (machine_step record_history [] ?H op)"
      using restart_heard [OF H(1), of record_history "[]" db] by (auto simp: map_exec_record)
  qed
qed (simp add: machine_run_def new_machine_def machine_heard_def)

lemma told_live_history:
  assumes "told_run T init R m" "inner m = Some (s, st)"
  shows "\<exists>h. s = exec T init h \<and> status_follows st (chain_position h) \<and> heard h \<subseteq> R"
proof -
  obtain ops where ops: "m = machine_run T init ops" "\<forall>op\<in>set ops. op_told op \<subseteq> R" using assms(1) by (auto simp: told_run_def)
  then obtain h where h: "inner (machine_run record_history [] ops) = Some (h, st)" "s = exec T init h"
    using assms(2) unfolding ops(1) run_is_image [of T] by auto
  moreover have "heard h \<subseteq> R" using recorded_ops_heard [OF ops(2)] h(1) by (auto simp: machine_heard_def)
  ultimately show ?thesis using history_run [of ops] by (auto simp: history_inv_def)
qed

lemma told_state_history:
  assumes "told_run T init R m" "machine_state m s"
  shows "\<exists>h. s = exec T init h \<and> chain_position h \<noteq> None \<and> heard h \<subseteq> R"
  using assms(2) unfolding machine_state_def
proof (elim disjE exE)
  fix st
  assume "inner m = Some (s, st)"
  from told_live_history [OF assms(1) this] obtain h
    where "s = exec T init h" "status_follows st (chain_position h)" "heard h \<subseteq> R" by blast
  then show ?thesis by (cases st) auto
next
  fix b
  assume b: "snapshot_at (snapshots m) b = Some s"
  obtain ops where ops: "m = machine_run T init ops" "\<forall>op\<in>set ops. op_told op \<subseteq> R" using assms(1) by (auto simp: told_run_def)
  let ?H = "machine_run record_history [] ops"
  obtain h where h: "fmlookup (snapshots ?H) (uint b) = Some h" "s = exec T init h"
    using b unfolding ops(1) run_is_image [of T] by (auto simp: snapshot_at_iff)
  moreover have "heard h \<subseteq> R" using recorded_ops_heard [OF ops(2)] h(1) by (auto simp: machine_heard_def)
  moreover have "chain_position h \<noteq> None"
    using history_run [of ops] h(1) by (fastforce simp: history_inv_def snapshots_placed_def)
  ultimately show ?thesis by blast
qed

text \<open>A call of the snapshot database that fails is the only difference that the database makes.\<close>

lemma handle_update_db:
  "handle_update T db m u = handle_update T True m u \<or>
   handle_update T db m u = (m\<lparr>inner := None\<rparr>, Inl (Storage SnapshotDatabase))"
proof (cases "inner m")
  case (Some x)
  obtain s st where x: "x = (s, st)" by (cases x)
  have "update_step T db s st (snapshots m) u = update_step T True s st (snapshots m) u \<or>
      update_step T db s st (snapshots m) u = Inl (Storage SnapshotDatabase)"
    by (cases db; cases "(T, db, s, st, snapshots m, u)" rule: update_step.cases)
      (auto simp: handle_logs_def commit_def reorg_def Let_def split: sum.splits option.splits prod.splits)
  then show ?thesis using Some x by (auto simp: handle_update_def)
qed (simp add: handle_update_def)

lemma prune_machine_db:
  "prune_machine db m safe = prune_machine True m safe \<or> prune_machine db m safe = (m, Inl (Storage SnapshotDatabase))"
  by (auto simp: prune_machine_def prune_def split: sum.splits)

lemma update_not_poisoned: "inner m \<noteq> None \<Longrightarrow> snd (handle_update T db m u) \<noteq> Inl Poisoned"
  by (cases "(T, db, fst (the (inner m)), snd (the (inner m)), snapshots m, u)" rule: update_step.cases)
    (auto simp: handle_update_def handle_logs_def status_after_logs_def next_block_def block_range_def Let_def
      split: option.splits sum.splits prod.splits if_splits status.splits)

section \<open>Why a driver stops\<close>

text \<open>
  A driver is well served when its node's answers are about the blocks it asks for and the logs are of the blocks
  they were requested for.  The reasons for which it stops, then and otherwise:
\<close>

fun stop_reason :: "bool \<Rightarrow> 's snapshots \<Rightarrow> driver_error \<Rightarrow> bool" where
  "stop_reason served snaps (DriverIndex (BlocksError (ExceededMaxReorgDepth n))) \<longleftrightarrow> True"
| "stop_reason served snaps (DriverIndex err) \<longleftrightarrow> False"
| "stop_reason served snaps (DriverTransactions err) \<longleftrightarrow> \<not> is_intermittent err"
| "stop_reason served snaps (DriverState (Storage SnapshotDatabase)) \<longleftrightarrow> True"
| "stop_reason served snaps (DriverState (Storage (MissingSnapshot b))) \<longleftrightarrow>
     (served \<longrightarrow> (\<forall>j. j |\<in>| fmdom snaps \<longrightarrow> uint b < j))"
| "stop_reason served snaps (DriverState err) \<longleftrightarrow> \<not> served \<and> err \<noteq> Poisoned"

definition driver_inv :: "('s, 'e, 'r, 'a, 'f) service_setup \<Rightarrow> ('e, 'r) message set \<Rightarrow> bool \<Rightarrow> ('s, 'f) driver_state \<Rightarrow> bool" where
  "driver_inv ss R served x \<longleftrightarrow>
     told_run (ss_transition ss) (ss_init ss) R (d_machine (fst x)) \<and>
     (case snd x of
        None \<Rightarrow> (\<exists>s st. inner (d_machine (fst x)) = Some (s, st) \<and>
          (served \<longrightarrow> (\<exists>start. in_step start (d_index (fst x)) st (snapshots (d_machine (fst x))))))
      | Some err \<Rightarrow> stop_reason served (snapshots (d_machine (fst x))) err)"

text \<open>What the driver's next event tells the machine, and when it is well served.\<close>

fun driver_told :: "('s, 'e, 'r, 'a, 'f) service_setup \<Rightarrow> node \<Rightarrow> ('s, 'f) driver_state \<Rightarrow> 'r driver_event \<Rightarrow> ('e, 'r) message list" where
  "driver_told ss node (d, Some err) ev = []"
| "driver_told ss node (d, None) (EffectDone r env) = [Resume r]"
| "driver_told ss node (d, None) (Poll ln fuel env) =
     (case index_next node (ss_blocks ss) (ss_timings ss) (ss_events ss) ln fuel (d_index d) of
        Some (ix, Inr u) \<Rightarrow> events_of u
      | _ \<Rightarrow> [])"

fun driver_served :: "('s, 'e, 'r, 'a, 'f) service_setup \<Rightarrow> ('s, 'f) driver_state \<Rightarrow> 'r driver_event \<Rightarrow> bool" where
  "driver_served ss x (Poll ln fuel env) \<longleftrightarrow> honest (ss_events ss) ln (ix_events (d_index (fst x)))"
| "driver_served ss x (EffectDone r env) \<longleftrightarrow> True"

lemma dispatch_inv:
  assumes "told_run (ss_transition ss) (ss_init ss) R (d_machine d)" "inner (d_machine d) = Some (s, st)"
    and "served \<Longrightarrow> in_step start (d_index d) st (snapshots (d_machine d))"
  shows "driver_inv ss R served (case dispatch ss env d cmds h of (d, Inl err) \<Rightarrow> (d, Some err) | (d, Inr _) \<Rightarrow> (d, None))"
proof -
  obtain d' r where r: "dispatch ss env d cmds h = (d', r)" by (cases rule: prod.exhaust)
  then show ?thesis using dispatch_frame [of ss env d cmds h] assms unfolding driver_inv_def by (cases r) auto
qed

text \<open>An update that the database refuses, and one that the machine refuses.\<close>

lemma handle_update_stops:
  assumes "handle_update T db m u = (m', Inl err)" "inner m \<noteq> None" "served \<Longrightarrow> fed T ix m u"
  shows "stop_reason served (snapshots m') (DriverState err)"
proof (cases "err = Storage SnapshotDatabase \<or> \<not> served")
  case True
  then show ?thesis using update_not_poisoned [OF assms(2), of T db u] assms(1)
    by (cases "(served, snapshots m', DriverState err)" rule: stop_reason.cases) auto
next
  case False
  then have h: "handle_update T True m u = (m', Inl err)" and "fed T ix m u"
    using handle_update_db [of T db m u] assms(1,3) by auto
  then obtain k where "k \<noteq> 0" "\<forall>j. j |\<in>| fmdom (snapshots m) \<longrightarrow> uint k \<le> j" "err = Storage (MissingSnapshot (k - 1))"
    "snapshots m' = snapshots m"
    unfolding fed_def by auto
  moreover have "uint (k - 1) < uint k" using \<open>k \<noteq> 0\<close> uint_predecessor [of k] by (simp add: one_le_iff)
  ultimately show ?thesis by fastforce
qed

lemma handle_update_goes_on:
  assumes "handle_update T db m u = (m', Inr cs)" "served \<Longrightarrow> fed T ix m u"
  obtains s st where "inner m' = Some (s, st)" "served \<Longrightarrow> in_step False ix st (snapshots m')"
proof -
  have "inner m' \<noteq> None" using assms(1) by (auto simp: handle_update_def split: option.splits sum.splits prod.splits)
  then obtain s st where m': "inner m' = Some (s, st)" by auto
  moreover have "served \<Longrightarrow> in_step False ix st (snapshots m')"
    using handle_update_db [of T db m u] assms m' unfolding fed_def by auto
  ultimately show ?thesis by (rule that)
qed

text \<open>The pruning of the snapshots fails only with the database, and leaves the machine in step.\<close>

lemma prune_stops:
  assumes "prune_machine db m (w_safe (ix_blocks ix)) = (m', Inl err)" "served \<Longrightarrow> in_step False ix st (snapshots m)"
  shows "stop_reason served (snapshots m') (DriverState err)"
proof (cases "served \<and> db")
  case True
  then show ?thesis using assms window_safe_fits [OF in_step_window, of False ix st "snapshots m" "snapshots m"]
    by (auto simp: prune_machine_def)
next
  case False
  then show ?thesis using assms window_safe_fits [OF in_step_window, of False ix st "snapshots m" "snapshots m"]
    by (cases served) (auto simp: prune_machine_def prune_def to_i64_def split: sum.splits if_splits)
qed

lemma in_step_pruned:
  assumes "prune_machine db m (w_safe (ix_blocks ix)) = (m', Inr y)" "in_step False ix st (snapshots m)"
  shows "in_step False ix st (snapshots m')"
proof -
  obtain snaps where "prune db (snapshots m) (w_safe (ix_blocks ix)) = Inr snaps" "m' = m\<lparr>snapshots := snaps\<rparr>"
    using assms(1) by (auto simp: prune_machine_def split: sum.splits)
  moreover from this have "prune True (snapshots m) (w_safe (ix_blocks ix)) = Inr snaps" by (auto simp: prune_eq)
  ultimately show ?thesis using in_step_prune [OF assms(2)] by simp
qed

lemma prune_machine_inner: "inner (fst (prune_machine db m safe)) = inner m"
  by (auto simp: prune_machine_def split: sum.splits)

text \<open>An update of the indexer keeps the invariant, or ends the run for a reason.\<close>

lemma driver_update_inv:
  assumes told: "told_run (ss_transition ss) (ss_init ss) R (d_machine d)" "set (events_of u) \<subseteq> R"
    and live: "inner (d_machine d) \<noteq> None" and fed: "served \<Longrightarrow> fed (ss_transition ss) ix (d_machine d) u"
  shows "driver_inv ss R served (case driver_update ss env (d\<lparr>d_index := ix\<rparr>) (Update u) of
    (d, Inl err) \<Rightarrow> (d, Some err) | (d, Inr _) \<Rightarrow> (d, None))"
proof -
  let ?T = "ss_transition ss" and ?init = "ss_init ss" and ?status = "index_status ix"
  have safe: "bs_safe ?status = w_safe (ix_blocks ix)" by (simp add: index_status_def watcher_status_def)
  obtain q rq where q: "update_block_status (ss_queue ss) (ie_status env) (d_queue d) ?status = (q, rq)" by (cases rule: prod.exhaust)
  obtain m1 rm where m1: "handle_update ?T (ie_update env) (d_machine d) u = (m1, rm)" by (cases rule: prod.exhaust)
  obtain m2 rp where m2: "prune_machine (ie_prune env) m1 (bs_safe ?status) = (m2, rp)" by (cases rule: prod.exhaust)
  have t1: "told_run ?T ?init R m1" using told_run_step [OF told(1), of "HandleUpdate u (ie_update env)"] told(2) m1 by simp
  have t2: "told_run ?T ?init R m2" using told_run_step [OF t1, of "PruneSnapshots (bs_safe ?status) (ie_prune env)"] m2 by simp
  consider (queue) err where "lift_intermittent_error rq = Inl err"
    | (machine) x err where "lift_intermittent_error rq = Inr x" "rm = Inl err"
    | (commands) x cs where "lift_intermittent_error rq = Inr x" "rm = Inr cs"
    by (cases "lift_intermittent_error rq"; cases rm) auto
  then show ?thesis
  proof cases
    case queue
    then have "\<not> is_intermittent err" by (auto simp: lift_intermittent_error_def split: sum.splits if_splits)
    then show ?thesis using queue q told by (auto simp: driver_update_def Let_def driver_inv_def)
  next
    case machine
    then have "stop_reason served (snapshots m1) (DriverState err)"
      using handle_update_stops [OF _ live, of ?T "ie_update env" u m1 err served ix] m1 fed by simp
    then show ?thesis using machine q m1 t1 by (auto simp: driver_update_def Let_def driver_inv_def)
  next
    case commands
    obtain s st where st: "inner m1 = Some (s, st)" "served \<Longrightarrow> in_step False ix st (snapshots m1)"
      using handle_update_goes_on [of ?T "ie_update env" "d_machine d" u m1 cs served ix] m1 commands fed by auto
    show ?thesis
    proof (cases rp)
      case (Inl err)
      then have "stop_reason served (snapshots m2) (DriverState err)"
        using prune_stops [of "ie_prune env" m1 ix m2 err served st] m2 st(2) safe by simp
      then show ?thesis using commands q m1 m2 Inl t2 by (auto simp: driver_update_def Let_def driver_inv_def)
    next
      case (Inr y)
      have i: "inner m2 = Some (s, st)" using prune_machine_inner [of "ie_prune env" m1 "bs_safe ?status"] m2 st(1) by simp
      have "served \<Longrightarrow> in_step False ix st (snapshots m2)"
        using in_step_pruned [of "ie_prune env" m1 ix m2 y st] m2 st(2) safe Inr by simp
      then show ?thesis using commands q m1 m2 Inr t2 i
          dispatch_inv [of ss R "d\<lparr>d_index := ix, d_queue := q, d_machine := m2\<rparr>" s st served False "ie_queue env" cs
            "if is_new_block u then Some ?status else None"]
        by (simp add: driver_update_def Let_def)
    qed
  qed
qed

lemma driver_resume_inv:
  assumes "driver_inv ss R served (d, None)" "Resume r \<in> R"
  shows "driver_inv ss R served (driver_step ss node (d, None) (EffectDone r env))"
proof -
  let ?T = "ss_transition ss" and ?init = "ss_init ss"
  obtain s st start where told: "told_run ?T ?init R (d_machine d)" and m: "inner (d_machine d) = Some (s, st)"
    and instep: "served \<Longrightarrow> in_step start (d_index d) st (snapshots (d_machine d))"
    using assms(1) by (auto simp: driver_inv_def)
  obtain s' cs where T: "?T s (Resume r) = (s', cs)" by (cases rule: prod.exhaust)
  define m' where "m' = (d_machine d)\<lparr>inner := Some (s', st)\<rparr>"
  have h: "handle_resume ?T (d_machine d) r = (m', Inr cs)" using m T by (simp add: handle_resume_def m'_def)
  have "told_run ?T ?init R m'" using told_run_step [OF told, of "HandleResume r"] assms(2) h by simp
  moreover have "inner m' = Some (s', st)" "snapshots m' = snapshots (d_machine d)" by (simp_all add: m'_def)
  ultimately show ?thesis using h instep
      dispatch_inv [of ss R "d\<lparr>d_machine := m'\<rparr>" s' st served start "ie_queue env" cs None]
    by (simp add: driver_update_def)
qed

lemma driver_poll_inv:
  assumes "served \<Longrightarrow> node_ok node" "driver_inv ss R served (d, None)" "served \<Longrightarrow> honest (ss_events ss) ln (ix_events (d_index d))"
    and "set (driver_told ss node (d, None) (Poll ln fuel env)) \<subseteq> R"
  shows "driver_inv ss R served (driver_step ss node (d, None) (Poll ln fuel env))"
proof (cases "index_next node (ss_blocks ss) (ss_timings ss) (ss_events ss) ln fuel (d_index d)")
  case None
  then show ?thesis using assms(2) by simp
next
  case (Some y)
  let ?T = "ss_transition ss"
  obtain s st where told: "told_run ?T (ss_init ss) R (d_machine d)" and m: "inner (d_machine d) = Some (s, st)"
    and instep: "served \<Longrightarrow> \<exists>start. in_step start (d_index d) st (snapshots (d_machine d))"
    using assms(2) by (auto simp: driver_inv_def)
  obtain ix r where y: "y = (ix, r)" by (cases y)
  have out: "\<exists>start. index_outcome ?T start (d_machine d) st ix r" if served
    using index_step [OF m told_run_tip [OF told m] assms(1) _ assms(3) Some [unfolded y], of _ ?T] instep that by blast
  show ?thesis
  proof (cases r)
    case (Inl err)
    then have "served \<Longrightarrow> \<exists>start. in_step start ix st (snapshots (d_machine d))"
      using out by (auto simp: index_outcome_def)
    then show ?thesis using Some y Inl told m
      by (auto simp: driver_inv_def split: index_error.splits watcher_error.splits)
  next
    case (Inr u)
    then have "served \<Longrightarrow> fed ?T ix (d_machine d) u" using out by (auto simp: index_outcome_def)
    moreover have "set (events_of u) \<subseteq> R" using assms(4) Some y Inr by simp
    ultimately show ?thesis using driver_update_inv [OF told, of u served ix env] m Some y Inr by simp
  qed
qed

lemma driver_step_inv:
  assumes "served \<Longrightarrow> node_ok node" "driver_inv ss R served x" "served \<Longrightarrow> driver_served ss x ev"
    and "set (driver_told ss node x ev) \<subseteq> R"
  shows "driver_inv ss R served (driver_step ss node x ev)"
proof (cases "snd x")
  case (Some err)
  then show ?thesis using assms(2) by (cases x) simp
next
  case None
  then obtain d where x: "x = (d, None)" by (cases x) simp
  show ?thesis
  proof (cases ev)
    case (EffectDone r env)
    then show ?thesis using driver_resume_inv [of ss R served d r node env] assms(2,4) x by simp
  next
    case (Poll ln fuel env)
    then show ?thesis using driver_poll_inv [of served node ss R d ln fuel env] assms x by simp
  qed
qed

lemma driver_inv_mono: "driver_inv ss R served x \<Longrightarrow> R \<subseteq> R' \<Longrightarrow> (served' \<Longrightarrow> served) \<Longrightarrow> driver_inv ss R' served' x"
proof -
  have "stop_reason served snaps err \<Longrightarrow> (served' \<Longrightarrow> served) \<Longrightarrow> stop_reason served' snaps err" for snaps :: "'a snapshots" and err
    by (cases "(served, snaps, err)" rule: stop_reason.cases) auto
  then show "driver_inv ss R served x \<Longrightarrow> R \<subseteq> R' \<Longrightarrow> (served' \<Longrightarrow> served) \<Longrightarrow> driver_inv ss R' served' x"
    by (auto simp: driver_inv_def split: option.splits intro: told_run_mono)
qed

section \<open>Starting\<close>

lemma status_extremes:
  assumes "snapshot_status True snaps = Inr (Some ix)" "keys_fit snaps"
  shows "uint (bs_safe ix) = fMin (fmdom snaps)" "uint (bs_latest ix) = fMax (fmdom snaps)" "fmdom snaps \<noteq> {||}"
proof -
  show ne: "fmdom snaps \<noteq> {||}" using assms(1) by (auto simp: snapshot_status_def)
  have "uint (word_of_int k :: u64) = k" if "k |\<in>| fmdom snaps" for k
  proof -
    have "0 \<le> k" "k < 2 ^ 63" using that assms(2) by (auto simp: keys_fit_def)
    then show ?thesis by (simp add: uint_word_of_int)
  qed
  from this [OF fMin_in [OF ne]] this [OF fMax_in [OF ne]]
  show "uint (bs_safe ix) = fMin (fmdom snaps)" "uint (bs_latest ix) = fMax (fmdom snaps)"
    using assms(1) ne by (auto simp: snapshot_status_def to_u64_def split: if_splits)
qed

lemma started_undo:
  assumes "w_queue w = startup_updates cfg indexed (w_safe w) @ map new_update bs"
    and "snapshot_status True snaps = Inr indexed" "start_reached cfg indexed latest" "keys_fit snaps"
  shows "undo_ok True w (resume_cursor indexed) snaps"
proof (cases indexed)
  case None
  then have "gap_free w (resume_cursor indexed) snaps" by (simp add: gap_free_def resume_cursor_def)
  then show ?thesis using assms(1) None
    by (cases bs) (auto simp: undo_ok_def startup_updates_def new_update_def split: option.splits)
next
  case (Some ix)
  have ext: "uint (bs_safe ix) = fMin (fmdom snaps)" "uint (bs_latest ix) = fMax (fmdom snaps)" "fmdom snaps \<noteq> {||}"
    using status_extremes [of snaps ix] assms(2,4) Some by simp_all
  have reached: "bs_safe ix \<le> bs_latest ix" "unat (bs_latest ix) + 2 < 2 ^ 63" using assms(3) Some by (simp_all add: start_reached_def)
  have succ: "uint (x + 1) = uint x + 1" if "x \<le> bs_latest ix" for x
  proof -
    have "unat x + 2 < 2 ^ 63" using that reached(2) by (simp add: word_le_nat_alt)
    then show ?thesis using uint_small [of x 2] by (simp add: uint_word_ariths)
  qed
  have add: "uint (bs_safe ix + 1) = uint (bs_safe ix) + 1" "uint (bs_latest ix + 1) = uint (bs_latest ix) + 1"
    using succ reached(1) by simp_all
  have checked: "checked_add (bs_safe ix) 1 = Some (bs_safe ix + 1)"
    using reached by (auto simp: checked_add_def word_le_nat_alt)
  have min: "uint (bs_safe ix) |\<in>| fmdom snaps" "\<forall>j. j |\<in>| fmdom snaps \<longrightarrow> uint (bs_safe ix) \<le> j"
    using ext by (auto intro: fMin_in fMin_le)
  have gap: "gap_free w (resume_cursor indexed) snaps" if "\<not> bs_safe ix + 1 \<le> bs_latest ix"
  proof (rule gap_freeI)
    fix p j k
    assume a: "resume_cursor indexed = Some p" "j |\<in>| fmdom snaps" "j \<le> k" "uint (w_safe w) \<le> k" "k < uint p"
    have "uint (bs_safe ix) = uint (bs_latest ix)" using that add(1) reached(1) by (simp add: word_le_def)
    moreover have "uint (bs_safe ix) \<le> j" using min a(2) by blast
    ultimately have "k = uint (bs_safe ix)" using a Some add(2) by (auto simp: resume_cursor_def)
    then show "k |\<in>| fmdom snaps" using min(1) by simp
  qed
  then show ?thesis using assms(1) Some add(1) checked min
    by (cases bs) (auto simp: undo_ok_def startup_updates_def new_update_def)
qed

text \<open>The status of a machine that is opened on its snapshots, and the first question to the node.\<close>

lemma restarted_status:
  assumes "with_init True init snaps = Inr m" "snapshot_status True snaps = Inr indexed"
  obtains s st where "inner m = Some (s, st)" "snapshots m = snaps" "idle_cursor st = Some (resume_cursor indexed)"
    "\<forall>p. st \<noteq> BlockApplied p"
proof (cases indexed)
  case None
  then have "fmdom snaps = {||}" using assms(2) by (auto simp: snapshot_status_def split: if_splits sum.splits)
  then have "m = \<lparr>inner = Some (init, Initialized), snapshots = snaps\<rparr>"
    using assms(1) by (simp add: with_init_def current_def)
  then show ?thesis using None that [of init Initialized] by (simp add: resume_cursor_def)
next
  case (Some ix)
  let ?s = "the (fmlookup snaps (fMax (fmdom snaps)))"
  have "m = \<lparr>inner = Some (?s, BlockPending (bs_latest ix + 1)), snapshots = snaps\<rparr>"
    using assms Some
    by (auto simp: with_init_def current_def snapshot_status_def Let_def checked_add_def split: if_splits sum.splits)
  then show ?thesis using Some that [of ?s "BlockPending (bs_latest ix + 1)"] by (simp add: resume_cursor_def)
qed

lemma initialize_latest:
  assumes "initialize node cfg ts fuel indexed w = Some (w', Inr ())" "w_requests w = 0"
  shows "\<exists>latest. node 0 Latest = Inr (Some latest)"
proof (rule ccontr)
  assume "\<not> ?thesis"
  then have "node 0 Latest = Inr None \<or> (\<exists>e. node 0 Latest = Inl e)" by (metis not_Some_eq sumE)
  then show False using assms by (auto simp: initialize_def require_block_def get_block_def)
qed

lemma driver_new_parts:
  assumes "driver_new ss node fuel dbs snaps q = Some (Inr d)"
  obtains indexed ts where "with_init True (ss_init ss) snaps = Inr (d_machine d)" "snapshot_status True snaps = Inr indexed"
    "initialize node (ss_blocks ss) ts fuel indexed \<lparr>w_requests = 0, w_pending = 0, w_pending_ms = 0, w_safe = 0,
       w_safe_hash = 0, w_recent = [], w_queue = []\<rparr> = Some (ix_blocks (d_index d), Inr ())" "ix_events (d_index d) = Idle"
proof -
  obtain opens reads where dbs: "dbs = (opens, reads)" by (cases dbs)
  have "opens" "reads" using assms dbs
    by (cases q; cases opens; cases reads; auto simp: with_init_def current_def snapshot_status_def split: sum.splits)+
  then show thesis using assms dbs that by (cases q) (auto simp: watcher_new_def split: sum.splits option.splits)
qed

lemma driver_starts:
  assumes told: "told_run (ss_transition ss) (ss_init ss) R m" and new: "driver_new ss node fuel dbs (snapshots m) q = Some (Inr d)"
    and node: "served \<Longrightarrow> node_ok node \<and> (\<forall>latest indexed. node 0 Latest = Inr (Some latest) \<longrightarrow>
      snapshot_status True (snapshots m) = Inr indexed \<longrightarrow> start_reached (ss_blocks ss) indexed (h_number latest))"
  shows "driver_inv ss R served (d, None)"
proof -
  let ?w = "ix_blocks (d_index d)"
  obtain indexed ts where mach: "with_init True (ss_init ss) (snapshots m) = Inr (d_machine d)" and idle: "ix_events (d_index d) = Idle"
    and indexed: "snapshot_status True (snapshots m) = Inr indexed"
    and init: "initialize node (ss_blocks ss) ts fuel indexed \<lparr>w_requests = 0, w_pending = 0, w_pending_ms = 0, w_safe = 0,
       w_safe_hash = 0, w_recent = [], w_queue = []\<rparr> = Some (?w, Inr ())"
    by (rule driver_new_parts [OF new])
  have run: "told_run (ss_transition ss) (ss_init ss) R (d_machine d)"
    using told_run_step [OF told, of "Restart True"] mach by simp
  obtain s st where st: "inner (d_machine d) = Some (s, st)" "snapshots (d_machine d) = snapshots m"
      "idle_cursor st = Some (resume_cursor indexed)" "\<forall>p. st \<noteq> BlockApplied p"
    by (rule restarted_status [OF mach indexed])
  have "in_step True (d_index d) st (snapshots (d_machine d))" if served
  proof -
    obtain latest where latest: "node 0 Latest = Inr (Some latest)" using initialize_latest [OF init] by auto
    then have ok: "node_ok node" "start_reached (ss_blocks ss) indexed (h_number latest)" using node [OF that] indexed by auto
    have "watcher_inv (resume_cursor indexed) ?w" using initialize_inv [OF ok(1) init _ _ _ ok(2)] latest by simp
    moreover have "undo_ok True ?w (resume_cursor indexed) (snapshots m)"
      using initialize_window [OF ok(1) init] latest told_run_tip(2) [OF run st(1)] st(2)
      by (intro started_undo [OF _ indexed ok(2)]) auto
    ultimately show ?thesis using idle st by (simp add: in_step_def warp_ready_def)
  qed
  then show ?thesis using run st(1) by (auto simp: driver_inv_def)
qed

end
