(* ===== verification/Service_Run.thy ===== *)
theory Service_Run
  imports Driver
begin

text \<open>
  Runs of a whole service over any number of process lifetimes: it is launched on an empty database, polls and
  resumes, stops or is killed at any time, and is launched again on what its database holds, against any node.
  Nothing is assumed of the nodes, of the logs they return or of the databases.  Every state of its machine is a
  state of the state machine of \<open>State_Machine\<close>, made of what the service was told.  As long as a launch is well
  served, machine and indexer stay in lockstep, and the service stops only for the reasons it gives up for.
\<close>

section \<open>Lifetimes\<close>

text \<open>
  A node that serves a launch well: it answers with the blocks it is asked for, and its head has reached the first
  block that the service has to look at.
\<close>

definition node_usable :: "block_config \<Rightarrow> node \<Rightarrow> 's snapshots \<Rightarrow> bool" where
  "node_usable cfg node snaps \<longleftrightarrow>
     node_ok node \<and>
     (\<forall>latest indexed. node 0 Latest = Inr (Some latest) \<longrightarrow> snapshot_status True snaps = Inr indexed \<longrightarrow>
        start_reached cfg indexed (h_number latest))"

text \<open>
  The runs, with two observations that do not restrict them: whether the launch has been well served up to now (by a
  usable node, and with logs of the blocks that were asked for), and all that the service was told so far, over
  all of its lifetimes.
\<close>

inductive service_run :: "('s, 'e, 'r, 'a, 'f) service_setup \<Rightarrow> node \<Rightarrow> bool \<Rightarrow> ('e, 'r) message list \<Rightarrow> ('s, 'f) driver_state \<Rightarrow> bool"
  for ss where
  Launch: "service_run ss node (node_usable (ss_blocks ss) node (fmempty :: 's snapshots)) [] (d, None)"
    if "driver_new ss node fuel dbs fmempty q = Some (Inr d)"
| Queue: "service_run ss node served seen (fst (queue_action ss env d a), None)" if "service_run ss node served seen (d, None)"
| Step: "service_run ss node (served \<and> driver_served ss x ev) (seen @ driver_told ss node x ev) (driver_step ss node x ev)"
    if "service_run ss node served seen x"
| Relaunch: "service_run ss node' (node_usable (ss_blocks ss) node' (snapshots (d_machine (fst x)))) seen (d', None)"
    if "service_run ss node served seen x" "driver_new ss node' fuel dbs (snapshots (d_machine (fst x))) q = Some (Inr d')"

lemma launch_inv:
  assumes "told_run (ss_transition ss) (ss_init ss) R m" "driver_new ss node fuel dbs (snapshots m) q = Some (Inr d)"
  shows "driver_inv ss R (node_usable (ss_blocks ss) node (snapshots m)) (d, None)"
  by (rule driver_starts [OF assms]) (simp add: node_usable_def)

lemma service_run_inv: "service_run ss node served seen x \<Longrightarrow> (served \<longrightarrow> node_ok node) \<and> driver_inv ss (set seen) served x"
proof (induction rule: service_run.induct)
  case (Launch node fuel dbs q d)
  have "snapshots (new_machine (ss_init ss)) = fmempty" by (simp add: new_machine_def)
  with Launch show ?case
    using launch_inv [OF told_run_start, of ss node fuel dbs q d] by (simp add: node_usable_def)
next
  case (Queue node served seen d env a)
  then show ?case using queue_action_frame [of ss env d a] by (auto simp: driver_inv_def)
next
  case (Step node served seen x ev)
  let ?R = "set (seen @ driver_told ss node x ev)"
  have "driver_inv ss ?R (served \<and> driver_served ss x ev) x" using Step by (auto intro: driver_inv_mono)
  then show ?case using driver_step_inv [of "served \<and> driver_served ss x ev" node ss ?R x ev] Step by auto
next
  case (Relaunch node served seen x node' fuel dbs q d')
  then have "told_run (ss_transition ss) (ss_init ss) (set seen) (d_machine (fst x))" by (simp add: driver_inv_def)
  with Relaunch show ?case using launch_inv [of ss "set seen" "d_machine (fst x)" node' fuel dbs q d'] by (simp add: node_usable_def)
qed

text \<open>
  C11: a service stops only for a reason.  Over all runs, against any nodes and with failing databases, it stops
  for a reorg deeper than it supports, for a failure of the transaction queue that is not an RPC failure, for a
  failure of the snapshot database, or for a reorg of the oldest block that it has on record, as long as its launch
  is well served: the node knows the blocks it is asked for and its head had reached the first block of interest, and
  the logs are of the blocks they were requested for.  Then the machine never refuses an update of the indexer.
  Even when it is not well served, the machine is never found poisoned.
\<close>

theorem service_stops_for_a_reason:
  assumes "service_run ss node served seen (d, Some err)"
  shows "(\<exists>n. err = DriverIndex (BlocksError (ExceededMaxReorgDepth n))) \<or>
    (\<exists>e. err = DriverTransactions e \<and> e \<noteq> QRpc) \<or>
    err = DriverState (Storage SnapshotDatabase) \<or>
    (\<exists>b. err = DriverState (Storage (MissingSnapshot b)) \<and> (\<forall>j. j |\<in>| fmdom (snapshots (d_machine d)) \<longrightarrow> uint b < j)) \<or>
    \<not> served \<and> (\<exists>e. err = DriverState e \<and> e \<noteq> Poisoned)"
proof -
  have "stop_reason served (snapshots (d_machine d)) err" using service_run_inv [OF assms] by (simp add: driver_inv_def)
  then show ?thesis by (cases "(served, snapshots (d_machine d), err)" rule: stop_reason.cases) (auto simp: is_intermittent_def)
qed

section \<open>Lockstep\<close>

text \<open>Where a history has to end for the indexer to go on: it has read up to the block before, or announced the block.\<close>

fun next_read :: "chain_pos \<Rightarrow> u64 \<Rightarrow> bool" where
  "next_read Fresh n \<longleftrightarrow> True"
| "next_read (At b i) n \<longleftrightarrow> n \<noteq> 0 \<and> b = n - 1 \<or> b = n \<and> i = None"

definition in_lockstep :: "indexer \<Rightarrow> chain_pos \<Rightarrow> bool" where
  "in_lockstep ix p =
     (case ix_events ix of
        FetchBlock n hash timestamp logs_bloom retries \<Rightarrow> p = At n None
      | Warping f t page_size fetched \<Rightarrow> next_read p f
      | Idle \<Rightarrow>
          (case w_queue (ix_blocks ix) of
             [] \<Rightarrow> next_read p (w_pending (ix_blocks ix))
           | New n hash timestamp logs_bloom # us \<Rightarrow> next_read p n
           | Warp f t # us \<Rightarrow> next_read p f
           | Uncle k # us \<Rightarrow> (\<exists>b i. p = At b i \<and> k \<le> b)))"

lemma cursor_read:
  assumes "idle_cursor st = Some c" "status_follows st p"
  obtains "c = None" "p = Some Fresh" | n q where "c = Some n" "p = Some q" "next_read q n" "q \<noteq> Fresh"
proof (cases st)
  case Initialized
  then show ?thesis using assms that(1) by simp
next
  case (BlockPending n)
  then obtain i where "n \<noteq> 0" "p = Some (At (n - 1) i)" using assms(2) by auto
  then show ?thesis using assms(1) BlockPending that(2) [of n "At (n - 1) i"] by simp
next
  case (BlockApplied n)
  then show ?thesis using assms that(2) [of n "At n None"] by simp
qed (use assms in simp_all)

lemma word_below: "k < n \<Longrightarrow> k \<le> n - 1" for k n :: u64
proof -
  assume less: "k < n"
  then have "n \<noteq> 0" by auto
  then have "uint (n - 1) = uint n - 1" using uint_predecessor one_le_iff by blast
  then show ?thesis using less by (simp add: word_less_def word_le_def)
qed

lemma in_step_lockstep:
  assumes "in_step start ix st snaps" "status_follows st p"
  obtains q where "p = Some q" "in_lockstep ix q"
proof (cases "ix_events ix")
  case Idle
  let ?w = "ix_blocks ix"
  obtain c where c: "idle_cursor st = Some c" "watcher_inv c ?w" using assms(1) Idle by (auto simp: in_step_def Let_def)
  have leads: "leads_on c ?w" using c(2) by (simp add: watcher_inv_def)
  from c(1) assms(2) show ?thesis
  proof (cases rule: cursor_read)
    case 1
    then have "in_lockstep ix Fresh" using leads Idle
      by (auto simp: in_lockstep_def leads_on_def split: list.splits block_update.splits)
    then show ?thesis using that 1 by blast
  next
    case (2 n q)
    obtain b i where q: "q = At b i" using 2(4) by (cases q) auto
    have "k \<le> b" if "k < n" for k using 2(3) q that word_below by auto
    then have "in_lockstep ix q" using leads Idle 2 q
      by (auto simp: in_lockstep_def leads_on_def split: list.splits block_update.splits option.splits if_splits)
    then show ?thesis using that 2(2) by blast
  qed
next
  case (FetchBlock n hash timestamp logs_bloom retries)
  then have "p = Some (At n None)" using assms by (simp add: in_step_def Let_def)
  then show ?thesis using that [of "At n None"] FetchBlock by (simp add: in_lockstep_def)
next
  case (Warping f t page_size fetched)
  then have "p = Some Fresh \<or> (\<exists>i. f \<noteq> 0 \<and> p = Some (At (f - 1) i))" using assms by (simp add: in_step_def Let_def)
  then show ?thesis using that Warping by (auto simp: in_lockstep_def)
qed

text \<open>
  Every state of a service is the result of its transition on an ordered history that it was told, and a live
  history of a launch that is well served ends where the indexer goes on.
\<close>

lemma service_states:
  assumes "service_run ss node served seen (d, stopped)" "machine_state (d_machine d) s"
  shows "\<exists>h. s = exec (ss_transition ss) (ss_init ss) h \<and> chain_position h \<noteq> None \<and> heard h \<subseteq> set seen"
proof (rule told_state_history [OF _ assms(2)])
  show "told_run (ss_transition ss) (ss_init ss) (set seen) (d_machine d)"
    using service_run_inv [OF assms(1)] by (simp add: driver_inv_def)
qed

lemma service_lockstep:
  assumes "service_run ss node served seen (d, None)" served
  shows "\<exists>s st h q. inner (d_machine d) = Some (s, st) \<and> s = exec (ss_transition ss) (ss_init ss) h \<and> heard h \<subseteq> set seen \<and>
    chain_position h = Some q \<and> in_lockstep (d_index d) q"
proof -
  obtain s st start where x: "told_run (ss_transition ss) (ss_init ss) (set seen) (d_machine d)" "inner (d_machine d) = Some (s, st)"
    "in_step start (d_index d) st (snapshots (d_machine d))"
    using service_run_inv [OF assms(1)] assms(2) by (auto simp: driver_inv_def)
  obtain h where h: "s = exec (ss_transition ss) (ss_init ss) h" "status_follows st (chain_position h)" "heard h \<subseteq> set seen"
    using told_live_history [OF x(1,2)] by blast
  obtain q where "chain_position h = Some q" "in_lockstep (d_index d) q" by (rule in_step_lockstep [OF x(3) h(2)])
  then show ?thesis using x(2) h by blast
qed

section \<open>A reorg of the first block\<close>

text \<open>
  C36: a reorg of the oldest block on record is not undone.  The machine fails for want of the parent's
  snapshot, the snapshot of the uncled block stays in the database, and when it is the only one, the next
  launch resumes from the uncled state at the block after it.
\<close>

theorem uncled_oldest_block_is_resumed:
  assumes "inner m = Some (s, st)" "accepts_uncle st b" "b \<noteq> 0" "unat b + 1 < 2 ^ 63"
    and "snapshots m = fmupd (uint b) u fmempty"
  shows "handle_update T True m (BlockUpdate (Uncle b)) = (m\<lparr>inner := None\<rparr>, Inl (Storage (MissingSnapshot (b - 1)))) \<and>
    with_init True init (snapshots (m\<lparr>inner := None\<rparr>)) = Inr \<lparr>inner = Some (u, BlockPending (b + 1)), snapshots = snapshots m\<rparr>"
proof -
  have "\<not> uint b - 1 |\<in>| fmdom (snapshots m)" using assms(5) by simp
  then have "handle_update T True m (BlockUpdate (Uncle b)) = (m\<lparr>inner := None\<rparr>, Inl (Storage (MissingSnapshot (b - 1))))"
    using machine_uncle [OF assms(1-3), of T] assms(4) by simp
  moreover have "checked_add b 1 = Some (b + 1)" using assms(4) by (simp add: checked_add_def)
  ultimately show ?thesis
    using assms(5) by (simp add: with_init_def current_def to_u64_def Let_def)
qed

text \<open>
  A service that collects the events it sees.  It is launched at block zero, processes block one with an event,
  and then learns that block two has another parent.
\<close>

definition gather :: "u64 list \<Rightarrow> (u64, unit) message \<Rightarrow> u64 list \<times> (unit, unit) command list" where
  "gather s msg = (case msg of Event l \<Rightarrow> s @ [log_data l] | _ \<Rightarrow> s, [])"

definition setup_of :: "('s, 'e, 'r, ('a, 'f) command) service \<Rightarrow> 's \<Rightarrow> 'e option \<Rightarrow> ('s, 'e, 'r, 'a, 'f) service_setup" where
  "setup_of T init decoded = \<lparr>ss_transition = T, ss_init = init, ss_encode = (\<lambda>_. (transaction_default, None)),
     ss_events = \<lparr>es_config = \<lparr>block_page_size = nz_of 1, block_single_query_retry_count = nz_of 1, use_client_filtering = False,
         max_logs_per_query = None, fallible_events = {||}\<rparr>,
       es_addresses = [1], es_topics = [2], es_decode = (\<lambda>_ _. decoded), es_bloom = (\<lambda>_. 0)\<rparr>,
     ss_blocks = \<lparr>bc_block_time = Millis 1, bc_propagation_delay = Millis 1, bc_retry_delays = Millis [], bc_max_reorg_depth = 2,
       bc_start_block = None\<rparr>,
     ss_timings = \<lparr>block_time = 1, block_propagation_delay = 1, block_retry_delays = []\<rparr>,
     ss_queue = sample_context\<rparr>"

definition sample_header :: "u64 \<Rightarrow> b256 \<Rightarrow> b256 \<Rightarrow> block_header" where
  "sample_header n hash parent = \<lparr>h_number = n, h_hash = hash, h_parent = parent, h_timestamp = 0, h_bloom = 0\<rparr>"

definition sample_node :: node where
  "sample_node t bid = Inr (case bid of
     Latest \<Rightarrow> Some (sample_header 0 10 9)
   | Number n \<Rightarrow> if n = 1 then Some (sample_header 1 11 10) else if n = 2 then Some (sample_header 2 22 21) else None)"

definition sample_fork :: node where
  "sample_fork t bid = Inr (case bid of
     Latest \<Rightarrow> Some (sample_header 2 22 21)
   | Number n \<Rightarrow> if n = 0 then Some (sample_header 0 10 9) else if n = 1 then Some (sample_header 1 21 10) else None)"

definition sample_logs :: log_node where
  "sample_logs = \<lparr>ln_logs = (\<lambda>blocks _. Inr (if blocks = ByHash 11
      then [\<lparr>rl_address = 1, rl_topics = [2], rl_data = [], rl_block = Some 1, rl_hash = Some 11, rl_timestamp = Some 0, rl_index = Some 0\<rparr>]
      else [])), ln_header = (\<lambda>_. Inr None)\<rparr>"

definition sample_watcher :: "nat \<Rightarrow> u64 \<Rightarrow> u64 \<Rightarrow> block_header list \<Rightarrow> block_watcher" where
  "sample_watcher t pending ms recent = \<lparr>w_requests = t, w_pending = pending, w_pending_ms = ms, w_safe = 0, w_safe_hash = 10,
     w_recent = recent, w_queue = []\<rparr>"

definition sample_driver :: "indexer \<Rightarrow> 's machine \<Rightarrow> 'f list \<Rightarrow> block_status list \<Rightarrow> ('s, 'f) driver" where
  "sample_driver ix m fs seen = \<lparr>d_index = ix, d_machine = m,
     d_queue = empty_queue\<lparr>tq_block_status := (if seen = [] then None else Some (last seen))\<rparr>, d_spawned = fs, d_housekeeping = seen\<rparr>"

definition sample_input :: input_env where
  "sample_input = \<lparr>ie_status = sample_env, ie_update = True, ie_prune = True, ie_queue = sample_env\<rparr>"

lemmas setup_simps = setup_of_def sample_node_def sample_fork_def sample_header_def sample_watcher_def Let_def

lemma sample_launch:
  "driver_new (setup_of T init decoded) sample_node 2 (True, True) fmempty (None, \<lambda>_. None, True, empty_tx_storage) =
   Some (Inr (sample_driver \<lparr>ix_blocks = sample_watcher 1 1 1 [], ix_events = Idle\<rparr>
     \<lparr>inner = Some (init, Initialized), snapshots = fmempty\<rparr> [] []))"
  by (simp add: setup_simps sample_driver_def sample_context_def empty_queue_def queue_new_def with_init_def current_def
      snapshot_status_def watcher_new_def resolve_timings_def resolve_def initialize_def require_block_def get_block_def
      sat_sub_def update_next_pending_block_def startup_updates_def anchor_safe_def eval_nat_numeral)

text \<open>The statuses that the queue sees while its tables are empty.\<close>

lemma empty_queue_status:
  assumes "env_db env = (\<lambda>_. True)" "unat (bs_latest status) + 1 < 2 ^ 63" "unat (bs_safe status) + 1 < 2 ^ 63"
  shows "update_block_status cx env (empty_queue\<lparr>tq_block_status := previous\<rparr>) status =
    (empty_queue\<lparr>tq_block_status := Some status\<rparr>, Inr ())"
proof -
  have "uint n < 2 ^ 63 \<and> uint (n + 1) < 2 ^ 63 \<and> checked_add n 1 = Some (n + 1)" if "unat n + 1 < 2 ^ 63" for n :: u64
    using that uint_small [of n 1] by (simp add: checked_add_def uint_word_ariths)
  then show ?thesis using assms
    by (cases previous) (auto simp: update_block_status_def observe_status_def empty_queue_def empty_tx_storage_def prune_storage_def
        unmark_from_def unmark_executed_def db_int_def storing_def asking_def count_outstanding_def empty_tables fin_simps fm_count_keys Let_def
        cong del: fmfilter_cong)
qed

lemmas poll_simps = index_next_def next_logs_def next_events_def next_block_update_def get_block_def observe_block_def
  update_next_pending_block_def new_update_def on_block_update_def

abbreviation "sample_setup_of T init e \<equiv> setup_of T init (Some e)"

abbreviation "block_one \<equiv> sample_header 1 11 10"

definition first_log :: "'e \<Rightarrow> 'e event_log" where
  "first_log e = \<lparr>log_block = 1, log_timestamp = 0, log_index = 0, log_address = 1, log_data = e\<rparr>"

definition sample_index :: "node \<Rightarrow> 'e \<Rightarrow> indexer \<Rightarrow> (indexer \<times> (index_error + 'e update)) option" where
  "sample_index node e ix =
     (let ss = setup_of (\<lambda>s _. (s, [])) () (Some e) :: (unit, 'e, unit, unit, unit) service_setup
      in index_next node (ss_blocks ss) (ss_timings ss) (ss_events ss) sample_logs 1 ix)"

lemma sample_next1:
  "sample_index sample_node e \<lparr>ix_blocks = sample_watcher 1 1 1 [], ix_events = Idle\<rparr> =
   Some (\<lparr>ix_blocks = sample_watcher 2 2 1 [block_one], ix_events = FetchBlock 1 11 0 0 0\<rparr>, Inr (BlockUpdate (New 1 11 0 0)))"
  by (simp add: sample_index_def setup_simps poll_simps)

lemma sample_next2:
  "sample_index sample_node e \<lparr>ix_blocks = sample_watcher 2 2 1 [block_one], ix_events = FetchBlock 1 11 0 0 0\<rparr> =
   Some (\<lparr>ix_blocks = sample_watcher 2 2 1 [block_one], ix_events = Idle\<rparr>,
     Inr (Logs \<lparr>eu_first = 1, eu_last = 1, eu_logs = [first_log e]\<rparr>))"
  by (simp add: sample_index_def first_log_def setup_simps poll_simps sample_logs_def fetch_block_def fetch_logs_def get_logs_def
      check_logs_limit_def decode_and_sort_def decode_raw_def)

lemma sample_next3:
  "sample_index sample_node e \<lparr>ix_blocks = sample_watcher 2 2 1 [block_one], ix_events = Idle\<rparr> =
   Some (\<lparr>ix_blocks = sample_watcher 3 1 0 [], ix_events = Idle\<rparr>, Inr (BlockUpdate (Uncle 1)))"
  by (simp add: sample_index_def setup_simps poll_simps)

text \<open>An update that the machine accepts and that asks for no transactions.\<close>

lemma quiet_update:
  assumes "handle_update T True m u = (m1, Inr cmds)" "prune_machine True m1 (bs_safe (index_status ix)) = (m2, Inr ())"
    and "action_transactions (\<lambda>_. (transaction_default, None)) cmds = []"
    and "unat (bs_latest (index_status ix)) + 1 < 2 ^ 63" "unat (bs_safe (index_status ix)) + 1 < 2 ^ 63"
  shows "driver_update (setup_of T init decoded) sample_input (sample_driver ix m fs seen) (Update u) =
    ((sample_driver ix m2 (fs @ spawned_effects cmds) (if is_new_block u then seen @ [index_status ix] else seen))
       \<lparr>d_queue := empty_queue\<lparr>tq_block_status := Some (index_status ix)\<rparr>\<rparr>, Inr ())"
proof -
  have db: "env_db sample_env = (\<lambda>_. True)" by (simp add: sample_env_def)
  have ss: "ss_transition (setup_of T init decoded) = T" "ss_encode (setup_of T init decoded) = (\<lambda>_. (transaction_default, None))"
    by (simp_all add: setup_of_def)
  show ?thesis using assms unfolding driver_update_def
    by (simp add: sample_driver_def sample_input_def ss empty_queue_status [OF db assms(4,5)] lift_intermittent_error_def
        dispatch_def Let_def)
qed

lemma sample_poll:
  assumes "sample_index node e ix = Some (ix', Inr u)"
  shows "driver_step (sample_setup_of T init e) node (sample_driver ix m fs seen, None) (Poll sample_logs 1 sample_input) =
    (case driver_update (sample_setup_of T init e) sample_input (sample_driver ix' m fs seen) (Update u) of
       (d, Inl err) \<Rightarrow> (d, Some err) | (d, Inr _) \<Rightarrow> (d, None))"
    "driver_told (sample_setup_of T init e) node (sample_driver ix m fs seen, None) (Poll sample_logs 1 sample_input) = events_of u"
  using assms by (simp_all add: sample_index_def sample_driver_def setup_of_def Let_def)

lemmas update_simps = index_status_def watcher_status_def sample_watcher_def sat_sub_def handle_update_def
  prune_machine_def prune_def to_i64_def is_new_block_def
  accumulate_transition_def handle_logs_def accepts_logs_def is_next_in_range_def blocks_of_def status_after_logs_def next_block_def
  checked_add_def checked_sub_def commit_def accepts_uncle_def reorg_def Let_def

text \<open>A service whose answers to the first block, its event and the second block ask for effects only.\<close>

definition quiet_start :: "('s, 'e, 'r, ('a, 'f) command) service \<Rightarrow> 's \<Rightarrow> 'e \<Rightarrow> 's \<Rightarrow> 's \<Rightarrow> 's \<Rightarrow> ('a, 'f) command list \<Rightarrow> bool" where
  "quiet_start T init e s1 s2 s3 cs \<longleftrightarrow>
     (\<exists>c1 c2 c3. T init (NewBlock 1) = (s1, c1) \<and> T s1 (Event (first_log e)) = (s2, c2) \<and> T s2 (NewBlock 2) = (s3, c3) \<and>
        cs = c1 @ c2 @ c3 \<and> action_transactions (\<lambda>_. (transaction_default, None)) cs = [])"

lemma no_transactions: "action_transactions f (xs @ ys) = [] \<longleftrightarrow> action_transactions f xs = [] \<and> action_transactions f ys = []"
  by (simp add: action_transactions_def)

lemma sample_status:
  "index_status \<lparr>ix_blocks = sample_watcher t p ms recent, ix_events = ev\<rparr> = \<lparr>bs_latest = p - 1, bs_safe = 0\<rparr>" if "p \<noteq> 0"
  using that by (simp add: index_status_def watcher_status_def sample_watcher_def sat_sub_def one_le_iff)

lemma sample_poll1:
  assumes "T init (NewBlock 1) = (s1, c1)" "action_transactions (\<lambda>_. (transaction_default, None)) c1 = []"
  shows "driver_step (sample_setup_of T init e) sample_node (sample_driver \<lparr>ix_blocks = sample_watcher 1 1 1 [], ix_events = Idle\<rparr>
     \<lparr>inner = Some (init, Initialized), snapshots = fmempty\<rparr> [] [], None) (Poll sample_logs 1 sample_input) =
   (sample_driver \<lparr>ix_blocks = sample_watcher 2 2 1 [block_one], ix_events = FetchBlock 1 11 0 0 0\<rparr>
     \<lparr>inner = Some (s1, BlockEvents 1), snapshots = fmempty\<rparr> (spawned_effects c1) [\<lparr>bs_latest = 1, bs_safe = 0\<rparr>], None)"
proof -
  let ?m = "\<lparr>inner = Some (s1, BlockEvents 1), snapshots = fmempty\<rparr>"
  have "handle_update T True \<lparr>inner = Some (init, Initialized), snapshots = fmempty\<rparr> (BlockUpdate (New 1 11 0 0)) = (?m, Inr c1)"
    using assms by (simp add: handle_update_def)
  from quiet_update [OF this _ assms(2), of "\<lparr>ix_blocks = sample_watcher 2 2 1 [block_one], ix_events = FetchBlock 1 11 0 0 0\<rparr>" ?m]
  show ?thesis unfolding sample_poll(1) [OF sample_next1]
    by (simp add: sample_status prune_nothing is_new_block_def) (simp add: sample_driver_def)
qed

lemma sample_poll2:
  assumes "T s1 (Event (first_log e)) = (s2, c2)" "T s2 (NewBlock 2) = (s3, c3)"
    and "action_transactions (\<lambda>_. (transaction_default, None)) (c2 @ c3) = []"
  shows "driver_step (sample_setup_of T init e) sample_node (sample_driver \<lparr>ix_blocks = sample_watcher 2 2 1 [block_one], ix_events = FetchBlock 1 11 0 0 0\<rparr>
     \<lparr>inner = Some (s1, BlockEvents 1), snapshots = fmempty\<rparr> fs [\<lparr>bs_latest = 1, bs_safe = 0\<rparr>], None)
     (Poll sample_logs 1 sample_input) =
   (sample_driver \<lparr>ix_blocks = sample_watcher 2 2 1 [block_one], ix_events = Idle\<rparr>
     \<lparr>inner = Some (s3, BlockApplied 2), snapshots = fmupd 1 s2 fmempty\<rparr> (fs @ spawned_effects (c2 @ c3)) [\<lparr>bs_latest = 1, bs_safe = 0\<rparr>], None)"
proof -
  let ?m = "\<lparr>inner = Some (s3, BlockApplied 2), snapshots = fmupd 1 s2 fmempty\<rparr>"
  have "handle_update T True \<lparr>inner = Some (s1, BlockEvents 1), snapshots = fmempty\<rparr>
      (Logs \<lparr>eu_first = 1, eu_last = 1, eu_logs = [first_log e]\<rparr>) = (?m, Inr (c2 @ c3))"
    using assms by (simp add: update_simps first_log_def)
  from quiet_update [OF this _ assms(3), of "\<lparr>ix_blocks = sample_watcher 2 2 1 [block_one], ix_events = Idle\<rparr>" ?m]
  show ?thesis unfolding sample_poll(1) [OF sample_next2]
    by (simp add: sample_status prune_nothing is_new_block_def) (simp add: sample_driver_def)
qed

text \<open>An update that the machine refuses.\<close>

lemma refused_update:
  assumes "handle_update T True m u = (m1, Inl err)"
    and "unat (bs_latest (index_status ix)) + 1 < 2 ^ 63" "unat (bs_safe (index_status ix)) + 1 < 2 ^ 63"
  shows "\<exists>d. driver_update (setup_of T init decoded) sample_input (sample_driver ix m fs seen) (Update u) =
    (d, Inl (DriverState err)) \<and> d_machine d = m1"
proof -
  have db: "env_db sample_env = (\<lambda>_. True)" by (simp add: sample_env_def)
  have ss: "ss_transition (setup_of T init decoded) = T" by (simp add: setup_of_def)
  show ?thesis using assms unfolding driver_update_def
    by (simp add: sample_driver_def sample_input_def ss empty_queue_status [OF db assms(2,3)] lift_intermittent_error_def Let_def)
qed

lemma sample_honest: "honest (ss_events (sample_setup_of T init e)) sample_logs (FetchBlock 1 11 0 0 0)"
  unfolding honest_def event_step.case
proof (intro allI impI)
  fix f logs
  assume "fetch_logs (ss_events (sample_setup_of T init e)) sample_logs f = Inr logs" "fetched_blocks f = ByHash 11"
  then show "placed 1 1 logs"
    by (cases f) (auto simp: fetch_logs_def get_logs_def sample_logs_def setup_simps check_logs_limit_def query_topic_def
        placed_def split: if_splits)
qed

lemma sample_nodes: "node_ok sample_node" "node_ok sample_fork"
  by (auto simp: node_ok_def sample_node_def sample_fork_def sample_header_def split: block_id.splits if_splits)

lemma sample_running:
  assumes "quiet_start T init e s1 s2 s3 cs"
  shows "service_run (sample_setup_of T init e) sample_node True [Event (first_log e)]
    (sample_driver \<lparr>ix_blocks = sample_watcher 2 2 1 [block_one], ix_events = Idle\<rparr>
     \<lparr>inner = Some (s3, BlockApplied 2), snapshots = fmupd 1 s2 fmempty\<rparr> (spawned_effects cs) [\<lparr>bs_latest = 1, bs_safe = 0\<rparr>], None)"
proof -
  let ?ss = "sample_setup_of T init e"
  obtain c1 c2 c3 where c: "T init (NewBlock 1) = (s1, c1)" "T s1 (Event (first_log e)) = (s2, c2)" "T s2 (NewBlock 2) = (s3, c3)"
    "cs = c1 @ c2 @ c3" "action_transactions (\<lambda>_. (transaction_default, None)) cs = []"
    using assms unfolding quiet_start_def by blast
  then have quiet: "action_transactions (\<lambda>_. (transaction_default, None)) c1 = []"
    "action_transactions (\<lambda>_. (transaction_default, None)) (c2 @ c3) = []" by (simp_all add: no_transactions)
  have usable: "node_usable (ss_blocks ?ss) sample_node (fmempty :: 'a snapshots)"
    using sample_nodes by (auto simp: node_usable_def snapshot_status_def start_reached_def setup_of_def)
  have 0: "service_run ?ss sample_node True [] (sample_driver \<lparr>ix_blocks = sample_watcher 1 1 1 [], ix_events = Idle\<rparr>
     \<lparr>inner = Some (init, Initialized), snapshots = fmempty\<rparr> [] [], None)"
    using service_run.Launch [OF sample_launch, of T init "Some e"] usable by simp
  have 1: "service_run ?ss sample_node True [] (sample_driver \<lparr>ix_blocks = sample_watcher 2 2 1 [block_one],
      ix_events = FetchBlock 1 11 0 0 0\<rparr> \<lparr>inner = Some (s1, BlockEvents 1), snapshots = fmempty\<rparr> (spawned_effects c1) [\<lparr>bs_latest = 1, bs_safe = 0\<rparr>], None)"
    using service_run.Step [OF 0, of "Poll sample_logs 1 sample_input"]
    unfolding sample_poll1 [of T init s1 c1, OF c(1) quiet(1)] sample_poll(2) [OF sample_next1]
    by (simp add: honest_def sample_driver_def events_of_def)
  show ?thesis using service_run.Step [OF 1, of "Poll sample_logs 1 sample_input"] sample_honest [of T init e]
    unfolding sample_poll2 [of T s1 e s2 c2 s3 c3, OF c(2,3) quiet(2)] sample_poll(2) [OF sample_next2]
    by (simp add: sample_driver_def events_of_def c(4) spawned_effects_def)
qed

lemma sample_stopped:
  assumes "quiet_start T init e s1 s2 s3 cs"
  shows "\<exists>d. service_run (sample_setup_of T init e) sample_node True [Event (first_log e)] (d, Some (DriverState (Storage (MissingSnapshot 0)))) \<and>
     snapshots (d_machine d) = fmupd 1 s2 fmempty"
proof -
  let ?m = "\<lparr>inner = Some (s3, BlockApplied 2), snapshots = fmupd 1 s2 fmempty\<rparr>"
  have h: "handle_update T True ?m (BlockUpdate (Uncle 1)) = (?m\<lparr>inner := None\<rparr>, Inl (Storage (MissingSnapshot 0)))"
    by (simp add: update_simps)
  obtain d where d: "driver_update (sample_setup_of T init e) sample_input
      (sample_driver \<lparr>ix_blocks = sample_watcher 3 1 0 [], ix_events = Idle\<rparr> ?m (spawned_effects cs) [\<lparr>bs_latest = 1, bs_safe = 0\<rparr>])
      (Update (BlockUpdate (Uncle 1))) = (d, Inl (DriverState (Storage (MissingSnapshot 0))))" "d_machine d = ?m\<lparr>inner := None\<rparr>"
    using refused_update [OF h, of "\<lparr>ix_blocks = sample_watcher 3 1 0 [], ix_events = Idle\<rparr>" init "Some e"
        "spawned_effects cs" "[\<lparr>bs_latest = 1, bs_safe = 0\<rparr>]"] by (auto simp: update_simps)
  show ?thesis
    using service_run.Step [OF sample_running [OF assms], of "Poll sample_logs 1 sample_input"] d
    unfolding sample_poll [OF sample_next3]
    by (intro exI [of _ d]) (simp add: honest_def sample_driver_def events_of_def)
qed

lemma sample_relaunch:
  "driver_new (setup_of T init decoded) sample_fork (Suc (Suc (Suc (Suc 0)))) (True, True) (fmupd 1 s fmempty) (None, \<lambda>_. None, True, empty_tx_storage) =
   Some (Inr (sample_driver \<lparr>ix_blocks = (sample_watcher 3 3 1 [sample_header 1 21 10, sample_header 2 22 21])
       \<lparr>w_queue := [New 2 22 0 0]\<rparr>, ix_events = Idle\<rparr>
     \<lparr>inner = Some (s, BlockPending 2), snapshots = fmupd 1 s fmempty\<rparr> [] []))"
  by (simp add: setup_simps sample_driver_def sample_context_def empty_queue_def queue_new_def with_init_def current_def
      snapshot_status_def to_u64_def checked_add_def watcher_new_def resolve_timings_def resolve_def initialize_def require_block_def
      get_block_def sat_sub_def update_next_pending_block_def startup_updates_def anchor_safe_def unprocessed_def new_update_def
      word_le_nat_alt)

lemma sample_relaunched:
  assumes "quiet_start T init e s1 s2 s3 cs"
  shows "\<exists>d. service_run (sample_setup_of T init e) sample_fork True [Event (first_log e)] (d, None) \<and>
    inner (d_machine d) = Some (s2, BlockPending 2) \<and> w_queue (ix_blocks (d_index d)) = [New 2 22 0 0] \<and> ix_events (d_index d) = Idle"
proof -
  have "snapshot_status True (fmupd 1 s2 fmempty) = Inr (Some \<lparr>bs_latest = 1, bs_safe = 1\<rparr>)"
    by (simp add: snapshot_status_def to_u64_def)
  then have usable: "node_usable (ss_blocks (sample_setup_of T init e)) sample_fork (fmupd 1 s2 fmempty)"
    using sample_nodes by (auto simp: node_usable_def start_reached_def sample_fork_def sample_header_def)
  let ?d = "sample_driver \<lparr>ix_blocks = (sample_watcher 3 3 1 [sample_header 1 21 10, sample_header 2 22 21])
       \<lparr>w_queue := [New 2 22 0 0]\<rparr>, ix_events = Idle\<rparr> \<lparr>inner = Some (s2, BlockPending 2), snapshots = fmupd 1 s2 fmempty\<rparr> [] []"
  have "service_run (sample_setup_of T init e) sample_fork True [Event (first_log e)] (?d, None)"
    using service_run.Relaunch [OF sample_running [OF assms], of sample_fork "Suc (Suc (Suc (Suc 0)))" "(True, True)"
        "(None, \<lambda>_. None, True, empty_tx_storage)"] sample_relaunch [of T init "Some e" s2] usable by (simp add: sample_driver_def)
  then show ?thesis by (intro exI [of _ ?d]) (simp add: sample_driver_def)
qed

lemma sample_behind:
  "driver_new (setup_of T init decoded) sample_node (Suc (Suc (Suc (Suc 0)))) (True, True) (fmupd 1 s fmempty) (None, \<lambda>_. None, True, empty_tx_storage) =
   Some (Inr (sample_driver \<lparr>ix_blocks = sample_watcher 1 1 1 [], ix_events = Idle\<rparr>
     \<lparr>inner = Some (s, BlockPending 2), snapshots = fmupd 1 s fmempty\<rparr> [] []))"
  by (simp add: setup_simps sample_driver_def sample_context_def empty_queue_def queue_new_def with_init_def current_def
      snapshot_status_def to_u64_def checked_add_def watcher_new_def resolve_timings_def resolve_def initialize_def require_block_def
      get_block_def sat_sub_def update_next_pending_block_def startup_updates_def anchor_safe_def unprocessed_def new_update_def
      word_le_nat_alt)

section \<open>A sample service\<close>

lemma gather_start: "quiet_start gather [] 7 [] [7] [7] []"
  by (simp add: quiet_start_def gather_def first_log_def action_transactions_def)

text \<open>
  A launch that is not well served.  The service has indexed block one and is launched again on a node whose head is
  still block zero: the indexer starts over at block one, and the machine, which awaits block two, refuses it.
\<close>

lemma head_behind_is_refused:
  "\<exists>d seen. service_run (sample_setup_of gather [] 7) sample_node False seen (d, Some (DriverState BadUpdate))"
proof -
  let ?ss = "sample_setup_of gather [] 7" and ?m = "\<lparr>inner = Some ([7], BlockPending 2), snapshots = fmupd 1 [7] fmempty\<rparr>"
  let ?ix = "\<lparr>ix_blocks = sample_watcher 2 2 1 [block_one], ix_events = FetchBlock 1 11 0 0 0\<rparr>"
  have "snapshot_status True (fmupd 1 [7 :: u64] fmempty) = Inr (Some \<lparr>bs_latest = 1, bs_safe = 1\<rparr>)"
    by (simp add: snapshot_status_def to_u64_def)
  then have "\<not> node_usable (ss_blocks ?ss) sample_node (fmupd 1 [7 :: u64] fmempty)"
    by (auto simp: node_usable_def start_reached_def sample_node_def sample_header_def)
  then have 1: "service_run ?ss sample_node False [Event (first_log 7)] (sample_driver \<lparr>ix_blocks = sample_watcher 1 1 1 [], ix_events = Idle\<rparr> ?m [] [], None)"
    using service_run.Relaunch [OF sample_running [OF gather_start], of sample_node "Suc (Suc (Suc (Suc 0)))" "(True, True)"
        "(None, \<lambda>_. None, True, empty_tx_storage)"] sample_behind [of gather "[]" "Some 7" "[7]"] by (simp add: sample_driver_def)
  have h: "handle_update gather True ?m (BlockUpdate (New 1 11 0 0)) = (?m\<lparr>inner := None\<rparr>, Inl BadUpdate)"
    by (simp add: handle_update_def)
  obtain d where "driver_update ?ss sample_input (sample_driver ?ix ?m [] []) (Update (BlockUpdate (New 1 11 0 0))) = (d, Inl (DriverState BadUpdate))"
    using refused_update [OF h, of ?ix "[]" "Some 7" "[]" "[]"] by (auto simp: sample_status)
  then show ?thesis
    using service_run.Step [OF 1, of "Poll sample_logs 1 sample_input"] unfolding sample_poll [OF sample_next1] by auto
qed

theorem service_stops_for_a_reason_witness:
  "\<exists>d b seen. service_run (sample_setup_of gather [] 7) sample_node True seen (d, Some (DriverState (Storage (MissingSnapshot b)))) \<and>
     fmdom (snapshots (d_machine d)) \<noteq> {||} \<and> (\<forall>j. j |\<in>| fmdom (snapshots (d_machine d)) \<longrightarrow> uint b < j)"
proof -
  obtain d seen where d: "service_run (sample_setup_of gather [] 7) sample_node True seen (d, Some (DriverState (Storage (MissingSnapshot 0))))"
    "snapshots (d_machine d) = fmupd 1 [7] fmempty" using sample_stopped [OF gather_start] by blast
  from service_stops_for_a_reason [OF d(1)] have "\<forall>j. j |\<in>| fmdom (snapshots (d_machine d)) \<longrightarrow> uint (0 :: u64) < j" by simp
  with d show ?thesis by (intro exI [of _ d] exI [of _ 0] exI [of _ seen]) simp
qed

theorem uncled_oldest_block_is_resumed_witness:
  "let m = \<lparr>inner = Some ([7], BlockApplied 2), snapshots = fmupd 1 [7] fmempty\<rparr>
   in (\<exists>ix fs seen seen'. service_run (sample_setup_of gather [] 7) sample_node True seen (sample_driver ix m fs seen', None)) \<and>
      snd (handle_update gather True m (BlockUpdate (Uncle 1))) = Inl (Storage (MissingSnapshot 0)) \<and>
      (\<exists>d. driver_new (sample_setup_of gather [] 7) sample_fork (Suc (Suc (Suc (Suc 0)))) (True, True)
         (snapshots (fst (handle_update gather True m (BlockUpdate (Uncle 1))))) (None, \<lambda>_. None, True, empty_tx_storage) = Some (Inr d) \<and>
         inner (d_machine d) = Some ([7], BlockPending 2) \<and> w_queue (ix_blocks (d_index d)) = [New 2 22 0 0])"
proof -
  let ?m = "\<lparr>inner = Some ([7 :: u64], BlockApplied 2), snapshots = fmupd 1 [7] fmempty\<rparr>"
  have "accepts_uncle (BlockApplied 2) 1" by (simp add: accepts_uncle_def)
  then have "handle_update gather True ?m (BlockUpdate (Uncle 1)) = (?m\<lparr>inner := None\<rparr>, Inl (Storage (MissingSnapshot 0)))"
    using uncled_oldest_block_is_resumed [of ?m "[7]" "BlockApplied 2" 1 "[7]" gather] by simp
  then have h: "snd (handle_update gather True ?m (BlockUpdate (Uncle 1))) = Inl (Storage (MissingSnapshot 0))"
    "snapshots (fst (handle_update gather True ?m (BlockUpdate (Uncle 1)))) = fmupd 1 [7] fmempty" by simp_all
  show ?thesis unfolding Let_def h
    by (intro conjI exI, rule sample_running [OF gather_start], rule refl, rule sample_relaunch) (simp_all add: sample_driver_def)
qed

end
