(* ===== verification/Strings.thy ===== *)
theory Strings
  imports Prelude
begin

text \<open>
  What the services use of strings: the printing and parsing of unsigned integers, prefixes, and splitting at
  a character.  A string is its list of bytes; the characters that the code looks for are ASCII, so they are
  found at the same places in the bytes and in the characters of a UTF-8 string.
\<close>

section \<open>Decimal numbers\<close>

text \<open>
  What \<open>Display\<close> prints and \<open>FromStr\<close> reads for an unsigned integer: digits, with an optional leading plus
  sign when reading.  A value that does not fit is an error.
\<close>

definition digit_char :: "nat \<Rightarrow> char" where
  "digit_char d = char_of (48 + d)"

definition digit_value :: "char \<Rightarrow> nat option" where
  "digit_value c = (let n = of_char c :: nat in if 48 \<le> n \<and> n \<le> 57 then Some (n - 48) else None)"

fun decimal :: "nat \<Rightarrow> string" where
  "decimal n = (if n < 10 then [digit_char n] else decimal (n div 10) @ [digit_char (n mod 10)])"

declare decimal.simps [simp del]

fun parse_digits :: "nat \<Rightarrow> nat \<Rightarrow> string \<Rightarrow> nat option" where
  "parse_digits limit acc [] = Some acc"
| "parse_digits limit acc (c # cs) =
     (case digit_value c of
        None \<Rightarrow> None
      | Some d \<Rightarrow> if acc * 10 + d < limit then parse_digits limit (acc * 10 + d) cs else None)"

definition parse_uint :: "string \<Rightarrow> 'a::len word option" where
  "parse_uint s =
     (let digits = (if s \<noteq> [] \<and> hd s = CHR ''+'' then tl s else s)
      in if digits = [] then None else map_option of_nat (parse_digits (2 ^ LENGTH('a)) 0 digits))"

lemma digit_value_char [simp]: "d < 10 \<Longrightarrow> digit_value (digit_char d) = Some d"
  by (simp add: digit_value_def digit_char_def)

lemma decimal_nonempty [simp]: "decimal n \<noteq> []"
  by (subst decimal.simps) simp

lemma decimal_digits: "c \<in> set (decimal n) \<Longrightarrow> digit_value c \<noteq> None"
  by (induction n rule: decimal.induct) (subst (asm) (2) decimal.simps, auto split: if_splits)

lemma parse_decimal: "n < limit \<Longrightarrow> parse_digits limit 0 (decimal n @ cs) = parse_digits limit n cs"
proof (induction n arbitrary: cs rule: decimal.induct)
  case (1 n)
  show ?case
  proof (cases "n < 10")
    case True
    then show ?thesis using 1 by (simp add: decimal.simps)
  next
    case False
    then have "decimal n = decimal (n div 10) @ [digit_char (n mod 10)]" by (subst decimal.simps) simp
    then show ?thesis using 1 False by simp
  qed
qed

lemma decimal_no_sign: "hd (decimal n) \<noteq> CHR ''+''" "CHR ''.'' \<notin> set (decimal n)"
  using decimal_digits [of "hd (decimal n)" n] decimal_digits [of "CHR ''.''" n]
  by (auto simp: digit_value_def hd_in_set)

lemma parse_uint_decimal: "parse_uint (decimal (unat w)) = Some w"
  using parse_decimal [of "unat w" _ "[]"] unat_less_exp [of w] decimal_no_sign(1)
  by (simp add: parse_uint_def Let_def)

section \<open>Prefixes and splitting\<close>

definition strip_prefix :: "string \<Rightarrow> string \<Rightarrow> string option" where
  "strip_prefix p s = (if take (length p) s = p then Some (drop (length p) s) else None)"

fun split_once :: "char \<Rightarrow> string \<Rightarrow> (string \<times> string) option" where
  "split_once c [] = None"
| "split_once c (x # xs) = (if x = c then Some ([], xs) else map_option (apfst (Cons x)) (split_once c xs))"

lemma split_once_append: "c \<notin> set xs \<Longrightarrow> split_once c (xs @ c # ys) = Some (xs, ys)"
  by (induction xs) auto

lemma split_once_Some: "split_once c s = Some (xs, ys) \<longleftrightarrow> s = xs @ c # ys \<and> c \<notin> set xs"
proof (induction s arbitrary: xs)
  case (Cons x s)
  then show ?case by (cases xs) auto
qed simp

lemma split_once_None: "split_once c s = None \<longleftrightarrow> c \<notin> set s"
  by (induction s) auto

end
