(* ===== verification/Sentinel_Types.thy ===== *)
theory Sentinel_Types
  imports Hashing Messages Strings
begin

text \<open>
  The data of the sentinel service (\<^verbatim>\<open>crates/sentinel/src/\<close>): contract events (\<^verbatim>\<open>bindings.rs\<close>), tracked
  requests (\<^verbatim>\<open>state.rs\<close>), actions and effects (\<^verbatim>\<open>action.rs\<close>, \<^verbatim>\<open>effect.rs\<close>), check outcomes and rule
  citations (\<^verbatim>\<open>engine.rs\<close>) and the hashes of votes and proposals (\<^verbatim>\<open>hashing.rs\<close>).  A Rust string is the list
  of its bytes, read as characters.
\<close>

type_synonym u24 = "24 word"
type_synonym u32 = "32 word"
type_synonym u96 = "96 word"

section \<open>Rule citations and check outcomes\<close>

datatype rule_id = RuleId u32 u32

definition parse_rule :: "string \<Rightarrow> rule_id option" where
  "parse_rule code =
     (case strip_prefix ''R-'' code of
        None \<Rightarrow> None
      | Some rest \<Rightarrow>
          (case split_once CHR ''.'' rest of
             None \<Rightarrow> None
           | Some (sec, rule) \<Rightarrow>
               (case parse_uint sec of
                  None \<Rightarrow> None
                | Some a \<Rightarrow> (case parse_uint rule of None \<Rightarrow> None | Some b \<Rightarrow> Some (RuleId a b)))))"

fun display_rule :: "rule_id \<Rightarrow> string" where
  "display_rule (RuleId a b) = ''R-'' @ decimal (unat a) @ ''.'' @ decimal (unat b)"

text \<open>A printed citation parses back to the same rule, so a recorded verdict is read as it was written.\<close>

lemma rule_roundtrip: "parse_rule (display_rule r) = Some r"
proof (cases r)
  case (RuleId a b)
  then show ?thesis
    using split_once_append [OF decimal_no_sign(2), of "unat a" "decimal (unat b)"]
    by (simp add: parse_rule_def strip_prefix_def parse_uint_decimal)
qed

lemma display_rule_inject: "display_rule r = display_rule r' \<longleftrightarrow> r = r'"
  by (metis option.inject rule_roundtrip)

datatype check_outcome =
    Approved
  | Denied rule_id
  | Unknown

text \<open>The engine's response; a failed request is no response at all.\<close>

datatype engine_response =
    SecureResponse
  | InsecureResponse rule_id
  | AbstainResponse

fun response_outcome :: "engine_response option \<Rightarrow> check_outcome" where
  "response_outcome (Some SecureResponse) = Approved"
| "response_outcome (Some (InsecureResponse rule)) = Denied rule"
| "response_outcome (Some AbstainResponse) = Unknown"
| "response_outcome None = Unknown"

section \<open>Contract events\<close>

datatype oracle_request_state = NONE | PENDING | FROZEN | RESOLVED_APPROVED | RESOLVED_DENIED | TIMED_OUT

datatype sentinel_oracle_event =
    NewRequest b256 address u96 u96 u24 u96 u64 u64
      \<comment> \<open>requestId, sponsor, fee, bondTarget, daoFeeShare, slashAmount, commitDeadline, revealDeadline\<close>
  | Committed b256 address u96
      \<comment> \<open>requestId, sentinel, bondAmount\<close>
  | Revealed b256 address bool u96 string
      \<comment> \<open>requestId, sentinel, approved, bondAmount, reason\<close>
  | DisputeTriggered b256 u64
      \<comment> \<open>requestId, deadline\<close>
  | DisputeResolved b256 oracle_request_state u128 string
      \<comment> \<open>requestId, outcome, slashed, context\<close>
  | RequestTimedOut b256
  | OracleResolved b256 address bytes bool
      \<comment> \<open>the event \<open>OracleResult\<close>: requestId, sponsor, result, approved\<close>
  | ArbitrationTimedOut b256
  | DisputeOutOfScope b256 string
  | Claimed b256 address u96 u96
      \<comment> \<open>requestId, sentinel, bondReturn, feeReward\<close>

datatype sentinel_event =
    ProposalEvent b256 b256 address u64 bytes safe_transaction
      \<comment> \<open>the event \<open>TransactionProposed\<close>: safeTxHash, safeId, oracle, epoch, oracleData, transaction\<close>
  | SentinelOracleEvent sentinel_oracle_event

section \<open>Tracked requests\<close>

record voting_terms =
  vt_bond_target :: u96
  vt_slash_amount :: u96
  vt_commit_deadline :: u64
  vt_reveal_deadline :: u64

datatype request_state =
    WaitingForEngineCheck u64 "voting_terms option"
      \<comment> \<open>deadline, request\<close>
  | WaitingForRequest bool string u64
      \<comment> \<open>approve, reason, deadline\<close>
  | CollectingCommits bool string u96 u64 u64 u64 bool
      \<comment> \<open>the state \<open>CollectingCommitments\<close>: approve, reason, slash amount, commit deadline, reveal deadline,
          committed count, self committed\<close>
  | CollectingVotes bool u96 u64 u64 u64 u64 u64 bool
      \<comment> \<open>approve, slash amount, reveal deadline, committed, revealed, approve and deny counts, self revealed\<close>
  | WaitingForOutcome bool u96
      \<comment> \<open>approve, slash amount\<close>
  | WaitingForDisputeResolution bool u96 u64
      \<comment> \<open>approve, slash amount, arbitration deadline\<close>

type_synonym sentinel_state = "(b256, request_state) fmap"

fun approve_and_slash_amount :: "request_state \<Rightarrow> (bool \<times> u96) option" where
  "approve_and_slash_amount (WaitingForEngineCheck d r) = None"
| "approve_and_slash_amount (WaitingForRequest a r d) = None"
| "approve_and_slash_amount (CollectingCommits a r sl cd rd c self) = (if self then Some (a, sl) else None)"
| "approve_and_slash_amount (CollectingVotes a sl rd c rv ac dc self) = Some (a, sl)"
| "approve_and_slash_amount (WaitingForOutcome a sl) = Some (a, sl)"
| "approve_and_slash_amount (WaitingForDisputeResolution a sl d) = Some (a, sl)"

fun self_revealed :: "request_state \<Rightarrow> bool" where
  "self_revealed (CollectingVotes a sl rd c rv ac dc self) = self"
| "self_revealed (WaitingForOutcome a sl) = True"
| "self_revealed (WaitingForDisputeResolution a sl d) = True"
| "self_revealed _ = False"

section \<open>Actions and effects\<close>

datatype sentinel_action_kind =
    ApproveToken u256
  | Commit b256 b256
      \<comment> \<open>id, hash\<close>
  | Reveal b256 bool b256 string
      \<comment> \<open>id, approve, salt, reason\<close>
  | Finalize b256
  | Claim b256
  | TimeoutArbitration b256

record sentinel_action =
  act_kind :: sentinel_action_kind
  act_expires_at :: "u64 option"

datatype sentinel_effect = EngineCheck b256 safe_transaction u64 u64
  \<comment> \<open>request id, transaction, proposal timestamp, block\<close>

datatype sentinel_resume = EngineCheckResult b256 check_outcome
  \<comment> \<open>request id, outcome\<close>

type_synonym sentinel_command = "(sentinel_action, sentinel_effect) command"
type_synonym sentinel_message = "(sentinel_event, sentinel_resume) message"

section \<open>Hashes\<close>

text \<open>
  The preimage of a commitment: the vote, the salt, the sentinel, the request and the reason, packed.
\<close>

definition utf8 :: "string \<Rightarrow> bytes" where
  "utf8 s = map of_char s"

definition commit_preimage :: "address \<Rightarrow> b256 \<Rightarrow> bool \<Rightarrow> b256 \<Rightarrow> string \<Rightarrow> bytes" where
  "commit_preimage sentinel request_id approve salt reason =
     [if approve then 1 else 0] @ be_bytes 32 salt @ be_bytes 20 sentinel @ be_bytes 32 request_id @ utf8 reason"

definition commit_hash :: "keccak \<Rightarrow> address \<Rightarrow> b256 \<Rightarrow> bool \<Rightarrow> b256 \<Rightarrow> string \<Rightarrow> b256" where
  "commit_hash H sentinel request_id approve salt reason = H (commit_preimage sentinel request_id approve salt reason)"

definition reveal_salt_domain :: bytes where
  "reveal_salt_domain = utf8 ''safenet-sentinel-reveal-salt''"

definition reveal_salt :: "(bytes \<Rightarrow> bytes \<Rightarrow> b256) \<Rightarrow> b256 \<Rightarrow> b256" where
  "reveal_salt derive_key request_id = derive_key reveal_salt_domain (be_bytes 32 request_id)"

datatype transaction_proposal = TransactionProposal u64 address bytes b256
  \<comment> \<open>epoch, oracle, oracleData, safeTxHash\<close>

definition oracle_tx_proposal_hash :: "(eip712_domain \<Rightarrow> transaction_proposal \<Rightarrow> b256) \<Rightarrow> u256 \<Rightarrow> address \<Rightarrow>
    u64 \<Rightarrow> address \<Rightarrow> bytes \<Rightarrow> b256 \<Rightarrow> b256" where
  "oracle_tx_proposal_hash signing_hash chain_id consensus epoch oracle oracle_data stx_hash =
     signing_hash \<lparr>dom_chain_id = chain_id, dom_contract = consensus\<rparr>
       (TransactionProposal epoch oracle oracle_data stx_hash)"

lemma of_char_u8_inject: "(of_char c :: u8) = of_char d \<longleftrightarrow> c = d"
proof
  assume eq: "(of_char c :: u8) = of_char d"
  have "unat (of_char c :: u8) = of_char c" for c :: char
    using unat_of_nat [where ?'a = 8, of "of_char c"] by (simp add: of_nat_of_char)
  then show "c = d" by (metis eq of_char_eq_iff)
qed simp

lemma utf8_inject: "utf8 s = utf8 t \<longleftrightarrow> s = t"
  by (simp add: utf8_def inj_map_eq_map inj_def of_char_u8_inject)

lemma commit_preimage_inject:
  "commit_preimage a i v s r = commit_preimage a' i' v' s' r' \<longleftrightarrow> (a, i, v, s, r) = (a', i', v', s', r')"
  by (auto simp: commit_preimage_def be_bytes_inject utf8_inject)

end
