(* ===== verification/Encoders.thy ===== *)
theory Encoders
  imports Validator_State Sentinel_Types Tx_Bundle
begin

text \<open>
  The action encoders of the two services (\<^verbatim>\<open>crates/validator/src/service/action.rs\<close> and
  \<^verbatim>\<open>crates/sentinel/src/service.rs\<close>) and the construction of the validator service
  (\<^verbatim>\<open>crates/validator/src/service/mod.rs\<close>).  The call data that alloy encodes for a contract function is a
  parameter.
\<close>

section \<open>Validator\<close>

datatype validator_call =
    KeyGenAndCommitCall b256 u16 u16 b256 "b256 list" kg_commitment
  | KeyGenSecretShareCall b256 kg_secret_share
  | KeyGenComplainCall b256 address
  | KeyGenConfirmWithCallbackCall b256 callback
  | KeyGenConfirmCall b256
  | KeyGenComplaintResponseCall b256 address u256
  | SignCommitNoncesCall b256 sign_nonces
  | SignShareWithCallbackCall b256 sign_selection abi_signature_share "b256 list" callback
  | SignCall b256 b256
  | AttestTransactionRequest attest_transaction_call
  | StageEpochRequest stage_epoch_call
  | SetValidatorStakerCall address

record encoder =
  enc_coordinator :: address
  enc_consensus :: address
  enc_abi :: "validator_call \<Rightarrow> bytes"

definition contract_call :: "address \<Rightarrow> bytes \<Rightarrow> u64 \<Rightarrow> transaction" where
  "contract_call to data gas = \<lparr>t_to = to, t_value = 0, t_data = data, t_gas = gas\<rparr>"

definition share_gas :: "kg_secret_share \<Rightarrow> u64" where
  "share_gas share = 250000 + 25000 * of_nat (length (kgs_f share))"

fun encode_action :: "encoder \<Rightarrow> action \<Rightarrow> transaction \<times> u64 option" where
  "encode_action E (KeyGenAndCommit participants count threshold ctxt poap commitment expires_at) =
     (contract_call (enc_coordinator E)
        (enc_abi E (KeyGenAndCommitCall participants count threshold ctxt poap commitment)) 250000, expires_at)"
| "encode_action E (KeyGenSecretShare gid share expires_at) =
     (contract_call (enc_coordinator E) (enc_abi E (KeyGenSecretShareCall gid share)) (share_gas share), expires_at)"
| "encode_action E (KeyGenComplain gid accused expires_at) =
     (contract_call (enc_coordinator E) (enc_abi E (KeyGenComplainCall gid accused)) 300000, expires_at)"
| "encode_action E (KeyGenConfirm gid cb expires_at) =
     (let (data, gas) = (case cb of
             Some cb \<Rightarrow> (enc_abi E (KeyGenConfirmWithCallbackCall gid cb), 300000)
           | None \<Rightarrow> (enc_abi E (KeyGenConfirmCall gid), 200000))
      in (contract_call (enc_coordinator E) data gas, expires_at))"
| "encode_action E (KeyGenComplaintResponse gid plaintiff secret_share expires_at) =
     (contract_call (enc_coordinator E) (enc_abi E (KeyGenComplaintResponseCall gid plaintiff secret_share)) 300000,
      expires_at)"
| "encode_action E (CommitNonces sid nonces expires_at) =
     (contract_call (enc_coordinator E) (enc_abi E (SignCommitNoncesCall sid nonces)) 100000, Some expires_at)"
| "encode_action E (SignShare sid selection share proof cb expires_at) =
     (contract_call (enc_coordinator E)
        (enc_abi E (SignShareWithCallbackCall sid selection share proof cb)) 400000, Some expires_at)"
| "encode_action E (SignRequest gid msg expires_at) =
     (contract_call (enc_coordinator E) (enc_abi E (SignCall gid msg)) 150000, Some expires_at)"
| "encode_action E (AttestTransaction epoch oracle oracle_data_hash chain_id safe struct_hash sid expires_at) =
     (contract_call (enc_consensus E)
        (enc_abi E (AttestTransactionRequest
           (AttestTransactionCall (raw_value epoch) oracle oracle_data_hash chain_id safe struct_hash sid))) 250000,
      Some expires_at)"
| "encode_action E (StageEpoch proposed_epoch rollover_block gid sid expires_at) =
     (contract_call (enc_consensus E)
        (enc_abi E (StageEpochRequest (StageEpochCall (nz_get proposed_epoch) rollover_block gid sid))) 250000,
      Some expires_at)"
| "encode_action E (SetValidatorStaker staker) =
     (contract_call (enc_consensus E) (enc_abi E (SetValidatorStakerCall staker)) 100000, None)"

text \<open>The service is built from a configuration that yields a genesis group.\<close>

definition new_validator_service :: "keccak \<Rightarrow> (validator_call \<Rightarrow> bytes) \<Rightarrow> u64 \<Rightarrow> address \<Rightarrow> address \<Rightarrow>
    validator_config \<Rightarrow> (transition \<times> encoder) option" where
  "new_validator_service H abi chain_id account coordinator config =
     (case participants_set H (cfg_participants config) (GenesisGroup (cfg_genesis_salt config)) of
        None \<Rightarrow> None
      | Some genesis \<Rightarrow>
          Some (\<lparr>tr_account = account, tr_genesis = genesis,
                 tr_consensus = consensus_domain chain_id (cfg_consensus config), tr_config = config\<rparr>,
                \<lparr>enc_coordinator = coordinator, enc_consensus = cfg_consensus config, enc_abi = abi\<rparr>))"

text \<open>Every action becomes a call of one of the two contracts, without value and with gas.\<close>

lemma encoded_call:
  assumes "encode_action E a = (tx, expiry)"
  shows "t_to tx \<in> {enc_coordinator E, enc_consensus E}" "t_value tx = 0"
  using assms by (cases a; auto simp: contract_call_def split: option.splits)+

text \<open>The gas of a share grows with the group, and a group of at most \<open>2 ^ 16\<close> members does not overflow it.\<close>

lemma share_gas_exact:
  assumes "length (kgs_f share) < 2 ^ 16"
  shows "unat (share_gas share) = 250000 + 25000 * length (kgs_f share)"
proof -
  have "unat (of_nat (length (kgs_f share)) :: u64) = length (kgs_f share)"
    using assms by (simp add: unat_of_nat)
  then show ?thesis using assms by (simp add: share_gas_def unat_word_ariths)
qed

section \<open>Sentinel\<close>

record sentinel_encoder =
  se_oracle :: address
  se_fee_token :: address
  abi_approve :: "address \<Rightarrow> u256 \<Rightarrow> bytes"
  abi_commit :: "b256 \<Rightarrow> b256 \<Rightarrow> bytes"
  abi_reveal :: "b256 \<Rightarrow> bool \<Rightarrow> b256 \<Rightarrow> string \<Rightarrow> bytes"
  abi_finalize :: "b256 \<Rightarrow> bytes"
  abi_claim :: "b256 \<Rightarrow> bytes"
  abi_timeout_arbitration :: "b256 \<Rightarrow> bytes"

fun encode_action_kind :: "sentinel_encoder \<Rightarrow> sentinel_action_kind \<Rightarrow> transaction" where
  "encode_action_kind E (ApproveToken bond) =
     contract_call (se_fee_token E) (abi_approve E (se_oracle E) bond) 55000"
| "encode_action_kind E (Commit i hash) = contract_call (se_oracle E) (abi_commit E i hash) 250000"
| "encode_action_kind E (Reveal i approve salt reason) =
     contract_call (se_oracle E) (abi_reveal E i approve salt reason) 250000"
| "encode_action_kind E (Finalize i) = contract_call (se_oracle E) (abi_finalize E i) 250000"
| "encode_action_kind E (Claim i) = contract_call (se_oracle E) (abi_claim E i) 250000"
| "encode_action_kind E (TimeoutArbitration i) = contract_call (se_oracle E) (abi_timeout_arbitration E i) 250000"

definition encode_sentinel_action :: "sentinel_encoder \<Rightarrow> sentinel_action \<Rightarrow> transaction \<times> u64 option" where
  "encode_sentinel_action E a = (encode_action_kind E (act_kind a), act_expires_at a)"

end
