(* ===== verification/Engine_Types.thy ===== *)
theory Engine_Types
  imports Sentinel_Types
begin

text \<open>
  The vocabulary of the sentinel engine (\<^verbatim>\<open>crates/sentinel-engine/src/engine/\<close>): calls, rules, coverage and
  proposals, and the decoding and flattening of MultiSend batches
  (\<^verbatim>\<open>contracts/multi_send.rs\<close> and \<^verbatim>\<open>engine/proposal.rs\<close>).
\<close>

unbundle bit_operations_syntax

section \<open>Calls and rules\<close>

record meta_transaction =
  mt_to :: address
  mt_value :: u256
  mt_data :: bytes
  mt_operation :: operation

definition as_meta_transaction :: "safe_transaction \<Rightarrow> meta_transaction" where
  "as_meta_transaction tx = \<lparr>mt_to = tx_to tx, mt_value = tx_value tx, mt_data = tx_data tx, mt_operation = tx_operation tx\<rparr>"

fun operation_of_byte :: "u8 \<Rightarrow> operation option" where
  "operation_of_byte b = (if b = 0 then Some CALL else if b = 1 then Some DELEGATECALL else None)"

datatype charter_rule =
    R4_1SettingsChange
  | R4_2DelegatecallIntegrity
  | R4_6KnownMaliciousTarget
  | R4_5ExcessiveApproval
  | R4_3ValueTarget
  | R4_4AuthorizationTarget

fun rule_code :: "charter_rule \<Rightarrow> string" where
  "rule_code R4_1SettingsChange = ''R-4.1''"
| "rule_code R4_2DelegatecallIntegrity = ''R-4.2''"
| "rule_code R4_6KnownMaliciousTarget = ''R-4.6''"
| "rule_code R4_5ExcessiveApproval = ''R-4.5''"
| "rule_code R4_3ValueTarget = ''R-4.3''"
| "rule_code R4_4AuthorizationTarget = ''R-4.4''"

definition rule_from_code :: "string \<Rightarrow> charter_rule option" where
  "rule_from_code s = find (\<lambda>r. rule_code r = s)
     [R4_1SettingsChange, R4_2DelegatecallIntegrity, R4_6KnownMaliciousTarget, R4_5ExcessiveApproval,
      R4_3ValueTarget, R4_4AuthorizationTarget]"

datatype verdict =
    Secure
  | Insecure charter_rule
  | Abstain

section \<open>Coverage\<close>

type_synonym aspect_set = u8

definition TO :: aspect_set where "TO = push_bit 0 1"
definition VALUE :: aspect_set where "VALUE = push_bit 1 1"
definition DATA :: aspect_set where "DATA = push_bit 2 1"
definition OPERATION :: aspect_set where "OPERATION = push_bit 3 1"

definition all_aspects :: aspect_set where
  "all_aspects = TO OR VALUE OR DATA OR OPERATION"

definition aspects_difference :: "aspect_set \<Rightarrow> aspect_set \<Rightarrow> aspect_set" where
  "aspects_difference a b = a AND NOT b"

definition aspects_contain :: "aspect_set \<Rightarrow> aspect_set \<Rightarrow> bool" where
  "aspects_contain have req \<longleftrightarrow> have AND req = req"

definition aspects_required_for :: "meta_transaction \<Rightarrow> aspect_set" where
  "aspects_required_for call =
     (let required = all_aspects;
          required = (if mt_value call = 0 \<or> mt_operation call = DELEGATECALL
                      then aspects_difference required VALUE else required)
      in if mt_data call = [] then aspects_difference required DATA else required)"

record coverage =
  cov_calls :: "aspect_set list"
  cov_refund :: bool

record proposal =
  prop_transaction :: safe_transaction
  prop_calls :: "meta_transaction list"

definition coverage_none :: "nat \<Rightarrow> coverage" where
  "coverage_none n = \<lparr>cov_calls = replicate n 0, cov_refund = False\<rparr>"

definition coverage_calls :: "nat \<Rightarrow> aspect_set \<Rightarrow> coverage" where
  "coverage_calls n aspects = \<lparr>cov_calls = replicate n aspects, cov_refund = False\<rparr>"

definition coverage_refund :: "nat \<Rightarrow> coverage" where
  "coverage_refund n = \<lparr>cov_calls = replicate n 0, cov_refund = True\<rparr>"

definition coverage_union :: "coverage \<Rightarrow> coverage \<Rightarrow> coverage" where
  "coverage_union a b = \<lparr>cov_calls = map2 (OR) (cov_calls a) (cov_calls b), cov_refund = cov_refund a \<or> cov_refund b\<rparr>"

definition coverage_contains :: "coverage \<Rightarrow> coverage \<Rightarrow> bool" where
  "coverage_contains have req \<longleftrightarrow>
     list_all (\<lambda>(h, r). aspects_contain h r) (zip (cov_calls have) (cov_calls req)) \<and>
     (cov_refund req \<longrightarrow> cov_refund have)"

definition coverage_missing :: "coverage \<Rightarrow> coverage \<Rightarrow> coverage" where
  "coverage_missing have req =
     \<lparr>cov_calls = map2 (\<lambda>h r. aspects_difference r h) (cov_calls have) (cov_calls req),
      cov_refund = (cov_refund req \<and> \<not> cov_refund have)\<rparr>"

definition coverage_required_for :: "proposal \<Rightarrow> coverage" where
  "coverage_required_for p =
     \<lparr>cov_calls = map aspects_required_for (prop_calls p), cov_refund = (tx_gas_price (prop_transaction p) \<noteq> 0)\<rparr>"

definition checked :: "proposal \<Rightarrow> aspect_set \<Rightarrow> coverage" where
  "checked p aspects = coverage_calls (length (prop_calls p)) aspects"

definition refund_checked :: "proposal \<Rightarrow> coverage" where
  "refund_checked p = coverage_refund (length (prop_calls p))"

section \<open>MultiSend\<close>

datatype multi_send_version = Legacy | V150Plus

definition deployments :: "(address \<times> multi_send_version \<times> bool) list" where
  "deployments =
     [(0x218543288004CD07832472D464648173c77D7eB7, V150Plus, True),
      (0xA83c336B20401Af773B6219BA5027174338D1836, V150Plus, False),
      (0x38869bf66a61cF6bDB996A6aE40D5853Fd43B526, Legacy, True),
      (0x9641d764fc13c8B624c04430C7356C1C7C8102e2, Legacy, False),
      (0xA238CBeb142c10Ef7Ad8442C6D1f9E89e07e7761, Legacy, True),
      (0x40A2aCCbd92BCA938b02010E17A5b8929b49130D, Legacy, False),
      (0x998739BFdAAdde7C933B942a68053933098f9EDa, Legacy, True),
      (0xA1dabEF33b3B82c7814B6D82A79e50F4AC44102B, Legacy, False)]"

definition known_deployment :: "address \<Rightarrow> (multi_send_version \<times> bool) option" where
  "known_deployment a = map_option snd (find (\<lambda>d. fst d = a) deployments)"

text \<open>Reading from a cursor: the bytes read and the rest, unless there are too few.\<close>

definition cursor_read :: "nat \<Rightarrow> bytes \<Rightarrow> (bytes \<times> bytes) option" where
  "cursor_read n data = (if n \<le> length data then Some (take n data, drop n data) else None)"

text \<open>
  One packed entry.  Its length field is 256 bits wide and must fit a \<open>usize\<close> of 64 bits.
\<close>

definition decode_entry :: "address \<Rightarrow> multi_send_version \<Rightarrow> bytes \<Rightarrow> (meta_transaction \<times> bytes) option" where
  "decode_entry safe version data =
     (case cursor_read 1 data of
        None \<Rightarrow> None
      | Some (op_bytes, data) \<Rightarrow>
          (case operation_of_byte (hd op_bytes) of
             None \<Rightarrow> None
           | Some op1 \<Rightarrow>
               (case cursor_read 20 data of
                  None \<Rightarrow> None
                | Some (to_bytes, data) \<Rightarrow>
                    (case cursor_read 32 data of
                       None \<Rightarrow> None
                     | Some (value_bytes, data) \<Rightarrow>
                         (case cursor_read 32 data of
                            None \<Rightarrow> None
                          | Some (len_bytes, data) \<Rightarrow>
                              (let len = unat (from_be len_bytes :: u256)
                               in if 2 ^ 64 \<le> len then None
                                  else case cursor_read len data of
                                         None \<Rightarrow> None
                                       | Some (payload, data) \<Rightarrow>
                                           (let to = from_be to_bytes;
                                                to = (if version = V150Plus \<and> to = 0 then safe else to)
                                            in Some (\<lparr>mt_to = to, mt_value = from_be value_bytes, mt_data = payload,
                                                      mt_operation = op1\<rparr>, data))))))))"

lemma cursor_read_eq: "cursor_read n data = Some (x, rest) \<longleftrightarrow> length x = n \<and> data = x @ rest"
  by (auto simp: cursor_read_def)

lemma decode_entry_rest: "decode_entry safe v data = Some (call, rest) \<Longrightarrow> length rest < length data"
  by (auto simp: decode_entry_def Let_def cursor_read_eq split: option.splits if_splits)

function decode_multi_send :: "address \<Rightarrow> multi_send_version \<Rightarrow> bytes \<Rightarrow> meta_transaction list option" where
  "decode_multi_send safe version data =
     (if data = [] then Some []
      else case decode_entry safe version data of
             None \<Rightarrow> None
           | Some (call, rest) \<Rightarrow>
               (case decode_multi_send safe version rest of None \<Rightarrow> None | Some calls \<Rightarrow> Some (call # calls)))"
  by auto
termination
  by (relation "measure (\<lambda>(safe, version, data). length data)") (auto dest: decode_entry_rest)

declare decode_multi_send.simps [simp del]

text \<open>
  A batch is a delegate call to a known deployment whose data decodes; the decoder of the outer
  \<open>multiSend(bytes)\<close> call is alloy's.
\<close>

definition decode_multi_send_call :: "(bytes \<Rightarrow> bytes option) \<Rightarrow> address \<Rightarrow> meta_transaction \<Rightarrow>
    (meta_transaction list \<times> bool) option" where
  "decode_multi_send_call dec safe call =
     (if mt_operation call \<noteq> DELEGATECALL then None
      else case known_deployment (mt_to call) of
             None \<Rightarrow> None
           | Some (version, allows_delegate_calls) \<Rightarrow>
               (case dec (mt_data call) of
                  None \<Rightarrow> None
                | Some packed \<Rightarrow>
                    (case decode_multi_send safe version packed of
                       None \<Rightarrow> None
                     | Some calls \<Rightarrow> Some (calls, allows_delegate_calls))))"

section \<open>Flattening\<close>

definition MAX_BATCH_DEPTH :: nat where
  "MAX_BATCH_DEPTH = 4"

fun flatten :: "(bytes \<Rightarrow> bytes option) \<Rightarrow> address \<Rightarrow> nat \<Rightarrow> meta_transaction \<Rightarrow> meta_transaction list option" where
  "flatten dec safe depth call =
     (case decode_multi_send_call dec safe call of
        None \<Rightarrow> Some [call]
      | Some (sub_calls, allows_delegate_calls) \<Rightarrow>
          (case depth of
             0 \<Rightarrow> None
           | Suc remaining \<Rightarrow>
               map_option concat
                 (those (map (\<lambda>sub. if mt_operation sub = DELEGATECALL \<and> \<not> allows_delegate_calls then Some [sub]
                                    else flatten dec safe remaining sub) sub_calls))))"

declare flatten.simps [simp del]

text \<open>A nesting that is too deep is the only parse error.\<close>

definition parse :: "(bytes \<Rightarrow> bytes option) \<Rightarrow> safe_transaction \<Rightarrow> proposal option" where
  "parse dec tx = map_option (\<lambda>calls. \<lparr>prop_transaction = tx, prop_calls = calls\<rparr>)
     (flatten dec (tx_safe tx) MAX_BATCH_DEPTH (as_meta_transaction tx))"

section \<open>Aspects and claims by bit\<close>

lemma bit_flag: "k < 8 \<Longrightarrow> bit (push_bit k 1 :: u8) n \<longleftrightarrow> n = k"
  by (auto simp: push_bit_of_1 bit_exp_iff)

lemma bit_aspects [simp]:
  "bit TO n \<longleftrightarrow> n = 0" "bit VALUE n \<longleftrightarrow> n = 1" "bit DATA n \<longleftrightarrow> n = 2" "bit OPERATION n \<longleftrightarrow> n = 3"
  unfolding TO_def VALUE_def DATA_def OPERATION_def by (rule bit_flag; simp)+

lemma bit_all_aspects [simp]: "bit all_aspects n \<longleftrightarrow> n < 4"
  by (auto simp: all_aspects_def bit_or_iff)

lemma bit_difference [simp]: "bit (aspects_difference a b) n \<longleftrightarrow> bit a n \<and> \<not> bit b n"
  by (auto simp: aspects_difference_def bit_and_iff bit_not_iff dest: bit_imp_le_length)

lemma aspects_contain_iff: "aspects_contain have req \<longleftrightarrow> (\<forall>n. bit req n \<longrightarrow> bit have n)"
proof
  assume "aspects_contain have req"
  then show "\<forall>n. bit req n \<longrightarrow> bit have n" unfolding aspects_contain_def by (metis bit_and_iff)
qed (auto simp: aspects_contain_def bit_and_iff intro!: bit_word_eqI)

lemma difference_zero: "aspects_difference req have = 0 \<longleftrightarrow> aspects_contain have req"
proof
  assume "aspects_difference req have = 0"
  then have "\<not> bit (aspects_difference req have) n" for n by simp
  then show "aspects_contain have req" by (simp add: aspects_contain_iff)
qed (auto simp: aspects_contain_iff intro!: bit_word_eqI)

lemma bit_required [simp]:
  "bit (aspects_required_for call) n \<longleftrightarrow> n < 4 \<and>
     (n = 1 \<longrightarrow> mt_value call \<noteq> 0 \<and> mt_operation call = CALL) \<and> (n = 2 \<longrightarrow> mt_data call \<noteq> [])"
  by (cases "mt_operation call") (auto simp: aspects_required_for_def Let_def)

text \<open>A claim names an aspect, by its bit, of a call, by its index.\<close>

definition covers :: "coverage \<Rightarrow> nat \<Rightarrow> nat \<Rightarrow> bool" where
  "covers c i n \<longleftrightarrow> i < length (cov_calls c) \<and> bit (cov_calls c ! i) n"

lemma covers_simps [simp]:
  "covers (coverage_none k) i n \<longleftrightarrow> False"
  "covers (coverage_refund k) i n \<longleftrightarrow> False"
  "covers (coverage_calls k a) i n \<longleftrightarrow> i < k \<and> bit a n"
  "covers (checked p a) i n \<longleftrightarrow> i < length (prop_calls p) \<and> bit a n"
  "covers (refund_checked p) i n \<longleftrightarrow> False"
  by (auto simp: covers_def coverage_none_def coverage_refund_def coverage_calls_def checked_def refund_checked_def)

lemma covers_union:
  "length (cov_calls a) = length (cov_calls b) \<Longrightarrow> covers (coverage_union a b) i n \<longleftrightarrow> covers a i n \<or> covers b i n"
  by (auto simp: covers_def coverage_union_def bit_or_iff)

lemma claim_sizes [simp]:
  "length (cov_calls (coverage_none k)) = k" "length (cov_calls (coverage_refund k)) = k"
  "length (cov_calls (coverage_calls k x)) = k" "length (cov_calls (checked p x)) = length (prop_calls p)"
  "length (cov_calls (refund_checked p)) = length (prop_calls p)"
  "length (cov_calls (coverage_union a b)) = min (length (cov_calls a)) (length (cov_calls b))"
  "length (cov_calls (coverage_required_for p)) = length (prop_calls p)"
  by (simp_all add: coverage_none_def coverage_refund_def coverage_calls_def checked_def refund_checked_def
      coverage_union_def coverage_required_for_def)

lemma claim_refunds [simp]:
  "cov_refund (coverage_none k) \<longleftrightarrow> False" "cov_refund (coverage_refund k) \<longleftrightarrow> True"
  "cov_refund (coverage_calls k x) \<longleftrightarrow> False" "cov_refund (checked p x) \<longleftrightarrow> False" "cov_refund (refund_checked p) \<longleftrightarrow> True"
  "cov_refund (coverage_union a b) \<longleftrightarrow> cov_refund a \<or> cov_refund b"
  by (simp_all add: coverage_none_def coverage_refund_def coverage_calls_def checked_def refund_checked_def coverage_union_def)

lemma coverage_contains_iff:
  assumes "length (cov_calls have) = length (prop_calls p)"
  shows "coverage_contains have (coverage_required_for p) \<longleftrightarrow>
    (\<forall>i<length (prop_calls p). \<forall>n. bit (aspects_required_for (prop_calls p ! i)) n \<longrightarrow> covers have i n) \<and>
    (tx_gas_price (prop_transaction p) \<noteq> 0 \<longrightarrow> cov_refund have)"
  using assms
  by (auto simp: coverage_contains_def coverage_required_for_def list_all_length aspects_contain_iff covers_def
      simp del: bit_required)

text \<open>What is missing is nothing exactly when the requirement is met.\<close>

lemma missing_iff:
  assumes "length (cov_calls have) = length (prop_calls p)"
  shows "coverage_contains have (coverage_required_for p) \<longleftrightarrow>
    (let m = coverage_missing have (coverage_required_for p) in list_all (\<lambda>a. a = 0) (cov_calls m) \<and> \<not> cov_refund m)"
  using assms
  by (auto simp: coverage_contains_def coverage_missing_def coverage_required_for_def list_all_length difference_zero
      simp del: bit_required)

end
