(* ===== verification/Checkers.thy ===== *)
theory Checkers
  imports Engine_Types
begin

text \<open>
  The checkers of the sentinel engine (\<^verbatim>\<open>crates/sentinel-engine/src/checkers/\<close>) and the calldata decoding they
  share (\<^verbatim>\<open>contracts/target_effects.rs\<close>).  What alloy derives from the Solidity declarations in
  \<^verbatim>\<open>contracts/bindings.rs\<close>, function selectors, event topics, decoders and the encoder of a transfer, is the
  parameter \<open>abi\<close>; the node and the CoW order API are parameters too.
\<close>

section \<open>Bindings\<close>

datatype solidity_function =
    AddOwnerWithThreshold | RemoveOwner | SwapOwner | ChangeThreshold | DisableModule
  | SetFallbackHandler | SetGuard | EnableModule | SetModuleGuard
  | MigrateSingleton | MigrateWithFallbackHandler | MigrateL2Singleton | MigrateL2WithFallbackHandler
  | SignMessage | PerformCreate | PerformCreate2 | ExecTransaction
  | AnnounceTransaction | CancelAnnouncement

record evm_log =
  topics :: "b256 list"
  payload :: bytes

record create_with_context =
  cwc_handler :: address
  cwc_static_input :: bytes
  cwc_factory :: address

record twap_data =
  twap_sell_token :: address
  twap_receiver :: address
  twap_part_sell_amount :: u256
  twap_n :: u256

datatype gpv2_order = GPv2Order address address address u256 u256 u32 b256 u256 string bool string string
  \<comment> \<open>sellToken, buyToken, receiver, sellAmount, buyAmount, validTo, appData, feeAmount, kind,
      partiallyFillable, sellTokenBalance, buyTokenBalance\<close>

record abi =
  selector :: "solidity_function \<Rightarrow> bytes"
  dec_multi_send :: "bytes \<Rightarrow> bytes option"
  dec_transfer :: "bytes \<Rightarrow> (address \<times> u256) option"
  dec_transfer_from :: "bytes \<Rightarrow> (address \<times> address \<times> u256) option"
  dec_approve :: "bytes \<Rightarrow> (address \<times> u256) option"
  dec_set_approval_for_all :: "bytes \<Rightarrow> (address \<times> bool) option"
  dec_safe_transfer_from_0 :: "bytes \<Rightarrow> (address \<times> address \<times> u256) option"
  dec_safe_transfer_from_1 :: "bytes \<Rightarrow> (address \<times> address \<times> u256 \<times> bytes) option"
  dec_erc1155_transfer :: "bytes \<Rightarrow> (address \<times> address \<times> u256 \<times> u256 \<times> bytes) option"
  dec_erc1155_batch_transfer :: "bytes \<Rightarrow> (address \<times> address \<times> u256 list \<times> u256 list \<times> bytes) option"
  dec_set_fallback_handler :: "bytes \<Rightarrow> address option"
  dec_set_guard :: "bytes \<Rightarrow> address option"
  dec_enable_module :: "bytes \<Rightarrow> address option"
  dec_set_module_guard :: "bytes \<Rightarrow> address option"
  decodes_exec_transaction :: "bytes \<Rightarrow> bool"
  dec_stake :: "bytes \<Rightarrow> (address \<times> u256) option"
  dec_claim :: "bytes \<Rightarrow> address option"
  dec_set_pre_signature :: "bytes \<Rightarrow> (bytes \<times> bool) option"
  dec_create_with_context :: "bytes \<Rightarrow> create_with_context option"
  dec_twap_data :: "bytes \<Rightarrow> twap_data option"
  transfer_topic :: b256
  approval_topic :: b256
  dec_transfer_log :: "evm_log \<Rightarrow> (address \<times> address \<times> u256) option"
  dec_approval_log :: "evm_log \<Rightarrow> (address \<times> address \<times> u256) option"
  enc_transfer :: "address \<Rightarrow> u256 \<Rightarrow> bytes"
  order_signing_hash :: "u64 \<Rightarrow> gpv2_order \<Rightarrow> b256"

definition starts_with :: "bytes \<Rightarrow> bytes \<Rightarrow> bool" where
  "starts_with data p \<longleftrightarrow> take (length p) data = p"

abbreviation invokes :: "abi \<Rightarrow> meta_transaction \<Rightarrow> solidity_function \<Rightarrow> bool" where
  "invokes A call f \<equiv> starts_with (mt_data call) (selector A f)"

section \<open>Assessments\<close>

datatype block_label = LatestBlock | BlockNumber u64

record check_context =
  ctx_block :: block_label
  ctx_proposal_timestamp :: "u64 option"

datatype assessment =
    Denies charter_rule
  | Affirms coverage
  | NoOpinion

type_synonym checker = "proposal \<Rightarrow> check_context \<Rightarrow> assessment"

section \<open>Target effects\<close>

datatype effect_kind =
    ValueTransfer u256
  | Erc20Approval u256
  | OperatorApproval bool
  | Erc721Transfer u256
  | Erc1155Transfer u256 u256
  | Erc1155BatchTransfer "u256 list" "u256 list"

datatype target_effect = TargetEffect address effect_kind

definition token_effect :: "abi \<Rightarrow> bytes \<Rightarrow> target_effect list" where
  "token_effect A data =
     (case dec_transfer A data of Some (to, amount) \<Rightarrow> [TargetEffect to (ValueTransfer amount)] | None \<Rightarrow>
     (case dec_transfer_from A data of Some (from, to, amount) \<Rightarrow> [TargetEffect to (ValueTransfer amount)] | None \<Rightarrow>
     (case dec_approve A data of Some (spender, amount) \<Rightarrow> [TargetEffect spender (Erc20Approval amount)] | None \<Rightarrow>
     (case dec_set_approval_for_all A data of Some (op1, approved) \<Rightarrow> [TargetEffect op1 (OperatorApproval approved)] | None \<Rightarrow>
     (case dec_safe_transfer_from_0 A data of Some (from, to, token_id) \<Rightarrow> [TargetEffect to (Erc721Transfer token_id)] | None \<Rightarrow>
     (case dec_safe_transfer_from_1 A data of Some (from, to, token_id, extra) \<Rightarrow> [TargetEffect to (Erc721Transfer token_id)] | None \<Rightarrow>
     (case dec_erc1155_transfer A data of Some (from, to, i, amount, extra) \<Rightarrow> [TargetEffect to (Erc1155Transfer i amount)] | None \<Rightarrow>
     (case dec_erc1155_batch_transfer A data of
        Some (from, to, ids, amounts, extra) \<Rightarrow> [TargetEffect to (Erc1155BatchTransfer ids amounts)]
      | None \<Rightarrow> []))))))))"

definition decode_target_effects :: "abi \<Rightarrow> meta_transaction \<Rightarrow> target_effect list" where
  "decode_target_effects A call =
     (if mt_value call \<noteq> 0 then [TargetEffect (mt_to call) (ValueTransfer (mt_value call))] else []) @
     (if mt_data call = [] then [] else token_effect A (mt_data call))"

section \<open>Cancellation, escape hatch and nested Safes\<close>

definition cancellation_of :: "safe_transaction \<Rightarrow> safe_transaction" where
  "cancellation_of tx =
     \<lparr>tx_chain_id = tx_chain_id tx, tx_safe = tx_safe tx, tx_to = tx_safe tx, tx_value = 0, tx_data = [],
      tx_operation = CALL, tx_safe_tx_gas = 0, tx_base_gas = 0, tx_gas_price = 0, tx_gas_token = 0,
      tx_refund_receiver = 0, tx_nonce = tx_nonce tx\<rparr>"

definition cancellation_checker :: checker where
  "cancellation_checker p ctx =
     (if prop_transaction p = cancellation_of (prop_transaction p)
      then Affirms (coverage_union (checked p all_aspects) (refund_checked p)) else NoOpinion)"

definition is_escape_hatch_call :: "abi \<Rightarrow> meta_transaction \<Rightarrow> bool" where
  "is_escape_hatch_call A call \<longleftrightarrow> mt_operation call = CALL \<and> mt_value call = 0 \<and>
     (invokes A call AnnounceTransaction \<or> invokes A call CancelAnnouncement)"

definition escape_hatch_checker :: "abi \<Rightarrow> checker" where
  "escape_hatch_checker A p ctx =
     (if list_all (is_escape_hatch_call A) (prop_calls p) then Affirms (checked p all_aspects) else NoOpinion)"

definition is_nested_exec_transaction :: "abi \<Rightarrow> address \<Rightarrow> meta_transaction \<Rightarrow> bool" where
  "is_nested_exec_transaction A safe call \<longleftrightarrow> mt_operation call = CALL \<and> mt_to call \<noteq> safe \<and>
     invokes A call ExecTransaction \<and> decodes_exec_transaction A (mt_data call)"

definition nested_safe_checker :: "abi \<Rightarrow> checker" where
  "nested_safe_checker A p ctx =
     (if list_all (is_nested_exec_transaction A (tx_safe (prop_transaction p))) (prop_calls p)
      then Affirms (checked p (TO OR DATA OR OPERATION)) else NoOpinion)"

section \<open>Base guarantees\<close>

definition supported_fallback_handlers :: "address list" where
  "supported_fallback_handlers =
     [0, 0x85a8ca358D388530ad0fB95D0cb89Dd44Fc242c3, 0x2f55e8b20D0B9FEFA187AA7d00B6Cbe563605bF5,
      0x3EfCBb83A4A7AfcB4F68D501E2c2203a38be77f4, 0xfd0732Dc9E303f09fCEf3a7388Ad10A83459Ec99,
      0xf48f2B2d2a534e402487b3ee7C18c33Aec0Fe5e4, 0x017062a1dE2FE6b99BE3d9d37841FeD19F573804]"

definition supported_guards :: "address list" where
  "supported_guards = [0]"

definition supported_modules :: "address list" where
  "supported_modules = [0x691f59471Bfd2B7d639DCF74671a2d648ED1E331, 0x4Aa5Bf7D840aC607cb5BD3249e6Af6FC86C04897]"

definition supported_module_guards :: "address list" where
  "supported_module_guards = [0]"

definition arg_supported :: "address option \<Rightarrow> address list \<Rightarrow> bool" where
  "arg_supported decoded allowed = (case decoded of None \<Rightarrow> False | Some a \<Rightarrow> a \<in> set allowed)"

definition check_self_calls :: "abi \<Rightarrow> meta_transaction \<Rightarrow> bool" where
  "check_self_calls A call =
     (if invokes A call AddOwnerWithThreshold then True
      else if invokes A call RemoveOwner then True
      else if invokes A call SwapOwner then True
      else if invokes A call ChangeThreshold then True
      else if invokes A call DisableModule then True
      else if invokes A call SetFallbackHandler
        then arg_supported (dec_set_fallback_handler A (mt_data call)) supported_fallback_handlers
      else if invokes A call SetGuard then arg_supported (dec_set_guard A (mt_data call)) supported_guards
      else if invokes A call EnableModule then arg_supported (dec_enable_module A (mt_data call)) supported_modules
      else if invokes A call SetModuleGuard
        then arg_supported (dec_set_module_guard A (mt_data call)) supported_module_guards
      else False)"

definition check_calls :: "abi \<Rightarrow> address \<Rightarrow> meta_transaction \<Rightarrow> bool" where
  "check_calls A safe call =
     (if mt_operation call \<noteq> CALL then False
      else if safe \<noteq> mt_to call then True
      else if mt_data call = [] then True
      else check_self_calls A call)"

definition migration_contracts :: "address list" where
  "migration_contracts = [0x6439e7ABD8Bb915A5263094784C5CF561c4172AC, 0x526643F69b81B008F46d95CD5ced5eC0edFFDaC6]"

definition sign_message_libs :: "address list" where
  "sign_message_libs =
     [0xA65387F16B013cf2Af4605Ad8aA5ec25a2cbA3a2, 0x98FFBBF51bb33A056B08ddf711f289936AafF717,
      0xd53cd0aB83D845Ac265BE939c57F53AD838012c9, 0x4FfeF8222648872B3dE295Ba1e49110E61f5b5aa]"

definition create_call_contracts :: "address list" where
  "create_call_contracts =
     [0x7cbB62EaA69F79e6873cD1ecB2392971036cFAa4, 0xB19D6FFc2182150F8Eb585b79D4ABcd7C5640A9d,
      0x9b35Af71d77eaf8d7e40252370304687390A1A52, 0x2Ef5ECfbea521449E4De05EDB1ce63B75eDA90B4]"

definition check_delegate_calls :: "abi \<Rightarrow> meta_transaction \<Rightarrow> bool" where
  "check_delegate_calls A call =
     (if mt_operation call \<noteq> DELEGATECALL then False
      else if mt_to call \<in> set migration_contracts
        then invokes A call MigrateSingleton \<or> invokes A call MigrateWithFallbackHandler \<or>
          invokes A call MigrateL2Singleton \<or> invokes A call MigrateL2WithFallbackHandler
      else if mt_to call \<in> set sign_message_libs then invokes A call SignMessage
      else if mt_to call \<in> set create_call_contracts then invokes A call PerformCreate \<or> invokes A call PerformCreate2
      else False)"

definition check_settings_change :: "abi \<Rightarrow> address \<Rightarrow> meta_transaction \<Rightarrow> (charter_rule + unit) option" where
  "check_settings_change A safe call =
     (if mt_operation call \<noteq> CALL then None
      else Some (if check_calls A safe call then Inr () else Inl R4_1SettingsChange))"

definition check_delegatecall_integrity :: "abi \<Rightarrow> meta_transaction \<Rightarrow> (charter_rule + unit) option" where
  "check_delegatecall_integrity A call =
     (if mt_operation call \<noteq> DELEGATECALL then None
      else Some (if check_delegate_calls A call then Inr () else Inl R4_2DelegatecallIntegrity))"

definition check_call :: "abi \<Rightarrow> address \<Rightarrow> meta_transaction \<Rightarrow> charter_rule + unit" where
  "check_call A safe call =
     (case check_settings_change A safe call of
        Some r \<Rightarrow> r
      | None \<Rightarrow> (case check_delegatecall_integrity A call of Some r \<Rightarrow> r | None \<Rightarrow> Inl R4_1SettingsChange))"

fun try_for_each :: "('a \<Rightarrow> 'e + unit) \<Rightarrow> 'a list \<Rightarrow> 'e + unit" where
  "try_for_each f [] = Inr ()"
| "try_for_each f (x # xs) = (case f x of Inl e \<Rightarrow> Inl e | Inr u \<Rightarrow> try_for_each f xs)"

definition base_checker :: "abi \<Rightarrow> checker" where
  "base_checker A p ctx =
     (case try_for_each (check_call A (tx_safe (prop_transaction p))) (prop_calls p) of
        Inr u \<Rightarrow> Affirms (checked p (TO OR OPERATION))
      | Inl rule \<Rightarrow> Denies rule)"

section \<open>Blocklist and unlimited approvals\<close>

definition blocklist_checker :: "address fset \<Rightarrow> checker" where
  "blocklist_checker blocked p ctx =
     (if list_ex (\<lambda>call. mt_to call |\<in>| blocked) (prop_calls p) then Denies R4_6KnownMaliciousTarget else NoOpinion)"

fun unlimited :: "target_effect \<Rightarrow> bool" where
  "unlimited (TargetEffect recipient (Erc20Approval amount)) = (amount = - 1)"
| "unlimited (TargetEffect recipient (OperatorApproval approved)) = approved"
| "unlimited _ = False"

definition excessive_approval_checker :: "abi \<Rightarrow> checker" where
  "excessive_approval_checker A p ctx =
     (if list_ex (\<lambda>call. list_ex unlimited (decode_target_effects A call)) (prop_calls p)
      then Denies R4_5ExcessiveApproval else NoOpinion)"

end
