(* ===== verification/Protocol_Checkers.thy ===== *)
theory Protocol_Checkers
  imports Checkers
begin

text \<open>
  The checkers that know a protocol or need the chain's history
  (\<^verbatim>\<open>checkers/cow.rs\<close>, \<^verbatim>\<open>staking.rs\<close>, \<^verbatim>\<open>address_poisoning.rs\<close> and \<^verbatim>\<open>refund.rs\<close>).
\<close>

section \<open>CoW Swap\<close>

definition GP_V2_VAULT_RELAYER :: address where
  "GP_V2_VAULT_RELAYER = 0xC92E8bdf79f0507f65a392b0ab4667716BFE0110"
definition GP_V2_SETTLEMENT :: address where
  "GP_V2_SETTLEMENT = 0x9008D19f58AAbD9eD0D60971565AA8510560ab41"
definition COMPOSABLE_COW :: address where
  "COMPOSABLE_COW = 0xfdaFc9d1902f4e0b84f65F49f244b32b31013b74"
definition TWAP_HANDLER :: address where
  "TWAP_HANDLER = 0x6cF1e9cA41f7611dEf408122793c358a3d11E5a5"
definition CURRENT_BLOCK_TIMESTAMP_FACTORY :: address where
  "CURRENT_BLOCK_TIMESTAMP_FACTORY = 0x52eD56Da04309Aca4c3FECC595298d80C2f16BAc"

definition SUPPORTED_CHAIN_IDS :: "u64 list" where
  "SUPPORTED_CHAIN_IDS = [1, 42161, 100]"

definition order_api_base_url :: "u256 \<Rightarrow> string option" where
  "order_api_base_url chain_id =
     (if chain_id = 1 then Some ''https://api.cow.fi/mainnet''
      else if chain_id = 100 then Some ''https://api.cow.fi/xdai''
      else if chain_id = 42161 then Some ''https://api.cow.fi/arbitrum_one''
      else None)"

record cow_order =
  co_owner :: address
  co_receiver :: "address option"
  co_sell_token :: address
  co_buy_token :: address
  co_sell_amount :: u256
  co_buy_amount :: u256
  co_valid_to :: u32
  co_app_data :: b256
  co_fee_amount :: u256
  co_kind :: string
  co_partially_fillable :: bool
  co_sell_token_balance :: string
  co_buy_token_balance :: string

type_synonym order_api = "string \<Rightarrow> bytes \<Rightarrow> cow_order option"

definition order_receiver :: "cow_order \<Rightarrow> address" where
  "order_receiver order = (case co_receiver order of Some r \<Rightarrow> if r \<noteq> 0 then r else co_owner order | None \<Rightarrow> co_owner order)"

text \<open>
  The order uid: the digest of the order, its owner and its validity.  The chain id has been recognized, so
  it fits 64 bits.
\<close>

definition gpv2_order_of :: "cow_order \<Rightarrow> gpv2_order" where
  "gpv2_order_of order =
     GPv2Order (co_sell_token order) (co_buy_token order) (case co_receiver order of Some r \<Rightarrow> r | None \<Rightarrow> 0)
       (co_sell_amount order) (co_buy_amount order) (co_valid_to order) (co_app_data order) (co_fee_amount order)
       (co_kind order) (co_partially_fillable order) (co_sell_token_balance order) (co_buy_token_balance order)"

definition compute_order_uid :: "abi \<Rightarrow> u256 \<Rightarrow> cow_order \<Rightarrow> bytes" where
  "compute_order_uid A chain_id order =
     be_bytes 32 (order_signing_hash A (ucast chain_id) (gpv2_order_of order)) @ be_bytes 20 (co_owner order) @
     be_bytes 4 (co_valid_to order)"

text \<open>Only a plain call without value is recognized as part of a flow.\<close>

definition plain_call :: "meta_transaction \<Rightarrow> bool" where
  "plain_call call \<longleftrightarrow> mt_operation call = CALL \<and> mt_value call = 0"

definition vault_relayer_approval_amount :: "abi \<Rightarrow> meta_transaction \<Rightarrow> (address \<times> u256) option" where
  "vault_relayer_approval_amount A call =
     (if \<not> plain_call call then None
      else case dec_approve A (mt_data call) of
             None \<Rightarrow> None
           | Some (spender, amount) \<Rightarrow> if spender = GP_V2_VAULT_RELAYER then Some (mt_to call, amount) else None)"

definition approves_vault_relayer :: "abi \<Rightarrow> meta_transaction \<Rightarrow> bool" where
  "approves_vault_relayer A call \<longleftrightarrow> vault_relayer_approval_amount A call \<noteq> None"

definition is_presignature :: "abi \<Rightarrow> meta_transaction \<Rightarrow> bool" where
  "is_presignature A call \<longleftrightarrow> plain_call call \<and> mt_to call = GP_V2_SETTLEMENT \<and> dec_set_pre_signature A (mt_data call) \<noteq> None"

definition is_twap_create :: "abi \<Rightarrow> meta_transaction \<Rightarrow> bool" where
  "is_twap_create A call \<longleftrightarrow> plain_call call \<and> mt_to call = COMPOSABLE_COW \<and>
     (case dec_create_with_context A (mt_data call) of
        None \<Rightarrow> False
      | Some c \<Rightarrow> cwc_handler c = TWAP_HANDLER \<and> cwc_factory c = CURRENT_BLOCK_TIMESTAMP_FACTORY)"

definition checked_mul :: "'a::len word \<Rightarrow> 'a word \<Rightarrow> 'a word option" where
  "checked_mul a b = (if unat a * unat b < 2 ^ LENGTH('a) then Some (a * b) else None)"

definition twap_order_terms :: "abi \<Rightarrow> meta_transaction \<Rightarrow> (address \<times> address \<times> u256 \<times> u256) option" where
  "twap_order_terms A call =
     (if \<not> plain_call call \<or> mt_to call \<noteq> COMPOSABLE_COW then None
      else case dec_create_with_context A (mt_data call) of
             None \<Rightarrow> None
           | Some c \<Rightarrow>
               if cwc_handler c \<noteq> TWAP_HANDLER \<or> cwc_factory c \<noteq> CURRENT_BLOCK_TIMESTAMP_FACTORY then None
               else case dec_twap_data A (cwc_static_input c) of
                      None \<Rightarrow> None
                    | Some order \<Rightarrow>
                        (case checked_mul (twap_part_sell_amount order) (twap_n order) of
                           None \<Rightarrow> None
                         | Some total_sell \<Rightarrow> Some (twap_sell_token order, twap_receiver order, total_sell, twap_n order)))"

definition decode_approval_and_twap :: "abi \<Rightarrow> meta_transaction \<Rightarrow> meta_transaction \<Rightarrow>
    (address \<times> u256 \<times> address \<times> address \<times> u256 \<times> u256) option" where
  "decode_approval_and_twap A approval twap =
     (case vault_relayer_approval_amount A approval of
        None \<Rightarrow> None
      | Some (token, amount) \<Rightarrow>
          (case twap_order_terms A twap of
             None \<Rightarrow> None
           | Some (sell_token, receiver, total_sell, n) \<Rightarrow> Some (token, amount, sell_token, receiver, total_sell, n)))"

definition max_approval_for_twap_total :: "u256 \<Rightarrow> u256 \<Rightarrow> u256" where
  "max_approval_for_twap_total total_sell n = sat_add total_sell (sat_sub n 1)"

definition presignature_order_uid :: "abi \<Rightarrow> meta_transaction \<Rightarrow> bytes option" where
  "presignature_order_uid A call =
     (if \<not> plain_call call \<or> mt_to call \<noteq> GP_V2_SETTLEMENT then None
      else case dec_set_pre_signature A (mt_data call) of
             None \<Rightarrow> None
           | Some (order_uid, is_signed) \<Rightarrow> if is_signed then Some order_uid else None)"

definition decode_approval_and_presignature :: "abi \<Rightarrow> meta_transaction \<Rightarrow> meta_transaction \<Rightarrow>
    (address \<times> u256 \<times> bytes) option" where
  "decode_approval_and_presignature A approval presignature =
     (case vault_relayer_approval_amount A approval of
        None \<Rightarrow> None
      | Some (token, amount) \<Rightarrow>
          (case presignature_order_uid A presignature of
             None \<Rightarrow> None
           | Some order_uid \<Rightarrow> Some (token, amount, order_uid)))"

text \<open>The first decoding that succeeds, trying both orders of a pair of calls.\<close>

definition either_order :: "('a \<Rightarrow> 'a \<Rightarrow> 'b option) \<Rightarrow> 'a \<Rightarrow> 'a \<Rightarrow> 'b option" where
  "either_order f x y = (case f x y of Some r \<Rightarrow> Some r | None \<Rightarrow> f y x)"

fun check_presignature_batch :: "abi \<Rightarrow> order_api \<Rightarrow> address \<Rightarrow> u256 \<Rightarrow> meta_transaction list \<Rightarrow> assessment" where
  "check_presignature_batch A api safe chain_id [first, second] =
     (case order_api_base_url chain_id of
        None \<Rightarrow> NoOpinion
      | Some base_url \<Rightarrow>
          (case either_order (decode_approval_and_presignature A) first second of
             None \<Rightarrow> NoOpinion
           | Some (token, approved_amount, order_uid) \<Rightarrow>
               (case api base_url order_uid of
                  None \<Rightarrow> NoOpinion
                | Some order \<Rightarrow>
                    if order_uid \<noteq> compute_order_uid A chain_id order then NoOpinion
                    else if order_receiver order \<noteq> safe then Denies R4_4AuthorizationTarget
                    else if token = co_sell_token order \<and> approved_amount = co_sell_amount order
                      then Affirms (coverage_calls 2 DATA)
                    else Denies R4_5ExcessiveApproval)))"
| "check_presignature_batch A api safe chain_id _ = NoOpinion"

fun check_twap_batch :: "abi \<Rightarrow> address \<Rightarrow> meta_transaction list \<Rightarrow> assessment" where
  "check_twap_batch A safe [first, second] =
     (case either_order (decode_approval_and_twap A) first second of
        None \<Rightarrow> NoOpinion
      | Some (approved_token, approved_amount, sell_token, receiver, total_sell, n) \<Rightarrow>
          if receiver \<noteq> safe \<and> receiver \<noteq> 0 then Denies R4_4AuthorizationTarget
          else if approved_token \<noteq> sell_token \<or> max_approval_for_twap_total total_sell n < approved_amount
            then Denies R4_5ExcessiveApproval
          else Affirms (coverage_calls 2 DATA))"
| "check_twap_batch A safe _ = NoOpinion"

definition check_dangling_approval :: "abi \<Rightarrow> meta_transaction list \<Rightarrow> assessment" where
  "check_dangling_approval A calls =
     (if \<not> list_ex (approves_vault_relayer A) calls then NoOpinion
      else if list_ex (\<lambda>c. is_presignature A c \<or> is_twap_create A c) calls then NoOpinion
      else Denies R4_4AuthorizationTarget)"

fun first_opinion :: "assessment list \<Rightarrow> assessment" where
  "first_opinion [] = NoOpinion"
| "first_opinion (a # rest) = (if a \<noteq> NoOpinion then a else first_opinion rest)"

definition cow_checker :: "abi \<Rightarrow> order_api \<Rightarrow> checker" where
  "cow_checker A api p ctx =
     (let tx = prop_transaction p; calls = prop_calls p
      in if \<not> list_ex (\<lambda>i. tx_chain_id tx = ucast i) SUPPORTED_CHAIN_IDS then NoOpinion
         else first_opinion
           [check_dangling_approval A calls,
            check_presignature_batch A api (tx_safe tx) (tx_chain_id tx) calls,
            check_twap_batch A (tx_safe tx) calls])"

section \<open>Staking\<close>

definition STAKING :: address where
  "STAKING = 0x115E78f160e1E3eF163B05C84562Fa16fA338509"
definition SAFE_TOKEN :: address where
  "SAFE_TOKEN = 0x5aFE3855358E112B5647B952709E6165e1c1eEEe"
definition REWARDS_DISTRIBUTOR :: address where
  "REWARDS_DISTRIBUTOR = 0xe5139fc0fb8eae81e30d8a85c22e88c6757120f2"
definition SUPPORTED_CHAIN_ID :: u64 where
  "SUPPORTED_CHAIN_ID = 1"

definition claim_account :: "abi \<Rightarrow> meta_transaction \<Rightarrow> address option" where
  "claim_account A call =
     (if \<not> plain_call call \<or> mt_to call \<noteq> REWARDS_DISTRIBUTOR then None else dec_claim A (mt_data call))"

definition staking_approval_amount :: "abi \<Rightarrow> meta_transaction \<Rightarrow> u256 option" where
  "staking_approval_amount A call =
     (if \<not> plain_call call \<or> mt_to call \<noteq> SAFE_TOKEN then None
      else case dec_approve A (mt_data call) of
             None \<Rightarrow> None
           | Some (spender, amount) \<Rightarrow> if spender = STAKING then Some amount else None)"

definition stake_amount :: "abi \<Rightarrow> meta_transaction \<Rightarrow> u256 option" where
  "stake_amount A call =
     (if \<not> plain_call call \<or> mt_to call \<noteq> STAKING then None else map_option snd (dec_stake A (mt_data call)))"

definition check_lone_call :: "abi \<Rightarrow> nat \<Rightarrow> meta_transaction \<Rightarrow> assessment" where
  "check_lone_call A total_sell call =
     (if stake_amount A call \<noteq> None then Affirms (coverage_calls total_sell DATA) else NoOpinion)"

definition check_pair :: "abi \<Rightarrow> nat \<Rightarrow> meta_transaction \<Rightarrow> meta_transaction \<Rightarrow> assessment" where
  "check_pair A total_sell first second =
     (case (staking_approval_amount A first, stake_amount A second) of
        (Some approved, Some staked) \<Rightarrow>
          if staked < approved then Denies R4_5ExcessiveApproval else Affirms (coverage_calls total_sell DATA)
      | _ \<Rightarrow> NoOpinion)"

text \<open>The loop that sets claims aside: a foreign claim, or whether something was claimed and what remains.\<close>

fun set_claims_aside :: "abi \<Rightarrow> address \<Rightarrow> meta_transaction list \<Rightarrow> bool \<Rightarrow> meta_transaction list \<Rightarrow>
    charter_rule + (bool \<times> meta_transaction list)" where
  "set_claims_aside A safe [] claimed remaining = Inr (claimed, remaining)"
| "set_claims_aside A safe (call # calls) claimed remaining =
     (case claim_account A call of
        Some account \<Rightarrow>
          if account \<noteq> safe then Inl R4_3ValueTarget else set_claims_aside A safe calls True remaining
      | None \<Rightarrow> set_claims_aside A safe calls claimed (remaining @ [call]))"

definition staking_checker :: "abi \<Rightarrow> checker" where
  "staking_checker A p ctx =
     (let tx = prop_transaction p
      in if tx_chain_id tx \<noteq> ucast SUPPORTED_CHAIN_ID then NoOpinion
         else case set_claims_aside A (tx_safe tx) (prop_calls p) False [] of
                Inl rule \<Rightarrow> Denies rule
              | Inr (claimed, remaining) \<Rightarrow>
                  (let total_sell = length (prop_calls p)
                   in case remaining of
                        [] \<Rightarrow> if claimed then Affirms (coverage_calls total_sell DATA) else NoOpinion
                      | [call] \<Rightarrow> check_lone_call A total_sell call
                      | [first, second] \<Rightarrow> check_pair A total_sell first second
                      | _ \<Rightarrow> NoOpinion))"

section \<open>Address poisoning\<close>

definition nibbles :: "address \<Rightarrow> u8 list" where
  "nibbles a = concat (map (\<lambda>b. [drop_bit 4 b, b AND 0x0f]) (be_bytes 20 a))"

definition common_prefix :: "'a list \<Rightarrow> 'a list \<Rightarrow> nat" where
  "common_prefix xs ys = length (takeWhile (\<lambda>(x, y). x = y) (zip xs ys))"

definition is_lookalike :: "address \<Rightarrow> address \<Rightarrow> bool" where
  "is_lookalike established candidate =
     (if established = candidate then False
      else let a = nibbles established; b = nibbles candidate
           in 4 \<le> common_prefix a b \<and> 4 \<le> common_prefix (rev a) (rev b))"

datatype target_kind = TransferTarget | ApprovalTarget

fun target_rule :: "target_kind \<Rightarrow> charter_rule" where
  "target_rule TransferTarget = R4_3ValueTarget"
| "target_rule ApprovalTarget = R4_4AuthorizationTarget"

definition decode_target :: "abi \<Rightarrow> address \<Rightarrow> meta_transaction \<Rightarrow> (address \<times> target_kind) option" where
  "decode_target A safe call =
     (if mt_operation call \<noteq> CALL then None
      else case dec_transfer A (mt_data call) of
             Some (to, amount) \<Rightarrow> if amount \<noteq> 0 then Some (to, TransferTarget) else None
           | None \<Rightarrow>
               (case dec_transfer_from A (mt_data call) of
                  Some (from, to, amount) \<Rightarrow> if from = safe \<and> amount \<noteq> 0 then Some (to, TransferTarget) else None
                | None \<Rightarrow>
                    (case dec_approve A (mt_data call) of
                       Some (spender, amount) \<Rightarrow> if amount \<noteq> 0 then Some (spender, ApprovalTarget) else None
                     | None \<Rightarrow> None)))"

text \<open>
  The node: its chain id, its latest block and the logs of the two events with a token's address and the
  Safe as first topic, over a range of blocks; \<open>None\<close> is a failed request.
\<close>

record chain_history =
  hist_chain_id :: u64
  hist_block_number :: "u64 option"
  hist_get_logs :: "address \<Rightarrow> address \<Rightarrow> u64 \<Rightarrow> u64 \<Rightarrow> evm_log list option"
  hist_lookback_blocks :: u64
  hist_max_block_range :: "nonzero_u64 option"

definition decode_target_and_amount :: "abi \<Rightarrow> evm_log \<Rightarrow> (address \<times> u256) option" where
  "decode_target_and_amount A log =
     (case topics log of
        [] \<Rightarrow> None
      | topic # rest \<Rightarrow>
          if topic = transfer_topic A then map_option snd (dec_transfer_log A log)
          else if topic = approval_topic A then map_option snd (dec_approval_log A log)
          else None)"

lemma sat_succ: "x < y \<Longrightarrow> unat (sat_add x 1) = Suc (unat x)" for x y :: u64
  using unat_less_exp [of y] by (simp add: word_less_nat_alt unat_sat_add)

text \<open>The chunks of an inclusive range, each spanning at most \<open>max_range\<close> blocks beyond its first.\<close>

function chunks_from :: "u64 \<Rightarrow> u64 \<Rightarrow> u64 \<Rightarrow> (u64 \<times> u64) list" where
  "chunks_from to max_range start =
     (let stop = min (sat_add start max_range) to
      in if to \<le> stop then [(start, stop)] else (start, stop) # chunks_from to max_range (sat_add stop 1))"
  by auto
termination
proof (relation "measure (\<lambda>(to, max_range, start). unat to - unat start)")
  fix to max_range start x :: u64
  assume x: "x = min (sat_add start max_range) to" "\<not> to \<le> x"
  then have "x = sat_add start max_range" "x < to" by (auto simp: min_def not_le split: if_splits)
  then have "unat start \<le> unat x" "unat x < unat to" "unat (sat_add x 1) = Suc (unat x)"
    by (auto simp: sat_succ simp flip: word_le_nat_alt word_less_nat_alt)
  then show "((to, max_range, sat_add x 1), to, max_range, start) \<in> measure (\<lambda>(to, max_range, start). unat to - unat start)"
    by simp
qed simp

declare chunks_from.simps [simp del]

definition block_chunks :: "u64 \<Rightarrow> u64 \<Rightarrow> nonzero_u64 option \<Rightarrow> (u64 \<times> u64) list" where
  "block_chunks from to max_range = chunks_from to (case max_range of Some n \<Rightarrow> nz_get n | None \<Rightarrow> - 1) from"

datatype recipient_lookup =
    ExactMatch
  | NoExactMatch "address list" bool

text \<open>The loop over the logs of a chunk: an exact match ends the scan, other targets are collected.\<close>

fun scan_logs :: "abi \<Rightarrow> address \<Rightarrow> evm_log list \<Rightarrow> address list \<Rightarrow> address list option" where
  "scan_logs A candidate [] recipients = Some recipients"
| "scan_logs A candidate (log # logs) recipients =
     (case decode_target_and_amount A log of
        None \<Rightarrow> scan_logs A candidate logs recipients
      | Some (target, amount) \<Rightarrow>
          if amount = 0 then scan_logs A candidate logs recipients
          else if target = candidate then None
          else scan_logs A candidate logs (List.insert target recipients))"

fun scan_chunks :: "abi \<Rightarrow> (u64 \<Rightarrow> u64 \<Rightarrow> evm_log list option) \<Rightarrow> address \<Rightarrow> (u64 \<times> u64) list \<Rightarrow> address list \<Rightarrow>
    recipient_lookup option" where
  "scan_chunks A get_logs candidate [] recipients = Some (NoExactMatch recipients True)"
| "scan_chunks A get_logs candidate ((from, to) # chunks) recipients =
     (case get_logs from to of
        None \<Rightarrow> if recipients \<noteq> [] then Some (NoExactMatch recipients False) else None
      | Some logs \<Rightarrow>
          (case scan_logs A candidate logs recipients of
             None \<Rightarrow> Some ExactMatch
           | Some recipients \<Rightarrow> scan_chunks A get_logs candidate chunks recipients))"

definition established_recipients :: "abi \<Rightarrow> chain_history \<Rightarrow> address \<Rightarrow> address \<Rightarrow> address \<Rightarrow> u64 \<Rightarrow> recipient_lookup option" where
  "established_recipients A H token safe candidate current_block =
     (let from_block = sat_sub current_block (hist_lookback_blocks H)
      in scan_chunks A (hist_get_logs H token safe) candidate
           (block_chunks from_block current_block (hist_max_block_range H)) [])"

text \<open>The loop over the calls: the rule of the first denial, or whether to abstain.\<close>

fun scan_calls :: "abi \<Rightarrow> chain_history \<Rightarrow> address \<Rightarrow> u64 \<Rightarrow> meta_transaction list \<Rightarrow> bool \<Rightarrow> charter_rule + bool" where
  "scan_calls A H safe current_block [] abstain = Inr abstain"
| "scan_calls A H safe current_block (call # calls) abstain =
     (case decode_target A safe call of
        None \<Rightarrow> scan_calls A H safe current_block calls True
      | Some (candidate, kind) \<Rightarrow>
          (case established_recipients A H (mt_to call) safe candidate current_block of
             Some ExactMatch \<Rightarrow> scan_calls A H safe current_block calls abstain
           | Some (NoExactMatch recipients complete) \<Rightarrow>
               if \<not> list_ex (\<lambda>r. is_lookalike r candidate) recipients then scan_calls A H safe current_block calls True
               else if \<not> complete then scan_calls A H safe current_block calls True
               else Inl (target_rule kind)
           | None \<Rightarrow> scan_calls A H safe current_block calls True))"

definition context_block :: "chain_history \<Rightarrow> check_context \<Rightarrow> u64 option" where
  "context_block H ctx = (case ctx_block ctx of BlockNumber n \<Rightarrow> Some n | LatestBlock \<Rightarrow> hist_block_number H)"

definition address_poisoning_checker :: "abi \<Rightarrow> chain_history \<Rightarrow> checker" where
  "address_poisoning_checker A H p ctx =
     (let tx = prop_transaction p
      in if tx_chain_id tx \<noteq> ucast (hist_chain_id H) then NoOpinion
         else case context_block H ctx of
                None \<Rightarrow> NoOpinion
              | Some current_block \<Rightarrow>
                  (case scan_calls A H (tx_safe tx) current_block (prop_calls p) False of
                     Inl rule \<Rightarrow> Denies rule
                   | Inr abstain \<Rightarrow> if abstain then NoOpinion else Affirms (checked p (TO OR DATA))))"

section \<open>Gas refunds\<close>

definition refund_transfer :: "abi \<Rightarrow> safe_transaction \<Rightarrow> meta_transaction option" where
  "refund_transfer A tx =
     (if tx_gas_price tx = 0 \<or> tx_gas_token tx = 0 \<or> tx_refund_receiver tx = 0 then None
      else Some \<lparr>mt_to = tx_gas_token tx, mt_value = 0,
        mt_data = enc_transfer A (tx_refund_receiver tx)
          (sat_mul (tx_gas_price tx) (sat_add (tx_safe_tx_gas tx) (tx_base_gas tx))),
        mt_operation = CALL\<rparr>)"

definition refund_checker :: "abi \<Rightarrow> chain_history \<Rightarrow> checker" where
  "refund_checker A H p ctx =
     (case refund_transfer A (prop_transaction p) of
        None \<Rightarrow> NoOpinion
      | Some refund_call \<Rightarrow>
          (case address_poisoning_checker A H \<lparr>prop_transaction = prop_transaction p, prop_calls = [refund_call]\<rparr> ctx of
             Affirms c \<Rightarrow> Affirms (refund_checked p)
           | a \<Rightarrow> a))"

end
