(* ===== verification/Batches.thy ===== *)
theory Batches
  imports Engine_Types
begin

text \<open>
  What the engine sees of a MultiSend batch is what the contract executes: decoding inverts the packed
  encoding, and flattening lists the calls in the order of execution.
\<close>

section \<open>The packed encoding\<close>

definition encode_entry :: "meta_transaction \<Rightarrow> bytes" where
  "encode_entry call =
     [operation_code (mt_operation call)] @ be_bytes 20 (mt_to call) @ be_bytes 32 (mt_value call) @
     be_bytes 32 (of_nat (length (mt_data call)) :: u256) @ mt_data call"

definition encode_multi_send :: "meta_transaction list \<Rightarrow> bytes" where
  "encode_multi_send calls = concat (map encode_entry calls)"

text \<open>From version 1.5.0 on, the zero address stands for the Safe itself.\<close>

definition resolve_target :: "address \<Rightarrow> multi_send_version \<Rightarrow> meta_transaction \<Rightarrow> meta_transaction" where
  "resolve_target safe version call =
     (if version = V150Plus \<and> mt_to call = 0 then call\<lparr>mt_to := safe\<rparr> else call)"

lemma operation_code_eq [simp]: "operation_of_byte (operation_code x) = Some x"
  by (cases x) simp_all

lemma operation_of_byte_eq: "operation_of_byte b = Some x \<longleftrightarrow> b = operation_code x"
  by (cases x) (auto split: if_splits)

declare operation_of_byte.simps [simp del]

lemma length_field: "n < 2 ^ 64 \<Longrightarrow> unat (of_nat n :: u256) = n"
  by (simp add: unat_of_nat)

lemma cursor_read_append: "n = length x \<Longrightarrow> cursor_read n (x @ rest) = Some (x, rest)"
  by (simp add: cursor_read_eq)

lemma decode_encode_entry:
  assumes "length (mt_data call) < 2 ^ 64"
  shows "decode_entry safe v (encode_entry call @ rest) = Some (resolve_target safe v call, rest)"
proof -
  have "unat (from_be (be_bytes 32 (of_nat (length (mt_data call)) :: u256)) :: u256) = length (mt_data call)"
    using assms by (simp add: from_be_bytes length_field)
  then show ?thesis using assms
    by (simp add: decode_entry_def encode_entry_def cursor_read_append [where x = "[b]" for b, simplified]
        cursor_read_append from_be_bytes resolve_target_def Let_def)
qed

lemma decode_entry_encoded:
  assumes "decode_entry safe v data = Some (call, rest)"
  shows "\<exists>raw. data = encode_entry raw @ rest \<and> call = resolve_target safe v raw \<and> length (mt_data raw) < 2 ^ 64"
proof -
  from assms obtain ob x tb vb lb payload where
    r: "data = ob @ tb @ vb @ lb @ payload @ rest" "length ob = 1" "length tb = 20" "length vb = 32" "length lb = 32"
      "operation_of_byte (hd ob) = Some x" "length payload = unat (from_be lb :: u256)" "length payload < 2 ^ 64"
      "call = \<lparr>mt_to = (if v = V150Plus \<and> from_be tb = (0 :: address) then safe else from_be tb),
        mt_value = from_be vb, mt_data = payload, mt_operation = x\<rparr>"
    by (auto simp: decode_entry_def Let_def cursor_read_eq split: option.splits if_splits)
  let ?raw = "\<lparr>mt_to = from_be tb, mt_value = from_be vb, mt_data = payload, mt_operation = x\<rparr>"
  have "ob = [operation_code x]" using r(2,6) by (cases ob) (auto simp: operation_of_byte_eq)
  moreover have "be_bytes 20 (from_be tb :: address) = tb" "be_bytes 32 (from_be vb :: u256) = vb"
    "be_bytes 32 (from_be lb :: u256) = lb"
    using be_bytes_from_be [of tb, where ?'a = 160] be_bytes_from_be [of vb, where ?'a = 256]
      be_bytes_from_be [of lb, where ?'a = 256] r(3-5) by simp_all
  moreover have "(of_nat (length payload) :: u256) = from_be lb" using r(7) by simp
  ultimately have "data = encode_entry ?raw @ rest" using r(1) by (simp add: encode_entry_def)
  moreover have "call = resolve_target safe v ?raw" using r(9) by (simp add: resolve_target_def)
  ultimately show ?thesis using r(8) by (intro exI [of _ ?raw]) simp
qed

lemma encode_entry_nonempty [simp]: "encode_entry call \<noteq> []"
  by (simp add: encode_entry_def)

lemma decode_encode_multi_send:
  "\<forall>c\<in>set raw. length (mt_data c) < 2 ^ 64 \<Longrightarrow>
   decode_multi_send safe v (encode_multi_send raw) = Some (map (resolve_target safe v) raw)"
proof (induction raw)
  case Nil
  then show ?case by (simp add: decode_multi_send.simps encode_multi_send_def)
next
  case (Cons c raw)
  then have "decode_multi_send safe v (encode_multi_send raw) = Some (map (resolve_target safe v) raw)" by simp
  then show ?case using Cons.prems
    by (subst decode_multi_send.simps) (simp add: encode_multi_send_def decode_encode_entry)
qed

lemma decode_multi_send_encoded:
  "decode_multi_send safe v data = Some calls \<Longrightarrow>
   \<exists>raw. data = encode_multi_send raw \<and> calls = map (resolve_target safe v) raw \<and> (\<forall>c\<in>set raw. length (mt_data c) < 2 ^ 64)"
proof (induction safe v data arbitrary: calls rule: decode_multi_send.induct)
  case (1 safe v data)
  show ?case
  proof (cases "data = []")
    case True
    then show ?thesis using "1.prems"
      by (intro exI [of _ "[]"]) (simp add: encode_multi_send_def decode_multi_send.simps)
  next
    case False
    then obtain call rest calls' where d: "decode_entry safe v data = Some (call, rest)"
      "decode_multi_send safe v rest = Some calls'" "calls = call # calls'"
      using "1.prems" by (subst (asm) decode_multi_send.simps) (auto split: option.splits)
    from decode_entry_encoded [OF d(1)] obtain r where "data = encode_entry r @ rest" "call = resolve_target safe v r"
      "length (mt_data r) < 2 ^ 64" by blast
    moreover from "1.IH" [OF False d(1) refl d(2)] obtain raw where "rest = encode_multi_send raw"
      "calls' = map (resolve_target safe v) raw" "\<forall>c\<in>set raw. length (mt_data c) < 2 ^ 64" by blast
    ultimately show ?thesis using d(3) by (intro exI [of _ "r # raw"]) (simp add: encode_multi_send_def)
  qed
qed

text \<open>
  C31: the engine reads a batch exactly as it is packed.  Decoding succeeds precisely on the packed
  encodings of lists of calls, and returns those calls in order, with the zero address read as the Safe for
  deployments from version 1.5.0 on; truncated or malformed bytes are rejected.
\<close>

theorem multi_send_roundtrip:
  "decode_multi_send safe v data = Some calls \<longleftrightarrow>
   (\<exists>raw. data = encode_multi_send raw \<and> list_all (\<lambda>c. length (mt_data c) < 2 ^ 64) raw \<and>
      calls = map (resolve_target safe v) raw)"
  using decode_multi_send_encoded [of safe v data calls] decode_encode_multi_send [of _ safe v]
  by (auto simp: list_all_iff)

section \<open>Flattening\<close>

text \<open>
  What executing a call amounts to: a call that is not a batch is executed itself, a batch executes its
  entries one after the other.  A delegate call in a batch that does not allow them is not expanded.
\<close>

inductive executes :: "(bytes \<Rightarrow> bytes option) \<Rightarrow> address \<Rightarrow> meta_transaction \<Rightarrow> meta_transaction list \<Rightarrow> bool"
  and executes_all :: "(bytes \<Rightarrow> bytes option) \<Rightarrow> address \<Rightarrow> bool \<Rightarrow> meta_transaction list \<Rightarrow> meta_transaction list \<Rightarrow> bool"
  for dec :: "bytes \<Rightarrow> bytes option" and safe :: address where
  single: "decode_multi_send_call dec safe call = None \<Longrightarrow> executes dec safe call [call]"
| batch: "decode_multi_send_call dec safe call = Some (subs, allowed) \<Longrightarrow> executes_all dec safe allowed subs calls \<Longrightarrow>
    executes dec safe call calls"
| none: "executes_all dec safe allowed [] []"
| opaque: "mt_operation sub = DELEGATECALL \<Longrightarrow> \<not> allowed \<Longrightarrow> executes_all dec safe allowed subs calls \<Longrightarrow>
    executes_all dec safe allowed (sub # subs) (sub # calls)"
| expanded: "mt_operation sub = CALL \<or> allowed \<Longrightarrow> executes dec safe sub calls \<Longrightarrow> executes_all dec safe allowed subs calls' \<Longrightarrow>
    executes_all dec safe allowed (sub # subs) (calls @ calls')"

lemma flatten_executes: "flatten dec safe depth call = Some calls \<Longrightarrow> executes dec safe call calls"
proof (induction depth arbitrary: call calls)
  case 0
  then show ?case by (auto simp: flatten.simps [of dec safe 0] intro: single split: option.splits)
next
  case (Suc depth)
  show ?case
  proof (cases "decode_multi_send_call dec safe call")
    case None
    then show ?thesis using Suc.prems by (auto simp: flatten.simps [of dec safe "Suc depth"] intro: single)
  next
    case (Some b)
    then obtain subs allowed where b: "decode_multi_send_call dec safe call = Some (subs, allowed)" by (cases b) auto
    let ?f = "\<lambda>sub. if mt_operation sub = DELEGATECALL \<and> \<not> allowed then Some [sub] else flatten dec safe depth sub"
    have "map_option concat (those (map ?f subs)) = Some calls'' \<Longrightarrow> executes_all dec safe allowed subs calls''" for calls''
    proof (induction subs arbitrary: calls'')
      case Nil
      then show ?case by (auto intro: none)
    next
      case (Cons sub subs)
      then obtain xs rest where "?f sub = Some xs" "map_option concat (those (map ?f subs)) = Some rest" "calls'' = xs @ rest"
        by (auto split: option.splits)
      moreover have "mt_operation sub = CALL \<or> mt_operation sub = DELEGATECALL" by (cases "mt_operation sub") simp_all
      ultimately show ?case using Cons.IH Suc.IH by (auto intro: opaque expanded split: if_splits)
    qed
    then show ?thesis using Suc.prems b by (auto simp: flatten.simps [of dec safe "Suc depth"] intro: batch)
  qed
qed

text \<open>Nothing that would still be expanded is left, apart from delegate calls.\<close>

lemma executes_leaves:
  "executes dec safe call calls \<Longrightarrow> (\<forall>c\<in>set calls. decode_multi_send_call dec safe c = None \<or> mt_operation c = DELEGATECALL)"
  "executes_all dec safe allowed subs calls \<Longrightarrow> (\<forall>c\<in>set calls. decode_multi_send_call dec safe c = None \<or> mt_operation c = DELEGATECALL)"
  by (induction rule: executes_executes_all.inducts) auto

text \<open>The expansion of a call is unique.\<close>

inductive_simps executes_simp: "executes dec safe call calls"
inductive_simps executes_all_simps: "executes_all dec safe allowed [] calls" "executes_all dec safe allowed (sub # subs) calls"

lemma executes_unique:
  "executes dec safe call calls \<Longrightarrow> executes dec safe call calls' \<Longrightarrow> calls' = calls"
  "executes_all dec safe allowed subs cs \<Longrightarrow> executes_all dec safe allowed subs cs' \<Longrightarrow> cs' = cs"
proof (induction arbitrary: calls' and cs' rule: executes_executes_all.inducts)
  case (single call)
  then show ?case by (subst (asm) executes_simp) simp
next
  case (batch call subs allowed calls)
  from batch.prems batch(1) have "executes_all dec safe allowed subs calls'" by (subst (asm) executes_simp) simp
  then show ?case using batch by blast
next
  case (none allowed)
  then show ?case by (simp add: executes_all_simps)
next
  case (opaque sub allowed subs calls)
  from opaque.prems opaque(1,2) obtain rest where "cs' = sub # rest" "executes_all dec safe allowed subs rest"
    by (auto simp: executes_all_simps)
  then show ?case using opaque by blast
next
  case (expanded sub allowed calls subs calls'')
  from expanded.prems expanded(1) obtain xs rest where "cs' = xs @ rest" "executes dec safe sub xs"
    "executes_all dec safe allowed subs rest"
    by (auto simp: executes_all_simps)
  then show ?case using expanded by blast
qed

definition flatten_all :: "(bytes \<Rightarrow> bytes option) \<Rightarrow> address \<Rightarrow> nat \<Rightarrow> bool \<Rightarrow> meta_transaction list \<Rightarrow>
    meta_transaction list option" where
  "flatten_all dec safe depth allowed subs = map_option concat
     (those (map (\<lambda>sub. if mt_operation sub = DELEGATECALL \<and> \<not> allowed then Some [sub] else flatten dec safe depth sub) subs))"

lemma flatten_all_simps:
  "flatten_all dec safe depth allowed [] = Some []"
  "flatten_all dec safe depth allowed (sub # subs) =
     (case (if mt_operation sub = DELEGATECALL \<and> \<not> allowed then Some [sub] else flatten dec safe depth sub) of
        None \<Rightarrow> None
      | Some xs \<Rightarrow> map_option ((@) xs) (flatten_all dec safe depth allowed subs))"
  by (auto simp: flatten_all_def option.map_comp comp_def split: option.splits)

lemma executes_flatten:
  "executes dec safe call calls \<Longrightarrow> \<exists>d. \<forall>d'\<ge>d. flatten dec safe d' call = Some calls"
  "executes_all dec safe allowed subs cs \<Longrightarrow> \<exists>d. \<forall>d'\<ge>d. flatten_all dec safe d' allowed subs = Some cs"
proof (induction rule: executes_executes_all.inducts)
  case (single call)
  then show ?case by (simp add: flatten.simps [of dec safe _ call])
next
  case (batch call subs allowed calls)
  then obtain d where d: "\<forall>d'\<ge>d. flatten_all dec safe d' allowed subs = Some calls" by blast
  have "flatten dec safe d' call = Some calls" if d': "d' \<ge> Suc d" for d'
  proof -
    from d' obtain k where k: "d' = Suc k" "d \<le> k" by (cases d') auto
    then have "flatten_all dec safe k allowed subs = Some calls" using d by blast
    then show ?thesis using k batch(1) by (simp add: flatten.simps [of dec safe _ call] flatten_all_def)
  qed
  then show ?case by blast
next
  case (opaque sub allowed subs calls)
  then show ?case by (auto simp: flatten_all_simps)
next
  case (expanded sub allowed calls subs calls')
  then obtain d d' where "\<forall>k\<ge>d. flatten dec safe k sub = Some calls" "\<forall>k\<ge>d'. flatten_all dec safe k allowed subs = Some calls'"
    by blast
  moreover have "\<not> (mt_operation sub = DELEGATECALL \<and> \<not> allowed)" using expanded(1) by auto
  ultimately show ?case by (intro exI [of _ "max d d'"]) (auto simp: flatten_all_simps)
qed (simp add: flatten_all_simps)

text \<open>
  C16: flattening computes what a transaction executes.  A list of calls is the result of flattening a call
  to some depth exactly if it is the sequence of calls that its execution amounts to; the result does not
  depend on the depth allowed, which only decides whether there is one; and in the result nothing is left
  to expand but delegate calls.
\<close>

theorem flatten_equals_execution:
  "((\<exists>depth. flatten dec safe depth call = Some calls) \<longleftrightarrow> executes dec safe call calls) \<and>
   (flatten dec safe depth call \<noteq> None \<and> flatten dec safe depth' call \<noteq> None \<longrightarrow>
      flatten dec safe depth call = flatten dec safe depth' call) \<and>
   (flatten dec safe depth call = Some calls' \<longrightarrow>
      list_all (\<lambda>c. decode_multi_send_call dec safe c = None \<or> mt_operation c = DELEGATECALL) calls')"
proof (intro conjI impI)
  show "(\<exists>depth. flatten dec safe depth call = Some calls) \<longleftrightarrow> executes dec safe call calls"
    using flatten_executes executes_flatten(1) by blast
next
  assume "flatten dec safe depth call \<noteq> None \<and> flatten dec safe depth' call \<noteq> None"
  then obtain xs ys where "flatten dec safe depth call = Some xs" "flatten dec safe depth' call = Some ys" by auto
  then show "flatten dec safe depth call = flatten dec safe depth' call"
    using executes_unique(1) flatten_executes by metis
next
  assume "flatten dec safe depth call = Some calls'"
  from executes_leaves(1) [OF flatten_executes [OF this]]
  show "list_all (\<lambda>c. decode_multi_send_call dec safe c = None \<or> mt_operation c = DELEGATECALL) calls'"
    by (simp add: list_all_iff)
qed

definition sample_batch :: meta_transaction where
  "sample_batch = \<lparr>mt_to = 0x9641d764fc13c8B624c04430C7356C1C7C8102e2, mt_value = 0,
     mt_data = encode_multi_send [\<lparr>mt_to = 5, mt_value = 0, mt_data = [1], mt_operation = CALL\<rparr>], mt_operation = DELEGATECALL\<rparr>"

lemma sample_batch_decoded:
  "decode_multi_send_call Some 9 sample_batch = Some ([\<lparr>mt_to = 5, mt_value = 0, mt_data = [1], mt_operation = CALL\<rparr>], False)"
  using decode_encode_multi_send [of "[\<lparr>mt_to = 5, mt_value = 0, mt_data = [1], mt_operation = CALL\<rparr>]" 9 Legacy]
  by (simp add: decode_multi_send_call_def sample_batch_def known_deployment_def deployments_def resolve_target_def)

theorem flatten_equals_execution_witness:
  "flatten Some 9 4 sample_batch = flatten Some 9 1 sample_batch \<and>
   executes Some 9 sample_batch [\<lparr>mt_to = 5, mt_value = 0, mt_data = [1], mt_operation = CALL\<rparr>]"
proof -
  let ?c = "\<lparr>mt_to = 5, mt_value = 0, mt_data = [1], mt_operation = CALL\<rparr> :: meta_transaction"
  have leaf: "flatten Some 9 d ?c = Some [?c]" for d
    by (simp add: flatten.simps [of _ _ _ ?c] decode_multi_send_call_def)
  have f: "flatten Some 9 (Suc d) sample_batch = Some [?c]" for d
    by (simp add: flatten.simps [of _ _ _ sample_batch] sample_batch_decoded leaf)
  have "flatten Some 9 4 sample_batch = Some [?c]" "flatten Some 9 1 sample_batch = Some [?c]"
    using f [of 3] f [of 0] by simp_all
  then show ?thesis using flatten_equals_execution [of Some 9 sample_batch "[?c]" 4 1] by auto
qed

end
