(* ===== verification/Engine.thy ===== *)
theory Engine
  imports Protocol_Checkers Batches
begin

text \<open>
  The sentinel engine (\<^verbatim>\<open>crates/sentinel-engine/src/engine/mod.rs\<close>): it parses a transaction, runs its checkers
  in order, stops at the first denial and answers \<open>Secure\<close> only if the claims of the affirming checkers
  together cover every call.  The checkers in production are those that \<^verbatim>\<open>main.rs\<close> lists.
\<close>

section \<open>Verdicts\<close>

fun run_checkers :: "checker list \<Rightarrow> proposal \<Rightarrow> check_context \<Rightarrow> coverage \<Rightarrow> charter_rule + coverage" where
  "run_checkers [] p ctx covered = Inr covered"
| "run_checkers (check # checkers) p ctx covered =
     (case check p ctx of
        Denies rule \<Rightarrow> Inl rule
      | Affirms c \<Rightarrow> run_checkers checkers p ctx (coverage_union covered c)
      | NoOpinion \<Rightarrow> run_checkers checkers p ctx covered)"

definition security_check :: "(bytes \<Rightarrow> bytes option) \<Rightarrow> checker list \<Rightarrow> safe_transaction \<Rightarrow> check_context \<Rightarrow> verdict" where
  "security_check dec checkers tx ctx =
     (case parse dec tx of
        None \<Rightarrow> Abstain
      | Some p \<Rightarrow>
          (case run_checkers checkers p ctx (coverage_none (length (prop_calls p))) of
             Inl rule \<Rightarrow> Insecure rule
           | Inr covered \<Rightarrow> if coverage_contains covered (coverage_required_for p) then Secure else Abstain))"

record engine =
  eng_abi :: abi
  eng_history :: chain_history
  eng_orders :: order_api
  eng_blocklist :: "address fset"

definition production_checkers :: "engine \<Rightarrow> checker list" where
  "production_checkers E =
     [cancellation_checker, escape_hatch_checker (eng_abi E), base_checker (eng_abi E), blocklist_checker (eng_blocklist E),
      nested_safe_checker (eng_abi E), excessive_approval_checker (eng_abi E), cow_checker (eng_abi E) (eng_orders E),
      staking_checker (eng_abi E), refund_checker (eng_abi E) (eng_history E),
      address_poisoning_checker (eng_abi E) (eng_history E)]"

definition engine_verdict :: "engine \<Rightarrow> safe_transaction \<Rightarrow> check_context \<Rightarrow> verdict" where
  "engine_verdict E tx ctx = security_check (dec_multi_send (eng_abi E)) (production_checkers E) tx ctx"

section \<open>Composition of claims\<close>

text \<open>
  A checker is honest about the size of a proposal if its claims name exactly the proposal's calls.  The
  comparison of claims relies on it: it looks at the calls pairwise, and a shorter claim would pass.
\<close>

definition sized :: "checker \<Rightarrow> bool" where
  "sized check \<longleftrightarrow> (\<forall>p ctx c. check p ctx = Affirms c \<longrightarrow> length (cov_calls c) = length (prop_calls p))"

lemma run_checkers_outcome:
  assumes "\<forall>k\<in>set cs. sized k" "length (cov_calls c0) = length (prop_calls p)" "run_checkers cs p ctx c0 = Inr covered"
  shows "length (cov_calls covered) = length (prop_calls p) \<and>
    (\<forall>k\<in>set cs. \<forall>rule. k p ctx \<noteq> Denies rule) \<and>
    (\<forall>i n. covers covered i n \<longleftrightarrow> covers c0 i n \<or> (\<exists>k\<in>set cs. \<exists>c. k p ctx = Affirms c \<and> covers c i n)) \<and>
    (cov_refund covered \<longleftrightarrow> cov_refund c0 \<or> (\<exists>k\<in>set cs. \<exists>c. k p ctx = Affirms c \<and> cov_refund c))"
  using assms
proof (induction cs arbitrary: c0)
  case (Cons k cs)
  show ?case
  proof (cases "k p ctx")
    case (Affirms c)
    then have sz: "length (cov_calls c) = length (prop_calls p)" using Cons.prems(1) by (auto simp: sized_def)
    then have "length (cov_calls (coverage_union c0 c)) = length (prop_calls p)" using Cons.prems(2) by simp
    moreover have "run_checkers cs p ctx (coverage_union c0 c) = Inr covered" using Affirms Cons.prems(3) by simp
    ultimately show ?thesis using Cons.IH [of "coverage_union c0 c"] Cons.prems Affirms sz
      by (auto simp: covers_union)
  next
    case NoOpinion
    then show ?thesis using Cons.IH [of c0] Cons.prems by auto
  qed (use Cons.prems in simp)
qed simp

lemma run_checkers_denial: "run_checkers cs p ctx c0 = Inl rule \<Longrightarrow> \<exists>k\<in>set cs. k p ctx = Denies rule"
  by (induction cs arbitrary: c0) (auto split: assessment.splits)

lemma run_checkers_denies: "k \<in> set cs \<Longrightarrow> k p ctx = Denies rule \<Longrightarrow> \<exists>rule'. run_checkers cs p ctx c0 = Inl rule'"
  by (induction cs arbitrary: c0) (auto split: assessment.splits)

text \<open>A verdict of security, in terms of the checkers.\<close>

lemma secure_iff:
  assumes "\<forall>k\<in>set cs. sized k"
  shows "security_check dec cs tx ctx = Secure \<longleftrightarrow>
    (\<exists>p. parse dec tx = Some p \<and> (\<forall>k\<in>set cs. \<forall>rule. k p ctx \<noteq> Denies rule) \<and>
       (\<forall>i<length (prop_calls p). \<forall>n. bit (aspects_required_for (prop_calls p ! i)) n \<longrightarrow>
          (\<exists>k\<in>set cs. \<exists>c. k p ctx = Affirms c \<and> covers c i n)) \<and>
       (tx_gas_price (prop_transaction p) \<noteq> 0 \<longrightarrow> (\<exists>k\<in>set cs. \<exists>c. k p ctx = Affirms c \<and> cov_refund c)))"
proof (cases "parse dec tx")
  case (Some p)
  show ?thesis
  proof (cases "run_checkers cs p ctx (coverage_none (length (prop_calls p)))")
    case (Inl rule)
    then show ?thesis using Some run_checkers_denial [OF Inl] by (auto simp: security_check_def)
  next
    case (Inr covered)
    from run_checkers_outcome [OF assms _ Inr] have o: "length (cov_calls covered) = length (prop_calls p)"
      "\<forall>k\<in>set cs. \<forall>rule. k p ctx \<noteq> Denies rule"
      "\<forall>i n. covers covered i n \<longleftrightarrow> (\<exists>k\<in>set cs. \<exists>c. k p ctx = Affirms c \<and> covers c i n)"
      "cov_refund covered \<longleftrightarrow> (\<exists>k\<in>set cs. \<exists>c. k p ctx = Affirms c \<and> cov_refund c)" by simp_all
    then show ?thesis using Some Inr by (simp add: security_check_def coverage_contains_iff [OF o(1)] del: bit_required)
  qed
qed (simp add: security_check_def)

lemma insecure_iff:
  "(\<exists>rule. security_check dec cs tx ctx = Insecure rule) \<longleftrightarrow>
     (\<exists>p. parse dec tx = Some p \<and> (\<exists>k\<in>set cs. \<exists>rule. k p ctx = Denies rule))"
proof (cases "parse dec tx")
  case (Some p)
  let ?r = "run_checkers cs p ctx (coverage_none (length (prop_calls p)))"
  show ?thesis
  proof (cases ?r)
    case (Inl rule)
    then show ?thesis using Some run_checkers_denial [OF Inl] by (auto simp: security_check_def)
  next
    case (Inr covered)
    then have "\<not> (\<exists>k\<in>set cs. \<exists>rule. k p ctx = Denies rule)"
      using run_checkers_denies [of _ cs p ctx] by (metis sum.distinct(1))
    then show ?thesis using Some Inr by (auto simp: security_check_def)
  qed
qed (simp add: security_check_def)

text \<open>
  C17: a denial is never masked, and the order of the checkers does not matter.  For checkers whose claims
  have the size of the proposal, in any order and multiplicity, the engine answers \<open>Insecure\<close> exactly if
  some checker denies the proposal, whatever the others affirm, and whether it answers \<open>Secure\<close> depends on
  the set of checkers only.
\<close>

theorem denials_are_never_masked:
  assumes "\<forall>k\<in>set cs. sized k" "set cs' = set cs"
  shows "((\<exists>rule. security_check dec cs tx ctx = Insecure rule) \<longleftrightarrow>
      (\<exists>p k rule. parse dec tx = Some p \<and> k \<in> set cs \<and> k p ctx = Denies rule)) \<and>
    ((\<exists>rule. security_check dec cs tx ctx = Insecure rule) \<longleftrightarrow> (\<exists>rule. security_check dec cs' tx ctx = Insecure rule)) \<and>
    (security_check dec cs tx ctx = Secure \<longleftrightarrow> security_check dec cs' tx ctx = Secure)"
proof -
  have "\<forall>k\<in>set cs'. sized k" using assms by simp
  then have "security_check dec cs tx ctx = Secure \<longleftrightarrow> security_check dec cs' tx ctx = Secure"
    by (simp only: secure_iff [OF assms(1)] secure_iff assms(2))
  then show ?thesis unfolding insecure_iff assms(2) by auto
qed

section \<open>The checkers in production\<close>

lemma either_order_cases: "either_order f x y = Some r \<Longrightarrow> f x y = Some r \<or> f y x = Some r"
  by (auto simp: either_order_def split: option.splits)

lemma first_opinion_cases: "first_opinion as = Affirms c \<Longrightarrow> Affirms c \<in> set as"
  by (induction as) (auto split: if_splits)

lemma approval_plain: "vault_relayer_approval_amount A call = Some r \<Longrightarrow> plain_call call"
  by (auto simp: vault_relayer_approval_amount_def split: if_splits)

lemma presignature_affirms:
  assumes "check_presignature_batch A api safe chain calls = Affirms c"
  shows "c = coverage_calls (length calls) DATA \<and> (\<forall>x\<in>set calls. plain_call x)"
  using assms
  by (auto elim!: check_presignature_batch.elims dest!: either_order_cases approval_plain
      simp: decode_approval_and_presignature_def presignature_order_uid_def numeral_2_eq_2
      split: option.splits if_splits prod.splits)

lemma twap_affirms:
  assumes "check_twap_batch A safe calls = Affirms c"
  shows "c = coverage_calls (length calls) DATA \<and> (\<forall>x\<in>set calls. plain_call x)"
  using assms
  by (auto elim!: check_twap_batch.elims dest!: either_order_cases approval_plain
      simp: decode_approval_and_twap_def twap_order_terms_def numeral_2_eq_2 split: option.splits if_splits prod.splits)

lemma dangling_affirms: "check_dangling_approval A calls \<noteq> Affirms c"
  by (auto simp: check_dangling_approval_def)

lemma cow_affirms:
  assumes "cow_checker A api p ctx = Affirms c"
  shows "c = checked p DATA \<and> (\<forall>x\<in>set (prop_calls p). plain_call x)"
proof -
  from assms have "check_presignature_batch A api (tx_safe (prop_transaction p)) (tx_chain_id (prop_transaction p)) (prop_calls p) = Affirms c \<or>
      check_twap_batch A (tx_safe (prop_transaction p)) (prop_calls p) = Affirms c"
    using dangling_affirms [of A "prop_calls p"] by (auto simp: cow_checker_def Let_def split: if_splits dest!: first_opinion_cases)
  then show ?thesis using presignature_affirms twap_affirms unfolding checked_def by blast
qed

lemma set_claims_aside_plain:
  "set_claims_aside A safe calls claimed remaining = Inr (claimed', remaining') \<Longrightarrow>
   \<exists>kept. remaining' = remaining @ kept \<and> (\<forall>x\<in>set calls. plain_call x \<or> x \<in> set kept)"
proof (induction calls arbitrary: claimed remaining)
  case (Cons call calls)
  show ?case
  proof (cases "claim_account A call")
    case None
    then obtain kept where "remaining' = (remaining @ [call]) @ kept" "\<forall>x\<in>set calls. plain_call x \<or> x \<in> set kept"
      using Cons by fastforce
    then show ?thesis by (intro exI [of _ "call # kept"]) auto
  next
    case (Some account)
    then have "plain_call call" by (auto simp: claim_account_def split: if_splits)
    then show ?thesis using Cons Some by (auto split: if_splits)
  qed
qed auto

lemma staking_affirms:
  assumes "staking_checker A p ctx = Affirms c"
  shows "c = checked p DATA \<and> (\<forall>x\<in>set (prop_calls p). plain_call x)"
proof -
  from assms obtain claimed remaining where r: "set_claims_aside A (tx_safe (prop_transaction p)) (prop_calls p) False [] = Inr (claimed, remaining)"
    by (auto simp: staking_checker_def Let_def split: if_splits sum.splits)
  have "c = checked p DATA \<and> (\<forall>x\<in>set remaining. plain_call x)"
    using assms r
    by (auto simp: staking_checker_def Let_def check_lone_call_def check_pair_def stake_amount_def
        staking_approval_amount_def checked_def split: if_splits list.splits option.splits)
  then show ?thesis using set_claims_aside_plain [OF r] by auto
qed

subsection \<open>History\<close>

lemma chunk_step:
  fixes start to m :: u64
  assumes "\<not> to \<le> min (sat_add start m) to"
  defines "stop \<equiv> min (sat_add start m) to"
  shows "unat stop = unat start + unat m" "unat stop < unat to" "unat (sat_add stop 1) = Suc (unat stop)"
proof -
  have s: "stop = sat_add start m" "stop < to" using assms by (auto simp: min_def not_le split: if_splits)
  then show "unat stop < unat to" by (simp add: word_less_nat_alt)
  then show "unat stop = unat start + unat m"
    using s(1) unat_less_exp [of to] by (simp add: unat_sat_add min_def split: if_splits)
  show "unat (sat_add stop 1) = Suc (unat stop)" using s(2) by (rule sat_succ)
qed

lemma chunks_partition:
  "start \<le> to \<Longrightarrow>
   concat (map (\<lambda>(a, b). [unat a..<Suc (unat b)]) (chunks_from to m start)) = [unat start..<Suc (unat to)] \<and>
   (\<forall>(a, b)\<in>set (chunks_from to m start). start \<le> a \<and> a \<le> b \<and> b \<le> to \<and> unat b - unat a \<le> unat m)"
proof (induction to m start rule: chunks_from.induct)
  case (1 to m start)
  let ?stop = "min (sat_add start m) to"
  show ?case
  proof (cases "to \<le> ?stop")
    case True
    then have stop: "?stop = to" by simp
    then have "to \<le> sat_add start m" by (metis min.cobounded1)
    then have "unat to \<le> unat start + unat m" by (simp add: word_le_nat_alt unat_sat_add)
    then have "unat to - unat start \<le> unat m" by linarith
    moreover have "chunks_from to m start = [(start, to)]" using True stop by (simp add: chunks_from.simps Let_def)
    ultimately show ?thesis using "1.prems" by simp
  next
    case False
    note st = chunk_step [OF False]
    let ?next = "sat_add ?stop 1"
    have ch: "chunks_from to m start = (start, ?stop) # chunks_from to m ?next"
      using False by (subst chunks_from.simps) (simp add: Let_def)
    have le: "?next \<le> to" "start \<le> ?next" "start \<le> ?stop" using st by (simp_all add: word_le_nat_alt)
    note IH = "1.IH" [OF refl False le(1)]
    have "[unat start..<Suc (unat ?stop)] @ [unat ?next..<Suc (unat to)] = [unat start..<Suc (unat to)]"
      using st upt_add_eq_append [of "unat start" "Suc (unat ?stop)" "unat to - unat ?stop"] by (simp del: upt_Suc)
    then have "concat (map (\<lambda>(a, b). [unat a..<Suc (unat b)]) (chunks_from to m start)) = [unat start..<Suc (unat to)]"
      unfolding ch using IH by (simp del: upt_Suc)
    moreover have "\<forall>(a, b)\<in>set (chunks_from to m ?next). start \<le> a \<and> a \<le> b \<and> b \<le> to \<and> unat b - unat a \<le> unat m"
      using IH le(2) by (auto intro: order_trans)
    ultimately show ?thesis unfolding ch using st le by simp
  qed
qed

text \<open>
  C38: the history scan misses no block.  The chunks that the log queries are split into cover the blocks
  of the lookback window from its first to the current block, each exactly once and in order, and no query
  spans more than the configured range.
\<close>

theorem log_queries_cover_the_window:
  "let from = sat_sub block lookback; chunks = block_chunks from block max_range
   in concat (map (\<lambda>(a, b). [unat a..<Suc (unat b)]) chunks) = [unat from..<Suc (unat block)] \<and>
      list_all (\<lambda>(a, b). a \<le> b \<and> (case max_range of None \<Rightarrow> True | Some m \<Rightarrow> unat b - unat a \<le> unat (nz_get m))) chunks"
proof -
  have "sat_sub block lookback \<le> block" by (auto simp: sat_sub_def word_le_nat_alt unat_sub)
  from chunks_partition [OF this, of "case max_range of Some n \<Rightarrow> nz_get n | None \<Rightarrow> - 1"] show ?thesis
    by (auto simp: block_chunks_def Let_def list_all_iff split: option.splits simp del: upt_Suc)
qed

text \<open>A log of the window that records a transfer or approval of a nonzero amount from the Safe to an address.\<close>

definition prior_interaction :: "abi \<Rightarrow> chain_history \<Rightarrow> address \<Rightarrow> address \<Rightarrow> address \<Rightarrow> u64 \<Rightarrow> bool" where
  "prior_interaction A H token safe candidate block \<longleftrightarrow>
     (\<exists>a b logs log amount. sat_sub block (hist_lookback_blocks H) \<le> a \<and> b \<le> block \<and>
        hist_get_logs H token safe a b = Some logs \<and> log \<in> set logs \<and>
        decode_target_and_amount A log = Some (candidate, amount) \<and> amount \<noteq> 0)"

lemma scan_logs_match: "scan_logs A candidate logs rs = None \<Longrightarrow>
    \<exists>log\<in>set logs. \<exists>amount. decode_target_and_amount A log = Some (candidate, amount) \<and> amount \<noteq> 0"
  by (induction logs arbitrary: rs) (auto split: option.splits if_splits)

lemma scan_chunks_match: "scan_chunks A get candidate chunks rs = Some ExactMatch \<Longrightarrow>
    \<exists>a b logs. (a, b) \<in> set chunks \<and> get a b = Some logs \<and>
      (\<exists>log\<in>set logs. \<exists>amount. decode_target_and_amount A log = Some (candidate, amount) \<and> amount \<noteq> 0)"
proof (induction chunks arbitrary: rs)
  case (Cons ab chunks)
  then obtain a b logs where ab: "ab = (a, b)" "get a b = Some logs" by (cases ab) (auto split: option.splits if_splits)
  show ?case
  proof (cases "scan_logs A candidate logs rs")
    case None
    then show ?thesis using ab scan_logs_match [OF None] by (metis list.set_intros(1))
  next
    case (Some rs')
    then have "scan_chunks A get candidate chunks rs' = Some ExactMatch" using Cons.prems ab by simp
    then show ?thesis using Cons.IH by fastforce
  qed
qed simp

lemma exact_match_evidence:
  assumes "established_recipients A H token safe candidate block = Some ExactMatch"
  shows "prior_interaction A H token safe candidate block"
proof -
  let ?chunks = "block_chunks (sat_sub block (hist_lookback_blocks H)) block (hist_max_block_range H)"
  have le: "sat_sub block (hist_lookback_blocks H) \<le> block" by (auto simp: sat_sub_def word_le_nat_alt unat_sub)
  from assms obtain a b logs log amount where ab: "(a, b) \<in> set ?chunks" "hist_get_logs H token safe a b = Some logs"
    "log \<in> set logs" "decode_target_and_amount A log = Some (candidate, amount)" "amount \<noteq> 0"
    by (auto simp: established_recipients_def Let_def dest!: scan_chunks_match)
  have "sat_sub block (hist_lookback_blocks H) \<le> a \<and> b \<le> block"
    using chunks_partition [OF le] ab(1) by (auto simp: block_chunks_def)
  then show ?thesis using ab unfolding prior_interaction_def by blast
qed

text \<open>The target of a call is one the Safe has dealt with before.\<close>

definition target_established :: "abi \<Rightarrow> chain_history \<Rightarrow> address \<Rightarrow> u64 \<Rightarrow> meta_transaction \<Rightarrow> bool" where
  "target_established A H safe block call \<longleftrightarrow>
     (\<exists>candidate kind. decode_target A safe call = Some (candidate, kind) \<and>
        prior_interaction A H (mt_to call) safe candidate block)"

lemma scan_calls_affirms:
  "scan_calls A H safe block calls abstain = Inr False \<Longrightarrow> \<not> abstain \<and> (\<forall>x\<in>set calls. target_established A H safe block x)"
proof (induction calls arbitrary: abstain)
  case (Cons call calls)
  from Cons.prems obtain candidate kind where d: "decode_target A safe call = Some (candidate, kind)"
    "established_recipients A H (mt_to call) safe candidate block = Some ExactMatch"
    "scan_calls A H safe block calls abstain = Inr False"
    by (auto dest!: Cons.IH split: option.splits recipient_lookup.splits if_splits)
  then show ?case using Cons.IH exact_match_evidence by (auto simp: target_established_def)
qed simp

lemma poisoning_affirms:
  assumes "address_poisoning_checker A H p ctx = Affirms c"
  shows "c = checked p (TO OR DATA) \<and> (\<exists>block. context_block H ctx = Some block \<and>
    (\<forall>x\<in>set (prop_calls p). target_established A H (tx_safe (prop_transaction p)) block x))"
  using assms
  by (auto simp: address_poisoning_checker_def Let_def dest!: scan_calls_affirms split: if_splits option.splits sum.splits)

lemma target_established_call: "target_established A H safe block x \<Longrightarrow> mt_operation x = CALL"
  by (auto simp: target_established_def decode_target_def split: if_splits)

subsection \<open>What a secure verdict rests on\<close>

lemma try_for_each_ok: "try_for_each f xs = Inr () \<longleftrightarrow> (\<forall>x\<in>set xs. f x = Inr ())"
  by (induction xs) (simp_all split: sum.splits)

lemma base_affirms:
  assumes "\<forall>rule. base_checker A p ctx \<noteq> Denies rule"
  shows "\<forall>x\<in>set (prop_calls p). check_call A (tx_safe (prop_transaction p)) x = Inr ()"
proof -
  have "try_for_each (check_call A (tx_safe (prop_transaction p))) (prop_calls p) = Inr ()"
    using assms by (simp add: base_checker_def split: sum.splits)
  then show ?thesis by (simp only: try_for_each_ok)
qed

lemma check_call_ok: "check_call A safe x = Inr () \<longleftrightarrow>
    (case mt_operation x of CALL \<Rightarrow> check_calls A safe x | DELEGATECALL \<Rightarrow> check_delegate_calls A x)"
  by (cases "mt_operation x") (auto simp: check_call_def check_settings_change_def check_delegatecall_integrity_def)

lemma delegate_call_has_data:
  assumes "\<And>f. selector A f \<noteq> []" "check_delegate_calls A x"
  shows "mt_data x \<noteq> []"
proof
  assume "mt_data x = []"
  moreover have "[] \<noteq> selector A f" for f using assms(1) by metis
  ultimately show False using assms(2) by (simp add: check_delegate_calls_def starts_with_def split: if_splits)
qed

lemma refund_affirms:
  assumes "refund_checker A H p ctx = Affirms c" "\<And>to amount. dec_transfer A (enc_transfer A to amount) = Some (to, amount)"
  shows "c = refund_checked p \<and> (\<exists>block. context_block H ctx = Some block \<and>
    prior_interaction A H (tx_gas_token (prop_transaction p)) (tx_safe (prop_transaction p))
      (tx_refund_receiver (prop_transaction p)) block)"
proof -
  from assms(1) obtain call d where call: "refund_transfer A (prop_transaction p) = Some call"
    "address_poisoning_checker A H \<lparr>prop_transaction = prop_transaction p, prop_calls = [call]\<rparr> ctx = Affirms d"
    "c = refund_checked p"
    by (auto simp: refund_checker_def split: option.splits assessment.splits)
  from poisoning_affirms [OF call(2)] obtain block where b: "context_block H ctx = Some block"
    "target_established A H (tx_safe (prop_transaction p)) block call" by auto
  have "prior_interaction A H (tx_gas_token (prop_transaction p)) (tx_safe (prop_transaction p))
      (tx_refund_receiver (prop_transaction p)) block"
    using b(2) call(1) assms(2)
    by (auto simp: target_established_def refund_transfer_def decode_target_def split: if_splits)
  then show ?thesis using b(1) call(3) by blast
qed

lemma cancellation_parse:
  assumes "parse dec tx = Some p" "tx = cancellation_of tx"
  shows "prop_calls p = [as_meta_transaction tx]"
proof -
  have "tx_operation tx = CALL" using assms(2) by (metis cancellation_of_def safe_transaction.select_convs(6))
  then show ?thesis using assms(1)
    by (auto simp: parse_def flatten.simps decode_multi_send_call_def as_meta_transaction_def)
qed

lemma parse_transaction: "parse dec tx = Some p \<Longrightarrow> prop_transaction p = tx"
  by (auto simp: parse_def)

lemma cancellation_fields:
  assumes "tx = cancellation_of tx"
  shows "tx_value tx = 0" "tx_data tx = []" "tx_operation tx = CALL" "tx_gas_price tx = 0" "tx_to tx = tx_safe tx"
  by (subst assms, simp add: cancellation_of_def)+

text \<open>The flows that the protocol checkers recognize.\<close>

definition known_flow :: "engine \<Rightarrow> proposal \<Rightarrow> check_context \<Rightarrow> bool" where
  "known_flow E p ctx \<longleftrightarrow>
     (\<exists>c. cow_checker (eng_abi E) (eng_orders E) p ctx = Affirms c) \<or> (\<exists>c. staking_checker (eng_abi E) p ctx = Affirms c)"

lemma production_sized: "\<forall>k\<in>set (production_checkers E). sized k"
proof -
  have "sized cancellation_checker" "sized (escape_hatch_checker A)" "sized (base_checker A)"
    "sized (blocklist_checker B)" "sized (nested_safe_checker A)" "sized (excessive_approval_checker A)" for A B
    by (auto simp: sized_def cancellation_checker_def escape_hatch_checker_def base_checker_def blocklist_checker_def
        nested_safe_checker_def excessive_approval_checker_def split: if_splits sum.splits)
  moreover have "sized (cow_checker A O1)" "sized (staking_checker A)" "sized (address_poisoning_checker A H)" for A O1 H
    by (auto simp: sized_def dest!: cow_affirms staking_affirms poisoning_affirms)
  moreover have "sized (refund_checker A H)" for A H
    by (auto simp: sized_def refund_checker_def split: option.splits assessment.splits)
  ultimately show ?thesis by (simp add: production_checkers_def)
qed

text \<open>Which checkers vouch for data, for value and for the refund.\<close>

lemma claims:
  "cancellation_checker p ctx = Affirms c \<Longrightarrow> prop_transaction p = cancellation_of (prop_transaction p)"
  "escape_hatch_checker A p ctx = Affirms c \<Longrightarrow> list_all (is_escape_hatch_call A) (prop_calls p) \<and> \<not> cov_refund c"
  "base_checker A p ctx = Affirms c \<Longrightarrow> c = checked p (TO OR OPERATION)"
  "blocklist_checker B p ctx \<noteq> Affirms c"
  "nested_safe_checker A p ctx = Affirms c \<Longrightarrow> c = checked p (TO OR DATA OR OPERATION) \<and>
     list_all (is_nested_exec_transaction A (tx_safe (prop_transaction p))) (prop_calls p)"
  "excessive_approval_checker A p ctx \<noteq> Affirms c"
  "refund_checker A H p ctx = Affirms c \<Longrightarrow> c = refund_checked p"
  by (auto simp: cancellation_checker_def escape_hatch_checker_def base_checker_def blocklist_checker_def
      nested_safe_checker_def excessive_approval_checker_def refund_checker_def
      split: if_splits sum.splits option.splits assessment.splits)

lemma production_cases:
  assumes "k \<in> set (production_checkers E)" "k p ctx = Affirms c"
  obtains "cancellation_checker p ctx = Affirms c" | "escape_hatch_checker (eng_abi E) p ctx = Affirms c"
  | "base_checker (eng_abi E) p ctx = Affirms c" | "nested_safe_checker (eng_abi E) p ctx = Affirms c"
  | "cow_checker (eng_abi E) (eng_orders E) p ctx = Affirms c" | "staking_checker (eng_abi E) p ctx = Affirms c"
  | "refund_checker (eng_abi E) (eng_history E) p ctx = Affirms c"
  | "address_poisoning_checker (eng_abi E) (eng_history E) p ctx = Affirms c"
proof -
  have "k = cancellation_checker \<or> k = escape_hatch_checker (eng_abi E) \<or> k = base_checker (eng_abi E) \<or>
      k = blocklist_checker (eng_blocklist E) \<or> k = nested_safe_checker (eng_abi E) \<or>
      k = excessive_approval_checker (eng_abi E) \<or> k = cow_checker (eng_abi E) (eng_orders E) \<or>
      k = staking_checker (eng_abi E) \<or> k = refund_checker (eng_abi E) (eng_history E) \<or>
      k = address_poisoning_checker (eng_abi E) (eng_history E)"
    using assms(1) by (simp add: production_checkers_def)
  then show ?thesis using assms(2) claims(4,6) by (elim disjE) (simp_all add: that)
qed

lemma data_voucher:
  assumes "k \<in> set (production_checkers E)" "k p ctx = Affirms c" "covers c i 2"
  shows "prop_transaction p = cancellation_of (prop_transaction p) \<or>
    list_all (is_escape_hatch_call (eng_abi E)) (prop_calls p) \<or>
    list_all (is_nested_exec_transaction (eng_abi E) (tx_safe (prop_transaction p))) (prop_calls p) \<or>
    known_flow E p ctx \<or>
    (\<exists>block. context_block (eng_history E) ctx = Some block \<and>
      list_all (target_established (eng_abi E) (eng_history E) (tx_safe (prop_transaction p)) block) (prop_calls p))"
  using assms(1,2)
proof (cases rule: production_cases)
  case 1
  then show ?thesis using claims(1) by blast
next
  case 2
  then show ?thesis using claims(2) by blast
next
  case 4
  then show ?thesis using claims(5) by blast
next
  case 3
  then show ?thesis using claims(3) [OF 3] assms(3) by (simp add: bit_or_iff)
next
  case 7
  then show ?thesis using claims(7) [OF 7] assms(3) by simp
next
  case 8
  then show ?thesis using poisoning_affirms [OF 8] by (auto simp: list_all_iff)
qed (auto simp: known_flow_def)

lemma value_voucher:
  assumes "k \<in> set (production_checkers E)" "k p ctx = Affirms c" "covers c i 1"
  shows "prop_transaction p = cancellation_of (prop_transaction p) \<or> list_all (is_escape_hatch_call (eng_abi E)) (prop_calls p)"
  using assms(1,2)
proof (cases rule: production_cases)
  case 1
  then show ?thesis using claims(1) by blast
next
  case 2
  then show ?thesis using claims(2) by blast
qed (use assms(3) in \<open>auto simp: bit_or_iff dest!: claims(3,5,7) cow_affirms staking_affirms poisoning_affirms\<close>)

lemma refund_voucher:
  assumes "k \<in> set (production_checkers E)" "k p ctx = Affirms c" "cov_refund c"
  shows "prop_transaction p = cancellation_of (prop_transaction p) \<or> refund_checker (eng_abi E) (eng_history E) p ctx = Affirms c"
  using assms(1,2)
proof (cases rule: production_cases)
  case 1
  then show ?thesis using claims(1) by blast
qed (use assms(3) in \<open>auto dest!: claims(2,3,5) cow_affirms staking_affirms poisoning_affirms\<close>)

text \<open>Why the engine lets the data of a call pass.\<close>

definition data_explained :: "engine \<Rightarrow> proposal \<Rightarrow> check_context \<Rightarrow> meta_transaction \<Rightarrow> bool" where
  "data_explained E p ctx x \<longleftrightarrow>
     is_escape_hatch_call (eng_abi E) x \<or> is_nested_exec_transaction (eng_abi E) (tx_safe (prop_transaction p)) x \<or>
     known_flow E p ctx \<or>
     (\<exists>block. context_block (eng_history E) ctx = Some block \<and>
        target_established (eng_abi E) (eng_history E) (tx_safe (prop_transaction p)) block x)"

lemma data_explained_call:
  assumes "data_explained E p ctx x" "x \<in> set (prop_calls p)"
  shows "mt_operation x = CALL"
proof -
  have "known_flow E p ctx \<Longrightarrow> plain_call x"
    using assms(2) by (auto simp: known_flow_def dest!: cow_affirms staking_affirms)
  then show ?thesis using assms(1)
    by (auto simp: data_explained_def is_escape_hatch_call_def is_nested_exec_transaction_def plain_call_def
        dest: target_established_call)
qed

lemma secure_call:
  assumes sel: "\<And>f. selector (eng_abi E) f \<noteq> []"
    and parsed: "parse dec tx = Some p" and x: "x \<in> set (prop_calls p)"
    and nodeny: "\<forall>k\<in>set (production_checkers E). \<forall>rule. k p ctx \<noteq> Denies rule"
    and cov: "\<forall>i<length (prop_calls p). \<forall>n. bit (aspects_required_for (prop_calls p ! i)) n \<longrightarrow>
      (\<exists>k\<in>set (production_checkers E). \<exists>c. k p ctx = Affirms c \<and> covers c i n)"
  shows "plain_call x" "mt_data x \<noteq> [] \<Longrightarrow> data_explained E p ctx x"
proof -
  from x obtain i where i: "i < length (prop_calls p)" "prop_calls p ! i = x" by (auto simp: in_set_conv_nth)
  have tx: "prop_transaction p = tx" using parsed by (rule parse_transaction)
  have canc: "x = as_meta_transaction tx" if "tx = cancellation_of tx"
    using cancellation_parse [OF parsed that] x by simp
  show data: "data_explained E p ctx x" if "mt_data x \<noteq> []"
  proof -
    have "bit (aspects_required_for x) 2" using that by simp
    with cov i obtain k c where "k \<in> set (production_checkers E)" "k p ctx = Affirms c" "covers c i 2" by blast
    from data_voucher [OF this] show ?thesis
    proof (elim disjE)
      assume "prop_transaction p = cancellation_of (prop_transaction p)"
      then have "tx = cancellation_of tx" unfolding tx .
      then have "mt_data x = []" using canc cancellation_fields(2) by (simp add: as_meta_transaction_def)
      then show ?thesis using that by simp
    qed (use x in \<open>auto simp: data_explained_def list_all_iff\<close>)
  qed
  have "base_checker (eng_abi E) \<in> set (production_checkers E)" by (simp add: production_checkers_def)
  then have base: "check_call (eng_abi E) (tx_safe tx) x = Inr ()"
    using nodeny base_affirms [of "eng_abi E" p ctx] x tx by blast
  have op1: "mt_operation x = CALL"
  proof (cases "mt_operation x")
    case DELEGATECALL
    then have "mt_data x \<noteq> []" using base sel delegate_call_has_data by (auto simp: check_call_ok)
    then show ?thesis using data data_explained_call x by blast
  qed
  have "mt_value x = 0"
  proof (rule ccontr)
    assume v: "mt_value x \<noteq> 0"
    then have "bit (aspects_required_for x) 1" using op1 by simp
    with cov i obtain k c where "k \<in> set (production_checkers E)" "k p ctx = Affirms c" "covers c i 1" by blast
    from value_voucher [OF this] show False
    proof
      assume "prop_transaction p = cancellation_of (prop_transaction p)"
      then have "tx = cancellation_of tx" unfolding tx .
      then show False using canc cancellation_fields(1) v by (simp add: as_meta_transaction_def)
    qed (use x v in \<open>auto simp: list_all_iff is_escape_hatch_call_def\<close>)
  qed
  with op1 show "plain_call x" by (simp add: plain_call_def)
qed

lemma production_denials:
  assumes "\<forall>k\<in>set (production_checkers E). \<forall>rule. k p ctx \<noteq> Denies rule" "x \<in> set (prop_calls p)"
  shows "mt_to x |\<notin>| eng_blocklist E" "\<not> list_ex unlimited (decode_target_effects (eng_abi E) x)"
    "check_call (eng_abi E) (tx_safe (prop_transaction p)) x = Inr ()"
proof -
  have "blocklist_checker (eng_blocklist E) \<in> set (production_checkers E)"
    "excessive_approval_checker (eng_abi E) \<in> set (production_checkers E)"
    "base_checker (eng_abi E) \<in> set (production_checkers E)" by (simp_all add: production_checkers_def)
  then have d: "blocklist_checker (eng_blocklist E) p ctx \<noteq> Denies R4_6KnownMaliciousTarget"
    "excessive_approval_checker (eng_abi E) p ctx \<noteq> Denies R4_5ExcessiveApproval"
    "\<forall>rule. base_checker (eng_abi E) p ctx \<noteq> Denies rule" using assms(1) by blast+
  then show "mt_to x |\<notin>| eng_blocklist E" "\<not> list_ex unlimited (decode_target_effects (eng_abi E) x)"
    using assms(2) by (auto simp: blocklist_checker_def excessive_approval_checker_def list_ex_iff split: if_splits)
  show "check_call (eng_abi E) (tx_safe (prop_transaction p)) x = Inr ()"
    using base_affirms [OF d(3)] assms(2) by blast
qed

text \<open>
  C8: what a secure verdict means.  If the engine with its production checkers answers \<open>Secure\<close>, then the
  calls that the transaction executes, after expanding batches, are all plain calls without value (never a
  delegate call), none to a blocklisted address, none granting an unlimited approval, and a call of the
  Safe to itself is empty or one of the allowed settings changes; data is only let through as an escape
  hatch, a nested Safe transaction, a recognized protocol flow, or a token transfer or approval whose target
  the Safe has dealt with before; and a gas refund is only let through if it is paid in a token to a
  receiver the Safe has dealt with before.
\<close>

theorem secure_verdicts_are_sound:
  assumes "engine_verdict E tx ctx = Secure" and "\<And>f. selector (eng_abi E) f \<noteq> []"
    and "\<And>to amount. dec_transfer (eng_abi E) (enc_transfer (eng_abi E) to amount) = Some (to, amount)"
  shows "\<exists>p. parse (dec_multi_send (eng_abi E)) tx = Some p \<and>
    executes (dec_multi_send (eng_abi E)) (tx_safe tx) (as_meta_transaction tx) (prop_calls p) \<and>
    (\<forall>x\<in>set (prop_calls p).
       mt_operation x = CALL \<and> mt_value x = 0 \<and> mt_to x |\<notin>| eng_blocklist E \<and>
       \<not> list_ex unlimited (decode_target_effects (eng_abi E) x) \<and>
       (mt_to x = tx_safe tx \<longrightarrow> mt_data x = [] \<or> check_self_calls (eng_abi E) x) \<and>
       (mt_data x \<noteq> [] \<longrightarrow> data_explained E p ctx x)) \<and>
    (tx_gas_price tx \<noteq> 0 \<longrightarrow> tx_gas_token tx \<noteq> 0 \<and> tx_refund_receiver tx \<noteq> 0 \<and>
       (\<exists>block. context_block (eng_history E) ctx = Some block \<and>
          prior_interaction (eng_abi E) (eng_history E) (tx_gas_token tx) (tx_safe tx) (tx_refund_receiver tx) block))"
proof -
  let ?A = "eng_abi E" and ?H = "eng_history E"
  from assms(1) obtain p where parsed: "parse (dec_multi_send ?A) tx = Some p"
    and nodeny: "\<forall>k\<in>set (production_checkers E). \<forall>rule. k p ctx \<noteq> Denies rule"
    and cov: "\<forall>i<length (prop_calls p). \<forall>n. bit (aspects_required_for (prop_calls p ! i)) n \<longrightarrow>
        (\<exists>k\<in>set (production_checkers E). \<exists>c. k p ctx = Affirms c \<and> covers c i n)"
    and ref: "tx_gas_price (prop_transaction p) \<noteq> 0 \<longrightarrow> (\<exists>k\<in>set (production_checkers E). \<exists>c. k p ctx = Affirms c \<and> cov_refund c)"
    unfolding engine_verdict_def secure_iff [OF production_sized] by blast
  have tx: "prop_transaction p = tx" using parsed by (rule parse_transaction)
  have ex: "executes (dec_multi_send ?A) (tx_safe tx) (as_meta_transaction tx) (prop_calls p)"
    using parsed by (auto simp: parse_def intro: flatten_executes)
  have "mt_operation x = CALL \<and> mt_value x = 0 \<and> mt_to x |\<notin>| eng_blocklist E \<and>
      \<not> list_ex unlimited (decode_target_effects ?A x) \<and>
      (mt_to x = tx_safe tx \<longrightarrow> mt_data x = [] \<or> check_self_calls ?A x) \<and> (mt_data x \<noteq> [] \<longrightarrow> data_explained E p ctx x)"
    if x: "x \<in> set (prop_calls p)" for x
  proof -
    note c = secure_call [OF assms(2) parsed x nodeny cov] and d = production_denials [OF nodeny x]
    have "mt_to x = tx_safe tx \<longrightarrow> mt_data x = [] \<or> check_self_calls ?A x"
      using d(3) c(1) by (auto simp: tx check_call_ok plain_call_def check_calls_def split: if_splits)
    then show ?thesis using c d(1,2) by (simp add: plain_call_def)
  qed
  moreover have "tx_gas_token tx \<noteq> 0 \<and> tx_refund_receiver tx \<noteq> 0 \<and> (\<exists>block. context_block ?H ctx = Some block \<and>
      prior_interaction ?A ?H (tx_gas_token tx) (tx_safe tx) (tx_refund_receiver tx) block)" if g: "tx_gas_price tx \<noteq> 0"
  proof -
    from ref g tx obtain k c where "k \<in> set (production_checkers E)" "k p ctx = Affirms c" "cov_refund c" by auto
    then have "refund_checker ?A ?H p ctx = Affirms c" using refund_voucher g tx cancellation_fields(4) by blast
    from refund_affirms [OF this assms(3)] this show ?thesis
      by (auto simp: tx refund_checker_def refund_transfer_def split: if_splits)
  qed
  ultimately show ?thesis using parsed ex by blast
qed

section \<open>A sample payment\<close>

text \<open>
  An ABI with one-byte selectors in which only transfers decode, a node on chain 100 that knows one
  transfer of the Safe 9 to the address 77, and a transfer to that address whose gas is refunded to it.
\<close>

definition sample_abi :: abi where
  "sample_abi =
     \<lparr>selector = (\<lambda>f. [1]), dec_multi_send = (\<lambda>d. None),
      dec_transfer = (\<lambda>d. if length d = 53 \<and> hd d = 0xA9 then Some (from_be (take 20 (tl d)), from_be (drop 21 d)) else None),
      dec_transfer_from = (\<lambda>d. None), dec_approve = (\<lambda>d. None), dec_set_approval_for_all = (\<lambda>d. None),
      dec_safe_transfer_from_0 = (\<lambda>d. None), dec_safe_transfer_from_1 = (\<lambda>d. None), dec_erc1155_transfer = (\<lambda>d. None),
      dec_erc1155_batch_transfer = (\<lambda>d. None), dec_set_fallback_handler = (\<lambda>d. None), dec_set_guard = (\<lambda>d. None),
      dec_enable_module = (\<lambda>d. None), dec_set_module_guard = (\<lambda>d. None), decodes_exec_transaction = (\<lambda>d. False),
      dec_stake = (\<lambda>d. None), dec_claim = (\<lambda>d. None), dec_set_pre_signature = (\<lambda>d. None),
      dec_create_with_context = (\<lambda>d. None), dec_twap_data = (\<lambda>d. None), transfer_topic = 1, approval_topic = 2,
      dec_transfer_log = (\<lambda>l. Some (9, 77, 3)), dec_approval_log = (\<lambda>l. None),
      enc_transfer = (\<lambda>to amount. 0xA9 # be_bytes 20 to @ be_bytes 32 amount), order_signing_hash = (\<lambda>c o1. 0)\<rparr>"

definition sample_history :: chain_history where
  "sample_history = \<lparr>hist_chain_id = 100, hist_block_number = Some 20,
     hist_get_logs = (\<lambda>token safe a b. Some [\<lparr>topics = [1], payload = []\<rparr>]), hist_lookback_blocks = 10,
     hist_max_block_range = None\<rparr>"

definition sample_engine :: engine where
  "sample_engine = \<lparr>eng_abi = sample_abi, eng_history = sample_history, eng_orders = (\<lambda>u o1. None), eng_blocklist = {|666|}\<rparr>"

definition sample_payment :: safe_transaction where
  "sample_payment = \<lparr>tx_chain_id = 100, tx_safe = 9, tx_to = 5, tx_value = 0, tx_data = enc_transfer sample_abi 77 10,
     tx_operation = CALL, tx_safe_tx_gas = 30, tx_base_gas = 20, tx_gas_price = 2, tx_gas_token = 5,
     tx_refund_receiver = 77, tx_nonce = 0\<rparr>"

definition sample_check_context :: check_context where
  "sample_check_context = \<lparr>ctx_block = LatestBlock, ctx_proposal_timestamp = Some 0\<rparr>"

lemma sample_transfer_law: "dec_transfer sample_abi (enc_transfer sample_abi to amount) = Some (to, amount)"
  by (simp add: sample_abi_def from_be_bytes)

lemma sample_established: "established_recipients sample_abi sample_history token safe 77 20 = Some ExactMatch"
  by (simp add: established_recipients_def sample_history_def block_chunks_def chunks_from.simps Let_def
      decode_target_and_amount_def sample_abi_def)

lemma sample_target:
  "amount \<noteq> 0 \<Longrightarrow> decode_target sample_abi safe \<lparr>mt_to = t, mt_value = v, mt_data = enc_transfer sample_abi 77 amount, mt_operation = CALL\<rparr> =
     Some (77, TransferTarget)"
  by (simp add: decode_target_def sample_transfer_law)

definition sample_call :: meta_transaction where
  "sample_call = \<lparr>mt_to = 5, mt_value = 0, mt_data = enc_transfer sample_abi 77 10, mt_operation = CALL\<rparr>"

definition sample_parsed :: proposal where
  "sample_parsed = \<lparr>prop_transaction = sample_payment, prop_calls = [sample_call]\<rparr>"

lemma sample_parse: "parse dec sample_payment = Some sample_parsed"
  by (simp add: parse_def flatten.simps decode_multi_send_call_def as_meta_transaction_def sample_payment_def
      sample_call_def sample_parsed_def)

lemma sample_scan: "amount \<noteq> 0 \<Longrightarrow>
    scan_calls sample_abi sample_history 9 20
      [\<lparr>mt_to = t, mt_value = 0, mt_data = enc_transfer sample_abi 77 amount, mt_operation = CALL\<rparr>] False = Inr False"
  by (simp add: sample_target sample_established)

lemma sample_poisoning:
  "address_poisoning_checker sample_abi sample_history sample_parsed sample_check_context = Affirms (checked sample_parsed (TO OR DATA))"
proof -
  have "context_block sample_history sample_check_context = Some 20" "hist_chain_id sample_history = 100"
    "tx_chain_id sample_payment = 100" "tx_safe sample_payment = 9"
    by (simp_all add: context_block_def sample_history_def sample_check_context_def sample_payment_def)
  then show ?thesis using sample_scan [of 10 5]
    by (simp add: address_poisoning_checker_def sample_parsed_def sample_call_def Let_def)
qed

lemma sample_refund:
  "refund_checker sample_abi sample_history sample_parsed sample_check_context = Affirms (refund_checked sample_parsed)"
proof -
  let ?call = "\<lparr>mt_to = 5, mt_value = 0, mt_data = enc_transfer sample_abi 77 100, mt_operation = CALL\<rparr>"
  have r: "refund_transfer sample_abi sample_payment = Some ?call"
    by (simp add: refund_transfer_def sample_payment_def sat_mul_def sat_add_def)
  have "context_block sample_history sample_check_context = Some 20" "hist_chain_id sample_history = 100"
    "tx_chain_id sample_payment = 100" "tx_safe sample_payment = 9"
    by (simp_all add: context_block_def sample_history_def sample_check_context_def sample_payment_def)
  then show ?thesis using sample_scan [of 100 5] r
    by (simp add: refund_checker_def address_poisoning_checker_def sample_parsed_def Let_def)
qed

lemma sample_base: "base_checker sample_abi sample_parsed sample_check_context = Affirms (checked sample_parsed (TO OR OPERATION))"
  by (simp add: base_checker_def sample_parsed_def sample_payment_def sample_call_def check_call_def check_settings_change_def
      check_calls_def)

lemma sample_no_denial:
  assumes "k \<in> set (production_checkers sample_engine)"
  shows "k sample_parsed sample_check_context \<noteq> Denies rule"
proof -
  have data: "enc_transfer sample_abi 77 10 \<noteq> []" "dec_transfer sample_abi (enc_transfer sample_abi 77 10) = Some (77, 10)"
    using sample_transfer_law by (simp_all add: sample_abi_def)
  have "cancellation_checker sample_parsed sample_check_context \<noteq> Denies rule"
    "escape_hatch_checker sample_abi sample_parsed sample_check_context \<noteq> Denies rule"
    "nested_safe_checker sample_abi sample_parsed sample_check_context \<noteq> Denies rule"
    by (simp_all add: cancellation_checker_def escape_hatch_checker_def nested_safe_checker_def)
  moreover have "blocklist_checker {|666|} sample_parsed sample_check_context \<noteq> Denies rule"
    by (simp add: blocklist_checker_def sample_parsed_def sample_call_def)
  moreover have "excessive_approval_checker sample_abi sample_parsed sample_check_context \<noteq> Denies rule"
    using data by (simp add: excessive_approval_checker_def sample_parsed_def sample_call_def decode_target_effects_def token_effect_def)
  moreover have "cow_checker sample_abi (\<lambda>u o1. None) sample_parsed sample_check_context \<noteq> Denies rule"
    by (simp add: cow_checker_def sample_parsed_def check_dangling_approval_def approves_vault_relayer_def
        vault_relayer_approval_amount_def Let_def) (simp add: sample_abi_def)
  moreover have "staking_checker sample_abi sample_parsed sample_check_context \<noteq> Denies rule"
    by (simp add: staking_checker_def sample_parsed_def sample_payment_def SUPPORTED_CHAIN_ID_def)
  ultimately show ?thesis using assms sample_base sample_refund sample_poisoning
    by (auto simp: production_checkers_def sample_engine_def)
qed

lemma sample_secure: "engine_verdict sample_engine sample_payment sample_check_context = Secure"
proof -
  let ?K = "set (production_checkers sample_engine)"
  have k: "base_checker sample_abi \<in> ?K" "refund_checker sample_abi sample_history \<in> ?K"
    "address_poisoning_checker sample_abi sample_history \<in> ?K"
    by (simp_all add: production_checkers_def sample_engine_def)
  have "\<exists>k\<in>?K. \<exists>c. k sample_parsed sample_check_context = Affirms c \<and> covers c 0 n" if "n \<in> {0, 2, 3}" for n
  proof -
    have "covers (checked sample_parsed (TO OR OPERATION)) 0 n \<or> covers (checked sample_parsed (TO OR DATA)) 0 n"
      using that by (auto simp: bit_or_iff sample_parsed_def)
    then show ?thesis using k sample_base sample_poisoning by blast
  qed
  moreover have "bit (aspects_required_for sample_call) n \<Longrightarrow> n \<in> {0, 2, 3}" for n
    by (auto simp: sample_call_def)
  moreover have "prop_calls sample_parsed = [sample_call]" by (simp add: sample_parsed_def)
  moreover have "\<exists>k\<in>?K. \<exists>c. k sample_parsed sample_check_context = Affirms c \<and> cov_refund c"
    using sample_refund by (intro bexI [OF _ k(2)]) simp
  ultimately show ?thesis
    unfolding engine_verdict_def secure_iff [OF production_sized]
    using sample_parse sample_no_denial
    by (intro exI [of _ sample_parsed]) (auto simp del: bit_required)
qed

theorem secure_verdicts_are_sound_witness:
  "engine_verdict sample_engine sample_payment sample_check_context = Secure \<and>
   prior_interaction sample_abi sample_history 5 9 77 20 \<and>
   executes (dec_multi_send sample_abi) 9 (as_meta_transaction sample_payment) [sample_call]"
proof -
  have abi: "eng_abi sample_engine = sample_abi" "eng_history sample_engine = sample_history"
    by (simp_all add: sample_engine_def)
  have sel: "selector (eng_abi sample_engine) f \<noteq> []" for f by (simp add: abi sample_abi_def)
  have law: "dec_transfer (eng_abi sample_engine) (enc_transfer (eng_abi sample_engine) to amount) = Some (to, amount)" for to amount
    by (simp add: abi sample_transfer_law)
  have blk: "context_block sample_history sample_check_context = Some 20" by (simp add: context_block_def sample_history_def sample_check_context_def)
  have f: "tx_gas_price sample_payment \<noteq> 0" "tx_gas_token sample_payment = 5" "tx_safe sample_payment = 9"
    "tx_refund_receiver sample_payment = 77" "prop_calls sample_parsed = [sample_call]"
    by (simp_all add: sample_payment_def sample_parsed_def)
  from secure_verdicts_are_sound [OF sample_secure sel law] sample_parse sample_secure f blk
  show ?thesis unfolding abi by auto
qed

theorem denials_are_never_masked_witness:
  "\<nexists>rule. security_check (\<lambda>d. None) (rev (production_checkers sample_engine)) sample_payment sample_check_context = Insecure rule"
proof -
  have "\<nexists>p k rule. parse (\<lambda>d. None) sample_payment = Some p \<and> k \<in> set (production_checkers sample_engine) \<and>
      k p sample_check_context = Denies rule"
    using sample_parse sample_no_denial by auto
  then show ?thesis
    using denials_are_never_masked [OF production_sized, of "rev (production_checkers sample_engine)" sample_engine
        "\<lambda>d. None" sample_payment sample_check_context] by auto
qed

end
