(* ===== verification/Security_Api.thy ===== *)
theory Security_Api
  imports Engine
begin

text \<open>
  The interface between the sentinel and its engine: the client (\<^verbatim>\<open>crates/sentinel/src/engine.rs\<close>), and the
  handler and the header extractors of the engine (\<^verbatim>\<open>crates/sentinel-engine/src/api/\<close>).  The JSON bodies are the
  values they encode.  The HTTP crate's test for text headers and the codec of 32-byte digests are parameters.
\<close>

section \<open>Headers\<close>

record http_lib =
  http_is_text :: "string \<Rightarrow> bool"
  http_parse_digest :: "string \<Rightarrow> b256 option"
  http_show_digest :: "b256 \<Rightarrow> string"

record check_headers =
  ch_request_id :: "string option"
  ch_request_timeout :: "string option"
  ch_proposal_timestamp :: "string option"

datatype rejection = BadRequestId | BadRequestTimeout | BadProposalTimestamp

definition parse_header :: "http_lib \<Rightarrow> (string \<Rightarrow> 'a option) \<Rightarrow> string option \<Rightarrow> rejection \<Rightarrow> rejection + 'a option" where
  "parse_header L from_str header rejected =
     (case header of
        None \<Rightarrow> Inr None
      | Some value \<Rightarrow>
          if \<not> http_is_text L value then Inl rejected
          else (case from_str value of None \<Rightarrow> Inl rejected | Some v \<Rightarrow> Inr (Some v)))"

definition request_id_of :: "http_lib \<Rightarrow> check_headers \<Rightarrow> rejection + b256 option" where
  "request_id_of L hs = parse_header L (http_parse_digest L) (ch_request_id hs) BadRequestId"

definition request_timeout_of :: "http_lib \<Rightarrow> check_headers \<Rightarrow> rejection + u64 option" where
  "request_timeout_of L hs = parse_header L parse_uint (ch_request_timeout hs) BadRequestTimeout"

definition proposal_timestamp_of :: "http_lib \<Rightarrow> check_headers \<Rightarrow> rejection + u64 option" where
  "proposal_timestamp_of L hs = parse_header L parse_uint (ch_proposal_timestamp hs) BadProposalTimestamp"

section \<open>The engine's handler\<close>

definition api_security_check :: "engine \<Rightarrow> block_label \<Rightarrow> u64 option \<Rightarrow> safe_transaction \<Rightarrow> verdict" where
  "api_security_check E block timestamp tx =
     engine_verdict E tx \<lparr>ctx_block = block, ctx_proposal_timestamp = timestamp\<rparr>"

text \<open>
  The extractors run in the order of the handler's arguments, and the first rejection is the response.  The
  request id only labels the trace, and the timeout is not used.
\<close>

definition handle_security_check :: "http_lib \<Rightarrow> engine \<Rightarrow> check_headers \<Rightarrow> block_label \<Rightarrow> safe_transaction \<Rightarrow>
    rejection + verdict" where
  "handle_security_check L E hs block tx =
     (case request_id_of L hs of
        Inl rej \<Rightarrow> Inl rej
      | Inr _ \<Rightarrow>
          (case request_timeout_of L hs of
             Inl rej \<Rightarrow> Inl rej
           | Inr _ \<Rightarrow>
               (case proposal_timestamp_of L hs of
                  Inl rej \<Rightarrow> Inl rej
                | Inr timestamp \<Rightarrow> Inr (api_security_check E block timestamp tx))))"

section \<open>The sentinel's client\<close>

text \<open>
  The headers of a check: the timeout is sent in milliseconds, saturated at 64 bits.
\<close>

definition timeout_millis :: "nat \<Rightarrow> u64" where
  "timeout_millis ms = (if ms < 2 ^ 64 then of_nat ms else - 1)"

definition check_headers_for :: "http_lib \<Rightarrow> b256 \<Rightarrow> u64 \<Rightarrow> nat \<Rightarrow> check_headers" where
  "check_headers_for L request_id timestamp timeout =
     \<lparr>ch_request_id = Some (http_show_digest L request_id),
      ch_request_timeout = Some (decimal (unat (timeout_millis timeout))),
      ch_proposal_timestamp = Some (decimal (unat timestamp))\<rparr>"

text \<open>
  The response as the sentinel reads it: a rule is sent as its code and parsed by the sentinel; a code that
  did not parse would make the response invalid.
\<close>

fun read_verdict :: "verdict \<Rightarrow> engine_response option" where
  "read_verdict Secure = Some SecureResponse"
| "read_verdict (Insecure rule) = map_option InsecureResponse (parse_rule (rule_code rule))"
| "read_verdict Abstain = Some AbstainResponse"

text \<open>
  A check as the effect handler makes it, for the latest block.  A rejection has an error status, which the
  client treats like a failed request.
\<close>

definition ask_engine :: "http_lib \<Rightarrow> engine \<Rightarrow> b256 \<Rightarrow> safe_transaction \<Rightarrow> u64 \<Rightarrow> nat \<Rightarrow> engine_response option" where
  "ask_engine L E request_id tx timestamp timeout =
     (case handle_security_check L E (check_headers_for L request_id timestamp timeout) LatestBlock tx of
        Inl _ \<Rightarrow> None
      | Inr v \<Rightarrow> read_verdict v)"

section \<open>Agreement\<close>

text \<open>
  The engine understands what the sentinel sends: for an HTTP crate that takes decimal digits and printed
  digests for text and a digest codec that reads what it prints, no check is rejected, and the engine sees
  the very timestamp that the sentinel read from the chain.
\<close>

lemma checks_are_understood:
  assumes "\<And>s. list_all (\<lambda>c. digit_value c \<noteq> None) s \<Longrightarrow> http_is_text L s"
    and "\<And>i. http_is_text L (http_show_digest L i)" "\<And>i. http_parse_digest L (http_show_digest L i) = Some i"
  shows "handle_security_check L E (check_headers_for L i ts timeout) block tx = Inr (api_security_check E block (Some ts) tx)"
proof -
  have "http_is_text L (decimal n)" for n using decimal_digits by (intro assms(1)) (auto simp: list_all_iff)
  then show ?thesis
    by (simp add: handle_security_check_def request_id_of_def request_timeout_of_def proposal_timestamp_of_def
        parse_header_def check_headers_for_def parse_uint_decimal assms(2,3))
qed

lemma asked_engine:
  assumes "\<And>s. list_all (\<lambda>c. digit_value c \<noteq> None) s \<Longrightarrow> http_is_text L s"
    and "\<And>i. http_is_text L (http_show_digest L i)" "\<And>i. http_parse_digest L (http_show_digest L i) = Some i"
  shows "ask_engine L E i tx ts timeout = read_verdict (api_security_check E LatestBlock (Some ts) tx)"
  using checks_are_understood [OF assms] by (simp add: ask_engine_def)

text \<open>Whatever the HTTP crate does, a secure answer was given for the transaction that was asked about.\<close>

lemma read_secure: "read_verdict v = Some SecureResponse \<longleftrightarrow> v = Secure"
  by (cases v) auto

lemma asked_secure:
  assumes "ask_engine L E i tx ts timeout = Some SecureResponse"
  shows "api_security_check E LatestBlock (Some ts) tx = Secure"
  using assms by (auto simp: ask_engine_def handle_security_check_def proposal_timestamp_of_def parse_header_def
      check_headers_for_def read_secure parse_uint_decimal split: sum.splits option.splits if_splits)

end
