(* ===== verification/Detection.thy ===== *)
theory Detection
  imports Engine
begin

text \<open>
  What the history and protocol checkers of the engine detect: lookalikes of addresses that a Safe has dealt
  with are denied, and the approvals of a recognized CoW Swap flow are bounded by the order they pay for.
\<close>

section \<open>Lookalikes\<close>

text \<open>The addresses with a transfer or approval of a nonzero amount among some logs.\<close>

definition log_targets :: "abi \<Rightarrow> evm_log list \<Rightarrow> address set" where
  "log_targets A logs = {t. \<exists>log\<in>set logs. \<exists>amount. decode_target_and_amount A log = Some (t, amount) \<and> amount \<noteq> 0}"

definition history_targets :: "abi \<Rightarrow> (u64 \<Rightarrow> u64 \<Rightarrow> evm_log list option) \<Rightarrow> (u64 \<times> u64) list \<Rightarrow> address set" where
  "history_targets A get chunks = (\<Union>(a, b)\<in>set chunks. case get a b of None \<Rightarrow> {} | Some logs \<Rightarrow> log_targets A logs)"

lemma log_targets_Cons:
  "log_targets A (log # logs) =
     (case decode_target_and_amount A log of Some (t, amount) \<Rightarrow> if amount = 0 then {} else {t} | None \<Rightarrow> {}) \<union> log_targets A logs"
  by (auto simp: log_targets_def split: option.splits)

lemma scan_logs_collects:
  "candidate \<notin> log_targets A logs \<Longrightarrow> \<exists>rs'. scan_logs A candidate logs rs = Some rs' \<and> set rs' = set rs \<union> log_targets A logs"
proof (induction logs arbitrary: rs)
  case Nil
  then show ?case by (simp add: log_targets_def)
next
  case (Cons log logs)
  have tail: "candidate \<notin> log_targets A logs" using Cons.prems by (simp add: log_targets_Cons)
  show ?case
  proof (cases "decode_target_and_amount A log")
    case None
    then show ?thesis using Cons.IH [OF tail, of rs] by (auto simp: log_targets_Cons)
  next
    case (Some ta)
    obtain t amount where ta: "ta = (t, amount)" by (cases ta)
    show ?thesis
    proof (cases "amount = 0")
      case True
      then show ?thesis using Cons.IH [OF tail, of rs] Some ta by (auto simp: log_targets_Cons)
    next
      case False
      then have "t \<noteq> candidate" using Cons.prems Some ta by (auto simp: log_targets_Cons)
      then show ?thesis using Cons.IH [OF tail, of "List.insert t rs"] Some ta False by (auto simp: log_targets_Cons)
    qed
  qed
qed

lemma scan_chunks_complete:
  "\<forall>(a, b)\<in>set chunks. get a b \<noteq> None \<Longrightarrow> candidate \<notin> history_targets A get chunks \<Longrightarrow>
   \<exists>rs'. scan_chunks A get candidate chunks rs = Some (NoExactMatch rs' True) \<and> set rs' = set rs \<union> history_targets A get chunks"
proof (induction chunks arbitrary: rs)
  case Nil
  then show ?case by (simp add: history_targets_def)
next
  case (Cons ab chunks)
  obtain a b where ab: "ab = (a, b)" by (cases ab)
  with Cons.prems(1) obtain logs where logs: "get a b = Some logs" by auto
  have h: "history_targets A get (ab # chunks) = log_targets A logs \<union> history_targets A get chunks"
    using ab logs by (simp add: history_targets_def)
  obtain rs1 where rs1: "scan_logs A candidate logs rs = Some rs1" "set rs1 = set rs \<union> log_targets A logs"
    using scan_logs_collects [of candidate A logs rs] Cons.prems(2) h by auto
  obtain rs2 where "scan_chunks A get candidate chunks rs1 = Some (NoExactMatch rs2 True)"
    "set rs2 = set rs1 \<union> history_targets A get chunks"
    using Cons.IH [of rs1] Cons.prems h by auto
  then show ?case using ab logs rs1 h by auto
qed

lemma scan_calls_denies:
  assumes "x \<in> set calls" "decode_target A safe x = Some (candidate, kind)"
    and "established_recipients A H (mt_to x) safe candidate block = Some (NoExactMatch rs True)"
    and "r \<in> set rs" "is_lookalike r candidate"
  shows "\<exists>rule. scan_calls A H safe block calls abstain = Inl rule"
  using assms(1)
proof (induction calls arbitrary: abstain)
  case (Cons call calls)
  show ?case
  proof (cases "call = x")
    case True
    have "list_ex (\<lambda>r. is_lookalike r candidate) rs" using assms(4,5) by (auto simp: list_ex_iff)
    then show ?thesis using True assms(2,3) by simp
  next
    case False
    then have IH: "\<exists>rule. scan_calls A H safe block calls abstain' = Inl rule" for abstain' using Cons by simp
    show ?thesis using IH [of True] IH [of abstain]
      by (auto split: option.splits prod.splits recipient_lookup.splits)
  qed
qed simp

text \<open>
  C18: a lookalike of an address that the Safe has dealt with is denied.  Suppose a transaction parses, one of
  its calls is a token transfer or approval of a nonzero amount to some target, the node answers every
  query of the lookback window, no log of the token in that window shows that target, but one shows an
  address that the target resembles.  Then the verdict is \<open>Insecure\<close>, wherever in a batch the call is and
  whatever else the transaction does.
\<close>

theorem lookalikes_are_denied:
  assumes "parse (dec_multi_send (eng_abi E)) tx = Some p" "tx_chain_id tx = ucast (hist_chain_id (eng_history E))"
    and "context_block (eng_history E) ctx = Some block"
    and "x \<in> set (prop_calls p)" "decode_target (eng_abi E) (tx_safe tx) x = Some (candidate, kind)"
    and "chunks = block_chunks (sat_sub block (hist_lookback_blocks (eng_history E))) block (hist_max_block_range (eng_history E))"
    and "get = hist_get_logs (eng_history E) (mt_to x) (tx_safe tx)"
    and "\<forall>(a, b)\<in>set chunks. get a b \<noteq> None" "candidate \<notin> history_targets (eng_abi E) get chunks"
    and "r \<in> history_targets (eng_abi E) get chunks" "is_lookalike r candidate"
  shows "\<exists>rule. engine_verdict E tx ctx = Insecure rule"
proof -
  let ?A = "eng_abi E" and ?H = "eng_history E"
  have tx: "prop_transaction p = tx" using assms(1) by (rule parse_transaction)
  obtain rs where rs: "established_recipients ?A ?H (mt_to x) (tx_safe tx) candidate block = Some (NoExactMatch rs True)"
    "set rs = history_targets ?A get chunks"
    using scan_chunks_complete [OF assms(8,9), of "[]"] assms(6,7) by (auto simp: established_recipients_def)
  obtain rule where "scan_calls ?A ?H (tx_safe tx) block (prop_calls p) False = Inl rule"
    using scan_calls_denies [OF assms(4,5) rs(1)] rs(2) assms(10,11) by blast
  then have "address_poisoning_checker ?A ?H p ctx = Denies rule"
    using assms(2,3) by (simp add: address_poisoning_checker_def tx Let_def)
  moreover have "address_poisoning_checker ?A ?H \<in> set (production_checkers E)" by (simp add: production_checkers_def)
  ultimately show ?thesis using assms(1) unfolding engine_verdict_def insecure_iff by blast
qed

text \<open>The same payment, to an address that shares the leading and trailing digits of the known one.\<close>

definition poisoned_payment :: safe_transaction where
  "poisoned_payment = sample_payment\<lparr>tx_data := enc_transfer sample_abi 0x100000000004D 10\<rparr>"

definition poisoned_call :: meta_transaction where
  "poisoned_call = sample_call\<lparr>mt_data := enc_transfer sample_abi 0x100000000004D 10\<rparr>"

lemma poisoned_lookalike: "is_lookalike 77 0x100000000004D"
  by code_simp

theorem lookalikes_are_denied_witness: "\<exists>rule. engine_verdict sample_engine poisoned_payment sample_check_context = Insecure rule"
proof -
  let ?p = "\<lparr>prop_transaction = poisoned_payment, prop_calls = [poisoned_call]\<rparr>"
  have E: "eng_abi sample_engine = sample_abi" "eng_history sample_engine = sample_history" by (simp_all add: sample_engine_def)
  have parsed: "parse (dec_multi_send (eng_abi sample_engine)) poisoned_payment = Some ?p"
    by (simp add: parse_def flatten.simps decode_multi_send_call_def as_meta_transaction_def poisoned_payment_def
        poisoned_call_def sample_payment_def sample_call_def)
  have tgt: "decode_target (eng_abi sample_engine) (tx_safe poisoned_payment) poisoned_call = Some (0x100000000004D, TransferTarget)"
    by (simp add: E decode_target_def poisoned_call_def sample_call_def sample_transfer_law)
  have logs: "log_targets sample_abi [\<lparr>topics = [1], payload = []\<rparr>] = {77}"
    by (simp add: log_targets_def decode_target_and_amount_def sample_abi_def)
  have chunks: "block_chunks (sat_sub 20 10) 20 None = [(10, 20)]"
    by (simp add: block_chunks_def chunks_from.simps Let_def sat_sub_def sat_add_def unat_minus_one_word)
  show ?thesis
    by (rule lookalikes_are_denied [OF parsed _ _ _ tgt refl refl, where block = 20 and r = 77])
      (simp_all add: E sample_history_def poisoned_payment_def sample_payment_def context_block_def sample_check_context_def
        chunks history_targets_def logs poisoned_lookalike)
qed

section \<open>CoW Swap\<close>

lemma twap_headroom: "unat (max_approval_for_twap_total t n) \<le> unat t + (unat n - 1)"
proof -
  have "unat (sat_sub n 1) = unat n - 1"
    by (cases "n = 0") (auto simp: sat_sub_def unat_sub word_le_nat_alt unat_gt_0 Suc_le_eq)
  then show ?thesis by (simp add: max_approval_for_twap_total_def unat_sat_add)
qed

text \<open>
  A recognized flow: an approval of the vault relayer next to the commitment to the order it pays for.
\<close>

definition bounded_flow :: "abi \<Rightarrow> address \<Rightarrow> u256 \<Rightarrow> meta_transaction \<Rightarrow> meta_transaction \<Rightarrow> bool" where
  "bounded_flow A safe chain approval order_call \<longleftrightarrow>
     (\<exists>token amount. vault_relayer_approval_amount A approval = Some (token, amount) \<and>
        ((\<exists>order. presignature_order_uid A order_call = Some (compute_order_uid A chain order) \<and>
            order_receiver order = safe \<and> token = co_sell_token order \<and> amount = co_sell_amount order) \<or>
         (\<exists>receiver t n. twap_order_terms A order_call = Some (token, receiver, t, n) \<and>
            (receiver = safe \<or> receiver = 0) \<and> unat amount \<le> unat t + (unat n - 1))))"

lemma presignature_bounded:
  assumes "check_presignature_batch A api safe chain calls = Affirms c"
  shows "\<exists>x y. calls = [x, y] \<and> (bounded_flow A safe chain x y \<or> bounded_flow A safe chain y x)"
proof -
  have pair: "decode_approval_and_presignature A x y = Some (co_sell_token order, co_sell_amount order, compute_order_uid A chain order) \<Longrightarrow>
      order_receiver order = safe \<Longrightarrow> bounded_flow A safe chain x y" for x y order
    by (auto simp: bounded_flow_def decode_approval_and_presignature_def split: option.splits)
  from assms obtain x y order where o: "calls = [x, y]" "order_receiver order = safe"
    "either_order (decode_approval_and_presignature A) x y = Some (co_sell_token order, co_sell_amount order, compute_order_uid A chain order)"
    by (elim check_presignature_batch.elims) (auto split: option.splits if_splits)
  from either_order_cases [OF o(3)] have "bounded_flow A safe chain x y \<or> bounded_flow A safe chain y x"
    using pair [OF _ o(2)] by (elim disjE) simp_all
  then show ?thesis using o(1) by blast
qed

lemma twap_bounded:
  assumes "check_twap_batch A safe calls = Affirms c"
  shows "\<exists>x y. calls = [x, y] \<and> (bounded_flow A safe chain x y \<or> bounded_flow A safe chain y x)"
proof -
  have pair: "decode_approval_and_twap A x y = Some (token, amount, token, receiver, t, n) \<Longrightarrow>
      receiver = safe \<or> receiver = 0 \<Longrightarrow> \<not> max_approval_for_twap_total t n < amount \<Longrightarrow> bounded_flow A safe chain x y"
    for x y token amount receiver t n
    using twap_headroom [of t n]
    by (auto simp: bounded_flow_def decode_approval_and_twap_def word_less_nat_alt split: option.splits)
  from assms obtain x y token amount receiver t n where o: "calls = [x, y]"
    "either_order (decode_approval_and_twap A) x y = Some (token, amount, token, receiver, t, n)"
    "receiver = safe \<or> receiver = 0" "\<not> max_approval_for_twap_total t n < amount"
    by (elim check_twap_batch.elims) (auto split: option.splits if_splits)
  from either_order_cases [OF o(2)] have "bounded_flow A safe chain x y \<or> bounded_flow A safe chain y x"
    using pair [OF _ o(3,4)] by (elim disjE) simp_all
  then show ?thesis using o(1) by blast
qed

text \<open>
  The approval that goes with a TWAP order of the Safe for its token may exceed the order's total, the amount of a part
  times the number of parts, by the remainder that is lost when the total is divided into parts, and by no more.
\<close>

lemma twap_excess_bound:
  assumes "vault_relayer_approval_amount A x = Some (token, amount)" "twap_order_terms A y = Some (token, safe, t, n)"
    and "unat t + (unat n - 1) < 2 ^ 256"
  shows "check_twap_batch A safe [x, y] =
    (if unat amount \<le> unat t + (unat n - 1) then Affirms (coverage_calls 2 DATA) else Denies R4_5ExcessiveApproval)"
proof -
  have "unat (max_approval_for_twap_total t n) = unat t + (unat n - 1)"
    using assms(3) by (cases "n = 0") (auto simp: max_approval_for_twap_total_def sat_add_def sat_sub_def unat_minus_one word_le_nat_alt
        unat_word_ariths unat_gt_0 Suc_le_eq)
  moreover have "either_order (decode_approval_and_twap A) x y = Some (token, amount, token, safe, t, n)"
    using assms(1,2) by (simp add: either_order_def decode_approval_and_twap_def)
  ultimately show ?thesis by (simp add: word_less_nat_alt not_less)
qed

text \<open>
  C32: the approvals of a CoW Swap flow are bounded by the order.  When the CoW checker affirms a transaction,
  it consists of exactly two plain calls without value, in either order: an approval of the vault relayer,
  and either the presignature of an order whose uid the fetched terms reproduce, whose proceeds go to the
  Safe and whose sell token and amount are exactly the approved ones; or the creation of a TWAP order for
  the approved token whose proceeds go to the Safe, with an approval that exceeds its total, the amount of a
  part times the number of parts, by less than the number of parts (the remainder that the division of the
  intended total into equal parts can lose).
\<close>

theorem cow_approvals_are_bounded:
  assumes "cow_checker A api p ctx = Affirms c"
  shows "\<exists>x y. prop_calls p = [x, y] \<and> plain_call x \<and> plain_call y \<and>
    (bounded_flow A (tx_safe (prop_transaction p)) (tx_chain_id (prop_transaction p)) x y \<or>
     bounded_flow A (tx_safe (prop_transaction p)) (tx_chain_id (prop_transaction p)) y x)"
proof -
  let ?safe = "tx_safe (prop_transaction p)" and ?chain = "tx_chain_id (prop_transaction p)"
  have plain: "\<forall>x\<in>set (prop_calls p). plain_call x" using cow_affirms [OF assms] by blast
  from assms consider "check_presignature_batch A api ?safe ?chain (prop_calls p) = Affirms c"
    | "check_twap_batch A ?safe (prop_calls p) = Affirms c"
    using dangling_affirms [of A "prop_calls p"] by (auto simp: cow_checker_def Let_def split: if_splits dest!: first_opinion_cases)
  then obtain x y where "prop_calls p = [x, y]" "bounded_flow A ?safe ?chain x y \<or> bounded_flow A ?safe ?chain y x"
    using presignature_bounded twap_bounded by cases blast+
  then show ?thesis using plain by (intro exI [of _ x] exI [of _ y]) simp
qed

text \<open>An order of 50 units of the token 5 for the Safe 9, approved and presigned in one batch.\<close>

definition sample_order :: cow_order where
  "sample_order = \<lparr>co_owner = 9, co_receiver = None, co_sell_token = 5, co_buy_token = 6, co_sell_amount = 50,
     co_buy_amount = 40, co_valid_to = 1000, co_app_data = 0, co_fee_amount = 0, co_kind = ''sell'',
     co_partially_fillable = False, co_sell_token_balance = ''erc20'', co_buy_token_balance = ''erc20''\<rparr>"

definition swap_abi :: abi where
  "swap_abi = sample_abi\<lparr>dec_approve := (\<lambda>d. if d = [1] then Some (GP_V2_VAULT_RELAYER, 50) else None),
     dec_set_pre_signature := (\<lambda>d. if d = [2] then Some (compute_order_uid sample_abi 100 sample_order, True) else None)\<rparr>"

definition swap_proposal :: proposal where
  "swap_proposal = \<lparr>prop_transaction = sample_payment,
     prop_calls = [\<lparr>mt_to = 5, mt_value = 0, mt_data = [1], mt_operation = CALL\<rparr>,
       \<lparr>mt_to = GP_V2_SETTLEMENT, mt_value = 0, mt_data = [2], mt_operation = CALL\<rparr>]\<rparr>"

lemma swap_affirmed: "cow_checker swap_abi (\<lambda>url uid. Some sample_order) swap_proposal sample_check_context = Affirms (coverage_calls 2 DATA)"
proof -
  have uid: "compute_order_uid swap_abi c o1 = compute_order_uid sample_abi c o1" for c o1
    by (simp add: compute_order_uid_def swap_abi_def)
  have dec: "dec_approve swap_abi = (\<lambda>d. if d = [1] then Some (GP_V2_VAULT_RELAYER, 50) else None)"
    "dec_set_pre_signature swap_abi = (\<lambda>d. if d = [2] then Some (compute_order_uid sample_abi 100 sample_order, True) else None)"
    by (simp_all add: swap_abi_def)
  have tx: "tx_safe sample_payment = 9" "tx_chain_id sample_payment = 100" by (simp_all add: sample_payment_def)
  have ord: "order_receiver sample_order = 9" "co_sell_token sample_order = 5" "co_sell_amount sample_order = 50"
    by (simp_all add: sample_order_def order_receiver_def)
  show ?thesis
    by (simp add: cow_checker_def swap_proposal_def tx SUPPORTED_CHAIN_IDS_def check_dangling_approval_def is_presignature_def
        plain_call_def dec order_api_base_url_def either_order_def decode_approval_and_presignature_def
        vault_relayer_approval_amount_def presignature_order_uid_def uid ord all_bool_eq Let_def)
qed

theorem cow_approvals_are_bounded_witness:
  "\<exists>x y. prop_calls swap_proposal = [x, y] \<and>
     (bounded_flow swap_abi 9 100 x y \<or> bounded_flow swap_abi 9 100 y x)"
proof -
  have "tx_safe (prop_transaction swap_proposal) = 9" "tx_chain_id (prop_transaction swap_proposal) = 100"
    by (simp_all add: swap_proposal_def sample_payment_def)
  with cow_approvals_are_bounded [OF swap_affirmed] show ?thesis by metis
qed

end
