(* ===== verification/Verdicts.thy ===== *)
theory Verdicts
  imports Sentinel_Types Snapshots
begin

text \<open>
  The verdict store of the sentinel and its effect handler (\<^verbatim>\<open>crates/sentinel/src/verdicts.rs\<close> and
  \<^verbatim>\<open>effect.rs\<close>).  The table maps a request id to the block its proposal was last seen in and to the cited
  rule, \<open>None\<close> for an approval.  It is not rolled back on reorgs.  Every database call takes whether it
  succeeds.
\<close>

section \<open>Store\<close>

record verdict_row =
  vr_block :: int
  vr_rule :: "string option"

type_synonym verdict_store = "(b256, verdict_row) fmap"

datatype verdict_error =
    DatabaseFailed
  | InvalidRule string
  | VerdictOverflow

definition verdict_i64 :: "u64 \<Rightarrow> verdict_error + int" where
  "verdict_i64 block = (if uint block < 2 ^ 63 then Inr (uint block) else Inl VerdictOverflow)"

fun decode_verdict :: "string option \<Rightarrow> verdict_error + check_outcome" where
  "decode_verdict None = Inr Approved"
| "decode_verdict (Some rule) = (case parse_rule rule of None \<Rightarrow> Inl (InvalidRule rule) | Some r \<Rightarrow> Inr (Denied r))"

definition get_verdict :: "bool \<Rightarrow> verdict_store \<Rightarrow> b256 \<Rightarrow> u64 \<Rightarrow>
    verdict_store \<times> (verdict_error + check_outcome option)" where
  "get_verdict db rows request_id block =
     (case verdict_i64 block of
        Inl err \<Rightarrow> (rows, Inl err)
      | Inr b \<Rightarrow>
          if \<not> db then (rows, Inl DatabaseFailed)
          else case fmlookup rows request_id of
                 None \<Rightarrow> (rows, Inr None)
               | Some row \<Rightarrow>
                   (fmupd request_id (row\<lparr>vr_block := max (vr_block row) b\<rparr>) rows,
                    case decode_verdict (vr_rule row) of Inl err \<Rightarrow> Inl err | Inr v \<Rightarrow> Inr (Some v)))"

fun verdict_rule :: "check_outcome \<Rightarrow> string option" where
  "verdict_rule (Denied rule) = Some (display_rule rule)"
| "verdict_rule _ = None"

definition record_verdict :: "bool \<Rightarrow> verdict_store \<Rightarrow> b256 \<Rightarrow> u64 \<Rightarrow> check_outcome \<Rightarrow>
    verdict_store \<times> (verdict_error + check_outcome)" where
  "record_verdict db rows request_id block outcome =
     (if outcome = Unknown then (rows, Inr outcome)
      else case verdict_i64 block of
             Inl err \<Rightarrow> (rows, Inl err)
           | Inr b \<Rightarrow>
               if \<not> db then (rows, Inl DatabaseFailed)
               else let row = (case fmlookup rows request_id of
                          None \<Rightarrow> \<lparr>vr_block = b, vr_rule = verdict_rule outcome\<rparr>
                        | Some row \<Rightarrow> row\<lparr>vr_block := max (vr_block row) b\<rparr>)
                    in (fmupd request_id row rows, decode_verdict (vr_rule row)))"

definition prune_verdicts :: "bool \<Rightarrow> verdict_store \<Rightarrow> u64 \<Rightarrow> verdict_store \<times> (verdict_error + nat)" where
  "prune_verdicts db rows safe =
     (case verdict_i64 safe of
        Inl err \<Rightarrow> (rows, Inl err)
      | Inr b \<Rightarrow>
          if \<not> db then (rows, Inl DatabaseFailed)
          else let kept = fmfilter (\<lambda>k. \<not> vr_block (the (fmlookup rows k)) < b) rows
               in (kept, Inr (fm_len rows - fm_len kept)))"

section \<open>Effect handler\<close>

text \<open>
  A check asks the store, then the engine, then the store again, and other checks may be performed in
  between.  \<open>check_lookup\<close> and \<open>check_record\<close> are the two halves; \<open>engine_check\<close> is a check that is
  performed without interruption.
\<close>

definition check_lookup :: "bool \<Rightarrow> verdict_store \<Rightarrow> b256 \<Rightarrow> u64 \<Rightarrow> verdict_store \<times> check_outcome option" where
  "check_lookup db rows request_id block =
     (case get_verdict db rows request_id block of
        (rows, Inr (Some outcome)) \<Rightarrow> (rows, Some outcome)
      | (rows, Inr None) \<Rightarrow> (rows, None)
      | (rows, Inl err) \<Rightarrow> (rows, Some Unknown))"

definition check_record :: "bool \<Rightarrow> verdict_store \<Rightarrow> b256 \<Rightarrow> u64 \<Rightarrow> engine_response option \<Rightarrow>
    verdict_store \<times> check_outcome" where
  "check_record db rows request_id block response =
     (case record_verdict db rows request_id block (response_outcome response) of
        (rows, Inr outcome) \<Rightarrow> (rows, outcome)
      | (rows, Inl err) \<Rightarrow> (rows, Unknown))"

definition engine_check :: "(safe_transaction \<Rightarrow> u64 \<Rightarrow> engine_response option) \<Rightarrow> bool \<Rightarrow> bool \<Rightarrow> verdict_store \<Rightarrow>
    b256 \<Rightarrow> safe_transaction \<Rightarrow> u64 \<Rightarrow> u64 \<Rightarrow> verdict_store \<times> check_outcome" where
  "engine_check engine db1 db2 rows request_id transaction timestamp block =
     (case check_lookup db1 rows request_id block of
        (rows, Some outcome) \<Rightarrow> (rows, outcome)
      | (rows, None) \<Rightarrow> check_record db2 rows request_id block (engine transaction timestamp))"

fun perform_sentinel_effect :: "(safe_transaction \<Rightarrow> u64 \<Rightarrow> engine_response option) \<Rightarrow> bool \<Rightarrow> bool \<Rightarrow> verdict_store \<Rightarrow>
    sentinel_effect \<Rightarrow> verdict_store \<times> sentinel_resume" where
  "perform_sentinel_effect engine db1 db2 rows (EngineCheck request_id transaction timestamp block) =
     map_prod id (EngineCheckResult request_id) (engine_check engine db1 db2 rows request_id transaction timestamp block)"

definition sentinel_housekeeping :: "bool \<Rightarrow> verdict_store \<Rightarrow> block_status \<Rightarrow> verdict_store" where
  "sentinel_housekeeping db rows status = fst (prune_verdicts db rows (bs_safe status))"

section \<open>Recorded verdicts\<close>

text \<open>The verdict that the store holds for a request.\<close>

definition recorded :: "verdict_store \<Rightarrow> b256 \<Rightarrow> check_outcome option" where
  "recorded rows i = (case fmlookup rows i of None \<Rightarrow> None
     | Some row \<Rightarrow> (case decode_verdict (vr_rule row) of Inl _ \<Rightarrow> None | Inr v \<Rightarrow> Some v))"

definition rows_readable :: "verdict_store \<Rightarrow> bool" where
  "rows_readable rows \<longleftrightarrow> (\<forall>i row. fmlookup rows i = Some row \<longrightarrow>
     (\<exists>v. v \<noteq> Unknown \<and> vr_rule row = verdict_rule v))"

lemma decode_verdict_rule: "v \<noteq> Unknown \<Longrightarrow> decode_verdict (verdict_rule v) = Inr v"
  by (cases v) (simp_all add: rule_roundtrip del: display_rule.simps)

lemma readable_row: "rows_readable rows \<Longrightarrow> fmlookup rows i = Some row \<Longrightarrow>
    \<exists>v. v \<noteq> Unknown \<and> vr_rule row = verdict_rule v \<and> decode_verdict (vr_rule row) = Inr v \<and> recorded rows i = Some v"
  using decode_verdict_rule by (fastforce simp: rows_readable_def recorded_def)

text \<open>
  The atomic steps on the store: the two halves of a check, and housekeeping.  Each answers the check it
  belongs to, if it ends that check.
\<close>

datatype verdict_op =
    LookupStep b256 u64 bool
  | RecordStep b256 u64 "engine_response option" bool
  | PruneStep block_status bool

fun verdict_step :: "verdict_store \<Rightarrow> verdict_op \<Rightarrow> verdict_store" where
  "verdict_step rows (LookupStep i b db) = fst (check_lookup db rows i b)"
| "verdict_step rows (RecordStep i b r db) = fst (check_record db rows i b r)"
| "verdict_step rows (PruneStep st db) = sentinel_housekeeping db rows st"

fun verdict_answer :: "verdict_store \<Rightarrow> verdict_op \<Rightarrow> (b256 \<times> check_outcome) option" where
  "verdict_answer rows (LookupStep i b db) = map_option (Pair i) (snd (check_lookup db rows i b))"
| "verdict_answer rows (RecordStep i b r db) = Some (i, snd (check_record db rows i b r))"
| "verdict_answer rows (PruneStep st db) = None"

text \<open>A step leaves the row of a request alone unless it prunes it.\<close>

definition spares :: "b256 \<Rightarrow> verdict_store \<Rightarrow> verdict_op \<Rightarrow> bool" where
  "spares i rows step \<longleftrightarrow> fmlookup rows i \<noteq> None \<longrightarrow> fmlookup (verdict_step rows step) i \<noteq> None"

lemmas verdict_defs = check_lookup_def check_record_def get_verdict_def record_verdict_def prune_verdicts_def
  sentinel_housekeeping_def verdict_i64_def Let_def

lemma verdict_step_readable: "rows_readable rows \<Longrightarrow> rows_readable (verdict_step rows step)"
proof (cases step)
  case (LookupStep i b db)
  assume r: "rows_readable rows"
  then show ?thesis using LookupStep readable_row [OF r, of i]
    by (auto simp: verdict_defs rows_readable_def split: option.splits sum.splits)
next
  case (RecordStep i b r db)
  assume rd: "rows_readable rows"
  then show ?thesis using RecordStep
    by (auto simp: verdict_defs rows_readable_def decode_verdict_rule split: option.splits sum.splits)
next
  case (PruneStep st db)
  assume "rows_readable rows"
  then show ?thesis using PruneStep by (auto simp: verdict_defs rows_readable_def)
qed

lemma verdict_step_keeps:
  assumes "rows_readable rows" "recorded rows i = Some v" "spares i rows step"
  shows "recorded (verdict_step rows step) i = Some v"
proof -
  obtain row where row: "fmlookup rows i = Some row" "decode_verdict (vr_rule row) = Inr v"
    using assms(2) by (auto simp: recorded_def split: option.splits sum.splits)
  have "\<exists>row'. fmlookup (verdict_step rows step) i = Some row' \<and> vr_rule row' = vr_rule row"
    using assms(3) row(1)
    by (cases step) (auto simp: spares_def verdict_defs split: option.splits sum.splits if_splits)
  then show ?thesis using row(2) by (auto simp: recorded_def)
qed

lemma verdict_answer_recorded:
  assumes "rows_readable rows" "verdict_answer rows step = Some (i, v)" "v \<noteq> Unknown"
  shows "recorded (verdict_step rows step) i = Some v \<and> (recorded rows i = None \<or> recorded rows i = Some v)"
proof (cases step)
  case (LookupStep j b db)
  then show ?thesis using assms readable_row [OF assms(1), of i]
    by (auto simp: verdict_defs recorded_def split: option.splits sum.splits if_splits)
next
  case (RecordStep j b r db)
  then show ?thesis using assms readable_row [OF assms(1), of i]
    by (auto simp: verdict_defs recorded_def decode_verdict_rule split: option.splits sum.splits if_splits)
qed (use assms in simp)

lemma recorded_step:
  assumes "rows_readable rows" "recorded (verdict_step rows step) i = Some v"
  shows "recorded rows i = Some v \<or> (\<exists>b r db. step = RecordStep i b r db \<and> v = response_outcome r)"
proof (cases step)
  case (LookupStep j b db)
  then show ?thesis using assms by (auto simp: verdict_defs recorded_def split: option.splits sum.splits if_splits)
next
  case (RecordStep j b r db)
  then show ?thesis using assms
    by (auto simp: verdict_defs recorded_def decode_verdict_rule split: option.splits sum.splits if_splits)
next
  case (PruneStep st db)
  then show ?thesis using assms by (auto simp: verdict_defs recorded_def split: option.splits sum.splits if_splits)
qed

text \<open>A row is pruned only when the safe block passes the block its proposal was last seen in.\<close>

lemma recent_rows_are_spared:
  assumes "fmlookup rows i = Some row" "uint (bs_safe st) \<le> vr_block row"
  shows "spares i rows (PruneStep st db)"
  using assms by (auto simp: spares_def verdict_defs)

lemma checks_spare: "spares i rows (LookupStep j b db)" "spares i rows (RecordStep j b r db)"
  by (auto simp: spares_def verdict_defs split: option.splits sum.splits)

lemma engine_check_steps:
  "engine_check E db1 db2 rows i t ts b =
     (case check_lookup db1 rows i b of
        (rows', Some v) \<Rightarrow> (verdict_step rows (LookupStep i b db1), v)
      | (rows', None) \<Rightarrow>
          (verdict_step (verdict_step rows (LookupStep i b db1)) (RecordStep i b (E t ts) db2),
           snd (check_record db2 rows' i b (E t ts))))"
  by (auto simp: engine_check_def split: prod.splits option.splits)

end
