(* ===== verification/Sentinel.thy ===== *)
theory Sentinel
  imports Verdicts Reorg
begin

text \<open>
  The state transition of the sentinel (\<^verbatim>\<open>crates/sentinel/src/service.rs\<close>): it follows
  each proposed oracle transaction through the engine check, the blind commitment, the reveal, the
  finalization and, after a dispute, the arbitration.  The signer's address and key derivation, Keccak-256
  and the EIP-712 hash that alloy derives for a proposal are parameters.  Metrics and log lines are left out.
\<close>

section \<open>Configuration\<close>

text \<open>
  The requests are a \<open>HashMap\<close>, which \<open>retain\<close> visits in an unspecified order: \<open>sen_slot\<close> is the place of
  an id in the table, at a state and block.
\<close>

record sentinel =
  sen_oracle :: address
  sen_consensus :: address
  sen_address :: address
  sen_derive_key :: "bytes \<Rightarrow> bytes \<Rightarrow> b256"
  sen_keccak :: keccak
  sen_signing_hash :: "eip712_domain \<Rightarrow> transaction_proposal \<Rightarrow> b256"
  sen_chain_id :: u256
  sen_voting_window :: u64
  sen_slot :: "sentinel_state \<Rightarrow> u64 \<Rightarrow> b256 \<Rightarrow> nat"

abbreviation act :: "sentinel_action_kind \<Rightarrow> u64 option \<Rightarrow> sentinel_command" where
  "act k e \<equiv> Action \<lparr>act_kind = k, act_expires_at = e\<rparr>"

section \<open>Proposals and engine checks\<close>

definition handle_oracle_transaction_proposed :: "sentinel \<Rightarrow> sentinel_state \<Rightarrow> u64 \<Rightarrow> u64 \<Rightarrow> b256 \<Rightarrow> address \<Rightarrow> u64 \<Rightarrow>
    bytes \<Rightarrow> safe_transaction \<Rightarrow> sentinel_state \<times> sentinel_command list" where
  "handle_oracle_transaction_proposed T s block block_timestamp stx_hash oracle epoch oracle_data transaction =
     (if oracle \<noteq> sen_oracle T then (s, [])
      else
        let request_id = oracle_tx_proposal_hash (sen_signing_hash T) (sen_chain_id T) (sen_consensus T)
              epoch oracle oracle_data stx_hash
        in if fmlookup s request_id \<noteq> None then (s, [])
           else
             let deadline = sat_add block (sen_voting_window T)
             in (fmupd request_id (WaitingForEngineCheck deadline None) s,
                 [Effect (EngineCheck request_id transaction block_timestamp block)]))"

definition commit_vote :: "sentinel \<Rightarrow> sentinel_state \<Rightarrow> b256 \<Rightarrow> bool \<Rightarrow> string \<Rightarrow> voting_terms \<Rightarrow>
    sentinel_state \<times> sentinel_command list" where
  "commit_vote T s request_id approve reason request =
     (let salt = reveal_salt (sen_derive_key T) request_id;
          hash = commit_hash (sen_keccak T) (sen_address T) request_id approve salt reason
      in (fmupd request_id
            (CollectingCommits approve reason (vt_slash_amount request) (vt_commit_deadline request)
               (vt_reveal_deadline request) 0 False) s,
          [act (ApproveToken (ucast (vt_bond_target request))) (Some (vt_commit_deadline request)),
           act (Commit request_id hash) (Some (vt_commit_deadline request))]))"

fun vote_of :: "check_outcome \<Rightarrow> (bool \<times> string) option" where
  "vote_of Approved = Some (True, [])"
| "vote_of (Denied rule) = Some (False, display_rule rule)"
| "vote_of Unknown = None"

definition handle_engine_check_result :: "sentinel \<Rightarrow> sentinel_state \<Rightarrow> b256 \<Rightarrow> check_outcome \<Rightarrow>
    sentinel_state \<times> sentinel_command list" where
  "handle_engine_check_result T s request_id outcome =
     (case fmlookup s request_id of
        Some (WaitingForEngineCheck deadline request) \<Rightarrow>
          (let s = fmdrop request_id s
           in case vote_of outcome of
                None \<Rightarrow> (s, [])
              | Some (approve, reason) \<Rightarrow>
                  (case request of
                     Some request \<Rightarrow> commit_vote T s request_id approve reason request
                   | None \<Rightarrow> (fmupd request_id (WaitingForRequest approve reason deadline) s, [])))
      | _ \<Rightarrow> (s, []))"

section \<open>Voting\<close>

definition handle_new_request :: "sentinel \<Rightarrow> sentinel_state \<Rightarrow> b256 \<Rightarrow> voting_terms \<Rightarrow>
    sentinel_state \<times> sentinel_command list" where
  "handle_new_request T s request_id request =
     (case fmlookup s request_id of
        Some (WaitingForRequest approve reason deadline) \<Rightarrow>
          commit_vote T (fmdrop request_id s) request_id approve reason request
      | Some (WaitingForEngineCheck deadline None) \<Rightarrow>
          (fmupd request_id (WaitingForEngineCheck deadline (Some request)) s, [])
      | _ \<Rightarrow> (s, []))"

definition handle_committed :: "sentinel \<Rightarrow> sentinel_state \<Rightarrow> b256 \<Rightarrow> address \<Rightarrow>
    sentinel_state \<times> sentinel_command list" where
  "handle_committed T s request_id committer =
     (case fmlookup s request_id of
        Some (CollectingCommits approve reason slash_amount commit_deadline reveal_deadline committed_count self_committed) \<Rightarrow>
          (fmupd request_id
             (CollectingCommits approve reason slash_amount commit_deadline reveal_deadline (committed_count + 1)
                (self_committed \<or> committer = sen_address T)) s, [])
      | _ \<Rightarrow> (s, []))"

fun finalize_request :: "request_state \<Rightarrow> b256 \<Rightarrow> request_state option \<times> sentinel_command list" where
  "finalize_request (CollectingVotes approve slash_amount reveal_deadline committed revealed approves denies self) request_id =
     (if \<not> self \<and> revealed \<noteq> 0 then (None, [])
      else (Some (WaitingForOutcome approve slash_amount), [act (Finalize request_id) None]))"
| "finalize_request _ request_id = (None, [])"

definition put_entry :: "b256 \<Rightarrow> request_state option \<Rightarrow> sentinel_state \<Rightarrow> sentinel_state" where
  "put_entry i e s = (case e of None \<Rightarrow> fmdrop i s | Some e \<Rightarrow> fmupd i e s)"

definition handle_revealed :: "sentinel \<Rightarrow> sentinel_state \<Rightarrow> b256 \<Rightarrow> address \<Rightarrow> bool \<Rightarrow>
    sentinel_state \<times> sentinel_command list" where
  "handle_revealed T s request_id revealer approved =
     (case fmlookup s request_id of
        Some (CollectingVotes approve slash_amount reveal_deadline committed revealed approves denies self) \<Rightarrow>
          (let entry = CollectingVotes approve slash_amount reveal_deadline committed (revealed + 1)
                 (if approved then approves + 1 else approves) (if approved then denies else denies + 1)
                 (self \<or> revealer = sen_address T)
           in if revealed + 1 < committed then (fmupd request_id entry s, [])
              else let (update, actions) = finalize_request entry request_id
                   in (put_entry request_id update s, actions))
      | _ \<Rightarrow> (s, []))"

section \<open>New blocks\<close>

text \<open>The body of the closure given to \<open>retain\<close>: the entry to keep, if any, and the actions it pushes.\<close>

fun advance_entry :: "sentinel \<Rightarrow> u64 \<Rightarrow> b256 \<Rightarrow> request_state \<Rightarrow> request_state option \<times> sentinel_command list" where
  "advance_entry T block i (WaitingForEngineCheck deadline request) =
     (if block \<le> (case request of None \<Rightarrow> deadline | Some r \<Rightarrow> vt_commit_deadline r)
      then Some (WaitingForEngineCheck deadline request) else None, [])"
| "advance_entry T block i (WaitingForRequest approve reason deadline) =
     (if block \<le> deadline then Some (WaitingForRequest approve reason deadline) else None, [])"
| "advance_entry T block i (CollectingCommits approve reason slash_amount commit_deadline reveal_deadline count self) =
     (if block \<le> commit_deadline
      then (Some (CollectingCommits approve reason slash_amount commit_deadline reveal_deadline count self), [])
      else if \<not> self then (None, [])
      else (Some (CollectingVotes approve slash_amount reveal_deadline count 0 0 0 False),
            [act (Reveal i approve (reveal_salt (sen_derive_key T) i) reason) (Some reveal_deadline)]))"
| "advance_entry T block i (CollectingVotes approve slash_amount reveal_deadline committed revealed approves denies self) =
     (if block \<le> reveal_deadline
      then (Some (CollectingVotes approve slash_amount reveal_deadline committed revealed approves denies self), [])
      else finalize_request (CollectingVotes approve slash_amount reveal_deadline committed revealed approves denies self) i)"
| "advance_entry T block i (WaitingForOutcome approve slash_amount) = (Some (WaitingForOutcome approve slash_amount), [])"
| "advance_entry T block i (WaitingForDisputeResolution approve slash_amount arbitration_deadline) =
     (if block \<le> arbitration_deadline
      then (Some (WaitingForDisputeResolution approve slash_amount arbitration_deadline), [])
      else (None, [act (TimeoutArbitration i) None, act (Claim i) None]))"

definition retain_step :: "sentinel \<Rightarrow> u64 \<Rightarrow> b256 \<Rightarrow> sentinel_state \<times> sentinel_command list \<Rightarrow>
    sentinel_state \<times> sentinel_command list" where
  "retain_step T block i acc =
     (case fmlookup (fst acc) i of
        None \<Rightarrow> acc
      | Some e \<Rightarrow> let (update, actions) = advance_entry T block i e
                  in (put_entry i update (fst acc), snd acc @ actions))"

definition visit_order :: "sentinel \<Rightarrow> sentinel_state \<Rightarrow> u64 \<Rightarrow> b256 list" where
  "visit_order T s block = sort_key (sen_slot T s block) (fm_keys s)"

definition handle_block_advance :: "sentinel \<Rightarrow> sentinel_state \<Rightarrow> u64 \<Rightarrow> sentinel_state \<times> sentinel_command list" where
  "handle_block_advance T s block = fold (retain_step T block) (visit_order T s block) (s, [])"

section \<open>Outcomes\<close>

definition handle_resolved :: "sentinel_state \<Rightarrow> b256 \<Rightarrow> sentinel_state \<times> sentinel_command list" where
  "handle_resolved s request_id =
     (case fmlookup s request_id of
        Some (WaitingForDisputeResolution approve slash_amount deadline) \<Rightarrow>
          (fmdrop request_id s, [act (Claim request_id) None])
      | _ \<Rightarrow> (s, []))"

definition handle_arbitration_timeout :: "sentinel_state \<Rightarrow> b256 \<Rightarrow> sentinel_state \<times> sentinel_command list" where
  "handle_arbitration_timeout s request_id =
     (case fmlookup s request_id of
        None \<Rightarrow> (s, [])
      | Some entry \<Rightarrow> (fmdrop request_id s, [act (Claim request_id) None]))"

definition handle_claimed :: "sentinel_state \<Rightarrow> sentinel_state \<times> sentinel_command list" where
  "handle_claimed s = (s, [])"

definition handle_request_timed_out :: "sentinel_state \<Rightarrow> b256 \<Rightarrow> sentinel_state \<times> sentinel_command list" where
  "handle_request_timed_out s request_id =
     (case fmlookup s request_id of
        None \<Rightarrow> (s, [])
      | Some entry \<Rightarrow>
          (fmdrop request_id s,
           if approve_and_slash_amount entry = None then [] else [act (Claim request_id) None]))"

definition handle_dispute_triggered :: "sentinel_state \<Rightarrow> b256 \<Rightarrow> u64 \<Rightarrow> sentinel_state \<times> sentinel_command list" where
  "handle_dispute_triggered s request_id deadline =
     (case fmlookup s request_id of
        None \<Rightarrow> (s, [])
      | Some entry \<Rightarrow>
          (case approve_and_slash_amount entry of
             Some (approve, slash_amount) \<Rightarrow>
               (fmupd request_id (WaitingForDisputeResolution approve slash_amount deadline) (fmdrop request_id s), [])
           | None \<Rightarrow> (fmdrop request_id s, [])))"

text \<open>Whether the vote was revealed only chooses a metric; the claim is made either way.\<close>

definition handle_oracle_resolved :: "sentinel_state \<Rightarrow> b256 \<Rightarrow> sentinel_state \<times> sentinel_command list" where
  "handle_oracle_resolved s request_id =
     (case fmlookup s request_id of
        None \<Rightarrow> (s, [])
      | Some entry \<Rightarrow>
          (fmdrop request_id s,
           if approve_and_slash_amount entry = None then [] else [act (Claim request_id) None]))"

section \<open>Transition\<close>

fun apply_oracle_event :: "sentinel \<Rightarrow> sentinel_state \<Rightarrow> sentinel_oracle_event \<Rightarrow>
    sentinel_state \<times> sentinel_command list" where
  "apply_oracle_event T s (NewRequest i sponsor fee bond_target share slash_amount commit_deadline reveal_deadline) =
     handle_new_request T s i \<lparr>vt_bond_target = bond_target, vt_slash_amount = slash_amount,
       vt_commit_deadline = commit_deadline, vt_reveal_deadline = reveal_deadline\<rparr>"
| "apply_oracle_event T s (Committed i committer bond) = handle_committed T s i committer"
| "apply_oracle_event T s (Revealed i revealer approved bond reason) = handle_revealed T s i revealer approved"
| "apply_oracle_event T s (RequestTimedOut i) = handle_request_timed_out s i"
| "apply_oracle_event T s (OracleResolved i sponsor outcome approved) = handle_oracle_resolved s i"
| "apply_oracle_event T s (DisputeTriggered i deadline) = handle_dispute_triggered s i deadline"
| "apply_oracle_event T s (DisputeResolved i outcome slashed ctxt) = handle_resolved s i"
| "apply_oracle_event T s (ArbitrationTimedOut i) = handle_arbitration_timeout s i"
| "apply_oracle_event T s (DisputeOutOfScope i ctxt) = handle_arbitration_timeout s i"
| "apply_oracle_event T s (Claimed i claimer bond_return fee_reward) = handle_claimed s"

fun apply_sentinel_event :: "sentinel \<Rightarrow> sentinel_state \<Rightarrow> u64 \<Rightarrow> u64 \<Rightarrow> sentinel_event \<Rightarrow>
    sentinel_state \<times> sentinel_command list" where
  "apply_sentinel_event T s block timestamp (ProposalEvent tx_hash safe_id oracle epoch oracle_data transaction) =
     handle_oracle_transaction_proposed T s block timestamp tx_hash oracle epoch oracle_data transaction"
| "apply_sentinel_event T s block timestamp (SentinelOracleEvent e) = apply_oracle_event T s e"

fun sentinel_transition :: "sentinel \<Rightarrow> (sentinel_state, sentinel_event, sentinel_resume, sentinel_command) service" where
  "sentinel_transition T s (NewBlock block) = handle_block_advance T s block"
| "sentinel_transition T s (Event log) = apply_sentinel_event T s (log_block log) (log_timestamp log) (log_data log)"
| "sentinel_transition T s (Resume (EngineCheckResult i outcome)) = handle_engine_check_result T s i outcome"

definition sentinel_run :: "sentinel \<Rightarrow> (sentinel_event, sentinel_resume) history \<Rightarrow> sentinel_state" where
  "sentinel_run T h = exec (sentinel_transition T) fmempty h"

definition sentinel_commands :: "sentinel \<Rightarrow> (sentinel_event, sentinel_resume) history \<Rightarrow> sentinel_message \<Rightarrow>
    sentinel_command list" where
  "sentinel_commands T h msg = snd (sentinel_transition T (sentinel_run T h) msg)"

section \<open>One request at a time\<close>

text \<open>
  Every message acts on each request separately: what a transition does to a request depends on its entry
  only.  \<open>entry_step\<close> names that action; the commands that concern a request are those of its entry.
\<close>

fun about :: "b256 \<Rightarrow> sentinel_command \<Rightarrow> bool" where
  "about i (Action a) = (case act_kind a of ApproveToken bond \<Rightarrow> False | Commit j hash \<Rightarrow> j = i
     | Reveal j approve salt reason \<Rightarrow> j = i | Finalize j \<Rightarrow> j = i | Claim j \<Rightarrow> j = i | TimeoutArbitration j \<Rightarrow> j = i)"
| "about i (Effect (EngineCheck j tx ts block)) = (j = i)"

lemma put_entry_lookup: "fmlookup (put_entry i e s) j = (if j = i then e else fmlookup s j)"
  by (auto simp: put_entry_def split: option.splits)

lemma finalize_request_about: "x \<in> set (snd (finalize_request e i)) \<Longrightarrow> about j x \<Longrightarrow> j = i"
  by (cases e) (auto split: if_splits)

lemma advance_about: "x \<in> set (snd (advance_entry T b i e)) \<Longrightarrow> about j x \<Longrightarrow> j = i"
  by (cases e) (auto split: if_splits dest: finalize_request_about)

lemma filter_about_advance: "i \<noteq> j \<Longrightarrow> filter (about j) (snd (advance_entry T b i e)) = []"
  using advance_about by (force simp: filter_empty_conv)

lemma retain_step_entry:
  "fmlookup (fst (retain_step T b i acc)) j =
     (if i = j then Option.bind (fmlookup (fst acc) j) (\<lambda>e. fst (advance_entry T b j e)) else fmlookup (fst acc) j)"
  "filter (about j) (snd (retain_step T b i acc)) =
     filter (about j) (snd acc) @
     (if i = j then (case fmlookup (fst acc) j of None \<Rightarrow> []
        | Some e \<Rightarrow> filter (about j) (snd (advance_entry T b j e))) else [])"
  by (auto simp: retain_step_def put_entry_lookup split_def Let_def filter_about_advance
      split: option.splits bind_splits)

lemma fold_retain:
  "distinct is \<Longrightarrow>
   fmlookup (fst (fold (retain_step T b) is acc)) j =
     (if j \<in> set is then Option.bind (fmlookup (fst acc) j) (\<lambda>e. fst (advance_entry T b j e)) else fmlookup (fst acc) j) \<and>
   filter (about j) (snd (fold (retain_step T b) is acc)) =
     filter (about j) (snd acc) @
     (if j \<in> set is then (case fmlookup (fst acc) j of None \<Rightarrow> []
        | Some e \<Rightarrow> filter (about j) (snd (advance_entry T b j e))) else [])"
  by (induction "is" arbitrary: acc) (auto simp: retain_step_entry)

lemma visit_order_each: "distinct (visit_order T s b)" "set (visit_order T s b) = fset (fmdom s)"
  by (simp_all add: visit_order_def)

lemma block_advance_entry:
  "fmlookup (fst (handle_block_advance T s b)) j = Option.bind (fmlookup s j) (\<lambda>e. fst (advance_entry T b j e))"
  "filter (about j) (snd (handle_block_advance T s b)) =
     (case fmlookup s j of None \<Rightarrow> [] | Some e \<Rightarrow> filter (about j) (snd (advance_entry T b j e)))"
  using fold_retain [OF visit_order_each(1), where acc = "(s, [])" and j = j] visit_order_each(2)
  by (auto simp: handle_block_advance_def fmlookup_dom_iff split: option.splits)

end
