(* ===== verification/Sentinel_Safety.thy ===== *)
theory Sentinel_Safety
  imports Sentinel
begin

text \<open>
  What the sentinel guarantees.  The life of one request is an abstract state machine, \<open>request_step\<close>, that
  the transition refines; from it follow that what is sent for a request votes as the verdicts that were given
  on it, that votes, reveals and finalizations are sent once, that revealed bonds are claimed, and that entries
  are well formed.
\<close>

section \<open>The life of a request\<close>

abbreviation commit_command :: "sentinel \<Rightarrow> b256 \<Rightarrow> bool \<Rightarrow> string \<Rightarrow> voting_terms \<Rightarrow> sentinel_command" where
  "commit_command T i a r q \<equiv>
     act (Commit i (commit_hash (sen_keccak T) (sen_address T) i a (reveal_salt (sen_derive_key T) i) r))
       (Some (vt_commit_deadline q))"

abbreviation opened_entry :: "bool \<Rightarrow> string \<Rightarrow> voting_terms \<Rightarrow> request_state" where
  "opened_entry a r q \<equiv> CollectingCommits a r (vt_slash_amount q) (vt_commit_deadline q) (vt_reveal_deadline q) 0 False"

text \<open>The vote of an entry is known to have been revealed, or nothing but an outcome is awaited.\<close>

fun secured :: "request_state \<Rightarrow> bool" where
  "secured (CollectingVotes a sl rd c rv ac dc self) = self"
| "secured (WaitingForOutcome a sl) = True"
| "secured (WaitingForDisputeResolution a sl d) = True"
| "secured _ = False"

inductive request_step :: "sentinel \<Rightarrow> b256 \<Rightarrow> sentinel_message \<Rightarrow> request_state option \<Rightarrow> sentinel_command list \<Rightarrow>
    request_state option \<Rightarrow> bool" for T :: sentinel and i :: b256 where
  unchanged: "request_step T i msg e [] e"
| proposed: "request_step T i (Event log) None [Effect (EngineCheck i tx (log_timestamp log) (log_block log))]
    (Some (WaitingForEngineCheck d None))"
| opened: "request_step T i (Event log) (Some (WaitingForEngineCheck d None)) [] (Some (WaitingForEngineCheck d (Some q)))"
| decided: "vote_of v = Some (a, r) \<Longrightarrow>
    request_step T i (Resume (EngineCheckResult i v)) (Some (WaitingForEngineCheck d None)) [] (Some (WaitingForRequest a r d))"
| decided_late: "vote_of v = Some (a, r) \<Longrightarrow>
    request_step T i (Resume (EngineCheckResult i v)) (Some (WaitingForEngineCheck d (Some q)))
      [commit_command T i a r q] (Some (opened_entry a r q))"
| unanswered: "request_step T i (Resume (EngineCheckResult i Unknown)) (Some (WaitingForEngineCheck d q)) [] None"
| voted: "request_step T i (Event log) (Some (WaitingForRequest a r d)) [commit_command T i a r q] (Some (opened_entry a r q))"
| commit_seen: "self \<longrightarrow> self' \<Longrightarrow>
    request_step T i (Event log) (Some (CollectingCommits a r sl cd rd c self)) []
      (Some (CollectingCommits a r sl cd rd (c + 1) self'))"
| revealing: "cd < b \<Longrightarrow>
    request_step T i (NewBlock b) (Some (CollectingCommits a r sl cd rd c True))
      [act (Reveal i a (reveal_salt (sen_derive_key T) i) r) (Some rd)] (Some (CollectingVotes a sl rd c 0 0 0 False))"
| vote_seen: "self \<longrightarrow> self' \<Longrightarrow> rv' = rv + 1 \<Longrightarrow> ac' + dc' = ac + dc + 1 \<Longrightarrow> rv' < c \<Longrightarrow>
    request_step T i (Event log) (Some (CollectingVotes a sl rd c rv ac dc self)) []
      (Some (CollectingVotes a sl rd c rv' ac' dc' self'))"
| finalizing: "request_step T i msg (Some (CollectingVotes a sl rd c rv ac dc self)) [act (Finalize i) None]
    (Some (WaitingForOutcome a sl))"
| disputed: "approve_and_slash_amount e = Some (a, sl) \<Longrightarrow>
    request_step T i (Event log) (Some e) [] (Some (WaitingForDisputeResolution a sl d))"
| settled: "request_step T i (Event log) (Some e) [act (Claim i) None] None"
| arbitration_over: "d < b \<Longrightarrow>
    request_step T i (NewBlock b) (Some (WaitingForDisputeResolution a sl d))
      [act (TimeoutArbitration i) None, act (Claim i) None] None"
| dropped: "\<not> secured e \<Longrightarrow> request_step T i msg (Some e) [] None"

inductive_cases request_step_cases: "request_step T i msg e cs e'"

section \<open>The transition refines it\<close>

lemma put_entry_simps [simp]: "put_entry i None s = fmdrop i s" "put_entry i (Some e) s = fmupd i e s"
  by (simp_all add: put_entry_def)

lemma advance_refines:
  "request_step T i (NewBlock b) (Some e) (filter (about i) (snd (advance_entry T b i e))) (fst (advance_entry T b i e))"
  by (cases e) (auto intro: request_step.intros)

lemma block_refines:
  "request_step T i (NewBlock b) (fmlookup s i) (filter (about i) (snd (handle_block_advance T s b)))
     (fmlookup (fst (handle_block_advance T s b)) i)"
  by (cases "fmlookup s i") (auto simp: block_advance_entry intro: unchanged advance_refines)

lemma commit_vote_lookup:
  "fmlookup (fst (commit_vote T s j a r q)) i = (if i = j then Some (opened_entry a r q) else fmlookup s i)"
  "filter (about i) (snd (commit_vote T s j a r q)) = (if i = j then [commit_command T i a r q] else [])"
  by (auto simp: commit_vote_def Let_def)

lemma resume_refines:
  "request_step T i (Resume (EngineCheckResult j v)) (fmlookup s i)
     (filter (about i) (snd (handle_engine_check_result T s j v))) (fmlookup (fst (handle_engine_check_result T s j v)) i)"
proof (cases "i = j")
  case True
  then show ?thesis
    by (auto simp: handle_engine_check_result_def Let_def commit_vote_lookup
        intro: request_step.intros split: option.splits request_state.splits prod.splits)
next
  case False
  then show ?thesis
    by (auto simp: handle_engine_check_result_def Let_def commit_vote_lookup
        intro: unchanged split: option.splits request_state.splits)
qed

lemma proposal_refines:
  fixes log :: "sentinel_event event_log"
  shows "let out = handle_oracle_transaction_proposed T s (log_block log) (log_timestamp log) th orc ep od tx
   in request_step T i (Event log) (fmlookup s i) (filter (about i) (snd out)) (fmlookup (fst out) i)"
  by (auto simp: handle_oracle_transaction_proposed_def Let_def intro: request_step.intros)

lemma new_request_refines:
  "request_step T i (Event log) (fmlookup s i) (filter (about i) (snd (handle_new_request T s j q)))
     (fmlookup (fst (handle_new_request T s j q)) i)"
  by (auto simp: handle_new_request_def commit_vote_lookup intro: request_step.intros
      split: option.splits request_state.splits)

lemma committed_refines:
  "request_step T i (Event log) (fmlookup s i) (filter (about i) (snd (handle_committed T s j c)))
     (fmlookup (fst (handle_committed T s j c)) i)"
  by (auto simp: handle_committed_def intro: request_step.intros split: option.splits request_state.splits)

lemma revealed_refines:
  "request_step T i (Event log) (fmlookup s i) (filter (about i) (snd (handle_revealed T s j who ok)))
     (fmlookup (fst (handle_revealed T s j who ok)) i)"
  by (auto simp: handle_revealed_def Let_def put_entry_lookup intro: request_step.intros
      split: option.splits request_state.splits)

lemma unbonded_not_secured: "approve_and_slash_amount e = None \<Longrightarrow> \<not> secured e"
  by (cases e) auto

lemma outcome_refines:
  "request_step T i (Event log) (fmlookup s i) (filter (about i) (snd (handle_resolved s j))) (fmlookup (fst (handle_resolved s j)) i)"
  "request_step T i (Event log) (fmlookup s i) (filter (about i) (snd (handle_arbitration_timeout s j)))
     (fmlookup (fst (handle_arbitration_timeout s j)) i)"
  "request_step T i (Event log) (fmlookup s i) (filter (about i) (snd (handle_request_timed_out s j)))
     (fmlookup (fst (handle_request_timed_out s j)) i)"
  "request_step T i (Event log) (fmlookup s i) (filter (about i) (snd (handle_oracle_resolved s j)))
     (fmlookup (fst (handle_oracle_resolved s j)) i)"
  "request_step T i (Event log) (fmlookup s i) (filter (about i) (snd (handle_dispute_triggered s j d)))
     (fmlookup (fst (handle_dispute_triggered s j d)) i)"
  by (auto simp: handle_resolved_def handle_arbitration_timeout_def handle_request_timed_out_def handle_oracle_resolved_def
      handle_dispute_triggered_def intro: request_step.intros dropped [OF unbonded_not_secured] split: option.splits request_state.splits)

lemma event_refines:
  "request_step T i (Event log) (fmlookup s i) (filter (about i) (snd (sentinel_transition T s (Event log))))
     (fmlookup (fst (sentinel_transition T s (Event log))) i)"
proof (cases "log_data log")
  case (ProposalEvent th sid orc ep od tx)
  then show ?thesis using proposal_refines [of T s log] by (simp add: Let_def)
next
  case (SentinelOracleEvent e)
  then show ?thesis
    by (cases e) (simp_all add: new_request_refines committed_refines revealed_refines outcome_refines
        handle_claimed_def unchanged)
qed

lemma transition_refines:
  "request_step T i msg (fmlookup s i) (filter (about i) (snd (sentinel_transition T s msg)))
     (fmlookup (fst (sentinel_transition T s msg)) i)"
proof (cases msg)
  case (Resume r)
  then show ?thesis by (cases r) (simp add: resume_refines)
qed (simp_all add: block_refines event_refines del: sentinel_transition.simps(2))

lemma finalize_effects: "Effect f \<notin> set (snd (finalize_request e i))"
  by (cases e) auto

lemma oracle_event_effects: "Effect f \<notin> set (snd (apply_oracle_event T s x))"
  by (cases x) (auto simp: handle_new_request_def handle_committed_def handle_revealed_def handle_resolved_def
      handle_arbitration_timeout_def handle_claimed_def handle_request_timed_out_def handle_dispute_triggered_def
      handle_oracle_resolved_def commit_vote_def Let_def finalize_effects
      split: option.splits request_state.splits prod.splits dest!: arg_cong [where f = snd])

section \<open>Votes\<close>

text \<open>An entry and a command carry the vote of one of the given verdicts.\<close>

fun entry_votes :: "check_outcome set \<Rightarrow> request_state \<Rightarrow> bool" where
  "entry_votes V (WaitingForEngineCheck d q) \<longleftrightarrow> True"
| "entry_votes V (WaitingForRequest a r d) \<longleftrightarrow> Some (a, r) \<in> vote_of ` V"
| "entry_votes V (CollectingCommits a r sl cd rd c self) \<longleftrightarrow> Some (a, r) \<in> vote_of ` V"
| "entry_votes V _ \<longleftrightarrow> True"

fun command_votes :: "sentinel \<Rightarrow> check_outcome set \<Rightarrow> sentinel_command \<Rightarrow> bool" where
  "command_votes T V (Action x) \<longleftrightarrow> (case act_kind x of
       Commit j hash \<Rightarrow> \<exists>a r. Some (a, r) \<in> vote_of ` V \<and>
         hash = commit_hash (sen_keccak T) (sen_address T) j a (reveal_salt (sen_derive_key T) j) r
     | Reveal j a salt r \<Rightarrow> Some (a, r) \<in> vote_of ` V \<and> salt = reveal_salt (sen_derive_key T) j
     | _ \<Rightarrow> True)"
| "command_votes T V (Effect f) \<longleftrightarrow> True"

text \<open>A message brings no other verdict on a request than those of a given set.\<close>

fun verdict_among :: "b256 \<Rightarrow> check_outcome set \<Rightarrow> sentinel_message \<Rightarrow> bool" where
  "verdict_among i V (Resume (EngineCheckResult j v)) \<longleftrightarrow> (j = i \<longrightarrow> v \<in> V)"
| "verdict_among i V _ \<longleftrightarrow> True"

lemma step_votes:
  assumes "request_step T i msg e cs e'" "pred_option (entry_votes V) e" "verdict_among i V msg"
  shows "pred_option (entry_votes V) e'" "\<forall>c\<in>set cs. command_votes T V c"
  using assms by (cases rule: request_step.cases; force)+

interpretation votes: guarded_system "\<lambda>s msg. fst (sentinel_transition T s msg)" "\<lambda>_. verdict_among i V"
    "\<lambda>s. pred_option (entry_votes V) (fmlookup s i)" fmempty for T i V
  by unfold_locales (simp, blast intro: step_votes(1) [OF transition_refines])

lemma sentinel_commands_vote:
  assumes "list_all (verdict_among i V) (h @ [msg])" "c \<in> set (sentinel_commands T h msg)" "about i c"
  shows "command_votes T V c"
proof -
  have "pred_option (entry_votes V) (fmlookup (sentinel_run T h) i)"
    using votes.always [where ms = h and V = V and i = i] assms(1) by (simp add: sentinel_run_def exec_def run_ok_stateless)
  then show ?thesis
    using step_votes(2) [OF transition_refines, of V "sentinel_run T h" i msg T] assms by (simp add: sentinel_commands_def)
qed

text \<open>A check is only asked for when a proposal to the sentinel's oracle is seen, of which it carries the id.\<close>

lemma check_sent:
  assumes "Effect (EngineCheck i tx ts b) \<in> set (snd (sentinel_transition T s msg))"
  shows "\<exists>log tx_hash safe_id epoch oracle_data. msg = Event log \<and>
    log_data log = ProposalEvent tx_hash safe_id (sen_oracle T) epoch oracle_data tx \<and> ts = log_timestamp log \<and>
    i = oracle_tx_proposal_hash (sen_signing_hash T) (sen_chain_id T) (sen_consensus T) epoch (sen_oracle T) oracle_data tx_hash"
proof -
  have "Effect (EngineCheck i tx ts b) \<in> set (filter (about i) (snd (sentinel_transition T s msg)))" using assms by simp
  moreover have "Effect (EngineCheck i tx ts b) \<in> set cs \<Longrightarrow> \<exists>log. msg = Event log"
    if "request_step T i msg e cs e'" for e cs e' using that by cases auto
  ultimately obtain log where log: "msg = Event log" using transition_refines [of T i msg s] by blast
  show ?thesis
  proof (cases "log_data log")
    case (ProposalEvent tx_hash safe_id address epoch oracle_data tx1)
    then show ?thesis using assms log
      by (auto simp: handle_oracle_transaction_proposed_def Let_def split: if_splits)
  next
    case (SentinelOracleEvent x)
    then show ?thesis using assms log oracle_event_effects [of "EngineCheck i tx ts b" T s x] by simp
  qed
qed

section \<open>A sample request\<close>

text \<open>
  A sentinel with account 1 at the oracle 7 checks one proposal, denies it and commits to its vote.
\<close>

definition sample_sentinel :: sentinel where
  "sample_sentinel = \<lparr>sen_oracle = 7, sen_consensus = 8, sen_address = 1, sen_derive_key = (\<lambda>d k. of_nat (length k)),
     sen_keccak = (\<lambda>bs. of_nat (length bs)), sen_signing_hash = (\<lambda>d p. case p of TransactionProposal e o1 od th \<Rightarrow> th),
     sen_chain_id = 100, sen_voting_window = 20, sen_slot = (\<lambda>s b i. unat i)\<rparr>"

definition sample_tx :: safe_transaction where
  "sample_tx = \<lparr>tx_chain_id = 1, tx_safe = 5, tx_to = 6, tx_value = 0, tx_data = [], tx_operation = CALL,
     tx_safe_tx_gas = 0, tx_base_gas = 0, tx_gas_price = 0, tx_gas_token = 0, tx_refund_receiver = 0, tx_nonce = 0\<rparr>"

definition sample_log :: "u64 \<Rightarrow> u64 \<Rightarrow> sentinel_event \<Rightarrow> sentinel_event event_log" where
  "sample_log block idx e = \<lparr>log_block = block, log_timestamp = 0, log_index = idx, log_address = 0, log_data = e\<rparr>"

definition sample_proposal :: sentinel_event where
  "sample_proposal = ProposalEvent 33 0 7 2 [] sample_tx"

definition watched_request :: sentinel_event where
  "watched_request = SentinelOracleEvent (NewRequest 33 4 10 50 0 20 12 16)"

definition sample_denial :: sentinel_message where
  "sample_denial = Resume (EngineCheckResult 33 (Denied (RuleId 2 1)))"

definition sample_second :: "sentinel_message list" where
  "sample_second = [NewBlock 10, Event (sample_log 10 0 sample_proposal), sample_denial, NewBlock 11,
     Event (sample_log 11 0 watched_request), NewBlock 12,
     Event (sample_log 12 0 (SentinelOracleEvent (Committed 33 1 50)))]"

lemmas watched_simps = sample_sentinel_def sample_log_def sample_proposal_def watched_request_def sample_denial_def
  sentinel_run_def sentinel_commands_def exec_def handle_oracle_transaction_proposed_def handle_engine_check_result_def
  handle_new_request_def handle_committed_def handle_revealed_def commit_vote_def handle_block_advance_def
  visit_order_def retain_step_def oracle_tx_proposal_hash_def sat_add_def fin_simps

section \<open>Runs\<close>

fun run_commands :: "sentinel \<Rightarrow> sentinel_state \<Rightarrow> sentinel_message list \<Rightarrow> sentinel_command list" where
  "run_commands T s [] = []"
| "run_commands T s (msg # ms) =
     snd (sentinel_transition T s msg) @ run_commands T (fst (sentinel_transition T s msg)) ms"

abbreviation sentinel_state_after :: "sentinel \<Rightarrow> sentinel_state \<Rightarrow> sentinel_message list \<Rightarrow> sentinel_state" where
  "sentinel_state_after T s ms \<equiv> run_from (\<lambda>s msg. fst (sentinel_transition T s msg)) s ms"

fun stays_tracked :: "sentinel \<Rightarrow> b256 \<Rightarrow> sentinel_state \<Rightarrow> sentinel_message list \<Rightarrow> bool" where
  "stays_tracked T i s [] = fm_has s i"
| "stays_tracked T i s (msg # ms) = (fm_has s i \<and> stays_tracked T i (fst (sentinel_transition T s msg)) ms)"

lemma run_commands_append:
  "run_commands T s (ms @ ns) = run_commands T s ms @ run_commands T (sentinel_state_after T s ms) ns"
  by (induction ms arbitrary: s) (simp_all del: sentinel_transition.simps)

subsection \<open>Stages\<close>

fun stage :: "request_state \<Rightarrow> nat" where
  "stage (WaitingForEngineCheck d q) = 0"
| "stage (WaitingForRequest a r d) = 1"
| "stage (CollectingCommits a r sl cd rd c self) = 2"
| "stage (CollectingVotes a sl rd c rv ac dc self) = 3"
| "stage (WaitingForOutcome a sl) = 4"
| "stage (WaitingForDisputeResolution a sl d) = 5"

text \<open>The stage that a command for a request enters; a claim leaves the last one.\<close>

fun enters :: "b256 \<Rightarrow> sentinel_command \<Rightarrow> nat option" where
  "enters i (Action x) = (case act_kind x of
       ApproveToken bond \<Rightarrow> None
     | Commit j hash \<Rightarrow> if j = i then Some 2 else None
     | Reveal j a salt r \<Rightarrow> if j = i then Some 3 else None
     | Finalize j \<Rightarrow> if j = i then Some 4 else None
     | TimeoutArbitration j \<Rightarrow> if j = i then Some 6 else None
     | Claim j \<Rightarrow> if j = i then Some 6 else None)"
| "enters i (Effect f) = None"

abbreviation times_entered :: "b256 \<Rightarrow> nat \<Rightarrow> sentinel_command list \<Rightarrow> nat" where
  "times_entered i k cs \<equiv> length (filter (\<lambda>c. enters i c = Some k) cs)"

lemma enters_about: "enters i c = Some k \<Longrightarrow> about i c"
  by (cases c) (auto split: sentinel_action_kind.splits if_splits)

lemma times_entered_about: "times_entered i k (filter (about i) cs) = times_entered i k cs"
  by (induction cs) (auto dest: enters_about)

lemma stage_bound: "stage e \<le> 5"
  by (cases e) auto

lemma step_stage:
  assumes "request_step T i msg (Some e) cs (Some e')"
  shows "stage e \<le> stage e'"
    and "times_entered i k cs + (if k \<le> stage e then 1 else 0) \<le> (if k \<le> stage e' then 1 else 0)"
  using assms by (cases rule: request_step.cases; auto simp: stage_bound intro: le_trans [OF _ stage_bound])+

lemma transition_stage:
  assumes "fmlookup s i = Some e" "fmlookup (fst (sentinel_transition T s msg)) i = Some e'"
  shows "stage e \<le> stage e'"
    and "times_entered i k (snd (sentinel_transition T s msg)) + (if k \<le> stage e then 1 else 0) \<le>
      (if k \<le> stage e' then 1 else 0)"
  using step_stage [OF transition_refines [of T i msg s, unfolded assms]] unfolding times_entered_about by blast+

lemma run_stage:
  "stays_tracked T i s ms \<Longrightarrow> fmlookup s i = Some e \<Longrightarrow>
   \<exists>e'. fmlookup (sentinel_state_after T s ms) i = Some e' \<and> stage e \<le> stage e' \<and>
     times_entered i k (run_commands T s ms) + (if k \<le> stage e then 1 else 0) \<le> (if k \<le> stage e' then 1 else 0)"
proof (induction ms arbitrary: s e)
  case (Cons msg ms)
  let ?s = "fst (sentinel_transition T s msg)"
  have "fm_has ?s i" using Cons.prems(1) by (cases ms) (auto simp del: sentinel_transition.simps)
  then obtain e1 where e1: "fmlookup ?s i = Some e1" by (auto simp: fm_has_def)
  note one = transition_stage [OF Cons.prems(2) e1]
  from Cons.IH [OF _ e1] Cons.prems(1) obtain e' where e': "fmlookup (sentinel_state_after T ?s ms) i = Some e'"
    "stage e1 \<le> stage e'"
    "times_entered i k (run_commands T ?s ms) + (if k \<le> stage e1 then 1 else 0) \<le> (if k \<le> stage e' then 1 else 0)"
    by auto
  have "times_entered i k (run_commands T s (msg # ms)) + (if k \<le> stage e then 1 else 0) \<le> (if k \<le> stage e' then 1 else 0)"
    using one(2) [of k] e'(3) by (simp del: sentinel_transition.simps)
  moreover have "stage e \<le> stage e'" using one(1) e'(2) by simp
  ultimately show ?case using e'(1) by auto
qed (auto simp: fm_has_def)

text \<open>
  C14: a request only moves forward.  While a request stays tracked, its stage (engine check, awaiting the
  request, commitments, votes, outcome, dispute) never decreases; the sentinel sends at most one commitment,
  one reveal and one finalization for it, and no claim; and each of the first three is sent only if its
  stage had not been reached before.
\<close>

theorem requests_only_advance:
  assumes "stays_tracked T i s ms" "fmlookup s i = Some e"
  shows "\<exists>e'. fmlookup (sentinel_state_after T s ms) i = Some e' \<and> stage e \<le> stage e' \<and>
    (\<forall>k. times_entered i k (run_commands T s ms) \<le> (if stage e < k \<and> k \<le> stage e' then 1 else 0))"
proof -
  obtain e' where e': "fmlookup (sentinel_state_after T s ms) i = Some e'" "stage e \<le> stage e'"
    using run_stage [OF assms] by blast
  have "times_entered i k (run_commands T s ms) \<le> (if stage e < k \<and> k \<le> stage e' then 1 else 0)" for k
    using run_stage [OF assms, of k] e'(1) by (auto split: if_splits)
  with e' show ?thesis by blast
qed

definition sample_open :: sentinel_state where
  "sample_open = fmupd 33 (WaitingForEngineCheck 30 None) fmempty"

definition sample_rest :: "sentinel_message list" where
  "sample_rest = [sample_denial, Event (sample_log 11 0 watched_request),
     Event (sample_log 12 0 (SentinelOracleEvent (Committed 33 1 50))), NewBlock 13]"

lemma sample_tracked: "stays_tracked sample_sentinel 33 sample_open sample_rest"
  by (simp add: sample_rest_def sample_open_def watched_simps fm_has_def Let_def del: display_rule.simps)

theorem requests_only_advance_witness:
  "times_entered 33 2 (run_commands sample_sentinel sample_open sample_rest) \<le> 1 \<and>
   times_entered 33 4 (run_commands sample_sentinel sample_open sample_rest) = 0"
proof -
  have e: "fmlookup sample_open 33 = Some (WaitingForEngineCheck 30 None)" by (simp add: sample_open_def)
  have last: "fmlookup (sentinel_state_after sample_sentinel sample_open sample_rest) 33 =
      Some (CollectingVotes False 20 16 1 0 0 0 False)"
    by (simp add: sample_rest_def sample_open_def watched_simps Let_def del: display_rule.simps)
  from requests_only_advance [OF sample_tracked e] last
  have "\<forall>k. times_entered 33 k (run_commands sample_sentinel sample_open sample_rest) \<le> (if k \<le> 3 then 1 else 0)"
    by (auto split: if_splits)
  from this [rule_format, of 2] this [rule_format, of 4] show ?thesis by simp
qed

subsection \<open>Bonds\<close>

text \<open>A property of entries that is kept until the bond of the request is claimed.\<close>

lemma kept_until_claimed:
  assumes "\<And>msg e cs e'. request_step T i msg (Some e) cs e' \<Longrightarrow> P e \<Longrightarrow> pred_option P e' \<and> e' \<noteq> None \<or> act (Claim i) None \<in> set cs"
    and "fmlookup s i = Some e" "P e"
  shows "act (Claim i) None \<in> set (run_commands T s ms) \<or> (\<exists>e'. fmlookup (sentinel_state_after T s ms) i = Some e' \<and> P e')"
  using assms(2,3)
proof (induction ms arbitrary: s e)
  case (Cons msg ms)
  let ?s = "fst (sentinel_transition T s msg)"
  have step: "request_step T i msg (Some e) (filter (about i) (snd (sentinel_transition T s msg))) (fmlookup ?s i)"
    using transition_refines [of T i msg s] Cons.prems(1) by (simp del: sentinel_transition.simps)
  from assms(1) [OF step Cons.prems(2)] consider e1 where "fmlookup ?s i = Some e1" "P e1"
    | "act (Claim i) None \<in> set (snd (sentinel_transition T s msg))" by (auto simp: pred_option_def)
  then show ?case using Cons.IH [of ?s] by cases (auto simp del: sentinel_transition.simps)
qed auto

fun disputing :: "request_state \<Rightarrow> bool" where
  "disputing (WaitingForDisputeResolution a sl d) = True"
| "disputing _ = False"

lemma secured_step: "request_step T i msg (Some e) cs e' \<Longrightarrow> secured e \<Longrightarrow>
    pred_option secured e' \<and> e' \<noteq> None \<or> act (Claim i) None \<in> set cs"
  by (erule request_step.cases) auto

lemma disputing_step: "request_step T i msg (Some e) cs e' \<Longrightarrow> disputing e \<Longrightarrow>
    pred_option disputing e' \<and> e' \<noteq> None \<or> act (Claim i) None \<in> set cs"
  by (erule request_step.cases; cases e) auto

lemma secured_run: "fmlookup s i = Some e \<Longrightarrow> secured e \<Longrightarrow>
    act (Claim i) None \<in> set (run_commands T s ms) \<or> (\<exists>e'. fmlookup (sentinel_state_after T s ms) i = Some e' \<and> secured e')"
  using kept_until_claimed [where P = secured] secured_step by blast

lemma disputing_run: "fmlookup s i = Some e \<Longrightarrow> disputing e \<Longrightarrow>
    act (Claim i) None \<in> set (run_commands T s ms) \<or> (\<exists>e'. fmlookup (sentinel_state_after T s ms) i = Some e' \<and> disputing e')"
  using kept_until_claimed [where P = disputing] disputing_step by blast

lemma secured_bonded: "secured e \<Longrightarrow> approve_and_slash_amount e \<noteq> None"
  by (cases e) auto

text \<open>The oracle's last word on a request; a ruling settles it once its dispute has been seen.\<close>

fun settles :: "b256 \<Rightarrow> sentinel_oracle_event list \<Rightarrow> sentinel_oracle_event \<Rightarrow> bool" where
  "settles i seen (RequestTimedOut j) \<longleftrightarrow> j = i"
| "settles i seen (OracleResolved j sponsor outcome approved) \<longleftrightarrow> j = i"
| "settles i seen (ArbitrationTimedOut j) \<longleftrightarrow> j = i"
| "settles i seen (DisputeOutOfScope j ctxt) \<longleftrightarrow> j = i"
| "settles i seen (DisputeResolved j outcome slashed ctxt) \<longleftrightarrow> j = i \<and> (\<exists>d. DisputeTriggered i d \<in> set seen)"
| "settles i seen _ \<longleftrightarrow> False"

fun oracle_events :: "sentinel_message list \<Rightarrow> sentinel_oracle_event list" where
  "oracle_events [] = []"
| "oracle_events (msg # ms) =
     (case msg of Event log \<Rightarrow> (case log_data log of SentinelOracleEvent x \<Rightarrow> [x] | _ \<Rightarrow> []) | _ \<Rightarrow> []) @ oracle_events ms"

lemma disputed_after_trigger:
  assumes "DisputeTriggered i d \<in> set (oracle_events ms)" "fmlookup s i = Some e" "secured e"
  shows "act (Claim i) None \<in> set (run_commands T s ms) \<or>
    (\<exists>e'. fmlookup (sentinel_state_after T s ms) i = Some e' \<and> disputing e')"
proof -
  have "\<exists>ms1 log ms2. ms = ms1 @ Event log # ms2 \<and> log_data log = SentinelOracleEvent (DisputeTriggered i d)"
    using assms(1)
  proof (induction ms)
    case (Cons msg ms)
    then consider log where "msg = Event log" "log_data log = SentinelOracleEvent (DisputeTriggered i d)"
      | "DisputeTriggered i d \<in> set (oracle_events ms)" by (auto split: message.splits sentinel_event.splits)
    then show ?case using Cons.IH by cases (blast, metis append_Cons)
  qed simp
  then obtain ms1 log ms2 where ms: "ms = ms1 @ Event log # ms2"
    and log: "log_data log = SentinelOracleEvent (DisputeTriggered i d)" by blast
  let ?s1 = "sentinel_state_after T s ms1"
  let ?s2 = "fst (sentinel_transition T ?s1 (Event log))"
  from secured_run [OF assms(2,3), of T ms1] consider "act (Claim i) None \<in> set (run_commands T s ms1)"
    | e1 where "fmlookup ?s1 i = Some e1" "secured e1" by blast
  then show ?thesis
  proof cases
    case 1
    then show ?thesis by (simp add: ms run_commands_append)
  next
    case 2
    then obtain e2 where "fmlookup ?s2 i = Some e2" "disputing e2"
      using secured_bonded [of e1] log by (auto simp: handle_dispute_triggered_def)
    from disputing_run [OF this, of T ms2] show ?thesis
      by (auto simp: ms run_commands_append run_from_append simp del: sentinel_transition.simps)
  qed
qed

text \<open>
  C15: a bond behind a revealed vote is always claimed back.  From the moment the sentinel's own reveal has
  been seen (or only the outcome is awaited), whatever messages follow, the sentinel has sent a claim by the
  time the oracle settles the request: with a result, a time-out, a time-out or refusal of the arbitration,
  or a ruling on a dispute that was announced.
\<close>

theorem revealed_bonds_are_claimed:
  assumes "fmlookup s i = Some e" "secured e" "settles i (oracle_events ms) x" "log_data log = SentinelOracleEvent x"
  shows "act (Claim i) None \<in> set (run_commands T s (ms @ [Event log]))"
proof -
  let ?s = "sentinel_state_after T s ms"
  let ?cs = "snd (apply_oracle_event T ?s x)"
  have "act (Claim i) None \<in> set (run_commands T s ms) \<or> act (Claim i) None \<in> set ?cs"
  proof (cases "\<exists>d. DisputeTriggered i d \<in> set (oracle_events ms)")
    case True
    then consider "act (Claim i) None \<in> set (run_commands T s ms)" | e' where "fmlookup ?s i = Some e'" "disputing e'"
      using disputed_after_trigger assms(1,2) by blast
    then show ?thesis
    proof cases
      case 2
      then show ?thesis using assms(3)
        by (cases e'; cases x) (simp_all add: handle_resolved_def handle_arbitration_timeout_def
            handle_request_timed_out_def handle_oracle_resolved_def)
    qed simp
  next
    case False
    from secured_run [OF assms(1,2), of T ms] consider "act (Claim i) None \<in> set (run_commands T s ms)"
      | e' where "fmlookup ?s i = Some e'" "secured e'" by blast
    then show ?thesis
    proof cases
      case 2
      then show ?thesis using assms(3) False secured_bonded [of e']
        by (cases x) (auto simp: handle_arbitration_timeout_def handle_request_timed_out_def handle_oracle_resolved_def)
    qed simp
  qed
  then show ?thesis using assms(4) by (auto simp: run_commands_append)
qed

theorem revealed_bonds_are_claimed_witness:
  "act (Claim 33) None \<in> set (run_commands sample_sentinel
     (fmupd 33 (CollectingVotes False 20 16 2 1 0 1 True) fmempty)
     [NewBlock 17, Event (sample_log 17 0 (SentinelOracleEvent (DisputeTriggered 33 90))),
      Event (sample_log 18 0 (SentinelOracleEvent (DisputeResolved 33 RESOLVED_DENIED 20 [])))])"
  using revealed_bonds_are_claimed [of "fmupd 33 (CollectingVotes False 20 16 2 1 0 1 True) fmempty" 33
      "CollectingVotes False 20 16 2 1 0 1 True"
      "[NewBlock 17, Event (sample_log 17 0 (SentinelOracleEvent (DisputeTriggered 33 90)))]"
      "DisputeResolved 33 RESOLVED_DENIED 20 []"
      "sample_log 18 0 (SentinelOracleEvent (DisputeResolved 33 RESOLVED_DENIED 20 []))" sample_sentinel]
  by (simp add: sample_log_def del: run_commands.simps sentinel_transition.simps)

text \<open>
  A vote that was committed but whose reveal has not been seen is another matter: when others have revealed
  and the reveal window closes, the request is dropped, and the result that follows is ignored, so that what
  is left of the bond is not claimed.
\<close>

lemma unrevealed_bond_is_dropped:
  assumes "fmlookup s i = Some (CollectingVotes a sl rd c rv ac dc False)" "rv \<noteq> 0" "rd < b"
    and "log_data log = SentinelOracleEvent (OracleResolved i sponsor outcome approved)"
  shows "filter (about i) (run_commands T s [NewBlock b, Event log]) = []"
  using assms by (simp add: block_advance_entry handle_oracle_resolved_def)

section \<open>Deadlines\<close>

fun entry_deadline :: "request_state \<Rightarrow> u64 option" where
  "entry_deadline (WaitingForEngineCheck d q) = Some (case q of None \<Rightarrow> d | Some q \<Rightarrow> vt_commit_deadline q)"
| "entry_deadline (WaitingForRequest a r d) = Some d"
| "entry_deadline (CollectingCommits a r sl cd rd c self) = Some cd"
| "entry_deadline (CollectingVotes a sl rd c rv ac dc self) = Some rd"
| "entry_deadline (WaitingForOutcome a sl) = None"
| "entry_deadline (WaitingForDisputeResolution a sl d) = Some d"

lemma advance_deadline:
  "fst (advance_entry T b i e) = Some e' \<Longrightarrow> entry_deadline e' = Some d \<Longrightarrow> d < b \<Longrightarrow>
   \<exists>a r sl cd c. e = CollectingCommits a r sl cd d c True \<and> cd < b \<and> e' = CollectingVotes a sl d c 0 0 0 False"
  by (cases e) (auto split: if_splits)

text \<open>
  C30: a new block leaves nothing overdue.  After the block, a tracked request is within the deadline of its
  phase; the one exception is a request whose commitments have only now closed and whose reveal window is
  over as well, which has just sent its reveal.  And a request whose deadline passed is gone or has moved on.
\<close>

theorem no_request_is_overdue:
  "fmlookup (fst (sentinel_transition T s (NewBlock b))) i = Some e' \<Longrightarrow> entry_deadline e' = Some d \<Longrightarrow>
   b \<le> d \<or> (\<exists>a r sl cd c. fmlookup s i = Some (CollectingCommits a r sl cd d c True) \<and> cd < b \<and>
     act (Reveal i a (reveal_salt (sen_derive_key T) i) r) (Some d) \<in> set (snd (sentinel_transition T s (NewBlock b))))"
proof -
  assume e': "fmlookup (fst (sentinel_transition T s (NewBlock b))) i = Some e'" "entry_deadline e' = Some d"
  show ?thesis
  proof (cases "b \<le> d")
    case False
    from e'(1) obtain e where e: "fmlookup s i = Some e" "fst (advance_entry T b i e) = Some e'"
      by (auto simp: block_advance_entry bind_eq_Some_conv)
    have "d < b" using False by simp
    from advance_deadline [OF e(2) e'(2) this] obtain a r sl cd c
      where c: "e = CollectingCommits a r sl cd d c True" "cd < b" by auto
    then have "act (Reveal i a (reveal_salt (sen_derive_key T) i) r) (Some d) \<in>
        set (filter (about i) (snd (handle_block_advance T s b)))"
      using e(1) by (simp add: block_advance_entry)
    then show ?thesis using e(1) c by auto
  qed simp
qed

theorem no_request_is_overdue_witness:
  "fmlookup (fst (sentinel_transition sample_sentinel (sentinel_run sample_sentinel sample_second) (NewBlock 13))) 33 =
     Some (CollectingVotes False 20 16 1 0 0 0 False) \<and> (13 :: u64) \<le> 16"
proof -
  have e: "fmlookup (fst (sentinel_transition sample_sentinel (sentinel_run sample_sentinel sample_second) (NewBlock 13))) 33 =
      Some (CollectingVotes False 20 16 1 0 0 0 False)"
    by (simp add: sample_second_def watched_simps Let_def del: display_rule.simps)
  have s: "fmlookup (sentinel_run sample_sentinel sample_second) 33 =
      Some (CollectingCommits False (display_rule (RuleId 2 1)) 20 12 16 1 True)"
    by (simp add: sample_second_def watched_simps Let_def del: display_rule.simps)
  from no_request_is_overdue [OF e] e s show ?thesis by auto
qed

section \<open>Well-formed entries\<close>

text \<open>An approval cites nothing, a denial cites one rule, and every revealed vote is tallied once.\<close>

definition citation_wf :: "bool \<Rightarrow> string \<Rightarrow> bool" where
  "citation_wf approve reason \<longleftrightarrow> (if approve then reason = [] else parse_rule reason \<noteq> None)"

fun request_wf :: "request_state \<Rightarrow> bool" where
  "request_wf (WaitingForRequest a r d) \<longleftrightarrow> citation_wf a r"
| "request_wf (CollectingCommits a r sl cd rd c self) \<longleftrightarrow> citation_wf a r"
| "request_wf (CollectingVotes a sl rd c rv ac dc self) \<longleftrightarrow> rv = ac + dc"
| "request_wf _ \<longleftrightarrow> True"

lemma vote_of_wf: "vote_of v = Some (a, r) \<Longrightarrow> citation_wf a r"
  by (cases v) (auto simp: citation_wf_def rule_roundtrip simp del: display_rule.simps)

lemma step_wf: "request_step T i msg e cs e' \<Longrightarrow> pred_option request_wf e \<Longrightarrow> pred_option request_wf e'"
  by (erule request_step.cases) (auto intro: vote_of_wf simp: algebra_simps)

lemma command_wf: "request_step T i msg e cs e' \<Longrightarrow> pred_option request_wf e \<Longrightarrow>
    act (Reveal j a salt r) d \<in> set cs \<Longrightarrow> citation_wf a r"
  by (erule request_step.cases) auto

interpretation entries: closed_system "\<lambda>s msg. fst (sentinel_transition T s msg)"
    "\<lambda>s. \<forall>i. pred_option request_wf (fmlookup s i)" fmempty for T
  by unfold_locales (simp, blast intro: step_wf [OF transition_refines])

text \<open>
  C19: the state of the sentinel is well formed in every state its machine holds or has stored, through
  reorgs, restarts and failures: a vote carries no reason exactly when it approves and otherwise cites a
  rule that parses, and the reveals counted are the approvals plus the denials.
\<close>

theorem sentinel_states_are_well_formed:
  assumes "machine_state (machine_run (sentinel_transition T) fmempty ops) s" "fmlookup s i = Some e"
  shows "request_wf e"
proof -
  obtain h where "s = exec (sentinel_transition T) fmempty h" using machine_state_history [OF assms(1)] by blast
  then show ?thesis using entries.run_inv [of T h] assms(2) unfolding exec_def by (metis option.pred_inject(2))
qed

definition sentinel_ops :: "(sentinel_event, sentinel_resume) machine_op list" where
  "sentinel_ops =
     [HandleUpdate (BlockUpdate (New 10 0 0 0)) True,
      HandleUpdate (Logs \<lparr>eu_first = 10, eu_last = 10, eu_logs = [sample_log 10 0 sample_proposal]\<rparr>) True,
      HandleResume (EngineCheckResult 33 (Denied (RuleId 2 1)))]"

theorem sentinel_states_are_well_formed_witness:
  "machine_state (machine_run (sentinel_transition sample_sentinel) fmempty sentinel_ops)
     (fmupd 33 (WaitingForRequest False (display_rule (RuleId 2 1)) 30) fmempty) \<and>
   citation_wf False (display_rule (RuleId 2 1))"
proof -
  let ?s = "fmupd 33 (WaitingForRequest False (display_rule (RuleId 2 1)) 30) fmempty :: sentinel_state"
  have "inner (machine_run (sentinel_transition sample_sentinel) fmempty sentinel_ops) = Some (?s, BlockApplied 11)"
    by (simp add: sentinel_ops_def machine_simps handle_resume_def watched_simps fmupd_drop fmupd_twice del: display_rule.simps)
  then have m: "machine_state (machine_run (sentinel_transition sample_sentinel) fmempty sentinel_ops) ?s"
    by (auto simp: machine_state_def)
  from sentinel_states_are_well_formed [OF m, of 33] m show ?thesis by simp
qed

section \<open>Request ids\<close>

text \<open>
  What EIP-712 prescribes for a proposal: the hash of the prefix, the domain separator and the struct hash,
  where the oracle data enters by its hash.
\<close>

definition eip712_proposal_hash :: "lib \<Rightarrow> (eip712_domain \<Rightarrow> transaction_proposal \<Rightarrow> b256) \<Rightarrow> bool" where
  "eip712_proposal_hash L signing_hash \<longleftrightarrow>
     (\<forall>D epoch oracle oracle_data tx_hash. signing_hash D (TransactionProposal epoch oracle oracle_data tx_hash) =
        keccak256 L ([0x19, 0x01] @ be_bytes 32 (domain_separator L D) @
          be_bytes 32 (keccak256 L (be_bytes 32 (keccak256 L (proposal_encode_type L)) @ be_bytes 32 (ucast epoch :: u256) @
            be_bytes 32 (ucast oracle :: b256) @ be_bytes 32 (keccak256 L oracle_data) @ be_bytes 32 tx_hash))))"

text \<open>
  The sentinel and the validators speak of the same request.  The id under which the sentinel tracks a
  proposal, which it lets alloy derive from the declaration of the struct, is the message that the
  validators compute by hand for the same proposal and wait for the oracle to answer.
\<close>

lemma request_id_is_packet_hash:
  assumes "eip712_proposal_hash L signing_hash"
  shows "oracle_tx_proposal_hash signing_hash (ucast chain) consensus (raw_value epoch) oracle oracle_data (safe_tx_hash L tx) =
    transaction_packet_hash L (consensus_domain chain consensus) epoch oracle oracle_data tx"
  using assms
  by (simp add: eip712_proposal_hash_def oracle_tx_proposal_hash_def transaction_packet_hash_def transaction_proposal_hash_def
      signing_message_def proposal_struct_data_def consensus_domain_def Let_def)

definition reference_proposal_hash :: "lib \<Rightarrow> eip712_domain \<Rightarrow> transaction_proposal \<Rightarrow> b256" where
  "reference_proposal_hash L D p = (case p of TransactionProposal epoch oracle oracle_data tx_hash \<Rightarrow>
     keccak256 L ([0x19, 0x01] @ be_bytes 32 (domain_separator L D) @
       be_bytes 32 (keccak256 L (be_bytes 32 (keccak256 L (proposal_encode_type L)) @ be_bytes 32 (ucast epoch :: u256) @
         be_bytes 32 (ucast oracle :: b256) @ be_bytes 32 (keccak256 L oracle_data) @ be_bytes 32 tx_hash))))"

end
