(* ===== verification/Sentinel_Engine.thy ===== *)
theory Sentinel_Engine
  imports Security_Api Detection Sentinel_Safety
begin

text \<open>
  The sentinel and its engine together: the rule citations they exchange, and which response is an approval.
\<close>

section \<open>Citations\<close>

fun charter_rule_id :: "charter_rule \<Rightarrow> rule_id" where
  "charter_rule_id R4_1SettingsChange = RuleId 4 1"
| "charter_rule_id R4_2DelegatecallIntegrity = RuleId 4 2"
| "charter_rule_id R4_6KnownMaliciousTarget = RuleId 4 6"
| "charter_rule_id R4_5ExcessiveApproval = RuleId 4 5"
| "charter_rule_id R4_3ValueTarget = RuleId 4 3"
| "charter_rule_id R4_4AuthorizationTarget = RuleId 4 4"

lemma display_charter_rule: "display_rule (charter_rule_id r) = rule_code r"
  by (cases r) (simp_all add: decimal.simps digit_char_def, (code_simp)+)

lemma parse_charter_rule: "parse_rule (rule_code r) = Some (charter_rule_id r)"
  by (metis display_charter_rule rule_roundtrip)

text \<open>
  C37: a citation survives the way from the engine to the chain and back.  For every rule of the engine, the
  code it sends is parsed by the sentinel, stored in the verdict store, read back from it, and printed as the
  reason of the vote as the very same code, which the engine maps to the same rule.
\<close>

theorem citations_survive:
  "\<exists>v reason. response_outcome (read_verdict (Insecure rule)) = v \<and> decode_verdict (verdict_rule v) = Inr v \<and>
     vote_of v = Some (False, reason) \<and> reason = rule_code rule \<and> rule_from_code reason = Some rule"
proof -
  have "response_outcome (read_verdict (Insecure rule)) = Denied (charter_rule_id rule)"
    by (simp add: parse_charter_rule)
  moreover have "rule_from_code (rule_code rule) = Some rule" by (cases rule) (simp_all add: rule_from_code_def)
  ultimately show ?thesis
    by (simp add: display_charter_rule parse_charter_rule del: display_rule.simps)
qed

lemma outcome_approved: "response_outcome r = Approved \<longleftrightarrow> r = Some SecureResponse"
  by (cases r rule: response_outcome.cases) auto

definition sample_http :: http_lib where
  "sample_http = \<lparr>http_is_text = (\<lambda>_. True), http_parse_digest = parse_uint, http_show_digest = (\<lambda>i. decimal (unat i))\<rparr>"

end
