(* ===== verification/Sentinel_Service.thy ===== *)
theory Sentinel_Service
  imports Sentinel_Engine Effects
begin

text \<open>
  The running sentinel: its state machine, the tasks that check proposals, and the verdict store they share
  (\<^verbatim>\<open>crates/sentinel/src/effect.rs\<close> under \<^verbatim>\<open>crates/core/src/effects.rs\<close>).  Updates, steps of checks,
  panics, resumes, housekeeping and reboots interleave in any order, and every call of the database and of the
  engine may fail.  Over all of it, a reveal opens the commitment that was sent, and an approval is backed by
  an engine.
\<close>

section \<open>The effect handler with its waits\<close>

text \<open>
  A check waits for the store, then for the engine, and then for the store again.  A step takes whether the
  database works and, for the engine, the reply: none, or that of an engine through an HTTP crate under a
  timeout.
\<close>

datatype check_phase = LookingUp | AskingEngine

type_synonym check_input = "bool \<times> (http_lib \<times> engine \<times> nat) option"

definition engine_reply :: "(http_lib \<times> engine \<times> nat) option \<Rightarrow> b256 \<Rightarrow> safe_transaction \<Rightarrow> u64 \<Rightarrow> engine_response option" where
  "engine_reply a i tx ts = (case a of None \<Rightarrow> None | Some (L, E, timeout) \<Rightarrow> ask_engine L E i tx ts timeout)"

fun sentinel_work :: "check_input \<Rightarrow> verdict_store \<Rightarrow> sentinel_effect \<Rightarrow> check_phase \<Rightarrow>
    verdict_store \<times> (check_phase + sentinel_resume)" where
  "sentinel_work (db, a) rows (EngineCheck i tx ts block) LookingUp =
     (case check_lookup db rows i block of
        (rows, Some outcome) \<Rightarrow> (rows, Inr (EngineCheckResult i outcome))
      | (rows, None) \<Rightarrow> (rows, Inl AskingEngine))"
| "sentinel_work (db, a) rows (EngineCheck i tx ts block) AskingEngine =
     (case check_record db rows i block (engine_reply a i tx ts) of
        (rows, outcome) \<Rightarrow> (rows, Inr (EngineCheckResult i outcome)))"

definition sentinel_handler :: "(verdict_store, check_input, sentinel_effect, check_phase, sentinel_resume) effect_handler" where
  "sentinel_handler = \<lparr>eh_begin = (\<lambda>_. LookingUp), eh_work = sentinel_work,
     eh_housekeeping = (\<lambda>x rows st. sentinel_housekeeping (fst x) rows st)\<rparr>"

type_synonym sentinel_system =
  "(sentinel_state, verdict_store, sentinel_event, sentinel_effect, check_phase, sentinel_resume, sentinel_action) system"

type_synonym sentinel_op = "(sentinel_event, check_input) system_op"

abbreviation sentinel_system_step :: "sentinel \<Rightarrow> sentinel_system \<Rightarrow> sentinel_op \<Rightarrow> sentinel_system" where
  "sentinel_system_step T \<equiv> system_step (sentinel_transition T) fmempty sentinel_handler"

abbreviation sentinel_start :: sentinel_system where
  "sentinel_start \<equiv> new_system fmempty fmempty"

abbreviation sentinel_service :: "sentinel \<Rightarrow> sentinel_op list \<Rightarrow> sentinel_system" where
  "sentinel_service T \<equiv> system_run (sentinel_transition T) fmempty sentinel_handler fmempty"

text \<open>A check that is not interrupted is what the handler performs in one go.\<close>

lemma uninterrupted_check:
  "perform_sentinel_effect (engine_reply a i) db1 db2 rows (EngineCheck i tx ts b) =
     (case sentinel_work (db1, a') rows (EngineCheck i tx ts b) LookingUp of
        (rows, Inr r) \<Rightarrow> (rows, r)
      | (rows, Inl p) \<Rightarrow> (case sentinel_work (db2, a) rows (EngineCheck i tx ts b) p of
            (rows, Inr r) \<Rightarrow> (rows, r) | (rows, Inl p) \<Rightarrow> (rows, EngineCheckResult i Unknown)))"
  by (auto simp: engine_check_def split: prod.splits option.splits)

text \<open>Every step of a check is a step on the store, which answers the check when it ends it.\<close>

lemma sentinel_work_steps:
  assumes "sentinel_work x rows (EngineCheck i tx ts b) p = (rows', res)"
  obtains step where "rows' = verdict_step rows step" "\<And>j. spares j rows step"
    "\<And>r. res = Inr r \<Longrightarrow> \<exists>v. r = EngineCheckResult i v \<and> verdict_answer rows step = Some (i, v)"
    "\<And>j b r db. step = RecordStep j b r db \<Longrightarrow> j = i \<and> r = engine_reply (snd x) i tx ts"
proof (cases p)
  case LookingUp
  then show thesis using assms that [of "LookupStep i b (fst x)"] checks_spare
    by (cases x) (auto split: prod.splits option.splits)
next
  case AskingEngine
  then show thesis using assms that [of "RecordStep i b (engine_reply (snd x) i tx ts) (fst x)"] checks_spare
    by (cases x) (auto split: prod.splits)
qed

lemma handler_simps [simp]: "eh_work sentinel_handler = sentinel_work" "eh_begin sentinel_handler f = LookingUp"
  "eh_housekeeping sentinel_handler x rows st = verdict_step rows (PruneStep st (fst x))"
  by (simp_all add: sentinel_handler_def)

section \<open>Verdicts agree\<close>

text \<open>A run in which housekeeping does not prune the row of a request.\<close>

fun keeps_row :: "b256 \<Rightarrow> sentinel_system \<Rightarrow> sentinel_op \<Rightarrow> bool" where
  "keeps_row i sy (SysKeep st x) \<longleftrightarrow> spares i (sy_world sy) (PruneStep st (fst x))"
| "keeps_row i sy _ \<longleftrightarrow> True"

definition verdicts_agree :: "b256 \<Rightarrow> sentinel_system \<Rightarrow> bool" where
  "verdicts_agree i sy \<longleftrightarrow> rows_readable (sy_world sy) \<and>
     (\<forall>v. EngineCheckResult i v \<in># results sy \<longrightarrow> v = Unknown \<or> recorded (sy_world sy) i = Some v)"

interpretation agreement: guarded_system "sentinel_system_step T" "keeps_row i" "verdicts_agree i" sentinel_start for T i
proof
  show "verdicts_agree i sentinel_start"
    by (simp add: verdicts_agree_def new_system_def results_def rows_readable_def)
next
  fix sy :: sentinel_system and op
  assume a: "verdicts_agree i sy" "keeps_row i sy op"
  let ?sy = "sentinel_system_step T sy op"
  have rd: "rows_readable (sy_world sy)" using a(1) by (simp add: verdicts_agree_def)
  show "verdicts_agree i ?sy"
  proof (cases rule: system_step_world [of "sentinel_transition T" fmempty sentinel_handler sy op])
    case quiet
    then show ?thesis using a(1) by (auto simp: verdicts_agree_def dest: mset_subset_eqD)
  next
    case (worked k x f p w res)
    obtain j tx ts b where f: "f = EngineCheck j tx ts b" by (cases f)
    from worked(4) obtain step where s: "w = verdict_step (sy_world sy) step" "spares i (sy_world sy) step"
      "\<And>r. res = Inr r \<Longrightarrow> \<exists>v. r = EngineCheckResult j v \<and> verdict_answer (sy_world sy) step = Some (j, v)"
      unfolding f by (auto elim: sentinel_work_steps)
    have res: "r \<in># results ?sy \<Longrightarrow> r \<in># results sy \<or> res = Inr r" for r using worked(6) by (auto split: sum.splits)
    have "recorded w i = Some v" if "EngineCheckResult i v \<in># results ?sy" "v \<noteq> Unknown" for v
      using res [OF that(1)] that(2) s a(1) verdict_answer_recorded [OF rd] verdict_step_keeps [OF rd]
      by (fastforce simp: verdicts_agree_def)
    then show ?thesis using worked(5) s(1) verdict_step_readable [OF rd] by (auto simp: verdicts_agree_def)
  next
    case (kept st x)
    then show ?thesis using a verdict_step_keeps [OF rd] verdict_step_readable [OF rd]
      by (fastforce simp: verdicts_agree_def simp del: verdict_step.simps)
  qed
qed

text \<open>What is sent for a request votes as one of the verdicts that were given on it.\<close>

definition given :: "b256 \<Rightarrow> sentinel_system \<Rightarrow> check_outcome set" where
  "given i sy = {v. EngineCheckResult i v \<in># results sy}"

lemma heard_verdicts: "heard h \<subseteq> set (sy_heard sy) \<Longrightarrow> list_all (verdict_among i (given i sy)) h"
proof -
  assume h: "heard h \<subseteq> set (sy_heard sy)"
  have "verdict_among i (given i sy) msg" if "msg \<in> set h" for msg
    using that h by (cases "(i, given i sy, msg)" rule: verdict_among.cases) (auto simp: heard_def given_def intro!: heard_results)
  then show ?thesis by (simp add: list_all_iff)
qed

lemma service_votes:
  assumes "c \<in> set (sy_sent (sentinel_service T ops))" "about i c"
  shows "command_votes T (given i (sentinel_service T ops)) c"
proof -
  from sent_by_history [OF assms(1)] obtain h msg where h: "c \<in> set (sentinel_commands T h msg)"
    "heard (h @ [msg]) \<subseteq> set (sy_heard (sentinel_service T ops))"
    unfolding history_command_def sentinel_commands_def sentinel_run_def by blast
  from sentinel_commands_vote [OF heard_verdicts [OF h(2)] h(1) assms(2)] show ?thesis .
qed

text \<open>
  C6: a sentinel can always open the commitment it made.  Take any run of the sentinel, through reorgs, failed
  calls, panicked checks and reboots, in which housekeeping leaves the stored verdict on a request alone.  Then a
  commitment that is sent for the request at any time is the hash of exactly the vote, salt and reason of a
  reveal that is sent for it at any time.
\<close>

theorem reveals_open_commitments:
  assumes "run_ok (sentinel_system_step T) (keeps_row i) sentinel_start ops"
    and "act (Commit i hash) e \<in> set (sy_sent (sentinel_service T ops))"
    and "act (Reveal i approve salt reason) e' \<in> set (sy_sent (sentinel_service T ops))"
  shows "hash = commit_hash (sen_keccak T) (sen_address T) i approve salt reason"
proof -
  have "verdicts_agree i (sentinel_service T ops)" unfolding system_run_def by (rule agreement.always [OF assms(1)])
  then have V: "given i (sentinel_service T ops) \<subseteq> {the (recorded (sy_world (sentinel_service T ops)) i), Unknown}"
    by (auto simp: verdicts_agree_def given_def)
  then have one: "Some vote \<in> vote_of ` given i (sentinel_service T ops) \<Longrightarrow>
      vote_of (the (recorded (sy_world (sentinel_service T ops)) i)) = Some vote" for vote
    by force
  from service_votes [OF assms(2), of i] obtain a r
    where "vote_of (the (recorded (sy_world (sentinel_service T ops)) i)) = Some (a, r)"
      "hash = commit_hash (sen_keccak T) (sen_address T) i a (reveal_salt (sen_derive_key T) i) r"
    using one by fastforce
  then show ?thesis using service_votes [OF assms(3), of i] one [of "(approve, reason)"] by simp
qed

section \<open>Approvals are backed\<close>

fun asks :: "(engine \<Rightarrow> bool) \<Rightarrow> sentinel_op \<Rightarrow> bool" where
  "asks engines (SysWork k (db, Some (L, E, timeout))) \<longleftrightarrow> engines E"
| "asks engines _ \<longleftrightarrow> True"

definition backed :: "(engine \<Rightarrow> bool) \<Rightarrow> sentinel_system \<Rightarrow> b256 \<Rightarrow> bool" where
  "backed engines sy i \<longleftrightarrow> (\<exists>E tx ts b. engines E \<and> Effect (EngineCheck i tx ts b) \<in> set (sy_sent sy) \<and>
     api_security_check E LatestBlock (Some ts) tx = Secure)"

definition approvals_backed :: "sentinel \<Rightarrow> (engine \<Rightarrow> bool) \<Rightarrow> sentinel_system \<Rightarrow> bool" where
  "approvals_backed T engines sy \<longleftrightarrow> system_ok (sentinel_transition T) fmempty sy \<and> rows_readable (sy_world sy) \<and>
     (\<forall>i. recorded (sy_world sy) i = Some Approved \<or> EngineCheckResult i Approved \<in># results sy \<longrightarrow> backed engines sy i)"

lemma backed_step: "backed engines sy i \<Longrightarrow> backed engines (sentinel_system_step T sy op) i"
  using sent_grows [of sy] unfolding backed_def by blast

lemma reply_backed:
  assumes "asks engines (SysWork k x)" "engine_reply (snd x) i tx ts = Some SecureResponse"
  shows "\<exists>E. engines E \<and> api_security_check E LatestBlock (Some ts) tx = Secure"
  using assms asked_secure by (cases x) (auto simp: engine_reply_def split: option.splits)

interpretation approvals: guarded_system "sentinel_system_step T" "\<lambda>_. asks engines" "approvals_backed T engines" sentinel_start
  for T engines
proof
  show "approvals_backed T engines sentinel_start"
    using systems.starts [of "sentinel_transition T" fmempty fmempty]
    by (simp add: approvals_backed_def) (simp add: new_system_def results_def rows_readable_def recorded_def)
next
  fix sy :: sentinel_system and op
  assume a: "approvals_backed T engines sy" "asks engines op"
  let ?sy = "sentinel_system_step T sy op"
  have ok: "system_ok (sentinel_transition T) fmempty sy" and rd: "rows_readable (sy_world sy)"
    and backed: "\<And>i. recorded (sy_world sy) i = Some Approved \<or> EngineCheckResult i Approved \<in># results sy \<Longrightarrow> backed engines ?sy i"
    using a(1) backed_step by (auto simp: approvals_backed_def)
  have "rows_readable (sy_world ?sy) \<and> (recorded (sy_world ?sy) i = Some Approved \<or>
      EngineCheckResult i Approved \<in># results ?sy \<longrightarrow> backed engines ?sy i)" for i
  proof (cases rule: system_step_world [of "sentinel_transition T" fmempty sentinel_handler sy op])
    case quiet
    then show ?thesis using rd backed by (auto dest: mset_subset_eqD)
  next
    case (worked k x f p w res)
    obtain j tx ts b where f: "f = EngineCheck j tx ts b" by (cases f)
    from worked(4) obtain step where s: "w = verdict_step (sy_world sy) step"
      "\<And>r. res = Inr r \<Longrightarrow> \<exists>v. r = EngineCheckResult j v \<and> verdict_answer (sy_world sy) step = Some (j, v)"
      "\<And>i b r db. step = RecordStep i b r db \<Longrightarrow> i = j \<and> r = engine_reply (snd x) j tx ts"
      unfolding f by (auto elim: sentinel_work_steps)
    have res: "r \<in># results ?sy \<Longrightarrow> r \<in># results sy \<or> res = Inr r" for r using worked(6) by (auto split: sum.splits)
    have "Effect f \<in> set (sy_sent sy)" using ok nth_mem [OF worked(2)] worked(3) by (force simp: system_ok_def)
    then have sent: "Effect (EngineCheck j tx ts b) \<in> set (sy_sent ?sy)" 
      unfolding f by (rule subsetD [OF sent_grows])
    have rec: "backed engines ?sy i" if "recorded w i = Some Approved" for i
    proof -
      from recorded_step [OF rd that [unfolded s(1)]] consider "recorded (sy_world sy) i = Some Approved"
        | "i = j" "engine_reply (snd x) j tx ts = Some SecureResponse" using s(3) by (metis outcome_approved)
      then show ?thesis
        using backed sent reply_backed [of engines k x j tx ts] a(2) worked(1) by cases (auto simp: backed_def)
    qed
    then have "EngineCheckResult i Approved \<in># results ?sy \<Longrightarrow> backed engines ?sy i"
      using res s(1,2) backed verdict_answer_recorded [OF rd, of step i Approved] by auto
    then show ?thesis using worked(5) s(1) rec verdict_step_readable [OF rd] by auto
  next
    case (kept st x)
    then show ?thesis using backed verdict_step_readable [OF rd, of "PruneStep st (fst x)"]
        recorded_step [OF rd, of "PruneStep st (fst x)" i Approved]
      by (auto simp del: verdict_step.simps)
  qed
  then show "approvals_backed T engines ?sy"
    using systems.keeps [OF ok] by (simp add: approvals_backed_def)
qed

text \<open>
  C5: a sentinel votes for a transaction only if its engine found it secure.  In any run of the sentinel, through
  reorgs, failed calls, panicked checks, prunings and reboots: if it reveals an approving vote for a request,
  then it was told of a proposal to its oracle on the chain that hashes to the request, and an engine that it
  asked answered \<open>Secure\<close> for the transaction of this proposal at the time of its block.
\<close>

theorem approving_votes_are_backed:
  assumes "list_all (asks engines) ops" "act (Reveal i True salt reason) e \<in> set (sy_sent (sentinel_service T ops))"
  shows "\<exists>E log tx_hash safe_id epoch oracle_data tx. engines E \<and> Event log \<in> set (sy_heard (sentinel_service T ops)) \<and>
    log_data log = ProposalEvent tx_hash safe_id (sen_oracle T) epoch oracle_data tx \<and>
    i = oracle_tx_proposal_hash (sen_signing_hash T) (sen_chain_id T) (sen_consensus T) epoch (sen_oracle T) oracle_data tx_hash \<and>
    api_security_check E LatestBlock (Some (log_timestamp log)) tx = Secure"
proof -
  let ?sy = "sentinel_service T ops"
  have "Some (True, reason) \<in> vote_of ` given i ?sy" using service_votes [OF assms(2)] by simp
  then obtain v where "v \<in> given i ?sy" "vote_of v = Some (True, reason)" by force
  then have "EngineCheckResult i Approved \<in># results ?sy" by (cases v) (auto simp: given_def)
  moreover have "approvals_backed T engines ?sy"
    unfolding system_run_def using assms(1) by (intro approvals.always) (simp add: run_ok_stateless)
  ultimately obtain E tx ts b where E: "engines E" "api_security_check E LatestBlock (Some ts) tx = Secure"
    and sent: "Effect (EngineCheck i tx ts b) \<in> set (sy_sent ?sy)" by (auto simp: approvals_backed_def backed_def)
  from sent_by_history [OF sent] obtain h msg where
    "Effect (EngineCheck i tx ts b) \<in> set (snd (sentinel_transition T (exec (sentinel_transition T) fmempty h) msg))"
    "heard (h @ [msg]) \<subseteq> set (sy_heard ?sy)" unfolding history_command_def by blast
  with check_sent [of i tx ts b T] E show ?thesis by fastforce
qed


section \<open>A sample run\<close>

text \<open>
  A proposal is seen, its check finds nothing in the store and asks the engine, which finds it secure.  A reorg drops
  the proposal before the answer is collected, and brings it back together with the request.  The second check
  finds the verdict in the store, the vote is committed, and it is revealed
  after housekeeping and a reboot.
\<close>

definition sample_logs :: "u64 \<Rightarrow> sentinel_event event_log list \<Rightarrow> sentinel_event update" where
  "sample_logs b logs = Logs \<lparr>eu_first = b, eu_last = b, eu_logs = logs\<rparr>"

definition payment_proposal :: sentinel_event where
  "payment_proposal = ProposalEvent 33 0 7 2 [] sample_payment"

definition update_op :: "sentinel_event update \<Rightarrow> sentinel_op" where
  "update_op u = SysUpdate u True 0 True"

definition voting_run :: "(http_lib \<times> engine \<times> nat) option \<Rightarrow> sentinel_op list" where
  "voting_run a =
     [update_op (BlockUpdate (New 9 0 0 0)), update_op (sample_logs 9 []),
      update_op (BlockUpdate (New 10 0 0 0)), update_op (sample_logs 10 [sample_log 10 0 payment_proposal]),
      SysWork 0 (True, None), SysWork 0 (True, a),
      update_op (BlockUpdate (Uncle 10)), SysResume [0],
      update_op (BlockUpdate (New 10 1 0 0)),
      update_op (sample_logs 10 [sample_log 10 0 payment_proposal, sample_log 10 1 watched_request]),
      SysWork 0 (True, None), SysResume [0],
      update_op (BlockUpdate (New 11 0 0 0)),
      update_op (sample_logs 11 [sample_log 11 0 (SentinelOracleEvent (Committed 33 1 50))]),
      SysKeep \<lparr>bs_latest = 11, bs_safe = 9\<rparr> (True, None), SysReboot True,
      update_op (BlockUpdate (New 12 0 0 0)), update_op (sample_logs 12 [])]"

lemmas system_simps = system_run_def new_system_def update_op_def sample_logs_def payment_proposal_def send_commands_def
  spawned_effects_def spawn_task_def work_task_def without_def events_of_def handle_resume_def prune_nothing
  with_init_def current_def to_u64_def log_before_def

lemmas voting_simps = voting_run_def system_simps machine_simps watched_simps verdict_defs fmupd_drop fmupd_twice

abbreviation sample_engine_reply :: "(http_lib \<times> engine \<times> nat) option" where
  "sample_engine_reply \<equiv> Some (sample_http, sample_engine, 2000)"

lemma sample_reply: "engine_reply sample_engine_reply 33 sample_payment 0 = Some SecureResponse"
proof -
  have "ask_engine sample_http sample_engine 33 sample_payment 0 2000 =
      read_verdict (api_security_check sample_engine LatestBlock (Some 0) sample_payment)"
    by (rule asked_engine) (simp_all add: sample_http_def parse_uint_decimal)
  then show ?thesis
    using sample_secure by (simp add: engine_reply_def api_security_check_def sample_check_context_def)
qed

lemma voting_sent:
  "act (Commit 33 (commit_hash (sen_keccak sample_sentinel) 1 33 True (reveal_salt (sen_derive_key sample_sentinel) 33) [])) (Some 12) \<in>
     set (sy_sent (sentinel_service sample_sentinel (voting_run sample_engine_reply)))"
  "act (Reveal 33 True (reveal_salt (sen_derive_key sample_sentinel) 33) []) (Some 16) \<in>
     set (sy_sent (sentinel_service sample_sentinel (voting_run sample_engine_reply)))"
  by (simp_all add: voting_simps sample_reply)

lemma voting_keeps:
  "run_ok (sentinel_system_step sample_sentinel) (keeps_row 33) sentinel_start (voting_run sample_engine_reply)"
  by (simp add: voting_simps sample_reply spares_def)

theorem reveals_open_commitments_witness:
  "\<exists>hash e salt e'. act (Commit 33 hash) e \<in> set (sy_sent (sentinel_service sample_sentinel (voting_run sample_engine_reply))) \<and>
     act (Reveal 33 True salt []) e' \<in> set (sy_sent (sentinel_service sample_sentinel (voting_run sample_engine_reply))) \<and>
     hash = commit_hash (sen_keccak sample_sentinel) (sen_address sample_sentinel) 33 True salt []"
  using reveals_open_commitments [OF voting_keeps voting_sent] voting_sent by blast

theorem approving_votes_are_backed_witness:
  "\<exists>salt e log tx. act (Reveal 33 True salt []) e \<in> set (sy_sent (sentinel_service sample_sentinel (voting_run sample_engine_reply))) \<and>
     Event log \<in> set (sy_heard (sentinel_service sample_sentinel (voting_run sample_engine_reply))) \<and>
     api_security_check sample_engine LatestBlock (Some (log_timestamp log)) tx = Secure"
proof -
  have "list_all (asks (\<lambda>E. E = sample_engine)) (voting_run sample_engine_reply)"
    by (simp add: voting_run_def update_op_def)
  from approving_votes_are_backed [OF this voting_sent(2)] voting_sent(2) show ?thesis by blast
qed

end
