(* ===== verification/Substitution.thy ===== *)
theory Substitution
  imports Strings
begin

text \<open>
  Environment variables in configuration values (\<^verbatim>\<open>crates/core/src/serialization.rs\<close>, \<open>from_str_with_env\<close>):
  \<open>${NAME}\<close> stands for a variable and \<open>$$\<close> for a dollar sign.  The result is built in a buffer that is wiped
  when it is dropped, so it must never be reallocated.  The environment is a parameter, and so is the capacity
  that the allocator gives for a requested one.
\<close>

section \<open>Model\<close>

datatype var_error = NotPresent | NotUnicode string

datatype substitution_error =
    UnterminatedReference
  | InvalidVariableName string
  | VariableNotSet string
  | VariableNotUnicode string
  | UnexpectedDollar

text \<open>
  A buffer with its capacity; \<open>leaked\<close> lists the contents of allocations that were freed without being
  wiped.  Appending within the capacity writes in place, and appending beyond it moves the contents and
  frees the old allocation as it is.
\<close>

record zeroizing_buffer =
  zb_text :: string
  zb_capacity :: nat
  zb_leaked :: "string list"

definition with_capacity :: "(nat \<Rightarrow> nat) \<Rightarrow> nat \<Rightarrow> zeroizing_buffer" where
  "with_capacity alloc n = \<lparr>zb_text = [], zb_capacity = alloc n, zb_leaked = []\<rparr>"

definition push_str :: "(nat \<Rightarrow> nat) \<Rightarrow> zeroizing_buffer \<Rightarrow> string \<Rightarrow> zeroizing_buffer" where
  "push_str alloc b s =
     (if length (zb_text b) + length s \<le> zb_capacity b then b\<lparr>zb_text := zb_text b @ s\<rparr>
      else \<lparr>zb_text = zb_text b @ s, zb_capacity = alloc (length (zb_text b) + length s),
            zb_leaked = zb_text b # zb_leaked b\<rparr>)"

definition push_wiped :: "(nat \<Rightarrow> nat) \<Rightarrow> zeroizing_buffer \<Rightarrow> string \<Rightarrow> zeroizing_buffer" where
  "push_wiped alloc b s =
     (let b = (if zb_capacity b - length (zb_text b) < length s
               then let capacity = max (length (zb_text b) + length s) (zb_capacity b * 2);
                        grown = push_str alloc (with_capacity alloc capacity) (zb_text b)
                    in grown\<lparr>zb_leaked := zb_leaked grown @ zb_leaked b\<rparr>
               else b)
      in push_str alloc b s)"

definition ascii_alphabetic :: "char \<Rightarrow> bool" where
  "ascii_alphabetic c = (let n = of_char c :: nat in 65 \<le> n \<and> n \<le> 90 \<or> 97 \<le> n \<and> n \<le> 122)"

definition ascii_alphanumeric :: "char \<Rightarrow> bool" where
  "ascii_alphanumeric c \<longleftrightarrow> ascii_alphabetic c \<or> digit_value c \<noteq> None"

fun is_valid_name :: "string \<Rightarrow> bool" where
  "is_valid_name [] = False"
| "is_valid_name (c # cs) \<longleftrightarrow>
     (ascii_alphabetic c \<or> c = CHR ''_'') \<and> list_all (\<lambda>c. ascii_alphanumeric c \<or> c = CHR ''_'') cs"

text \<open>
  The body of the loop after a dollar sign: what to append and what remains, or the error.
\<close>

definition substitute_one :: "(string \<Rightarrow> var_error + string) \<Rightarrow> string \<Rightarrow> substitution_error + string \<times> string" where
  "substitute_one var rest =
     (case strip_prefix ''$'' rest of
        Some tail \<Rightarrow> Inr (''$'', tail)
      | None \<Rightarrow>
          (case strip_prefix ''{'' rest of
             Some tail \<Rightarrow>
               (case split_once CHR ''}'' tail of
                  None \<Rightarrow> Inl UnterminatedReference
                | Some (name, tail) \<Rightarrow>
                    if \<not> is_valid_name name then Inl (InvalidVariableName name)
                    else (case var name of
                            Inl NotPresent \<Rightarrow> Inl (VariableNotSet name)
                          | Inl (NotUnicode _) \<Rightarrow> Inl (VariableNotUnicode name)
                          | Inr value \<Rightarrow> Inr (value, tail)))
           | None \<Rightarrow> Inl UnexpectedDollar))"

lemma strip_prefix_char: "strip_prefix [c] s = (case s of [] \<Rightarrow> None | x # xs \<Rightarrow> if x = c then Some xs else None)"
  by (cases s) (auto simp: strip_prefix_def)

lemma substitute_one_shrinks: "substitute_one var rest = Inr (value, tail) \<Longrightarrow> length tail < length rest"
  by (auto simp: substitute_one_def strip_prefix_char split_once_Some split: option.splits list.splits if_splits
      sum.splits var_error.splits)

function substitute_loop :: "(nat \<Rightarrow> nat) \<Rightarrow> (string \<Rightarrow> var_error + string) \<Rightarrow> string \<Rightarrow> zeroizing_buffer \<Rightarrow>
    substitution_error + zeroizing_buffer" where
  "substitute_loop alloc var rest result =
     (case split_once CHR ''$'' rest of
        None \<Rightarrow> Inr (push_wiped alloc result rest)
      | Some (before, rest) \<Rightarrow>
          (case substitute_one var rest of
             Inl err \<Rightarrow> Inl err
           | Inr (value, tail) \<Rightarrow> substitute_loop alloc var tail (push_wiped alloc (push_wiped alloc result before) value)))"
  by pat_completeness auto

termination
  by (relation "measure (\<lambda>(alloc, var, rest, result). length rest)")
    (auto simp: split_once_Some dest!: substitute_one_shrinks)

declare substitute_loop.simps [simp del]

definition substitute :: "(nat \<Rightarrow> nat) \<Rightarrow> (string \<Rightarrow> var_error + string) \<Rightarrow> string \<Rightarrow> substitution_error + zeroizing_buffer" where
  "substitute alloc var s = substitute_loop alloc var s (with_capacity alloc (length s))"

section \<open>Meaning\<close>

text \<open>A value as a sequence of segments, how they are written and what they stand for.\<close>

datatype segment = Literal string | Dollar | Reference string

fun segment_wf :: "segment \<Rightarrow> bool" where
  "segment_wf (Literal s) \<longleftrightarrow> CHR ''$'' \<notin> set s"
| "segment_wf Dollar \<longleftrightarrow> True"
| "segment_wf (Reference name) \<longleftrightarrow> is_valid_name name"

fun written :: "segment \<Rightarrow> string" where
  "written (Literal s) = s"
| "written Dollar = ''$$''"
| "written (Reference name) = ''${'' @ name @ ''}''"

inductive expands :: "(string \<Rightarrow> var_error + string) \<Rightarrow> segment list \<Rightarrow> string \<Rightarrow> bool" for var where
  expands_Nil: "expands var [] []"
| expands_Literal: "expands var segs r \<Longrightarrow> expands var (Literal s # segs) (s @ r)"
| expands_Dollar: "expands var segs r \<Longrightarrow> expands var (Dollar # segs) (''$'' @ r)"
| expands_Reference: "var name = Inr v \<Longrightarrow> expands var segs r \<Longrightarrow> expands var (Reference name # segs) (v @ r)"

inductive_simps expands_simps: "expands var [] r" "expands var (Literal s # segs) r" "expands var (Dollar # segs) r"
  "expands var (Reference name # segs) r"

text \<open>Growing never leaks, and the text that is pushed is appended.\<close>

definition buffer_ok :: "zeroizing_buffer \<Rightarrow> bool" where
  "buffer_ok b \<longleftrightarrow> length (zb_text b) \<le> zb_capacity b \<and> zb_leaked b = []"

lemma push_wiped:
  assumes "\<And>n. n \<le> alloc n" "buffer_ok b"
  shows "buffer_ok (push_wiped alloc b s) \<and> zb_text (push_wiped alloc b s) = zb_text b @ s"
proof -
  let ?c = "max (length (zb_text b) + length s) (zb_capacity b * 2)"
  have "length (zb_text b) + length s \<le> alloc ?c" using assms(1) [of ?c] by simp
  then show ?thesis using assms(2)
    by (auto simp: push_wiped_def push_str_def with_capacity_def buffer_ok_def Let_def)
qed

lemma valid_name_chars: "is_valid_name name \<Longrightarrow> CHR ''}'' \<notin> set name"
  by (cases name) (auto simp: list_all_iff ascii_alphabetic_def ascii_alphanumeric_def digit_value_def)

lemma substitute_one_sound:
  assumes "substitute_one var rest = Inr (value, tail)"
  shows "\<exists>seg. segment_wf seg \<and> CHR ''$'' # rest = written seg @ tail \<and>
    (\<forall>segs r. expands var segs r \<longrightarrow> expands var (seg # segs) (value @ r))"
proof -
  consider "rest = CHR ''$'' # tail" "value = ''$''"
    | name where "rest = CHR ''{'' # name @ CHR ''}'' # tail" "is_valid_name name" "var name = Inr value"
    using assms by (auto simp: substitute_one_def strip_prefix_char split_once_Some
        split: option.splits list.splits if_splits sum.splits var_error.splits)
  then show ?thesis
  proof cases
    case 1
    then show ?thesis by (intro exI [of _ Dollar]) (auto intro: expands_Dollar [simplified])
  next
    case 2
    then show ?thesis by (intro exI [of _ "Reference name"]) (auto intro: expands_Reference)
  qed
qed

text \<open>The loop without its buffer, of which the loop is a refinement.\<close>

function expanded :: "(string \<Rightarrow> var_error + string) \<Rightarrow> string \<Rightarrow> substitution_error + string" where
  "expanded var s =
     (case split_once CHR ''$'' s of
        None \<Rightarrow> Inr s
      | Some (before, rest) \<Rightarrow>
          (case substitute_one var rest of
             Inl err \<Rightarrow> Inl err
           | Inr (v, tail) \<Rightarrow> map_sum id (\<lambda>r. before @ v @ r) (expanded var tail)))"
  by pat_completeness auto

termination
  by (relation "measure (\<lambda>(var, s). length s)") (auto simp: split_once_Some dest!: substitute_one_shrinks)

declare expanded.simps [simp del]

lemma substitute_loop_refines:
  assumes "\<And>n. n \<le> alloc n" "buffer_ok b"
  shows "map_sum id zb_text (substitute_loop alloc var s b) = map_sum id (\<lambda>r. zb_text b @ r) (expanded var s) \<and>
    pred_sum (\<lambda>_. True) buffer_ok (substitute_loop alloc var s b)"
  using assms
proof (induction alloc var s b rule: substitute_loop.induct)
  case (1 alloc var rest result)
  note push = push_wiped [OF 1(2)]
  show ?case
  proof (cases "split_once CHR ''$'' rest")
    case None
    then show ?thesis using push [OF 1(3)] by (simp add: substitute_loop.simps expanded.simps)
  next
    case (Some p)
    then obtain before rest' where p: "split_once CHR ''$'' rest = Some (before, rest')" by (cases p) auto
    show ?thesis
    proof (cases "substitute_one var rest'")
      case (Inl err)
      then show ?thesis using p by (simp add: substitute_loop.simps [of _ _ rest] expanded.simps [of _ rest])
    next
      case (Inr q)
      then obtain v tail where one: "substitute_one var rest' = Inr (v, tail)" by (cases q) auto
      let ?b = "push_wiped alloc (push_wiped alloc result before) v"
      have ok: "buffer_ok ?b" "zb_text ?b = zb_text result @ before @ v" using push push 1(3) by simp_all
      show ?thesis using 1(1) [OF p refl one refl 1(2) ok(1)] p one ok(2)
        by (cases "expanded var tail")
          (simp_all add: substitute_loop.simps [of _ _ rest] expanded.simps [of _ rest])
    qed
  qed
qed

lemma expanded_sound:
  "expanded var s = Inr r \<Longrightarrow> \<exists>segs. list_all segment_wf segs \<and> s = concat (map written segs) \<and> expands var segs r"
proof (induction var s arbitrary: r rule: expanded.induct)
  case (1 var s)
  show ?case
  proof (cases "split_once CHR ''$'' s")
    case None
    then have "r = s" using 1(2) by (simp add: expanded.simps [of _ s])
    then show ?thesis using None by (intro exI [of _ "[Literal s]"]) (simp add: split_once_None expands_simps)
  next
    case (Some p)
    then obtain before rest where p: "split_once CHR ''$'' s = Some (before, rest)" by (cases p) auto
    then have s: "s = before @ CHR ''$'' # rest" "CHR ''$'' \<notin> set before" by (simp_all add: split_once_Some)
    obtain v tail where one: "substitute_one var rest = Inr (v, tail)"
      using 1(2) p by (auto simp: expanded.simps [of _ s] split: sum.splits)
    obtain r' where r': "expanded var tail = Inr r'" "r = before @ v @ r'"
      using 1(2) p one by (cases "expanded var tail") (simp_all add: expanded.simps [of _ s])
    obtain segs where ih: "list_all segment_wf segs" "tail = concat (map written segs)" "expands var segs r'"
      using 1(1) [OF p refl one refl r'(1)] by blast
    obtain seg where seg: "segment_wf seg" "CHR ''$'' # rest = written seg @ tail" "expands var (seg # segs) (v @ r')"
      using substitute_one_sound [OF one] ih(3) by blast
    then have "expands var (Literal before # seg # segs) r" unfolding r'(2) by (intro expands_Literal)
    then show ?thesis using ih seg s by (intro exI [of _ "Literal before # seg # segs"]) simp
  qed
qed

lemma expanded_literal:
  assumes "CHR ''$'' \<notin> set t"
  shows "expanded var (t @ s) = map_sum id (\<lambda>r. t @ r) (expanded var s)"
proof (cases "split_once CHR ''$'' s")
  case None
  then have "split_once CHR ''$'' (t @ s) = None" using assms by (simp add: split_once_None)
  then show ?thesis using None by (simp add: expanded.simps)
next
  case (Some p)
  then obtain before rest where p: "split_once CHR ''$'' s = Some (before, rest)" by (cases p) auto
  then have "split_once CHR ''$'' (t @ s) = Some (t @ before, rest)" using assms by (simp add: split_once_Some)
  moreover have "map_sum id (\<lambda>r. (t @ before) @ v @ r) x = map_sum id (\<lambda>r. t @ r) (map_sum id (\<lambda>r. before @ v @ r) x)"
    for v and x :: "substitution_error + string" by (cases x) simp_all
  ultimately show ?thesis using p
    by (simp add: expanded.simps [of _ "t @ s"] expanded.simps [of _ s] split: sum.split)
qed

lemma expanded_segment:
  assumes "substitute_one var (rest @ tail) = Inr (v, tail)"
  shows "expanded var (CHR ''$'' # rest @ tail) = map_sum id (\<lambda>r. v @ r) (expanded var tail)"
  using assms by (simp add: expanded.simps [of _ "CHR ''$'' # rest @ tail"])

lemma substitute_reference:
  "is_valid_name name \<Longrightarrow> var name = Inr v \<Longrightarrow> substitute_one var ((CHR ''{'' # name @ ''}'') @ tail) = Inr (v, tail)"
  by (simp add: substitute_one_def strip_prefix_char split_once_append valid_name_chars)

lemma expanded_complete:
  "expands var segs r \<Longrightarrow> list_all segment_wf segs \<Longrightarrow> expanded var (concat (map written segs)) = Inr r"
proof (induction rule: expands.induct)
  case (expands_Reference name v segs r)
  then show ?case
    using expanded_segment [OF substitute_reference [of name var v], of "concat (map written segs)"] by simp
next
  case (expands_Dollar segs r)
  then show ?case using expanded_segment [of var "''$''" "concat (map written segs)" "''$''"]
    by (simp add: substitute_one_def strip_prefix_char)
qed (simp_all add: expanded_literal expanded.simps [of _ "[]"])

text \<open>
  Substitution succeeds exactly on the values that are a sequence of literals, dollar signs and references to
  variables that are set, and yields the text they stand for; the text of a variable is not substituted
  again, and no copy of the text is left behind in memory.
\<close>

lemma substitution_expands:
  assumes "\<And>n. n \<le> alloc n"
  shows "(\<exists>b. substitute alloc var s = Inr b \<and> zb_text b = r \<and> zb_leaked b = []) \<longleftrightarrow>
    (\<exists>segs. list_all segment_wf segs \<and> s = concat (map written segs) \<and> expands var segs r)"
proof -
  have "buffer_ok (with_capacity alloc (length s))" by (simp add: buffer_ok_def with_capacity_def)
  from substitute_loop_refines [OF assms this, of var s]
  have "(\<exists>b. substitute alloc var s = Inr b \<and> zb_text b = r \<and> zb_leaked b = []) \<longleftrightarrow> expanded var s = Inr r"
    by (cases "substitute_loop alloc var s (with_capacity alloc (length s))"; cases "expanded var s")
      (auto simp: substitute_def buffer_ok_def with_capacity_def)
  also have "\<dots> \<longleftrightarrow> (\<exists>segs. list_all segment_wf segs \<and> s = concat (map written segs) \<and> expands var segs r)"
    using expanded_sound expanded_complete by metis
  finally show ?thesis .
qed

end
