(* ===== verification/Bloom.thy ===== *)
theory Bloom
  imports Event_Watcher
begin

text \<open>
  The bloom filters of blocks (\<^verbatim>\<open>crates/core/src/index/bloom.rs\<close>).  The membership test and the filter of a list
  of logs are alloy's and are parameters; what the helpers rely on is that the filter of some logs contains the
  addresses and topics of each of them.
\<close>

record bloom_lib =
  bl_contains :: "bloom \<Rightarrow> bytes \<Rightarrow> bool"
  bl_logs :: "(address \<times> b256 list \<times> bytes) list \<Rightarrow> bloom"

definition may_contain_log :: "bloom_lib \<Rightarrow> bloom \<Rightarrow> address list \<Rightarrow> b256 list \<Rightarrow> bool" where
  "may_contain_log B bloom addresses topics =
     (list_ex (\<lambda>address. bl_contains B bloom (be_bytes 20 address)) addresses \<and>
      list_ex (\<lambda>topic. bl_contains B bloom (be_bytes 32 topic)) topics)"

definition compute_logs_bloom :: "bloom_lib \<Rightarrow> raw_log list \<Rightarrow> bloom" where
  "compute_logs_bloom B logs = bl_logs B (map (\<lambda>log. (rl_address log, rl_topics log, rl_data log)) logs)"

text \<open>Alloy's documented behaviour: membership has no false negatives.\<close>

definition no_false_negatives :: "bloom_lib \<Rightarrow> bool" where
  "no_false_negatives B \<longleftrightarrow> (\<forall>logs. \<forall>(address, topics, data) \<in> set logs.
     bl_contains B (bl_logs B logs) (be_bytes 20 address) \<and> (\<forall>topic\<in>set topics. bl_contains B (bl_logs B logs) (be_bytes 32 topic)))"

text \<open>
  A block whose filter fails the test holds no log that the event watcher looks for: none that was emitted by a
  watched address with a watched first topic.
\<close>

lemma skipped_blocks_hold_nothing:
  assumes "no_false_negatives B" "\<not> may_contain_log B (compute_logs_bloom B logs) addresses topics" "log \<in> set logs"
  shows "\<not> (rl_address log \<in> set addresses \<and> (\<exists>topic rest. rl_topics log = topic # rest \<and> topic \<in> set topics))"
proof
  assume m: "rl_address log \<in> set addresses \<and> (\<exists>topic rest. rl_topics log = topic # rest \<and> topic \<in> set topics)"
  then obtain topic rest where t: "rl_topics log = topic # rest" "topic \<in> set topics" by blast
  have "(rl_address log, rl_topics log, rl_data log) \<in> set (map (\<lambda>log. (rl_address log, rl_topics log, rl_data log)) logs)"
    using assms(3) by simp
  then have "bl_contains B (compute_logs_bloom B logs) (be_bytes 20 (rl_address log))"
    "bl_contains B (compute_logs_bloom B logs) (be_bytes 32 topic)"
    using assms(1) t unfolding no_false_negatives_def compute_logs_bloom_def by fastforce+
  then show False using assms(2) m t(2) by (auto simp: may_contain_log_def list_ex_iff)
qed

text \<open>The law can hold: a filter that only tells a block without logs from the others.\<close>

lemma coarse_filter:
  "no_false_negatives \<lparr>bl_contains = (\<lambda>b x. b = 1), bl_logs = (\<lambda>logs. if logs = [] then 0 else 1)\<rparr>"
  by (auto simp: no_false_negatives_def)

end
