(* ===== verification/Signer.thy ===== *)
theory Signer
  imports Tx_Bundle
begin

text \<open>
  The local account (\<^verbatim>\<open>crates/core/src/tx/signer.rs\<close>) and the derivation of keys (\<^verbatim>\<open>crates/core/src/kdf.rs\<close>).  The
  transaction types, their hashes and encodings, ECDSA and HKDF-SHA256 come from libraries: the envelopes are
  modelled by their fields, and signing, encoding and expansion are parameters.
\<close>

section \<open>Envelopes\<close>

record eip7702_authorization =
  ea_chain_id :: u256
  ea_address :: address
  ea_nonce :: u64

record tx_eip1559 =
  tx1559_chain_id :: u64
  tx1559_nonce :: u64
  tx1559_gas_limit :: u64
  tx1559_max_fee :: u128
  tx1559_priority :: u128
  tx1559_to :: address
  tx1559_value :: u256
  tx1559_access_list :: "(address \<times> b256 list) list"
  tx1559_input :: bytes

record 'g tx_eip7702 =
  tx7702_chain_id :: u64
  tx7702_nonce :: u64
  tx7702_gas_limit :: u64
  tx7702_max_fee :: u128
  tx7702_priority :: u128
  tx7702_to :: address
  tx7702_value :: u256
  tx7702_access_list :: "(address \<times> b256 list) list"
  tx7702_authorizations :: "(eip7702_authorization \<times> 'g) list"
  tx7702_input :: bytes

text \<open>The account and its libraries: signing may fail, and the encoding of a signed envelope is its wire format.\<close>

record 'g signer_lib =
  sl_authorization_hash :: "eip7702_authorization \<Rightarrow> b256"
  sl_sign_hash :: "b256 \<Rightarrow> 'g option"
  sl_sign_1559 :: "tx_eip1559 \<Rightarrow> 'g option"
  sl_encode_1559 :: "tx_eip1559 \<Rightarrow> 'g \<Rightarrow> bytes"
  sl_sign_7702 :: "'g tx_eip7702 \<Rightarrow> 'g option"
  sl_encode_7702 :: "'g tx_eip7702 \<Rightarrow> 'g \<Rightarrow> bytes"

section \<open>Signing\<close>

definition envelope_1559 :: "unsigned_transaction \<Rightarrow> tx_eip1559" where
  "envelope_1559 tx =
     \<lparr>tx1559_chain_id = ut_chain_id tx, tx1559_nonce = ut_nonce tx, tx1559_gas_limit = ut_gas_limit tx,
      tx1559_max_fee = ut_max_fee tx, tx1559_priority = ut_priority tx, tx1559_to = ut_to tx,
      tx1559_value = ut_value tx, tx1559_access_list = [], tx1559_input = ut_input tx\<rparr>"

definition envelope_7702 :: "unsigned_transaction \<Rightarrow> eip7702_authorization \<times> 'g \<Rightarrow> 'g tx_eip7702" where
  "envelope_7702 tx authorization =
     \<lparr>tx7702_chain_id = ut_chain_id tx, tx7702_nonce = ut_nonce tx, tx7702_gas_limit = ut_gas_limit tx,
      tx7702_max_fee = ut_max_fee tx, tx7702_priority = ut_priority tx, tx7702_to = ut_to tx,
      tx7702_value = ut_value tx, tx7702_access_list = [], tx7702_authorizations = [authorization],
      tx7702_input = ut_input tx\<rparr>"

definition own_authorization :: "unsigned_transaction \<Rightarrow> authorization \<Rightarrow> eip7702_authorization option" where
  "own_authorization tx a =
     map_option (\<lambda>nonce. \<lparr>ea_chain_id = ucast (ut_chain_id tx), ea_address = auth_address a, ea_nonce = nonce\<rparr>)
       (checked_add (ut_nonce tx) 1)"

text \<open>\<open>None\<close> is the signing error.\<close>

definition sign_transaction :: "'g signer_lib \<Rightarrow> unsigned_transaction \<Rightarrow> bytes option" where
  "sign_transaction S tx =
     (if ut_chain_id tx = 0 then None
      else case ut_authorization tx of
             None \<Rightarrow>
               let envelope = envelope_1559 tx
               in map_option (sl_encode_1559 S envelope) (sl_sign_1559 S envelope)
           | Some a \<Rightarrow>
               Option.bind (own_authorization tx a) (\<lambda>authorization.
               Option.bind (sl_sign_hash S (sl_authorization_hash S authorization)) (\<lambda>signature.
               let envelope = envelope_7702 tx (authorization, signature)
               in map_option (sl_encode_7702 S envelope) (sl_sign_7702 S envelope))))"

text \<open>The hash of a signed transaction.\<close>

definition signed_hash :: "(bytes \<Rightarrow> b256) \<Rightarrow> bytes \<Rightarrow> b256" where
  "signed_hash keccak raw = keccak raw"

section \<open>What is signed\<close>

text \<open>
  What leaves the account.  A transaction is signed only for a definite chain; without an authorization it is the
  plain envelope of its own fields; with one, the account signs for its own chain alone and for the nonce that
  follows the transaction's, which has not wrapped around, so that the authorization is spent by the very
  transaction that carries it.
\<close>

lemma signed_transactions:
  assumes "sign_transaction S tx = Some raw"
  shows "ut_chain_id tx \<noteq> 0 \<and>
    (case ut_authorization tx of
       None \<Rightarrow> \<exists>g. sl_sign_1559 S (envelope_1559 tx) = Some g \<and> raw = sl_encode_1559 S (envelope_1559 tx) g
     | Some a \<Rightarrow> \<exists>authorization g g'. sl_sign_hash S (sl_authorization_hash S authorization) = Some g \<and>
         raw = sl_encode_7702 S (envelope_7702 tx (authorization, g)) g' \<and>
         ea_address authorization = auth_address a \<and> ea_chain_id authorization \<noteq> 0 \<and>
         uint (ea_chain_id authorization) = uint (ut_chain_id tx) \<and> uint (ea_nonce authorization) = uint (ut_nonce tx) + 1)"
proof -
  have chain: "ut_chain_id tx \<noteq> 0" using assms by (auto simp: sign_transaction_def split: if_splits)
  show ?thesis
  proof (cases "ut_authorization tx")
    case None
    then show ?thesis using assms chain by (auto simp: sign_transaction_def Let_def)
  next
    case (Some a)
    then obtain authorization g g' where o: "own_authorization tx a = Some authorization"
      and g: "sl_sign_hash S (sl_authorization_hash S authorization) = Some g"
        "raw = sl_encode_7702 S (envelope_7702 tx (authorization, g)) g'"
      using assms chain by (auto simp: sign_transaction_def Let_def bind_eq_Some_conv)
    obtain n where n: "checked_add (ut_nonce tx) 1 = Some n"
      and a: "authorization = \<lparr>ea_chain_id = ucast (ut_chain_id tx), ea_address = auth_address a, ea_nonce = n\<rparr>"
      using o by (auto simp: own_authorization_def)
    have "unat n = unat (ut_nonce tx) + 1" using n by (simp add: checked_add_eq_Some unat_word_ariths)
    then have "int (unat n) = int (unat (ut_nonce tx)) + 1" by simp
    then have "uint n = uint (ut_nonce tx) + 1" by simp
    moreover have "uint (ucast (ut_chain_id tx) :: u256) = uint (ut_chain_id tx)"
      using uint_lt2p [of "ut_chain_id tx"] by (simp add: unsigned_ucast_eq take_bit_int_eq_self_iff)
    moreover from this have "(ucast (ut_chain_id tx) :: u256) \<noteq> 0" using chain by (metis uint_0_iff)
    moreover have "ea_address authorization = auth_address a" "ea_chain_id authorization = ucast (ut_chain_id tx)"
      "ea_nonce authorization = n" using a by simp_all
    ultimately have "ea_address authorization = auth_address a \<and> ea_chain_id authorization \<noteq> 0 \<and>
        uint (ea_chain_id authorization) = uint (ut_chain_id tx) \<and> uint (ea_nonce authorization) = uint (ut_nonce tx) + 1"
      by metis
    then show ?thesis using Some chain g by auto
  qed
qed

text \<open>A transaction is refused only for chain 0, for the last nonce with an authorization, or when signing fails.\<close>

lemma refused_transactions:
  assumes "sign_transaction S tx = None" "ut_chain_id tx \<noteq> 0"
    and "\<And>h. sl_sign_hash S h \<noteq> None" "\<And>e. sl_sign_1559 S e \<noteq> None" "\<And>e. sl_sign_7702 S e \<noteq> None"
  shows "ut_authorization tx \<noteq> None \<and> ut_nonce tx = - 1"
proof (cases "ut_authorization tx")
  case None
  then show ?thesis using assms(1,2,4) by (simp add: sign_transaction_def Let_def)
next
  case (Some a)
  have "own_authorization tx a = None"
  proof (rule ccontr)
    assume "own_authorization tx a \<noteq> None"
    then obtain authorization where o: "own_authorization tx a = Some authorization" by blast
    obtain g where "sl_sign_hash S (sl_authorization_hash S authorization) = Some g" using assms(3) by blast
    then show False using assms(1,2,5) Some o by (simp add: sign_transaction_def Let_def)
  qed
  then have "2 ^ 64 \<le> unat (ut_nonce tx) + 1" by (auto simp: own_authorization_def checked_add_def split: if_splits)
  then have "ut_nonce tx = - 1" using unat_less_max [of "ut_nonce tx"] by auto
  then show ?thesis using Some by simp
qed

section \<open>Derived keys\<close>

text \<open>
  The expansion takes the salt, the keying material and the parts of the information.  An empty domain is a
  panic, which is \<open>None\<close>.
\<close>

definition derive_key :: "(bytes \<Rightarrow> bytes \<Rightarrow> bytes list \<Rightarrow> b256) \<Rightarrow> bytes \<Rightarrow> bytes \<Rightarrow> bytes list \<Rightarrow> b256 option" where
  "derive_key hkdf ikm domain message = (if domain = [] then None else Some (hkdf domain ikm message))"

definition signer_derive_key :: "(bytes \<Rightarrow> bytes \<Rightarrow> bytes list \<Rightarrow> b256) \<Rightarrow> bytes \<Rightarrow> bytes \<Rightarrow> bytes \<Rightarrow> b256 option" where
  "signer_derive_key hkdf private_key domain message = derive_key hkdf private_key domain [message]"

end
