(* ===== verification/Persistence.thy ===== *)
theory Persistence
  imports Frost
begin

text \<open>
  How the values of a key generation are persisted (\<^verbatim>\<open>validator/src/frost/serialization.rs\<close> and the codecs in
  \<^verbatim>\<open>frost/ecdh.rs\<close>).  The SEC1 encoding of points is k256's and a parameter, and so is the encoding of Schnorr
  signatures, which stand for themselves.  The point at infinity is a valid value of a commitment and of a package,
  but not of an encryption key.
\<close>

record sec1 =
  sec1_encode :: "element \<Rightarrow> bytes"
  sec1_decode :: "bytes \<Rightarrow> element option"

datatype codec_error = InvalidEncoding | InvalidKey frost_error

definition decode_point :: "sec1 \<Rightarrow> bytes \<Rightarrow> codec_error + element" where
  "decode_point C bs = (case sec1_decode C bs of None \<Rightarrow> Inl InvalidEncoding | Some p \<Rightarrow> Inr p)"

section \<open>Encryption keys\<close>

definition serialize_package :: "sec1 \<Rightarrow> ecdh_package \<Rightarrow> bytes \<times> signature" where
  "serialize_package C ep = (sec1_encode C (public_key_point ep), proof_of_possession ep)"

definition deserialize_package :: "sec1 \<Rightarrow> bytes \<times> signature \<Rightarrow> codec_error + ecdh_package" where
  "deserialize_package C s =
     (case decode_point C (fst s) of
        Inl err \<Rightarrow> Inl err
      | Inr p \<Rightarrow> Inr \<lparr>public_key_point = p, proof_of_possession = snd s\<rparr>)"

definition serialize_public_key :: "sec1 \<Rightarrow> element \<Rightarrow> bytes" where
  "serialize_public_key C key = sec1_encode C key"

definition deserialize_public_key :: "sec1 \<Rightarrow> bytes \<Rightarrow> codec_error + element" where
  "deserialize_public_key C bs =
     (case decode_point C bs of
        Inl err \<Rightarrow> Inl err
      | Inr p \<Rightarrow> (case encryption_public_key p of Inl err \<Rightarrow> Inl (InvalidKey err) | Inr key \<Rightarrow> Inr key))"

section \<open>Commitments\<close>

definition serialize_vss_commitment :: "sec1 \<Rightarrow> vss_commitment \<Rightarrow> bytes list" where
  "serialize_vss_commitment C commitment = map (sec1_encode C) commitment"

definition deserialize_vss_commitment :: "sec1 \<Rightarrow> bytes list \<Rightarrow> codec_error + vss_commitment" where
  "deserialize_vss_commitment C coefficients = collect (map (decode_point C) coefficients)"

definition serialize_round1_package :: "sec1 \<Rightarrow> round1_package \<Rightarrow> bytes list \<times> signature" where
  "serialize_round1_package C package =
     (serialize_vss_commitment C (r1_commitment package), r1_proof_of_knowledge package)"

definition deserialize_round1_package :: "sec1 \<Rightarrow> bytes list \<times> signature \<Rightarrow> codec_error + round1_package" where
  "deserialize_round1_package C s =
     (case deserialize_vss_commitment C (fst s) of
        Inl err \<Rightarrow> Inl err
      | Inr commitment \<Rightarrow> Inr \<lparr>r1_commitment = commitment, r1_proof_of_knowledge = snd s\<rparr>)"

text \<open>A verified commitment as the two codecs store it.\<close>

definition serialize_verified :: "sec1 \<Rightarrow> verified_commitment \<Rightarrow> bytes \<times> bytes list \<times> signature" where
  "serialize_verified C vc =
     (serialize_public_key C (vc_encryption_public_key vc), serialize_round1_package C (vc_package vc))"

definition deserialize_verified :: "sec1 \<Rightarrow> bytes \<times> bytes list \<times> signature \<Rightarrow> codec_error + verified_commitment" where
  "deserialize_verified C s =
     (case deserialize_public_key C (fst s) of
        Inl err \<Rightarrow> Inl err
      | Inr key \<Rightarrow>
          (case deserialize_round1_package C (snd s) of
             Inl err \<Rightarrow> Inl err
           | Inr package \<Rightarrow> Inr \<lparr>vc_encryption_public_key = key, vc_package = package\<rparr>))"

section \<open>Round trips\<close>

text \<open>The documented behaviour of SEC1: every point, the identity included, is read back from its encoding.\<close>

definition sec1_lossless :: "sec1 \<Rightarrow> bool" where
  "sec1_lossless C \<longleftrightarrow> (\<forall>p. sec1_decode C (sec1_encode C p) = Some p)"

lemma package_roundtrip: "sec1_lossless C \<Longrightarrow> deserialize_package C (serialize_package C ep) = Inr ep"
  by (simp add: sec1_lossless_def deserialize_package_def serialize_package_def decode_point_def)

lemma vss_commitment_roundtrip:
  "sec1_lossless C \<Longrightarrow> deserialize_vss_commitment C (serialize_vss_commitment C c) = Inr c"
  by (induction c) (simp_all add: sec1_lossless_def deserialize_vss_commitment_def serialize_vss_commitment_def decode_point_def)

lemma round1_package_roundtrip:
  "sec1_lossless C \<Longrightarrow> deserialize_round1_package C (serialize_round1_package C p) = Inr p"
  by (simp add: deserialize_round1_package_def serialize_round1_package_def vss_commitment_roundtrip)

text \<open>
  Whatever commitment a validator accepts from the chain, with any coefficients, it can persist and load again,
  so that no participant can stall a ceremony with a value that does not survive a restart.
\<close>

lemma accepted_commitments_persist:
  assumes "sec1_lossless C" "verify_commitment F participant commitment = Inr vc"
  shows "deserialize_verified C (serialize_verified C vc) = Inr vc"
proof -
  have "vc_encryption_public_key vc \<noteq> Identity"
    using assms(2) by (auto simp: verify_commitment_def verified_public_key_def encryption_public_key_def
        err_with_culprit_def Let_def split: sum.splits prod.splits if_splits)
  then have "deserialize_public_key C (serialize_public_key C (vc_encryption_public_key vc)) = Inr (vc_encryption_public_key vc)"
    using assms(1) by (simp add: sec1_lossless_def deserialize_public_key_def serialize_public_key_def decode_point_def
        encryption_public_key_def)
  then show ?thesis using round1_package_roundtrip [OF assms(1)]
    by (simp add: deserialize_verified_def serialize_verified_def)
qed

text \<open>An encryption key at infinity is not loaded, also when the encoding is valid.\<close>

lemma identity_key_rejected:
  "sec1_lossless C \<Longrightarrow> deserialize_public_key C (sec1_encode C Identity) = Inl (InvalidKey InvalidIdentityElement)"
  by (simp add: sec1_lossless_def deserialize_public_key_def decode_point_def encryption_public_key_def)

end
