(* ===== verification/Spec2Isabelle.thy ===== *)
theory Spec2Isabelle
  imports Environment Retention Share_Exchange Service_Run Encoders Sentinel_Service Substitution Bloom Signer Persistence
begin

text \<open>
  Verification of the Safenet services: the validator, the sentinel, its engine, and the machinery they run on.

  \<^bold>\<open>The program.\<close>  Safenet validators watch an Ethereum chain, generate group keys with FROST, and sign the
  Safe transactions that an oracle approves.  Sentinels are the voters of one such oracle: for each proposed
  transaction they ask a sentinel engine for a security verdict and take part in an onchain commit-reveal
  vote with a bond.  Both services are instances of one driver (\<^verbatim>\<open>crates/core\<close>): an indexer follows the
  chain, a state machine feeds blocks, events and finished effects to the pure transition of the service and
  snapshots its state against reorgs, effects (secrets, engine checks) run beside it, and the resulting
  actions are encoded as transactions and submitted by a persistent queue.

  \<^bold>\<open>The theories and what they model.\<close>  Paths are relative to \<^verbatim>\<open>src/crates\<close>.

  \<^item> \<^emph>\<open>Foundations.\<close>  \<open>Prelude\<close> fixes how Rust types are read (words, finite maps, saturating
    arithmetic, big-endian bytes, the error sum) and holds the shared lemmas; \<open>Strings\<close> does the same for
    strings and decimal numbers; \<open>Runs\<close> holds the locales that lift invariants from steps to runs.
    \<open>Substitution\<close> models the environment variables in configuration values (\<^verbatim>\<open>core/src/serialization.rs\<close>).
  \<^item> \<^emph>\<open>Consensus data.\<close>  \<open>Epoch\<close>, \<open>Merkle\<close>, \<open>Key_Group\<close>, \<open>Bindings\<close>, \<open>Hashing\<close> model
    \<^verbatim>\<open>validator/src/consensus/\<close>, \<^verbatim>\<open>merkle.rs\<close> and \<^verbatim>\<open>bindings.rs\<close>; \<open>Frost\<close> models \<^verbatim>\<open>frost/\<close> over an arbitrary
    curve library, \<open>Persistence\<close> the codecs under which its values are stored, and \<open>Share_Exchange\<close> proves that
    encrypted shares reach their receivers.
  \<^item> \<^emph>\<open>Validator.\<close>  \<open>Validator_State\<close>, \<open>Signing\<close>, \<open>Keygen\<close>, \<open>Validator\<close> model \<^verbatim>\<open>validator/src/state/\<close>
    handler by handler; \<open>Secret_Store\<close> models \<^verbatim>\<open>secrets/store.rs\<close> and \<^verbatim>\<open>service/effect.rs\<close>.  \<open>Safety\<close>
    holds the properties of all runs, \<open>Environment\<close> those of runs against contracts that behave as documented,
    \<open>Validator_Service\<close> those of the running service with its tasks and its store, \<open>Retention\<close> those of what
    the reconciliation of group secrets keeps; \<open>Demo\<close> is the concrete validator of the witnesses.
  \<^item> \<^emph>\<open>Service machinery.\<close>  \<open>Messages\<close>, \<open>Snapshots\<close>, \<open>State_Machine\<close> model \<^verbatim>\<open>core/src/state/\<close>;
    \<open>Block_Watcher\<close>, \<open>Event_Watcher\<close>, \<open>Bloom\<close>, \<open>Indexer\<close> model \<^verbatim>\<open>core/src/index/\<close>; \<open>Tx_Bundle\<close>, \<open>Tx_Storage\<close>,
    \<open>Tx_Queue\<close> and \<open>Signer\<close> model \<^verbatim>\<open>core/src/tx/\<close> and \<^verbatim>\<open>kdf.rs\<close>; \<open>Effects\<close> models the tasks of
    \<^verbatim>\<open>core/src/effects.rs\<close> and composes a service with them; \<open>Driver\<close> models \<^verbatim>\<open>core/src/driver.rs\<close> and is
    simulated by that composition.  \<open>Reorg\<close> and \<open>Service_Run\<close> hold what they guarantee together.
  \<^item> \<^emph>\<open>Sentinel.\<close>  \<open>Sentinel_Types\<close> models \<^verbatim>\<open>sentinel/src/\<close> \<^verbatim>\<open>state.rs\<close>, \<^verbatim>\<open>bindings.rs\<close>, \<^verbatim>\<open>action.rs\<close>,
    \<^verbatim>\<open>hashing.rs\<close> and the citations of \<^verbatim>\<open>engine.rs\<close>; \<open>Verdicts\<close> models \<^verbatim>\<open>verdicts.rs\<close> and \<^verbatim>\<open>effect.rs\<close>;
    \<open>Sentinel\<close> models \<^verbatim>\<open>service.rs\<close>, and \<open>Sentinel_Safety\<close> holds its properties.  \<open>Encoders\<close> models how both
    services turn actions into transactions.
  \<^item> \<^emph>\<open>Engine.\<close>  \<open>Engine_Types\<close> models \<^verbatim>\<open>sentinel-engine/src/engine/\<close> (rules, coverage, proposals) and
    \<^verbatim>\<open>contracts/multi_send.rs\<close>; \<open>Checkers\<close> and \<open>Protocol_Checkers\<close> model \<^verbatim>\<open>checkers/\<close>; \<open>Engine\<close> models the fold
    of \<^verbatim>\<open>engine/mod.rs\<close> over the production list of \<^verbatim>\<open>main.rs\<close>.  \<open>Batches\<close> and \<open>Detection\<close> hold properties
    of batches and of the checkers.  \<open>Security_Api\<close> models the interface between the two services
    (\<^verbatim>\<open>sentinel-engine/src/api/\<close> and the client in \<^verbatim>\<open>sentinel/src/engine.rs\<close>), \<open>Sentinel_Engine\<close>
    their citations, and \<open>Sentinel_Service\<close> the running sentinel with its checks, its store and its engine.

  \<^bold>\<open>How the code is read.\<close>  A struct is a record, an enum a datatype, an integer of \<open>w\<close> bits a word, a
  \<open>BTreeMap\<close> or table a finite map, a fallible call a sum.  A handler takes the state and returns the new state
  with the commands in the order in which the code pushes them; early returns are branches.  Iteration over a hash map
  is a sort by an arbitrary key function that is a field of the model (\<open>sen_slot\<close>), so the theorems hold for
  every order.  A database call takes a flag that says whether it succeeds; the JSON of a stored value is the value.
  The answers of a node to the queries of one engine check are a function of the query.  Effects are tasks that take one step
  between two of their waits (one for an effect of the validator, two for an engine check), and a run of a
  service interleaves such steps with updates, results, failures and reboots in any order.  Logging, tracing
  and metrics are left out.

  \<^bold>\<open>What the lemmas show.\<close>
  \<^item> \<^emph>\<open>Validator:\<close> nonces are generated only for approved packets and used only in complete rounds; every
    signature share that is sent signs an approved packet, and no nonce pair makes two of them, whatever the
    interleaving of tasks, reorgs and reboots; groups, epochs and rollovers are sound; nothing stays past its deadline; reconciliation keeps every secret that is still needed.
  \<^item> \<^emph>\<open>Machinery:\<close> every live state and snapshot is the result of a gapless ordered history (a refinement of
    the whole service by the plain transition, for any nodes and failing databases), warping equals live following,
    transactions are not lost and a nonce carries one call.  While a launch is well served by its node, machine
    and indexer are in lockstep and the service stops only for listed reasons.
  \<^item> \<^emph>\<open>Sentinel:\<close> one request is an abstract state machine, the relation \<open>request_step\<close>, which every message
    refines.  From it: requests only advance, revealed bonds are claimed, no request is overdue.  Of the running
    service: a reveal opens the commitment that was made, and an approving vote is backed by a secure verdict on
    the transaction that was proposed.
  \<^item> \<^emph>\<open>Engine:\<close> the batch decoder inverts the packed encoding and flattening is execution; denials are never
    masked; a secure verdict means the listed guarantees; lookalikes are denied; CoW approvals are bounded by
    their order.
  \<^item> \<^emph>\<open>Configuration:\<close> substitution succeeds exactly on well-formed values, yields what they stand for, and
    leaves no copy of a secret behind.

  \<^bold>\<open>Interfaces.\<close>  Contracts between components are locales, interpreted on the model: \<open>guarded_system\<close> and
  \<open>closed_system\<close> (an invariant of a step, on admissible or on all messages) by the validator, its ghost state,
  the state machine, a service with its tasks, the transaction storage and queue, and the sentinel;
  \<open>service_morphism\<close> (a service followed by another) by the recorded history of a machine;
  \<open>versioned_store\<close> by the snapshot table, \<open>write_once\<close> by the table of key generation secrets,
  \<open>majority_quorum\<close> by derived groups, \<open>inclusion_tree\<close> by Merkle trees and \<open>ordered_bundler\<close> by the two
  bundlers.  The invariants reach the properties through these interpretations.

  \<^bold>\<open>Parameters.\<close>  Code outside the repository is an argument: keccak, EIP-712 hashing and key derivation, the
  curve library, the ABI selectors and codecs, the node and its logs, the order API.  A theorem that needs a law
  of such code names it as a hypothesis (selectors are not empty; decoding inverts encoding), and its witness
  instantiates the parameter.

  \<^bold>\<open>Loops and bounds.\<close>  Every loop is a terminating function: by the structure of a list, by a measure (the
  packed batch gets shorter, the log chunks advance, the start-up scan has at most the reorg depth plus two
  rounds, proved enough for a chain that stands still), or by the bound the code has itself
  (\<open>MAX_BATCH_DEPTH\<close>).  No property is stated under a fuel that might run out.  Integers keep their width where the code computes
  with them; 64-bit block numbers enter the database through the checked conversion of the code.

  \<^bold>\<open>Not modelled.\<close>  The wall clock (its readings are inputs), RPC transport, the transport and JSON between
  sentinel and engine (a failed or invalid response is a missing one), the tokio scheduler (an arbitrary
  interleaving), private keys and their parsing, configuration files, process setup and observability: they are
  wrappers around external crates or perform only input and output.
\<close>

section \<open>The validator under the state machine\<close>

text \<open>The service that the validator runs: its transition, started from the empty state.\<close>

definition validator_machine :: "lib \<Rightarrow> transition \<Rightarrow> (event, resume) machine_op list \<Rightarrow> state machine" where
  "validator_machine L T ops = machine_run (apply_transition L T) initial_state ops"

lemma machine_state_run:
  assumes "machine_state (validator_machine L T ops) s"
  obtains h where "s = run L T h" "chain_position h \<noteq> None"
  using machine_state_history [OF assms [unfolded validator_machine_def]] by (auto simp: exec_def run_def)

text \<open>
  C9: the validator's safety survives reorgs, restarts and failures.  In every state that the state machine
  of the validator holds or has stored, after any sequence of updates, rollbacks, resumes, prunings and
  restarts, an open signing session signs the hash of its own packet, names an allowed oracle and uses
  the key share of its epoch; a share round has exactly the commitments of its signers; and every group
  in use is one that the configuration gives for its epoch.
\<close>

theorem safety_survives_reorgs:
  assumes "machine_state (validator_machine L T ops) s"
  shows "(\<forall>m x. fmlookup (signing s) m = Some x \<longrightarrow>
      m = packet_hash L T (sgn_packet x) \<and>
      pred_option (\<lambda>oracle. oracle |\<in>| cfg_oracles (tr_config T)) (packet_oracle (sgn_packet x)) \<and>
      session_keyed T (epochs s) x) \<and>
    (\<forall>m ks gid sid c sel p sg d. fmlookup (signing s) m = Some (CollectSigningShares ks gid sid c sel p sg d) \<longrightarrow>
      fmdom c = sg \<and> fm_has c (tr_account T)) \<and>
    (\<forall>e g. state_group s e g \<longrightarrow> group_derived L T e g)"
proof -
  from assms obtain h where h: "s = run L T h" by (rule machine_state_run)
  have sound: "session_sound L T m x" "session_keyed T (epochs s) x" if "fmlookup (signing s) m = Some x" for m x
    using run_session that unfolding h by blast+
  then have "m = packet_hash L T (sgn_packet x) \<and>
      pred_option (\<lambda>oracle. oracle |\<in>| cfg_oracles (tr_config T)) (packet_oracle (sgn_packet x)) \<and>
      session_keyed T (epochs s) x" if "fmlookup (signing s) m = Some x" for m x
    using that by (simp add: session_sound_def)
  moreover have "fmdom c = sg \<and> fm_has c (tr_account T)"
    if "fmlookup (signing s) m = Some (CollectSigningShares ks gid sid c sel p sg d)" for m ks gid sid c sel p sg d
    using sound [OF that] by (auto simp: session_sound_def fm_has_iff)
  moreover have "state_group s e g \<Longrightarrow> group_derived L T e g" for e g
    unfolding h by (rule run_group_derived)
  ultimately show ?thesis by blast
qed

text \<open>A machine that has indexed one block, in which the genesis key generation was started.\<close>

definition genesis_ops :: "(event, resume) machine_op list" where
  "genesis_ops =
     [HandleUpdate (BlockUpdate (New 1 0 0 0)) True,
      HandleUpdate (Logs \<lparr>eu_first = 1, eu_last = 1,
        eu_logs = [\<lparr>log_block = 1, log_timestamp = 0, log_index = 0, log_address = 9,
          log_data = CoordinatorEvent (KeyGen demo_gid 0 2 2 0)\<rparr>]\<rparr>) True]"

lemma genesis_first_block: "fst (apply_transition demo_L demo_T initial_state (NewBlock 1)) = initial_state"
  by (simp add: apply_new_block_def handle_rollover_new_block_def initial_state_def handle_key_gen_timeouts_def
      handle_signing_timeouts_def handle_group_reconciliation_def fin_simps Let_def)
    (rule fmap_ext, simp)

definition genesis_started :: state where
  "genesis_started = initial_state\<lparr>rollover :=
     CollectingCommitments Genesis demo_group (CommitParticipating demo_poap None) fmempty None\<rparr>"

lemma genesis_snapshot: "machine_state (validator_machine demo_L demo_T genesis_ops) genesis_started"
proof -
  have "fst (apply_transition demo_L demo_T initial_state (demo_keygen ! 0)) = genesis_started"
    by (simp add: demo_keygen_def demo_log_def handle_genesis_key_gen_def start_key_gen_def demo_participate
        initial_state_def genesis_started_def)
  then have "snapshot_at (snapshots (validator_machine demo_L demo_T genesis_ops)) 1 = Some genesis_started"
    using genesis_first_block
    by (simp add: validator_machine_def genesis_ops_def machine_simps snapshot_at_def split_def demo_keygen_def demo_log_def
        del: apply_transition.simps)
  then show ?thesis by (auto simp: machine_state_def)
qed

theorem safety_survives_reorgs_witness:
  "machine_state (validator_machine demo_L demo_T genesis_ops) genesis_started \<and>
   state_group genesis_started Genesis demo_group \<and> group_derived demo_L demo_T Genesis demo_group"
proof -
  have "state_group genesis_started Genesis demo_group"
    by (simp add: state_group_def genesis_started_def)
  with safety_survives_reorgs [OF genesis_snapshot] genesis_snapshot show ?thesis by blast
qed

text \<open>
  C10: the running validator follows the chain.  Whatever the nodes and the databases answer and however often the
  process is restarted, every state that the machine of a validator service holds or has stored is the result of its
  transition on a sequence of messages that is ordered by block and log index, without gaps or repeats, and in which
  every event and every result is one that the indexer or a task reported to the service.  And while a launch is well
  served (a node that knows the blocks it is asked for, whose head had reached the first block of interest, and logs
  of the blocks they were requested for), the state machine is in lockstep with the indexer: the history of
  its live state ends exactly where the indexer goes on.
\<close>

theorem running_validator_follows_the_chain:
  assumes "service_run ss node served seen (d, stopped)" "ss_transition ss = apply_transition L T" "ss_init ss = initial_state"
  shows "(\<forall>s. machine_state (d_machine d) s \<longrightarrow>
      (\<exists>h. s = run L T h \<and> chain_position h \<noteq> None \<and> heard h \<subseteq> set seen)) \<and>
    (served \<and> stopped = None \<longrightarrow>
      (\<exists>s st h q. inner (d_machine d) = Some (s, st) \<and> s = run L T h \<and> heard h \<subseteq> set seen \<and>
         chain_position h = Some q \<and> in_lockstep (d_index d) q))"
proof -
  have "exec (ss_transition ss) (ss_init ss) h = run L T h" for h using assms(2,3) by (simp add: exec_def run_def)
  then show ?thesis using service_states [OF assms(1)] service_lockstep [of ss node served seen d] assms(1) by auto
qed

text \<open>
  A validator that sees the start of the genesis key generation in its first block, is killed after it, and is
  launched again on another node, from which it goes on with the second block.
\<close>

abbreviation "genesis_event \<equiv> CoordinatorEvent (KeyGen demo_gid 0 2 2 0)"

lemma genesis_quiet:
  "\<exists>cs. quiet_start (apply_transition demo_L demo_T) initial_state genesis_event initial_state (vs_collecting None) (vs_collecting None) cs"
proof -
  obtain g1 g2 where
    "apply_transition demo_L demo_T initial_state (NewBlock 1) = (initial_state, [Effect (ReconcileGroupSecrets 1 g1)])"
    "apply_transition demo_L demo_T (vs_collecting None) (NewBlock 2) = (vs_collecting None, [Effect (ReconcileGroupSecrets 2 g2)])"
    using vs_new_block_1 vs_new_block_2 by blast
  moreover have "apply_transition demo_L demo_T initial_state (Event (first_log genesis_event)) =
      (vs_collecting None, [Effect (KeyGenSetup demo_gid 2 2)])"
    by (simp add: first_log_def vs_collecting_def handle_genesis_key_gen_def start_key_gen_def demo_participate
        initial_state_def group_size_def)
  ultimately show ?thesis unfolding quiet_start_def by (auto simp: action_transactions_def)
qed

theorem running_validator_follows_the_chain_witness:
  "\<exists>d seen h q. service_run (sample_setup_of (apply_transition demo_L demo_T) initial_state genesis_event) sample_fork True seen (d, None) \<and>
     inner (d_machine d) = Some (vs_collecting None, BlockPending 2) \<and>
     vs_collecting None = run demo_L demo_T h \<and> heard h \<subseteq> set seen \<and> chain_position h = Some q \<and> next_read q 2"
proof -
  let ?ss = "sample_setup_of (apply_transition demo_L demo_T) initial_state genesis_event :: (_, _, _, action, _) service_setup"
  obtain cs where "quiet_start (apply_transition demo_L demo_T) initial_state genesis_event initial_state (vs_collecting None) (vs_collecting None) cs"
    using genesis_quiet by blast
  from sample_relaunched [OF this] obtain d seen where d: "service_run ?ss sample_fork True seen (d, None)"
    "inner (d_machine d) = Some (vs_collecting None, BlockPending 2)" "w_queue (ix_blocks (d_index d)) = [New 2 22 0 0]" "ix_events (d_index d) = Idle" by blast
  have "ss_transition ?ss = apply_transition demo_L demo_T" "ss_init ?ss = initial_state" by (simp_all add: setup_of_def)
  from running_validator_follows_the_chain [OF d(1) this] d(2) obtain h q
    where h: "vs_collecting None = run demo_L demo_T h" "heard h \<subseteq> set seen" "chain_position h = Some q" "in_lockstep (d_index d) q"
    by auto
  moreover have "next_read q 2" using h(4) d(3,4) by (simp add: in_lockstep_def)
  ultimately show ?thesis using d(1,2) by blast
qed

end
